(* ===== verification/Klura_Prelude.thy ===== *)
theory Klura_Prelude
  imports Complex_Main "HOL-Library.List_Lexorder" "HOL-Library.Char_ord" "HOL-Library.AList" "HOL-Library.Multiset"
begin

text \<open>
  Shared vocabulary of the development: the exceptions the modelled code throws, the
  result type of fallible code with its sequencing operators, JavaScript's
  insertion-ordered maps as association lists, and the generic lemmas about them.

  A function that may throw returns \<open>exn + 'a\<close>: \<open>Inl\<close> is the exception, \<open>Inr\<close> the
  value. A string is the list of bytes of its UTF-8 encoding, so that \<open>length\<close> is
  \<open>Buffer.byteLength(_, 'utf8')\<close>; comparison of strings is by bytes, which agrees with
  JavaScript's comparison by UTF-16 code units except between a supplementary character
  and one in U+E000 to U+FFFF.
\<close>

named_theorems res_simps \<open>sequencing of fallible code\<close>
named_theorems res_elims \<open>inversion of successful fallible code\<close>

section \<open>Exceptions\<close>

text \<open>
  One constructor per exception class of the run engine, with the fixed part of its
  message; the field path that prefixes it at run time is not modelled. Classes with a
  \<open>code\<close> carry it as a Boolean-like datatype.
\<close>

datatype journal_code = Journal_Corrupt | Journal_Budget_Exhausted

datatype spool_code = Spool_Corrupt | Spool_Budget_Exhausted

datatype exn =
    PublicContractError String.literal
  | ValueExpressionError String.literal
  | ScrapeValueError String.literal
  | DataSpoolError spool_code String.literal
  | RunJournalError journal_code String.literal
  | RunRecoveryError String.literal
  | ScrapeResumeError String.literal
  | ScrapePlanningError String.literal
  | OriginCircuitOpen
  | OriginCancelled
  | RunOutputSinkError String.literal
  | SemanticStopItemError String.literal
  | ItemValidationError String.literal
  | RunBudgetExceededError String.literal
  | AttemptOrderError String.literal
  | OtherError String.literal

text \<open>\<open>error instanceof PublicContractError\<close>: the class and its subclasses.\<close>

fun is_contract_error :: "exn \<Rightarrow> bool" where
  "is_contract_error (PublicContractError _) = True"
| "is_contract_error (ValueExpressionError _) = True"
| "is_contract_error (ScrapeValueError _) = True"
| "is_contract_error (DataSpoolError _ _) = True"
| "is_contract_error (RunJournalError _ _) = True"
| "is_contract_error (RunRecoveryError _) = True"
| "is_contract_error (ScrapeResumeError _) = True"
| "is_contract_error (ScrapePlanningError _) = True"
| "is_contract_error OriginCircuitOpen = True"
| "is_contract_error OriginCancelled = True"
| "is_contract_error (RunOutputSinkError _) = True"
| "is_contract_error _ = False"

section \<open>Fallible code\<close>

definition bindR :: "'e + 'a \<Rightarrow> ('a \<Rightarrow> 'e + 'b) \<Rightarrow> 'e + 'b" where
  "bindR m f = (case m of Inl e \<Rightarrow> Inl e | Inr x \<Rightarrow> f x)"

text \<open>\<open>if (!b) throw e\<close>, then go on.\<close>

definition ensureR :: "bool \<Rightarrow> 'e \<Rightarrow> 'e + 'a \<Rightarrow> 'e + 'a" where
  "ensureR b e m = (if b then m else Inl e)"

text \<open>\<open>try m catch (error) { throw h error }\<close>.\<close>

definition catchR :: "'e + 'a \<Rightarrow> ('e \<Rightarrow> 'e) \<Rightarrow> 'e + 'a" where
  "catchR m h = (case m of Inl e \<Rightarrow> Inl (h e) | Inr x \<Rightarrow> Inr x)"

fun mapR :: "('a \<Rightarrow> 'e + 'b) \<Rightarrow> 'a list \<Rightarrow> 'e + 'b list" where
  "mapR f [] = Inr []"
| "mapR f (x # xs) = bindR (f x) (\<lambda>y. bindR (mapR f xs) (\<lambda>ys. Inr (y # ys)))"

fun foldR :: "('s \<Rightarrow> 'a \<Rightarrow> 'e + 's) \<Rightarrow> 's \<Rightarrow> 'a list \<Rightarrow> 'e + 's" where
  "foldR f s [] = Inr s"
| "foldR f s (x # xs) = bindR (f s x) (\<lambda>s'. foldR f s' xs)"

lemma bindR_simps [simp, res_simps]:
  "bindR (Inl e) f = Inl e"
  "bindR (Inr x) f = f x"
  by (simp_all add: bindR_def)

lemma ensureR_simps [simp, res_simps]:
  "ensureR True e m = m"
  "ensureR False e m = Inl e"
  by (simp_all add: ensureR_def)

lemma bindR_Inr_iff [res_elims]: "bindR m f = Inr y \<longleftrightarrow> (\<exists>x. m = Inr x \<and> f x = Inr y)"
  by (cases m) simp_all

lemma bindRE:
  assumes "bindR m f = Inr y" obtains x where "m = Inr x" "f x = Inr y"
  using assms by (auto simp: bindR_Inr_iff)

lemma bindR2E:
  assumes "bindR m (case_prod f) = Inr y" obtains a b where "m = Inr (a, b)" "f a b = Inr y"
  using assms by (auto simp: bindR_Inr_iff)

lemma ensureR_Inr_iff [res_elims]: "ensureR b e m = Inr y \<longleftrightarrow> b \<and> m = Inr y"
  by (simp add: ensureR_def)

lemma catchR_Inr_iff [res_elims]: "catchR m h = Inr y \<longleftrightarrow> m = Inr y"
  by (cases m) (simp_all add: catchR_def)

lemma catchR_simps [simp, res_simps]:
  "catchR (Inr x) h = Inr x"
  "catchR (Inl e) h = Inl (h e)"
  by (simp_all add: catchR_def)

lemma mapR_cong [fundef_cong]:
  "xs = ys \<Longrightarrow> (\<And>x. x \<in> set ys \<Longrightarrow> f x = g x) \<Longrightarrow> mapR f xs = mapR g ys"
  by (induction ys arbitrary: xs) auto

lemma bindR_cong [fundef_cong]:
  "m = n \<Longrightarrow> (\<And>x. n = Inr x \<Longrightarrow> f x = g x) \<Longrightarrow> bindR m f = bindR n g"
  by (cases n) simp_all

lemma mapR_Inr_iff: "mapR f xs = Inr ys \<longleftrightarrow> list_all2 (\<lambda>x y. f x = Inr y) xs ys"
proof (induction xs arbitrary: ys)
  case Nil
  then show ?case by auto
next
  case (Cons x xs)
  then show ?case by (cases ys) (auto simp: bindR_Inr_iff)
qed

lemma mapR_total: "(\<And>x. x \<in> set xs \<Longrightarrow> f x = Inr (g x)) \<Longrightarrow> mapR f xs = Inr (map g xs)"
  by (induction xs) simp_all

lemma mapR_length: "mapR f xs = Inr ys \<Longrightarrow> length ys = length xs"
  by (simp add: mapR_Inr_iff list_all2_lengthD)

lemma mapR_each: "mapR f xs = Inr ys \<Longrightarrow> x \<in> set xs \<Longrightarrow> \<exists>y \<in> set ys. f x = Inr y"
  by (induction xs arbitrary: ys) (fastforce simp: bindR_Inr_iff)+

lemma mapR_unit:
  fixes f :: "'a \<Rightarrow> 'e + unit"
  shows "(\<exists>us. mapR f xs = Inr us) \<longleftrightarrow> (\<forall>x \<in> set xs. f x = Inr ())"
  by (induction xs) (auto simp: bindR_Inr_iff)

text \<open>A loop that also threads a state, such as a node counter.\<close>

fun mapSR :: "('a \<Rightarrow> 's \<Rightarrow> 'e + 'b \<times> 's) \<Rightarrow> 'a list \<Rightarrow> 's \<Rightarrow> 'e + 'b list \<times> 's" where
  "mapSR f [] s = Inr ([], s)"
| "mapSR f (x # xs) s = bindR (f x s) (\<lambda>(y, s1). bindR (mapSR f xs s1) (\<lambda>(ys, s2). Inr (y # ys, s2)))"

lemma foldR_append: "foldR f s (xs @ ys) = bindR (foldR f s xs) (\<lambda>s'. foldR f s' ys)"
proof (induction xs arbitrary: s)
  case Nil
  then show ?case by simp
next
  case (Cons x xs)
  then show ?case by (cases "f s x") simp_all
qed

lemma foldR_snoc: "foldR f s (xs @ [x]) = Inr u \<longleftrightarrow> (\<exists>t. foldR f s xs = Inr t \<and> f t x = Inr u)"
  by (auto simp: foldR_append bindR_Inr_iff)

text \<open>
  The rule behind every invariant of a loop over a list that may throw: a property that
  relates the consumed prefix to the state, established at the start and kept by every
  successful step, holds at the end.
\<close>

lemma foldR_prefix_invariant:
  assumes "foldR f s xs = Inr t"
    and "P [] s"
    and "\<And>ys u x v. P ys u \<Longrightarrow> f u x = Inr v \<Longrightarrow> P (ys @ [x]) v"
  shows "P xs t"
  using assms(1)
proof (induction xs arbitrary: t rule: rev_induct)
  case Nil
  then show ?case using assms(2) by simp
next
  case (snoc x xs)
  then obtain u where "foldR f s xs = Inr u" "f u x = Inr t"
    by (auto simp: foldR_snoc)
  then show ?case using snoc.IH assms(3) by blast
qed

lemma foldR_prefix:
  "foldR f s (xs @ ys) = Inr t \<Longrightarrow> \<exists>u. foldR f s xs = Inr u \<and> foldR f u ys = Inr t"
  by (auto simp: foldR_append bindR_Inr_iff)

section \<open>Lists and insertion-ordered maps\<close>

text \<open>
  A JavaScript \<open>Map\<close> iterates in insertion order, and \<open>set\<close> on a present key keeps its
  place: this is \<^const>\<open>AList.update\<close>. \<open>has\<close> and \<open>get\<close> are \<^const>\<open>map_of\<close>.
\<close>

definition has_key :: "('k \<times> 'v) list \<Rightarrow> 'k \<Rightarrow> bool" where
  "has_key m k \<longleftrightarrow> k \<in> set (map fst m)"

lemma has_key_map_of: "has_key m k \<longleftrightarrow> map_of m k \<noteq> None"
  by (simp add: has_key_def map_of_eq_None_iff)

lemma map_of_update [simp]: "map_of (AList.update k v m) = (map_of m)(k \<mapsto> v)"
  by (simp add: update_conv')

lemma map_of_delete [simp]: "map_of (AList.delete k m) = (map_of m)(k := None)"
  by (simp add: delete_conv')

lemma keys_update_present:
  "k \<in> set (map fst m) \<Longrightarrow> map fst (AList.update k v m) = map fst m"
  by (induction m) auto

lemma keys_update_absent:
  "k \<notin> set (map fst m) \<Longrightarrow> AList.update k v m = m @ [(k, v)]"
  by (induction m) auto

text \<open>\<open>entries.join(separator)\<close>.\<close>

fun join_with :: "string \<Rightarrow> string list \<Rightarrow> string" where
  "join_with sep [] = []"
| "join_with sep [x] = x"
| "join_with sep (x # y # ys) = x @ sep @ join_with sep (y # ys)"

lemma join_with_Cons:
  "join_with sep (x # xs) = x @ (if xs = [] then [] else sep @ join_with sep xs)"
  by (cases xs) simp_all

lemma sort_key_cong_mset:
  fixes f :: "'a \<Rightarrow> 'k::linorder"
  assumes "mset xs = mset ys" and "distinct (map f xs)"
  shows "sort_key f xs = sort_key f ys"
proof (rule sort_key_inj_key_eq)
  show "mset xs = mset (sort_key f ys)" using assms(1) by simp
  show "inj_on f (set xs)" using assms(2) by (simp add: distinct_map)
  show "sorted (map f (sort_key f ys))" by simp
qed

section \<open>Transition systems\<close>

text \<open>
  The contract of a component with states: where it starts, how it steps, and what every
  step keeps. What is kept holds of whatever is reached.
\<close>

locale transition_system =
  fixes initial :: "'s \<Rightarrow> bool" and step :: "'s \<Rightarrow> 's \<Rightarrow> bool" and invariant :: "'s \<Rightarrow> bool"
  assumes initial_ok: "initial s \<Longrightarrow> invariant s"
    and step_ok: "step s s' \<Longrightarrow> invariant s \<Longrightarrow> invariant s'"
begin

lemma steps_ok: "step\<^sup>*\<^sup>* s s' \<Longrightarrow> invariant s \<Longrightarrow> invariant s'"
  by (induction rule: rtranclp_induct) (auto intro: step_ok)

lemma reached_ok: "initial s \<Longrightarrow> step\<^sup>*\<^sup>* s s' \<Longrightarrow> invariant s'"
  by (blast intro: initial_ok steps_ok)

end

end
