(* ===== verification/Json_Value.thy ===== *)
theory Json_Value
  imports Klura_Prelude
begin

text \<open>
  JSON values and canonical JSON text: \<open>src/src/public/contracts/json.ts\<close>, and the
  value parsers of \<open>src/src/public/contracts/common.ts\<close> that every contract uses.

  An object is the list of its entries in the order of \<open>Object.keys\<close>. A number is an
  integral value, or a non-integral finite value given by its shortest decimal
  \<open>m * 10 ^ -k\<close> (the digits \<open>Number.prototype.toString\<close> prints, which order the
  doubles as the doubles themselves are ordered), or one of the non-finite values.
\<close>

section \<open>Data\<close>

datatype jsnum = NInt int | NDec int nat | NNonFinite

datatype json =
    JNull
  | JBool bool
  | JNum jsnum
  | JStr string
  | JArr "json list"
  | JObj "(string \<times> json) list"

type_synonym jobject = "(string \<times> json) list"

definition max_safe_integer :: int where
  "max_safe_integer = 9007199254740991"

text \<open>\<open>Number.isFinite\<close>, \<open>Number.isSafeInteger\<close> and \<open><\<close> on finite numbers.\<close>

fun is_finite :: "jsnum \<Rightarrow> bool" where
  "is_finite NNonFinite = False"
| "is_finite _ = True"

fun is_safe_integer :: "jsnum \<Rightarrow> bool" where
  "is_safe_integer (NInt i) = (\<bar>i\<bar> \<le> max_safe_integer)"
| "is_safe_integer _ = False"

fun num_less :: "jsnum \<Rightarrow> jsnum \<Rightarrow> bool" where
  "num_less (NInt i) (NInt j) = (i < j)"
| "num_less (NInt i) (NDec m k) = (i * 10 ^ k < m)"
| "num_less (NDec m k) (NInt i) = (m < i * 10 ^ k)"
| "num_less (NDec m k) (NDec n l) = (m * 10 ^ l < n * 10 ^ k)"
| "num_less _ _ = False"

definition field :: "jobject \<Rightarrow> string \<Rightarrow> json option" where
  "field obj k = map_of obj k"

text \<open>
  \<open>record.key\<close> after \<open>parseExactRecord\<close> has checked that the key is present; the
  result for an absent key is never read.
\<close>

definition fld :: "jobject \<Rightarrow> string \<Rightarrow> json" where
  "fld obj k = (case map_of obj k of Some v \<Rightarrow> v | None \<Rightarrow> JNull)"

text \<open>Inversion of the type tests of the code.\<close>

lemma case_json_Inr [res_elims]:
  "(case v of JStr s \<Rightarrow> f s | _ \<Rightarrow> Inl e) = Inr x \<longleftrightarrow> (\<exists>s. v = JStr s \<and> f s = Inr x)"
  "(case v of JObj r \<Rightarrow> g r | _ \<Rightarrow> Inl e) = Inr x \<longleftrightarrow> (\<exists>r. v = JObj r \<and> g r = Inr x)"
  "(case v of JArr a \<Rightarrow> h a | _ \<Rightarrow> Inl e) = Inr x \<longleftrightarrow> (\<exists>a. v = JArr a \<and> h a = Inr x)"
  by (cases v; simp)+

lemma case_option_Inr [res_elims]:
  "(case m of None \<Rightarrow> Inl e | Some y \<Rightarrow> k y) = Inr x \<longleftrightarrow> (\<exists>y. m = Some y \<and> k y = Inr x)"
  by (cases m) simp_all

section \<open>Canonical text\<close>

fun digits_of :: "nat \<Rightarrow> string" where
  "digits_of n = (if n < 10 then [char_of (48 + n)]
     else digits_of (n div 10) @ [char_of (48 + n mod 10)])"

declare digits_of.simps [simp del]

text \<open>
  \<open>Number::toString\<close> of ECMAScript for the value \<open>m * 10 ^ e\<close> whose shortest digits
  are those of \<open>m\<close> (not a multiple of ten).
\<close>

definition decimal_text :: "nat \<Rightarrow> int \<Rightarrow> string" where
  "decimal_text m e =
     (let ds = digits_of m; k = int (length ds); n = k + e in
      if k \<le> n \<and> n \<le> 21 then ds @ replicate (nat (n - k)) CHR ''0''
      else if 0 < n \<and> n \<le> 21 then take (nat n) ds @ ''.'' @ drop (nat n) ds
      else if - 6 < n \<and> n \<le> 0 then ''0.'' @ replicate (nat (- n)) CHR ''0'' @ ds
      else
        take 1 ds @ (if k = 1 then '''' else ''.'' @ drop 1 ds) @ ''e'' @
        (if 0 \<le> n - 1 then ''+'' else ''-'') @ digits_of (nat \<bar>n - 1\<bar>))"

function strip_zeros :: "nat \<Rightarrow> int \<Rightarrow> nat \<times> int" where
  "strip_zeros m e = (if m \<noteq> 0 \<and> m mod 10 = 0 then strip_zeros (m div 10) (e + 1) else (m, e))"
  by pat_completeness auto
termination
  by (relation "measure fst") auto

declare strip_zeros.simps [simp del]

definition signed_text :: "int \<Rightarrow> int \<Rightarrow> string" where
  "signed_text m e = (if m < 0 then ''-'' else '''') @
     (case strip_zeros (nat \<bar>m\<bar>) e of (d, x) \<Rightarrow> decimal_text d x)"

fun num_text :: "jsnum \<Rightarrow> string" where
  "num_text (NInt i) = (if i = 0 then ''0'' else signed_text i 0)"
| "num_text (NDec m k) = signed_text m (- int k)"
| "num_text NNonFinite = ''null''"

text \<open>\<open>JSON.stringify\<close> of a string: quotes, escapes, control characters.\<close>

definition hex_digit :: "nat \<Rightarrow> char" where
  "hex_digit n = (if n < 10 then char_of (48 + n) else char_of (87 + n))"

definition escape_char :: "char \<Rightarrow> string" where
  "escape_char c =
     (let n = of_char c :: nat in
      if n = 34 then [CHR 0x5C, CHR 0x22]
      else if n = 92 then [CHR 0x5C, CHR 0x5C]
      else if n = 8 then [CHR 0x5C, CHR ''b'']
      else if n = 9 then [CHR 0x5C, CHR ''t'']
      else if n = 10 then [CHR 0x5C, CHR ''n'']
      else if n = 12 then [CHR 0x5C, CHR ''f'']
      else if n = 13 then [CHR 0x5C, CHR ''r'']
      else if n < 32 then [CHR 0x5C, CHR ''u'', CHR ''0'', CHR ''0'', hex_digit (n div 16),
        hex_digit (n mod 16)]
      else [c])"

definition json_quote :: "string \<Rightarrow> string" where
  "json_quote s = [CHR 0x22] @ concat (map escape_char s) @ [CHR 0x22]"

definition depth_guard :: "nat \<Rightarrow> exn + 'a \<Rightarrow> exn + 'a" where
  "depth_guard d m = ensureR (d \<le> 100)
     (PublicContractError (STR ''exceeds the canonical JSON depth limit'')) m"

text \<open>\<open>renderJson\<close>: depth limit, finiteness, keys sorted.\<close>

fun render_json :: "nat \<Rightarrow> json \<Rightarrow> exn + string" where
  "render_json d JNull = depth_guard d (Inr ''null'')"
| "render_json d (JBool b) = depth_guard d (Inr (if b then ''true'' else ''false''))"
| "render_json d (JStr s) = depth_guard d (Inr (json_quote s))"
| "render_json d (JNum n) = depth_guard d
     (ensureR (is_finite n) (PublicContractError (STR ''must not contain a non-finite number''))
       (Inr (num_text n)))"
| "render_json d (JArr xs) = depth_guard d
     (bindR (mapR (render_json (Suc d)) xs) (\<lambda>ts. Inr (''['' @ join_with '','' ts @ '']'')))"
| "render_json d (JObj kvs) = depth_guard d
     (bindR (mapR (\<lambda>kv. bindR (render_json (Suc d) (snd kv))
         (\<lambda>t. Inr (json_quote (fst kv) @ '':'' @ t))) (sort_key fst kvs))
       (\<lambda>ts. Inr (''{'' @ join_with '','' ts @ ''}'')))"

definition canonical_json :: "json \<Rightarrow> exn + string" where
  "canonical_json v = render_json 0 v"

text \<open>\<open>canonicalJsonDigest\<close>; \<open>sha\<close> is SHA-256 in lowercase hexadecimal.\<close>

definition canonical_json_digest :: "(string \<Rightarrow> string) \<Rightarrow> json \<Rightarrow> exn + string" where
  "canonical_json_digest sha v = bindR (canonical_json v) (\<lambda>t. Inr (sha t))"

text \<open>\<open>assertJsonValue\<close>: bounded depth, finite numbers.\<close>

fun assert_json_value_at :: "nat \<Rightarrow> nat \<Rightarrow> json \<Rightarrow> exn + unit" where
  "assert_json_value_at maxd d (JNum n) =
     ensureR (d \<le> maxd) (PublicContractError (STR ''exceeds maximum depth''))
      (ensureR (is_finite n)
        (PublicContractError (STR ''must not contain a non-finite number'')) (Inr ()))"
| "assert_json_value_at maxd d (JArr xs) =
     ensureR (d \<le> maxd) (PublicContractError (STR ''exceeds maximum depth''))
      (bindR (mapR (assert_json_value_at maxd (Suc d)) xs) (\<lambda>_. Inr ()))"
| "assert_json_value_at maxd d (JObj kvs) =
     ensureR (d \<le> maxd) (PublicContractError (STR ''exceeds maximum depth''))
      (bindR (mapR (\<lambda>kv. assert_json_value_at maxd (Suc d) (snd kv)) kvs) (\<lambda>_. Inr ()))"
| "assert_json_value_at maxd d _ =
     ensureR (d \<le> maxd) (PublicContractError (STR ''exceeds maximum depth'')) (Inr ())"

definition assert_json_value :: "nat \<Rightarrow> json \<Rightarrow> exn + unit" where
  "assert_json_value maxd v = assert_json_value_at maxd 0 v"

end
