(* ===== verification/Session_Phases.thy ===== *)
theory Session_Phases
  imports Json_Value
begin

text \<open>
  The phase machine of an agent session: the three graphs (\<open>src/src/graphs\<close>), the
  dispatcher (\<open>src/src/phases/state-machine.ts\<close>), the entry hooks and admissibility of the
  phases (\<open>drive.ts\<close>, \<open>triage.ts\<close>, \<open>lift.ts\<close>, \<open>execute.ts\<close>, \<open>registry.ts\<close>), the
  middleware that counts rounds (\<open>middleware.ts\<close>) and the tool catalog
  (\<open>tool-catalog.ts\<close>).

  A field that is absent until it is first written is an option. The clock and the
  configuration are arguments; the rolling success rate the rediscover gate falls back to
  (a read of the strategy store) is a parameter of the environment. Rejections carry their
  cause instead of the prose shown to the agent.
\<close>

section \<open>Vocabulary\<close>

datatype session_phase = Drive | Triage | Lift | Execute

datatype graph_name = Discover_Graph | Map_Graph | Execute_Graph

datatype session_status = Status_Active | Status_Closed | Status_Failed

datatype phase_event_kind =
    End_Drive_Unresolved | Plan_Submitted | Plan_Handoff | Surface_Changed | Resolved_Via_Save
  | Lift_Observed_Capability_Invoked | Execute_Succeeded | Execute_Failed

datatype diagnosis_kind = Stale_Nonce | Auth_Failed | Endpoint_Stale | Prereq_Returned_Undefined
  | Needs_Rediscovery | Unknown_Diagnosis

datatype execution_classification = Explicit_Success | Explicit_Failure | Transport_Accepted
  | Transport_Failure | Not_Run | Delivery_Unknown

text \<open>\<open>ExecuteFailedPayload\<close>; a platform or capability that is no string is \<open>None\<close>.\<close>

record execute_failed_payload =
  ef_platform :: "string option"
  ef_capability :: "string option"
  ef_diagnosis :: "diagnosis_kind option"
  ef_classification :: "execution_classification option"

record phase_event =
  pe_kind :: phase_event_kind
  pe_payload :: "execute_failed_payload option"

datatype target = To_Phase session_phase | Terminal_Node session_status

text \<open>A \<open>when\<close> guard is the rediscover gate where it is present.\<close>

record graph_transition =
  gt_from :: session_phase
  gt_on :: phase_event_kind
  gt_to :: target
  gt_guarded :: bool

record phase_graph =
  pg_name :: graph_name
  pg_entry :: session_phase
  pg_nodes :: "session_phase list"
  pg_transitions :: "graph_transition list"

record phase_book =
  pb_entered_at :: int
  pb_rounds :: int
  pb_budget :: int
  pb_soft_block :: bool

record triage_book = phase_book +
  tb_lift_budget_snapshot :: int
  tb_triggered_by :: "phase_event_kind option"

record phase_session =
  ss_graph :: "graph_name option"
  ss_phase :: "session_phase option"
  ss_status :: "session_status option"
  ss_drive :: "phase_book option"
  ss_triage :: "triage_book option"
  ss_lift :: "phase_book option"
  ss_execute :: "phase_book option"

record phase_config =
  drive_max_rounds :: int
  triage_max_rounds :: int
  lift_max_rounds :: int
  rediscover_threshold :: real

text \<open>What an operation reads besides the session.\<close>

record phase_env =
  env_config :: phase_config
  env_now :: int
  env_worst_rate :: "string \<Rightarrow> string \<Rightarrow> real option"

datatype phase_error =
    Illegal_Transition session_phase phase_event_kind
  | Half_Initialized session_phase
  | Tool_Unknown_Session
  | Tool_On_Finalized session_status
  | Tool_Not_In_Phase session_phase
  | Tool_Budget_Exhausted session_phase
  | Wrong_Graph
  | Wrong_Phase session_phase
  | Checkpoint_Rejected
  | Missing_Platform
  | Unobserved_Capability

section \<open>The graphs\<close>

abbreviation edge :: "session_phase \<Rightarrow> phase_event_kind \<Rightarrow> target \<Rightarrow> graph_transition" where
  "edge p e t \<equiv> \<lparr>gt_from = p, gt_on = e, gt_to = t, gt_guarded = False\<rparr>"

definition discover_graph :: phase_graph where
  "discover_graph = \<lparr>pg_name = Discover_Graph, pg_entry = Drive, pg_nodes = [Drive, Triage, Lift], pg_transitions = [
     edge Drive End_Drive_Unresolved (To_Phase Triage),
     edge Drive Resolved_Via_Save (Terminal_Node Status_Closed),
     edge Drive Surface_Changed (To_Phase Triage),
     edge Triage Plan_Submitted (To_Phase Triage),
     edge Triage Plan_Handoff (To_Phase Lift),
     edge Triage Surface_Changed (To_Phase Triage),
     edge Triage Resolved_Via_Save (Terminal_Node Status_Closed),
     edge Lift Plan_Submitted (To_Phase Triage),
     edge Lift Surface_Changed (To_Phase Triage),
     edge Lift Resolved_Via_Save (Terminal_Node Status_Closed)]\<rparr>"

definition map_graph :: phase_graph where
  "map_graph = \<lparr>pg_name = Map_Graph, pg_entry = Drive, pg_nodes = [Drive, Triage, Lift], pg_transitions = [
     edge Drive Lift_Observed_Capability_Invoked (To_Phase Triage),
     edge Drive End_Drive_Unresolved (Terminal_Node Status_Closed),
     edge Drive Resolved_Via_Save (Terminal_Node Status_Closed),
     edge Triage Plan_Submitted (To_Phase Triage),
     edge Triage Plan_Handoff (To_Phase Lift),
     edge Triage Surface_Changed (To_Phase Triage),
     edge Triage End_Drive_Unresolved (Terminal_Node Status_Closed),
     edge Lift Plan_Submitted (To_Phase Triage),
     edge Lift Surface_Changed (To_Phase Triage),
     edge Lift Lift_Observed_Capability_Invoked (To_Phase Triage),
     edge Lift End_Drive_Unresolved (Terminal_Node Status_Closed),
     edge Lift Resolved_Via_Save (Terminal_Node Status_Closed)]\<rparr>"

definition execute_graph :: phase_graph where
  "execute_graph = \<lparr>pg_name = Execute_Graph, pg_entry = Execute, pg_nodes = [Execute, Triage, Lift], pg_transitions = [
     edge Execute Execute_Succeeded (Terminal_Node Status_Closed),
     (edge Execute Execute_Failed (To_Phase Triage))\<lparr>gt_guarded := True\<rparr>,
     edge Execute Execute_Failed (Terminal_Node Status_Failed),
     edge Triage Plan_Submitted (To_Phase Triage),
     edge Triage Plan_Handoff (To_Phase Lift),
     edge Triage Surface_Changed (To_Phase Triage),
     edge Triage Resolved_Via_Save (Terminal_Node Status_Closed),
     edge Lift Plan_Submitted (To_Phase Triage),
     edge Lift Surface_Changed (To_Phase Triage),
     edge Lift Resolved_Via_Save (Terminal_Node Status_Closed)]\<rparr>"

fun graph_for :: "graph_name \<Rightarrow> phase_graph" where
  "graph_for Discover_Graph = discover_graph"
| "graph_for Map_Graph = map_graph"
| "graph_for Execute_Graph = execute_graph"

definition current_graph :: "phase_session \<Rightarrow> phase_graph" where
  "current_graph s = graph_for (case ss_graph s of None \<Rightarrow> Discover_Graph | Some g \<Rightarrow> g)"

section \<open>The rediscover gate\<close>

definition stale_shape_kinds :: "diagnosis_kind list" where
  "stale_shape_kinds = [Stale_Nonce, Endpoint_Stale, Needs_Rediscovery, Prereq_Returned_Undefined]"

definition rediscover_failure_gate :: "phase_env \<Rightarrow> execute_failed_payload option \<Rightarrow> bool" where
  "rediscover_failure_gate env payload = (case payload of
     None \<Rightarrow> False
   | Some p \<Rightarrow> (case (ef_platform p, ef_capability p) of
       (Some platform, Some capability) \<Rightarrow>
         if (case ef_diagnosis p of Some d \<Rightarrow> d \<in> set stale_shape_kinds | None \<Rightarrow> False) then True
         else if ef_diagnosis p = Some Auth_Failed then False
         else if ef_classification p = Some Explicit_Failure then True
         else if ef_classification p = Some Not_Run \<or> ef_classification p = Some Delivery_Unknown then False
         else if rediscover_threshold (env_config env) \<le> 0 then False
         else (case env_worst_rate env platform capability of
             None \<Rightarrow> False
           | Some worst \<Rightarrow> worst < rediscover_threshold (env_config env))
     | _ \<Rightarrow> False))"

section \<open>The dispatcher\<close>

definition has_book :: "phase_session \<Rightarrow> session_phase \<Rightarrow> bool" where
  "has_book s p = (case p of Drive \<Rightarrow> ss_drive s \<noteq> None | Triage \<Rightarrow> ss_triage s \<noteq> None
     | Lift \<Rightarrow> ss_lift s \<noteq> None | Execute \<Rightarrow> ss_execute s \<noteq> None)"

definition session_phases :: "session_phase list" where
  "session_phases = [Drive, Triage, Lift, Execute]"

definition current_phase :: "phase_session \<Rightarrow> phase_error + session_phase" where
  "current_phase s = (case ss_phase s of
     Some p \<Rightarrow> Inr p
   | None \<Rightarrow>
       (case List.find (\<lambda>p. p \<noteq> pg_entry (current_graph s) \<and> has_book s p) session_phases of
          Some stale \<Rightarrow> Inl (Half_Initialized stale)
        | None \<Rightarrow> Inr (pg_entry (current_graph s))))"

definition resolve_destination :: "phase_env \<Rightarrow> phase_session \<Rightarrow> session_phase \<Rightarrow> phase_event \<Rightarrow> target option" where
  "resolve_destination env s p ev = map_option gt_to (List.find (\<lambda>t. gt_from t = p \<and> gt_on t = pe_kind ev \<and>
     (gt_guarded t \<longrightarrow> rediscover_failure_gate env (pe_payload ev))) (pg_transitions (current_graph s)))"

definition fresh_book :: "int \<Rightarrow> int \<Rightarrow> phase_book" where
  "fresh_book now budget = \<lparr>pb_entered_at = now, pb_rounds = 0, pb_budget = budget, pb_soft_block = False\<rparr>"

definition enter_drive :: "phase_env \<Rightarrow> phase_session \<Rightarrow> phase_session" where
  "enter_drive env s = s\<lparr>ss_drive := Some (fresh_book (env_now env) (drive_max_rounds (env_config env)))\<rparr>"

definition enter_triage :: "phase_env \<Rightarrow> phase_event_kind option \<Rightarrow> phase_session \<Rightarrow> phase_session" where
  "enter_triage env ev s = s\<lparr>ss_triage := Some \<lparr>pb_entered_at = env_now env, pb_rounds = 0,
     pb_budget = triage_max_rounds (env_config env), pb_soft_block = False,
     tb_lift_budget_snapshot = lift_max_rounds (env_config env), tb_triggered_by = ev\<rparr>\<rparr>"

definition enter_lift :: "phase_env \<Rightarrow> phase_session \<Rightarrow> phase_session" where
  "enter_lift env s =
     (let budget = lift_max_rounds (env_config env);
          trigger = (case ss_triage s of None \<Rightarrow> None | Some t \<Rightarrow> tb_triggered_by t) in
      case ss_lift s of
        None \<Rightarrow> s\<lparr>ss_lift := Some (fresh_book (env_now env) budget)\<rparr>
      | Some b \<Rightarrow>
          if trigger = Some Surface_Changed then s\<lparr>ss_lift := Some (fresh_book (env_now env) budget)\<rparr>
          else s\<lparr>ss_lift := Some (b\<lparr>pb_budget := budget\<rparr>)\<rparr>)"

definition enter_execute :: "phase_env \<Rightarrow> phase_session \<Rightarrow> phase_session" where
  "enter_execute env s = s\<lparr>ss_execute := Some (fresh_book (env_now env) 0)\<rparr>"

definition on_enter :: "phase_env \<Rightarrow> session_phase \<Rightarrow> phase_event_kind option \<Rightarrow> phase_session \<Rightarrow> phase_session" where
  "on_enter env p ev s = (case p of Drive \<Rightarrow> enter_drive env s | Triage \<Rightarrow> enter_triage env ev s
     | Lift \<Rightarrow> enter_lift env s | Execute \<Rightarrow> enter_execute env s)"

definition apply_destination :: "phase_env \<Rightarrow> phase_session \<Rightarrow> target \<Rightarrow> phase_event_kind option \<Rightarrow> phase_session" where
  "apply_destination env s to ev = (case to of
     Terminal_Node st \<Rightarrow> s\<lparr>ss_status := Some st\<rparr>
   | To_Phase p \<Rightarrow> on_enter env p ev (s\<lparr>ss_phase := Some p\<rparr>))"

record transition_result =
  tr_from :: session_phase
  tr_to :: target
  tr_event :: "phase_event_kind option"
  tr_at :: int

definition dispatch :: "phase_env \<Rightarrow> phase_event \<Rightarrow> phase_session \<Rightarrow> phase_error + phase_session \<times> transition_result" where
  "dispatch env ev s = bindR (current_phase s) (\<lambda>from_phase.
     case resolve_destination env s from_phase ev of
       None \<Rightarrow> Inl (Illegal_Transition from_phase (pe_kind ev))
     | Some to \<Rightarrow> Inr (apply_destination env s to (Some (pe_kind ev)),
         \<lparr>tr_from = from_phase, tr_to = to, tr_event = Some (pe_kind ev), tr_at = env_now env\<rparr>))"

definition force_transition :: "phase_env \<Rightarrow> target \<Rightarrow> phase_session \<Rightarrow> phase_error + phase_session \<times> transition_result" where
  "force_transition env to s = bindR (current_phase s) (\<lambda>from_phase.
     Inr (apply_destination env s to None,
       \<lparr>tr_from = from_phase, tr_to = to, tr_event = None, tr_at = env_now env\<rparr>))"

section \<open>The tool catalog\<close>

datatype tool_category = Universal | Read_Only_Diagnostic | Discovery_Artifact | Logbook_Write
  | Triage_And_Lift_Write | Strategy_Amend | Map_Lift_Initiator | Drive_Active
  | Capability_Declaration | Escape_Valve | Lift_Re_Active | None_Category

record tool_def =
  td_name :: string
  td_category :: tool_category
  td_extra_phases :: "session_phase list"
  td_exhausted_in :: "session_phase list"

fun category_phases :: "tool_category \<Rightarrow> session_phase list" where
  "category_phases Universal = []"
| "category_phases None_Category = []"
| "category_phases Read_Only_Diagnostic = [Drive, Triage, Lift]"
| "category_phases Discovery_Artifact = [Drive, Triage, Lift]"
| "category_phases Logbook_Write = [Drive, Triage, Lift]"
| "category_phases Triage_And_Lift_Write = [Triage, Lift]"
| "category_phases Strategy_Amend = [Drive, Lift, Execute]"
| "category_phases Map_Lift_Initiator = [Drive, Lift]"
| "category_phases Drive_Active = [Drive]"
| "category_phases Capability_Declaration = [Drive, Triage, Lift]"
| "category_phases Escape_Valve = [Drive, Triage, Lift]"
| "category_phases Lift_Re_Active = [Lift]"

definition admissible_phases :: "tool_def \<Rightarrow> session_phase list" where
  "admissible_phases d = category_phases (td_category d) @ td_extra_phases d"

datatype catalog_issue = Policy_Not_Phase_Scoped string | Extra_Phase_Repeats string session_phase
  | Exhausted_Not_Admissible string session_phase

record tool_catalog =
  tc_universal :: "string list"
  tc_allowed :: "(session_phase \<times> string) list"
  tc_exhausted :: "(session_phase \<times> string) list"

definition phase_scoped :: "tool_def \<Rightarrow> bool" where
  "phase_scoped d \<longleftrightarrow> td_category d \<noteq> Universal \<and> td_category d \<noteq> None_Category"

text \<open>One iteration of the loop over the registry.\<close>

definition catalog_tool :: "tool_catalog \<times> catalog_issue list \<Rightarrow> tool_def \<Rightarrow> tool_catalog \<times> catalog_issue list" where
  "catalog_tool = (\<lambda>(c, issues) d.
     if \<not> phase_scoped d then
       (if td_category d = Universal then c\<lparr>tc_universal := tc_universal c @ [td_name d]\<rparr> else c,
        issues @ (if td_extra_phases d \<noteq> [] \<or> td_exhausted_in d \<noteq> [] then [Policy_Not_Phase_Scoped (td_name d)] else []))
     else
       let phases = admissible_phases d in
       (c\<lparr>tc_allowed := tc_allowed c @ map (\<lambda>p. (p, td_name d)) phases,
          tc_exhausted := tc_exhausted c @
            map (\<lambda>p. (p, td_name d)) (List.filter (\<lambda>p. p \<in> set phases) (td_exhausted_in d))\<rparr>,
        issues @ map (Extra_Phase_Repeats (td_name d))
            (List.filter (\<lambda>p. p \<in> set (category_phases (td_category d))) (td_extra_phases d))
          @ map (Exhausted_Not_Admissible (td_name d))
            (List.filter (\<lambda>p. p \<notin> set phases) (td_exhausted_in d))))"

definition empty_catalog :: tool_catalog where
  "empty_catalog = \<lparr>tc_universal = [], tc_allowed = [], tc_exhausted = []\<rparr>"

definition derive_catalog :: "tool_def list \<Rightarrow> catalog_issue list + tool_catalog" where
  "derive_catalog registry = (case foldl catalog_tool (empty_catalog, []) registry of
     (c, issues) \<Rightarrow> if issues \<noteq> [] then Inl issues else Inr c)"

definition is_universal :: "tool_catalog \<Rightarrow> string \<Rightarrow> bool" where
  "is_universal c tool \<longleftrightarrow> tool \<in> set (tc_universal c)"

definition allowed_in :: "tool_catalog \<Rightarrow> session_phase \<Rightarrow> string \<Rightarrow> bool" where
  "allowed_in c p tool \<longleftrightarrow> (p, tool) \<in> set (tc_allowed c)"

definition allowed_when_exhausted :: "tool_catalog \<Rightarrow> session_phase \<Rightarrow> string \<Rightarrow> bool" where
  "allowed_when_exhausted c p tool \<longleftrightarrow> (p, tool) \<in> set (tc_exhausted c)"

section \<open>Admissibility and rounds\<close>

text \<open>The bookkeeping the middleware reads for a phase; triage without its two extra fields.\<close>

definition phase_state :: "phase_session \<Rightarrow> session_phase \<Rightarrow> phase_book option" where
  "phase_state s p = (case p of Drive \<Rightarrow> ss_drive s | Triage \<Rightarrow> map_option phase_book.truncate (ss_triage s)
     | Lift \<Rightarrow> ss_lift s | Execute \<Rightarrow> ss_execute s)"

definition soft_blocked :: "phase_session \<Rightarrow> session_phase \<Rightarrow> bool" where
  "soft_blocked s p = (case phase_state s p of None \<Rightarrow> False | Some b \<Rightarrow> pb_soft_block b)"

definition check_phase_admissibility :: "tool_catalog \<Rightarrow> phase_session \<Rightarrow> session_phase \<Rightarrow> string \<Rightarrow> phase_error + unit" where
  "check_phase_admissibility c s p tool =
     (if \<not> allowed_in c p tool then Inl (Tool_Not_In_Phase p)
      else if soft_blocked s p \<and> \<not> allowed_when_exhausted c p tool then Inl (Tool_Budget_Exhausted p)
      else Inr ())"

definition end_drive_tool :: string where
  "end_drive_tool = ''end_drive''"

definition check_admissibility :: "tool_catalog \<Rightarrow> phase_session \<Rightarrow> string \<Rightarrow> phase_error + unit" where
  "check_admissibility c s tool =
     (if is_universal c tool then Inr ()
      else if tool = end_drive_tool \<and> ss_status s = Some Status_Closed then Inr ()
      else (case ss_status s of
          Some Status_Closed \<Rightarrow> Inl (Tool_On_Finalized Status_Closed)
        | Some Status_Failed \<Rightarrow> Inl (Tool_On_Finalized Status_Failed)
        | _ \<Rightarrow> bindR (current_phase s) (\<lambda>p. check_phase_admissibility c s p tool)))"

text \<open>The counter of a phase after one more admitted call.\<close>

definition tick_book :: "'a phase_book_scheme \<Rightarrow> 'a phase_book_scheme" where
  "tick_book b = (let b1 = b\<lparr>pb_rounds := pb_rounds b + 1\<rparr> in
     if 0 < pb_budget b1 \<and> pb_budget b1 \<le> pb_rounds b1 then b1\<lparr>pb_soft_block := True\<rparr> else b1)"

definition tick_phase :: "session_phase \<Rightarrow> phase_session \<Rightarrow> phase_session" where
  "tick_phase p s = (case p of
     Drive \<Rightarrow> s\<lparr>ss_drive := map_option tick_book (ss_drive s)\<rparr>
   | Triage \<Rightarrow> s\<lparr>ss_triage := map_option tick_book (ss_triage s)\<rparr>
   | Lift \<Rightarrow> s\<lparr>ss_lift := map_option tick_book (ss_lift s)\<rparr>
   | Execute \<Rightarrow> s\<lparr>ss_execute := map_option tick_book (ss_execute s)\<rparr>)"

definition tick_phase_counter :: "tool_catalog \<Rightarrow> string \<Rightarrow> phase_session \<Rightarrow> phase_error + phase_session" where
  "tick_phase_counter c tool s =
     (if is_universal c tool then Inr s
      else bindR (current_phase s) (\<lambda>p. Inr (tick_phase p s)))"

text \<open>
  \<open>assertToolAdmissibleBySessionId\<close>: \<open>None\<close> is a session the pool does not know. The user
  round the pool registers is not part of the phase state.
\<close>

definition admit_tool :: "tool_catalog \<Rightarrow> string \<Rightarrow> phase_session option \<Rightarrow> phase_error + phase_session option" where
  "admit_tool c tool m =
     (if is_universal c tool then Inr m
      else (case m of
          None \<Rightarrow> Inl Tool_Unknown_Session
        | Some s \<Rightarrow> bindR (check_admissibility c s tool) (\<lambda>_. bindR (tick_phase_counter c tool s) (\<lambda>s'. Inr (Some s')))))"

section \<open>The operations that dispatch\<close>

text \<open>
  \<open>submitTriagePlan\<close> from the phase check on: the plan is submitted, the checkpoint may
  reject (\<open>accepted\<close> is false when it throws), then the session is handed to lift. A
  rejection leaves the session in triage.
\<close>

definition submit_triage_plan :: "phase_env \<Rightarrow> bool \<Rightarrow> phase_session \<Rightarrow> phase_session \<times> (phase_error + unit)" where
  "submit_triage_plan env accepted s = (case current_phase s of
     Inl e \<Rightarrow> (s, Inl e)
   | Inr p \<Rightarrow>
       if p \<noteq> Triage \<and> p \<noteq> Lift then (s, Inl (Wrong_Phase p))
       else (case dispatch env \<lparr>pe_kind = Plan_Submitted, pe_payload = None\<rparr> s of
           Inl e \<Rightarrow> (s, Inl e)
         | Inr (s1, _) \<Rightarrow>
             if \<not> accepted then (s1, Inl Checkpoint_Rejected)
             else (case dispatch env \<lparr>pe_kind = Plan_Handoff, pe_payload = None\<rparr> s1 of
                 Inl e \<Rightarrow> (s1, Inl e)
               | Inr (s2, _) \<Rightarrow> (s2, Inr ()))))"

text \<open>The hand-over of \<open>end_drive\<close>: only from drive, and an illegal transition is swallowed.\<close>

definition drive_to_triage_handoff :: "phase_env \<Rightarrow> phase_session \<Rightarrow> phase_session" where
  "drive_to_triage_handoff env s = (case current_phase s of
     Inr Drive \<Rightarrow> (case dispatch env \<lparr>pe_kind = End_Drive_Unresolved, pe_payload = None\<rparr> s of
         Inr (s1, _) \<Rightarrow> s1 | Inl _ \<Rightarrow> s)
   | _ \<Rightarrow> s)"

text \<open>
  \<open>liftObservedCapability\<close>: whether the session has a platform, and whether the name is one
  the platform logbook has observed, are arguments. The declared capability it appends is
  not part of the phase state.
\<close>

definition lift_observed_capability :: "phase_env \<Rightarrow> bool \<Rightarrow> bool \<Rightarrow> phase_session \<Rightarrow> phase_error + phase_session" where
  "lift_observed_capability env has_platform observed s =
     ensureR (pg_name (current_graph s) = Map_Graph) Wrong_Graph
      (bindR (current_phase s) (\<lambda>p.
        ensureR (p = Drive \<or> p = Lift) (Wrong_Phase p)
         (ensureR has_platform Missing_Platform
          (ensureR observed Unobserved_Capability
           (bindR (dispatch env \<lparr>pe_kind = Lift_Observed_Capability_Invoked, pe_payload = None\<rparr> s) (\<lambda>r. Inr (fst r)))))))"

section \<open>The outcome of a saved strategy\<close>

text \<open>
  \<open>result-classification.ts\<close>: a status that is no number is \<open>None\<close>, and so is a hoisted
  \<open>body_ok\<close> that is no Boolean.
\<close>

datatype execution_send_state = State_Not_Run | State_Sent_Unconfirmed

record factory_result =
  fx_state :: "execution_send_state option"
  fx_status :: "real option"
  fx_body :: "json option"
  fx_body_ok :: "bool option"

definition oversize_body_codes :: "string list" where
  "oversize_body_codes = [''response_too_large'', ''response_too_large_html_trimmed'']"

definition is_oversize_body_envelope :: "json option \<Rightarrow> bool" where
  "is_oversize_body_envelope body = (case body of
     Some (JObj kvs) \<Rightarrow>
       (case map_of kvs ''error'' of Some (JStr e) \<Rightarrow> e \<in> set oversize_body_codes | _ \<Rightarrow> False) \<and>
       (case map_of kvs ''total_chars'' of Some (JNum _) \<Rightarrow> True | _ \<Rightarrow> False)
   | _ \<Rightarrow> False)"

definition explicit_ok :: "factory_result \<Rightarrow> bool option" where
  "explicit_ok r = (case fx_body r of
     Some (JObj kvs) \<Rightarrow> (case map_of kvs ''ok'' of Some (JBool b) \<Rightarrow> Some b | _ \<Rightarrow> fx_body_ok r)
   | _ \<Rightarrow> fx_body_ok r)"

definition classify_factory_execution_result :: "factory_result option \<Rightarrow> execution_classification" where
  "classify_factory_execution_result m = (case m of
     None \<Rightarrow> Transport_Failure
   | Some r \<Rightarrow>
       if fx_state r = Some State_Not_Run then Not_Run
       else if fx_state r = Some State_Sent_Unconfirmed then Delivery_Unknown
       else (case fx_status r of
           None \<Rightarrow> Transport_Failure
         | Some st \<Rightarrow>
             if st < 200 \<or> 300 \<le> st then Transport_Failure
             else if explicit_ok r = Some True then Explicit_Success
             else if explicit_ok r = Some False then Explicit_Failure
             else if is_oversize_body_envelope (fx_body r) then Explicit_Failure
             else Transport_Accepted))"

definition factory_execution_was_accepted :: "execution_classification \<Rightarrow> bool" where
  "factory_execution_was_accepted c \<longleftrightarrow> c = Explicit_Success \<or> c = Transport_Accepted"

text \<open>
  \<open>dispatchExecuteGraphOutcome\<close> on what \<open>start_session\<close> knows of the attempt: the platform
  and capability it was for, whether the strategy ran, whether it declined for one of the
  reasons that are no failure, and whether it paused on a recorded step.
\<close>

record execute_report =
  er_target :: "(string \<times> string) option"
  er_executed :: bool
  er_declined :: bool
  er_result :: "factory_result option"
  er_step_paused :: bool
  er_diagnosis :: "diagnosis_kind option"

definition dispatch_execute_outcome :: "phase_env \<Rightarrow> execute_report \<Rightarrow> phase_session \<Rightarrow> phase_error + phase_session" where
  "dispatch_execute_outcome env r s =
     (if ss_graph s \<noteq> Some Execute_Graph then Inr s
      else (case er_target r of
          None \<Rightarrow> Inr s
        | Some (platform, capability) \<Rightarrow>
            let classification = classify_factory_execution_result (er_result r) in
            if \<not> er_executed r \<and> er_declined r then Inr (s\<lparr>ss_graph := Some Discover_Graph\<rparr>)
            else if er_executed r \<and> factory_execution_was_accepted classification
              then bindR (dispatch env \<lparr>pe_kind = Execute_Succeeded, pe_payload = None\<rparr> s) (\<lambda>x. Inr (fst x))
            else if er_step_paused r then Inr s
            else bindR (dispatch env \<lparr>pe_kind = Execute_Failed, pe_payload = Some
                \<lparr>ef_platform = Some platform, ef_capability = Some capability, ef_diagnosis = er_diagnosis r,
                 ef_classification = Some classification\<rparr>\<rparr> s) (\<lambda>x. Inr (fst x))))"

text \<open>A session as \<open>start_session\<close> opens it.\<close>

definition opened_session :: "graph_name \<Rightarrow> phase_session" where
  "opened_session g = \<lparr>ss_graph = Some g, ss_phase = None, ss_status = Some Status_Active, ss_drive = None,
     ss_triage = None, ss_lift = None, ss_execute = None\<rparr>"

end
