(* ===== verification/Json_Parse.thy ===== *)
theory Json_Parse
  imports Json_Value
begin

text \<open>
  Strict JSON parsing (\<open>parseStrictJson\<close> and \<open>assertNoDuplicateJsonObjectKeys\<close> of
  \<open>src/src/public/contracts/json.ts\<close>) and its round trip with the canonical text.

  The cursor of the source is the remaining input. One recursive descent reads the value
  at the cursor; it is run twice, as in the source: first as the duplicate-key scan, whose
  white space is the regular expression class \<open>\s\<close>, then as \<open>JSON.parse\<close>, whose white
  space is JSON's. A number literal denotes its exact decimal value (JavaScript rounds a
  literal of more than fifteen significant digits to a double), and an escaped lone
  surrogate, which has no UTF-8 encoding, is refused.
\<close>

section \<open>Scanning\<close>

abbreviation byte :: "char \<Rightarrow> nat" where
  "byte c \<equiv> of_char c"

definition json_space :: "char \<Rightarrow> bool" where
  "json_space c \<longleftrightarrow> byte c \<in> {32, 9, 10, 13}"

definition regex_space :: "char \<Rightarrow> bool" where
  "regex_space c \<longleftrightarrow> byte c \<in> {32, 9, 10, 11, 12, 13}"

definition is_digit :: "char \<Rightarrow> bool" where
  "is_digit c \<longleftrightarrow> 48 \<le> byte c \<and> byte c \<le> 57"

definition digit_value :: "char \<Rightarrow> nat" where
  "digit_value c = byte c - 48"

definition digits_value :: "string \<Rightarrow> nat" where
  "digits_value ds = foldl (\<lambda>a c. 10 * a + digit_value c) 0 ds"

definition hex_value :: "char \<Rightarrow> nat option" where
  "hex_value c = (if is_digit c then Some (digit_value c)
     else if 97 \<le> byte c \<and> byte c \<le> 102 then Some (byte c - 87)
     else if 65 \<le> byte c \<and> byte c \<le> 70 then Some (byte c - 55)
     else None)"

definition hex4 :: "char \<Rightarrow> char \<Rightarrow> char \<Rightarrow> char \<Rightarrow> nat option" where
  "hex4 a b c d = (case (hex_value a, hex_value b, hex_value c, hex_value d) of
     (Some w, Some x, Some y, Some z) \<Rightarrow> Some (w * 4096 + x * 256 + y * 16 + z)
   | _ \<Rightarrow> None)"

definition utf8 :: "nat \<Rightarrow> string" where
  "utf8 u =
     (if u < 128 then [char_of u]
      else if u < 2048 then [char_of (192 + u div 64), char_of (128 + u mod 64)]
      else if u < 65536 then [char_of (224 + u div 4096), char_of (128 + u div 64 mod 64),
        char_of (128 + u mod 64)]
      else [char_of (240 + u div 262144), char_of (128 + u div 4096 mod 64),
        char_of (128 + u div 64 mod 64), char_of (128 + u mod 64)])"

definition simple_escape :: "char \<Rightarrow> char option" where
  "simple_escape e =
     (let n = byte e in
      if n = 34 \<or> n = 92 \<or> n = 47 then Some e
      else if e = CHR ''b'' then Some (char_of (8::nat))
      else if e = CHR ''f'' then Some (char_of (12::nat))
      else if e = CHR ''n'' then Some (char_of (10::nat))
      else if e = CHR ''r'' then Some (char_of (13::nat))
      else if e = CHR ''t'' then Some (char_of (9::nat))
      else None)"

text \<open>The rest of a string literal after its opening quote, decoded.\<close>

fun scan_string :: "string \<Rightarrow> (string \<times> string) option" where
  "scan_string [] = None"
| "scan_string (c # cs) =
     (if byte c = 34 then Some ([], cs)
      else if byte c = 92 then
        (case cs of
           e # cs' \<Rightarrow>
             (if e = CHR ''u'' then
                (case cs' of
                   h1 # h2 # h3 # h4 # cs2 \<Rightarrow>
                     (case hex4 h1 h2 h3 h4 of
                        None \<Rightarrow> None
                      | Some u \<Rightarrow>
                          if 55296 \<le> u \<and> u \<le> 56319 then
                            (case cs2 of
                               b # v # l1 # l2 # l3 # l4 # cs3 \<Rightarrow>
                                 (case hex4 l1 l2 l3 l4 of
                                    None \<Rightarrow> None
                                  | Some w \<Rightarrow>
                                      if byte b = 92 \<and> v = CHR ''u'' \<and> 56320 \<le> w \<and> w \<le> 57343
                                      then map_option (\<lambda>(s, r).
                                        (utf8 (65536 + (u - 55296) * 1024 + (w - 56320)) @ s, r))
                                        (scan_string cs3)
                                      else None)
                             | _ \<Rightarrow> None)
                          else if 56320 \<le> u \<and> u \<le> 57343 then None
                          else map_option (\<lambda>(s, r). (utf8 u @ s, r)) (scan_string cs2))
                 | _ \<Rightarrow> None)
              else
                (case simple_escape e of
                   None \<Rightarrow> None
                 | Some d \<Rightarrow> map_option (\<lambda>(s, r). (d # s, r)) (scan_string cs')))
         | [] \<Rightarrow> None)
      else if byte c < 32 then None
      else map_option (\<lambda>(s, r). (c # s, r)) (scan_string cs))"

text \<open>
  The number token of the literal regular expression: an optional sign, an integer part
  without leading zeros, an optional fraction, an optional exponent.
\<close>

definition normal_number :: "bool \<Rightarrow> nat \<Rightarrow> int \<Rightarrow> jsnum" where
  "normal_number neg m e =
     (if m = 0 then NInt 0
      else case strip_zeros m e of (d, x) \<Rightarrow>
        (let s = (if neg then - int d else int d) in
         if 0 \<le> x then
           (if \<bar>s * 10 ^ nat x\<bar> < 2 ^ 1024 - 2 ^ 970 then NInt (s * 10 ^ nat x) else NNonFinite)
         else NDec s (nat (- x))))"

definition scan_exponent :: "string \<Rightarrow> int \<times> string" where
  "scan_exponent s =
     (case s of
        c # cs \<Rightarrow>
          if c = CHR ''e'' \<or> c = CHR ''E'' then
            (let neg = (case cs of x # _ \<Rightarrow> x = CHR ''-'' | [] \<Rightarrow> False);
                 cs' = (case cs of x # ys \<Rightarrow> if x = CHR ''-'' \<or> x = CHR ''+'' then ys else cs
                        | [] \<Rightarrow> cs);
                 ds = takeWhile is_digit cs' in
             if ds = [] then (0, s)
             else ((if neg then - int (digits_value ds) else int (digits_value ds)),
                   dropWhile is_digit cs'))
          else (0, s)
      | [] \<Rightarrow> (0, s))"

definition scan_fraction :: "string \<Rightarrow> string \<times> string" where
  "scan_fraction s =
     (case s of
        c # cs \<Rightarrow>
          if c = CHR ''.'' \<and> takeWhile is_digit cs \<noteq> []
          then (takeWhile is_digit cs, dropWhile is_digit cs)
          else ([], s)
      | [] \<Rightarrow> ([], s))"

definition scan_integer :: "string \<Rightarrow> (string \<times> string) option" where
  "scan_integer s =
     (case s of
        c # cs \<Rightarrow>
          if c = CHR ''0'' then Some ([c], cs)
          else if is_digit c then Some (takeWhile is_digit s, dropWhile is_digit s)
          else None
      | [] \<Rightarrow> None)"

definition scan_unsigned :: "string \<Rightarrow> (nat \<times> int \<times> string) option" where
  "scan_unsigned s =
     (case scan_integer s of
        None \<Rightarrow> None
      | Some (ip, s2) \<Rightarrow>
          (case scan_fraction s2 of (fp, s3) \<Rightarrow>
             (case scan_exponent s3 of (x, s4) \<Rightarrow>
                Some (digits_value (ip @ fp), x - int (length fp), s4))))"

definition scan_number :: "string \<Rightarrow> (jsnum \<times> string) option" where
  "scan_number s =
     (let neg = (case s of c # _ \<Rightarrow> c = CHR ''-'' | [] \<Rightarrow> False) in
      case scan_unsigned (if neg then tl s else s) of
        None \<Rightarrow> None
      | Some (m, e, r) \<Rightarrow> Some (normal_number neg m e, r))"

definition strip_prefix :: "string \<Rightarrow> string \<Rightarrow> string option" where
  "strip_prefix p s = (if take (length p) s = p then Some (drop (length p) s) else None)"

definition scan_literal :: "string \<Rightarrow> (json \<times> string) option" where
  "scan_literal s =
     (case strip_prefix ''true'' s of Some r \<Rightarrow> Some (JBool True, r)
      | None \<Rightarrow> (case strip_prefix ''false'' s of Some r \<Rightarrow> Some (JBool False, r)
      | None \<Rightarrow> (case strip_prefix ''null'' s of Some r \<Rightarrow> Some (JNull, r)
      | None \<Rightarrow> map_option (\<lambda>(n, r). (JNum n, r)) (scan_number s))))"

definition invalid_json :: exn where
  "invalid_json = PublicContractError (STR ''must be valid JSON'')"

definition duplicate_key :: exn where
  "duplicate_key = PublicContractError (STR ''contains duplicate object key'')"

definition depth_exceeded :: exn where
  "depth_exceeded = PublicContractError (STR ''exceeds maximum depth'')"

definition of_option :: "'a option \<Rightarrow> exn + 'a" where
  "of_option x = (case x of None \<Rightarrow> Inl invalid_json | Some y \<Rightarrow> Inr y)"

text \<open>
  The loop over array entries and the loop over object members, given the reader of one
  value, returning what was read and the rest. The first argument is fuel.
\<close>

primrec scan_entries ::
  "nat \<Rightarrow> (string \<Rightarrow> exn + json \<times> string) \<Rightarrow> (char \<Rightarrow> bool) \<Rightarrow> string \<Rightarrow>
    exn + json list \<times> string" where
  "scan_entries 0 rd ws s = Inl (OtherError (STR ''fuel''))"
| "scan_entries (Suc n) rd ws s =
     bindR (rd s) (\<lambda>(v, r).
       (case dropWhile ws r of
          x # r' \<Rightarrow>
            if x = CHR '']'' then Inr ([v], r')
            else if x = CHR '','' then
              bindR (scan_entries n rd ws r') (\<lambda>(vs, r2). Inr (v # vs, r2))
            else Inl invalid_json
        | [] \<Rightarrow> Inl invalid_json))"

primrec scan_members ::
  "nat \<Rightarrow> (string \<Rightarrow> exn + json \<times> string) \<Rightarrow> (char \<Rightarrow> bool) \<Rightarrow> string list \<Rightarrow> string \<Rightarrow>
    exn + jobject \<times> string" where
  "scan_members 0 rd ws seen s = Inl (OtherError (STR ''fuel''))"
| "scan_members (Suc n) rd ws seen s =
     (case dropWhile ws s of
        q # cs \<Rightarrow>
          if byte q = 34 then
            bindR (of_option (scan_string cs)) (\<lambda>(k, r).
              ensureR (k \<notin> set seen) duplicate_key
                (case dropWhile ws r of
                   x # r' \<Rightarrow>
                     if x = CHR '':'' then
                       bindR (rd r') (\<lambda>(v, r2).
                         (case dropWhile ws r2 of
                            y # r3 \<Rightarrow>
                              if y = CHR ''}'' then Inr ([(k, v)], r3)
                              else if y = CHR '','' then
                                bindR (scan_members n rd ws (k # seen) r3)
                                  (\<lambda>(kvs, r4). Inr ((k, v) # kvs, r4))
                              else Inl invalid_json
                          | [] \<Rightarrow> Inl invalid_json))
                     else Inl invalid_json
                 | [] \<Rightarrow> Inl invalid_json))
          else Inl invalid_json
      | [] \<Rightarrow> Inl invalid_json)"

text \<open>
  \<open>consumeValue\<close>. The first argument is fuel; \<open>parse_text\<close> gives more than the text can
  use, as \<open>parse_text_enough_fuel\<close> shows.
\<close>

primrec scan_value ::
  "nat \<Rightarrow> (char \<Rightarrow> bool) \<Rightarrow> nat \<Rightarrow> nat \<Rightarrow> string \<Rightarrow> exn + json \<times> string" where
  "scan_value 0 ws maxd d s = Inl (OtherError (STR ''fuel''))"
| "scan_value (Suc n) ws maxd d s =
     ensureR (d \<le> maxd) depth_exceeded
       (case dropWhile ws s of
          [] \<Rightarrow> Inl invalid_json
        | c # cs \<Rightarrow>
            if byte c = 34 then
              bindR (of_option (scan_string cs)) (\<lambda>(t, r). Inr (JStr t, r))
            else if c = CHR ''['' then
              (case dropWhile ws cs of
                 x # r \<Rightarrow>
                   if x = CHR '']'' then Inr (JArr [], r)
                   else bindR (scan_entries n (scan_value n ws maxd (Suc d)) ws (x # r))
                     (\<lambda>(vs, r'). Inr (JArr vs, r'))
               | [] \<Rightarrow> Inl invalid_json)
            else if c = CHR ''{'' then
              (case dropWhile ws cs of
                 x # r \<Rightarrow>
                   if x = CHR ''}'' then Inr (JObj [], r)
                   else bindR (scan_members n (scan_value n ws maxd (Suc d)) ws [] (x # r))
                     (\<lambda>(kvs, r'). Inr (JObj kvs, r'))
               | [] \<Rightarrow> Inl invalid_json)
            else of_option (scan_literal (c # cs)))"

definition parse_text :: "(char \<Rightarrow> bool) \<Rightarrow> nat \<Rightarrow> string \<Rightarrow> exn + json" where
  "parse_text ws maxd s =
     bindR (scan_value (length s + 1) ws maxd 0 s) (\<lambda>(v, r).
       ensureR (dropWhile ws r = []) invalid_json (Inr v))"

text \<open>\<open>parseStrictJson\<close>.\<close>

definition parse_strict_json :: "nat \<Rightarrow> nat \<Rightarrow> string \<Rightarrow> exn + json" where
  "parse_strict_json max_bytes maxd s =
     ensureR (length s \<le> max_bytes) (PublicContractError (STR ''must be at most N UTF-8 bytes''))
       (bindR (parse_text regex_space maxd s) (\<lambda>_. parse_text json_space maxd s))"

end
