(* ===== verification/Contracts_Common.thy ===== *)
theory Contracts_Common
  imports Json_Parse
begin

text \<open>
  The value parsers every public contract uses (\<open>src/src/public/contracts/common.ts\<close>):
  records with an exact set of keys, bounded records, integers, strings, identifiers,
  digests, package versions and their order, and JSON pointers with their resolution
  (\<open>resolveJsonPointer\<close> of \<open>value-expression.ts\<close>).

  The field path an error message starts with is not modelled. A value of JavaScript type
  \<open>unknown\<close> is a JSON value; \<open>undefined\<close> only arises as an absent record field.
\<close>

section \<open>Records, numbers and strings\<close>

definition as_object :: "json \<Rightarrow> exn + jobject" where
  "as_object v = (case v of JObj kvs \<Rightarrow> Inr kvs
     | _ \<Rightarrow> Inl (PublicContractError (STR ''must be an object'')))"

definition parse_exact_record :: "string list \<Rightarrow> json \<Rightarrow> exn + jobject" where
  "parse_exact_record keys v = bindR (as_object v) (\<lambda>kvs.
     ensureR (list_all (\<lambda>k. k \<in> set keys) (map fst kvs)) (PublicContractError (STR ''is not allowed''))
       (ensureR (list_all (\<lambda>k. k \<in> set (map fst kvs)) keys)
         (PublicContractError (STR ''is missing required key'')) (Inr kvs)))"

definition parse_bounded_record :: "nat \<Rightarrow> json \<Rightarrow> exn + jobject" where
  "parse_bounded_record m v = bindR (as_object v) (\<lambda>kvs.
     ensureR (length kvs \<le> m) (PublicContractError (STR ''must contain at most N entries'')) (Inr kvs))"

definition parse_integer :: "int \<Rightarrow> int \<Rightarrow> json \<Rightarrow> exn + int" where
  "parse_integer lo hi v = (case v of
     JNum (NInt i) \<Rightarrow>
       ensureR (\<bar>i\<bar> \<le> max_safe_integer \<and> lo \<le> i \<and> i \<le> hi)
         (PublicContractError (STR ''must be an integer from MIN to MAX'')) (Inr i)
   | _ \<Rightarrow> Inl (PublicContractError (STR ''must be an integer from MIN to MAX'')))"

lemma parse_integer_Inr: "parse_integer lo hi v = Inr i \<longleftrightarrow>
    v = JNum (NInt i) \<and> \<bar>i\<bar> \<le> max_safe_integer \<and> lo \<le> i \<and> i \<le> hi"
  by (auto simp: parse_integer_def ensureR_Inr_iff split: json.splits jsnum.splits)

definition parse_finite_number :: "jsnum \<Rightarrow> jsnum \<Rightarrow> json \<Rightarrow> exn + jsnum" where
  "parse_finite_number lo hi v = (case v of
     JNum n \<Rightarrow>
       ensureR (is_finite n \<and> \<not> num_less n lo \<and> \<not> num_less hi n)
         (PublicContractError (STR ''must be a finite number from MIN to MAX'')) (Inr n)
   | _ \<Rightarrow> Inl (PublicContractError (STR ''must be a finite number from MIN to MAX'')))"

definition parse_string :: "nat \<Rightarrow> json \<Rightarrow> exn + string" where
  "parse_string m v = (case v of
     JStr s \<Rightarrow> ensureR (length s \<le> m)
       (PublicContractError (STR ''must be at most N UTF-8 bytes'')) (Inr s)
   | _ \<Rightarrow> Inl (PublicContractError (STR ''must be a string'')))"

definition parse_ascii_string :: "nat \<Rightarrow> json \<Rightarrow> exn + string" where
  "parse_ascii_string m v = bindR (parse_string m v) (\<lambda>s.
     ensureR (list_all (\<lambda>c. byte c \<le> 127) s)
       (PublicContractError (STR ''must contain ASCII characters only'')) (Inr s))"

definition assert_map_key :: "string \<Rightarrow> string \<Rightarrow> exn + unit" where
  "assert_map_key key embedded = ensureR (key = embedded)
     (PublicContractError (STR ''map key must byte-equal its embedded identifier'')) (Inr ())"

section \<open>Identifiers\<close>

definition is_lower :: "char \<Rightarrow> bool" where
  "is_lower c \<longleftrightarrow> 97 \<le> byte c \<and> byte c \<le> 122"

definition is_upper :: "char \<Rightarrow> bool" where
  "is_upper c \<longleftrightarrow> 65 \<le> byte c \<and> byte c \<le> 90"

definition is_lower_alnum :: "char \<Rightarrow> bool" where
  "is_lower_alnum c \<longleftrightarrow> is_lower c \<or> is_digit c"

text \<open>\<open>/^[a-z][a-z0-9_]{0,63}$/\<close>.\<close>

definition is_stable_identifier :: "string \<Rightarrow> bool" where
  "is_stable_identifier s = (case s of [] \<Rightarrow> False | c # cs \<Rightarrow>
     is_lower c \<and> list_all (\<lambda>x. is_lower_alnum x \<or> x = CHR ''_'') cs \<and> length cs \<le> 63)"

definition parse_stable_identifier :: "json \<Rightarrow> exn + string" where
  "parse_stable_identifier v = bindR (parse_ascii_string 64 v) (\<lambda>s.
     ensureR (is_stable_identifier s)
       (PublicContractError (STR ''must be a canonical lowercase snake_case identifier'')) (Inr s))"

definition parse_capability_id :: "json \<Rightarrow> exn + string" where
  "parse_capability_id v = parse_stable_identifier v"

definition parse_stable_contract_id :: "json \<Rightarrow> exn + string" where
  "parse_stable_contract_id v = parse_stable_identifier v"

text \<open>\<open>/^[a-z0-9](?:[extra]{0,62}[a-z0-9])?$/\<close>.\<close>

definition is_delimited_identifier :: "(char \<Rightarrow> bool) \<Rightarrow> string \<Rightarrow> bool" where
  "is_delimited_identifier extra s \<longleftrightarrow>
     s \<noteq> [] \<and> length s \<le> 64 \<and> is_lower_alnum (hd s) \<and> is_lower_alnum (last s) \<and>
     list_all (\<lambda>c. is_lower_alnum c \<or> extra c) s"

definition parse_package_id :: "json \<Rightarrow> exn + string" where
  "parse_package_id v = bindR (parse_ascii_string 64 v) (\<lambda>s.
     ensureR (is_delimited_identifier (\<lambda>c. c = CHR ''-'') s)
       (PublicContractError (STR ''must be a canonical lowercase package id'')) (Inr s))"

definition parse_session_name :: "json \<Rightarrow> exn + string" where
  "parse_session_name v = bindR (parse_ascii_string 64 v) (\<lambda>s.
     ensureR (is_delimited_identifier (\<lambda>c. c = CHR ''.'' \<or> c = CHR ''_'' \<or> c = CHR ''-'') s)
       (PublicContractError (STR ''must be a canonical path-safe session name'')) (Inr s))"

definition local_prefix :: string where
  "local_prefix = ''local-''"

definition is_local_package_id :: "string \<Rightarrow> bool" where
  "is_local_package_id s \<longleftrightarrow> take (length local_prefix) s = local_prefix"

definition parse_local_package_id :: "json \<Rightarrow> exn + string" where
  "parse_local_package_id v = bindR (parse_package_id v) (\<lambda>s.
     ensureR (is_local_package_id s)
       (PublicContractError (STR ''must start with the reserved prefix'')) (Inr s))"

definition parse_registry_package_id :: "json \<Rightarrow> exn + string" where
  "parse_registry_package_id v = bindR (parse_package_id v) (\<lambda>s.
     ensureR (\<not> is_local_package_id s)
       (PublicContractError (STR ''must not start with the reserved prefix'')) (Inr s))"

definition local_package_id_for_platform :: "json \<Rightarrow> exn + string" where
  "local_package_id_for_platform v = bindR (parse_ascii_string 64 v) (\<lambda>slug.
     ensureR (length slug \<le> 64 - length local_prefix)
       (PublicContractError (STR ''must be at most N characters'')) 
       (parse_local_package_id (JStr (local_prefix @ slug))))"

definition parse_output_path :: "json \<Rightarrow> exn + string" where
  "parse_output_path v = bindR (parse_string 4096 v) (\<lambda>s.
     ensureR (list_all (\<lambda>c. byte c \<noteq> 0) s)
       (PublicContractError (STR ''must not contain a NUL byte'')) (Inr s))"

definition is_lower_hex :: "char \<Rightarrow> bool" where
  "is_lower_hex c \<longleftrightarrow> is_digit c \<or> 97 \<le> byte c \<and> byte c \<le> 102"

definition is_sha256_digest :: "string \<Rightarrow> bool" where
  "is_sha256_digest s \<longleftrightarrow> length s = 64 \<and> list_all is_lower_hex s"

definition parse_sha256_digest :: "json \<Rightarrow> exn + string" where
  "parse_sha256_digest v = bindR (parse_ascii_string 64 v) (\<lambda>s.
     ensureR (is_sha256_digest s)
       (PublicContractError (STR ''must be exactly 64 lowercase hexadecimal characters'')) (Inr s))"

definition parse_base64url :: "json \<Rightarrow> exn + string" where
  "parse_base64url v = bindR (parse_ascii_string 16384 v) (\<lambda>s.
     ensureR (s \<noteq> [] \<and> list_all (\<lambda>c. is_lower_alnum c \<or> is_upper c \<or> c = CHR ''_'' \<or> c = CHR ''-'') s
         \<and> length s mod 4 \<noteq> 1)
       (PublicContractError (STR ''must be unpadded base64url'')) (Inr s))"

section \<open>Instants\<close>

definition is_leap_year :: "nat \<Rightarrow> bool" where
  "is_leap_year y \<longleftrightarrow> y mod 4 = 0 \<and> (y mod 100 \<noteq> 0 \<or> y mod 400 = 0)"

definition days_in_month :: "nat \<Rightarrow> nat \<Rightarrow> nat" where
  "days_in_month y m =
     (if m = 2 then (if is_leap_year y then 29 else 28)
      else if m \<in> {4, 6, 9, 11} then 30 else 31)"

definition number_at :: "nat \<Rightarrow> nat \<Rightarrow> string \<Rightarrow> nat" where
  "number_at i n s = digits_value (take n (drop i s))"

text \<open>
  \<open>/^\d{4}-\d{2}-\d{2}T\d{2}:\d{2}:\d{2}Z$/\<close>, then \<open>Date.parse\<close> and \<open>toISOString\<close>, which
  give the text back exactly when its fields are those of a real instant.
\<close>

definition has_instant_shape :: "string \<Rightarrow> bool" where
  "has_instant_shape s \<longleftrightarrow> length s = 20 \<and>
     list_all (\<lambda>(i, c).
       if i = 4 \<or> i = 7 then c = CHR ''-''
       else if i = 10 then c = CHR ''T''
       else if i = 13 \<or> i = 16 then c = CHR '':''
       else if i = 19 then c = CHR ''Z''
       else is_digit c) (zip [0..<20] s)"

definition is_real_instant :: "string \<Rightarrow> bool" where
  "is_real_instant s \<longleftrightarrow>
     (let y = number_at 0 4 s; m = number_at 5 2 s; d = number_at 8 2 s in
      1 \<le> m \<and> m \<le> 12 \<and> 1 \<le> d \<and> d \<le> days_in_month y m \<and>
      number_at 11 2 s \<le> 23 \<and> number_at 14 2 s \<le> 59 \<and> number_at 17 2 s \<le> 59)"

definition parse_rfc3339_instant :: "json \<Rightarrow> exn + string" where
  "parse_rfc3339_instant v = bindR (parse_ascii_string 20 v) (\<lambda>s.
     ensureR (has_instant_shape s)
       (PublicContractError (STR ''must be a UTC RFC 3339 instant with second precision''))
       (ensureR (is_real_instant s)
         (PublicContractError (STR ''must be a real UTC RFC 3339 instant'')) (Inr s)))"

end
