(* ===== verification/Json_Pointer.thy ===== *)
theory Json_Pointer
  imports Contracts_Common
begin

text \<open>
  RFC 6901 pointers: \<open>parseJsonPointer\<close> of \<open>src/src/public/contracts/common.ts\<close> and
  \<open>resolveJsonPointer\<close> of \<open>src/src/public/contracts/value-expression.ts\<close>, with the
  specification they implement: a pointer is a list of tokens, resolved one token at a
  time.
\<close>

section \<open>The code\<close>

text \<open>\<open>text.split(c)\<close>.\<close>

fun split_on :: "char \<Rightarrow> string \<Rightarrow> string list" where
  "split_on c [] = [[]]"
| "split_on c (x # xs) =
     (if x = c then [] # split_on c xs
      else (case split_on c xs of [] \<Rightarrow> [[x]] | t # ts \<Rightarrow> (x # t) # ts))"

fun escapes_ok :: "string \<Rightarrow> bool" where
  "escapes_ok [] = True"
| "escapes_ok (c # cs) =
     ((c = CHR ''~'' \<longrightarrow> (case cs of [] \<Rightarrow> False | d # _ \<Rightarrow> d = CHR ''0'' \<or> d = CHR ''1'')) \<and>
      escapes_ok cs)"

definition is_pointer_text :: "string \<Rightarrow> bool" where
  "is_pointer_text s \<longleftrightarrow> s = [] \<or> hd s = CHR ''/''"

definition parse_json_pointer :: "json \<Rightarrow> exn + string" where
  "parse_json_pointer v = bindR (parse_string 512 v) (\<lambda>s.
     ensureR (is_pointer_text s)
       (PublicContractError (STR ''must be a canonical RFC 6901 JSON Pointer''))
       (ensureR (list_all escapes_ok (tl (split_on CHR ''/'' s)))
         (PublicContractError (STR ''must use only ~0 and ~1 pointer escapes'')) (Inr s)))"

text \<open>\<open>text.replace(/~d/g, r)\<close>.\<close>

fun replace_escape :: "char \<Rightarrow> char \<Rightarrow> string \<Rightarrow> string" where
  "replace_escape d r (c # e # cs) =
     (if c = CHR ''~'' \<and> e = d then r # replace_escape d r cs else c # replace_escape d r (e # cs))"
| "replace_escape d r cs = cs"

definition decode_token :: "string \<Rightarrow> string" where
  "decode_token t = replace_escape CHR ''0'' CHR ''~'' (replace_escape CHR ''1'' CHR ''/'' t)"

text \<open>\<open>/^(?:0|[1-9]\d*)$/\<close>.\<close>

definition is_array_index :: "string \<Rightarrow> bool" where
  "is_array_index t \<longleftrightarrow> t \<noteq> [] \<and> list_all is_digit t \<and> (hd t = CHR ''0'' \<longrightarrow> length t = 1)"

definition unresolved :: exn where
  "unresolved = ValueExpressionError (STR ''pointer does not resolve'')"

definition resolve_token :: "json \<Rightarrow> string \<Rightarrow> exn + json" where
  "resolve_token current t = (case current of
     JArr xs \<Rightarrow>
       ensureR (is_array_index t) (ValueExpressionError (STR ''array pointer token is invalid''))
         (if digits_value t < length xs then Inr (xs ! digits_value t) else Inl unresolved)
   | JObj kvs \<Rightarrow> (case map_of kvs t of None \<Rightarrow> Inl unresolved | Some v \<Rightarrow> Inr v)
   | _ \<Rightarrow> Inl unresolved)"

definition resolve_json_pointer :: "json \<Rightarrow> string \<Rightarrow> exn + json" where
  "resolve_json_pointer v p =
     (if p = [] then Inr v
      else foldR (\<lambda>current t. resolve_token current (decode_token t)) v
        (split_on CHR ''/'' (tl p)))"

section \<open>Pointers as token lists\<close>

definition encode_char :: "char \<Rightarrow> string" where
  "encode_char c = (if c = CHR ''~'' then ''~0'' else if c = CHR ''/'' then ''~1'' else [c])"

definition encode_token :: "string \<Rightarrow> string" where
  "encode_token t = concat (map encode_char t)"

definition pointer_of :: "string list \<Rightarrow> string" where
  "pointer_of ts = concat (map (\<lambda>t. CHR ''/'' # encode_token t) ts)"

lemma escapes_ok_append: "escapes_ok xs \<Longrightarrow> escapes_ok ys \<Longrightarrow> escapes_ok (xs @ ys)"
proof (induction xs)
  case (Cons x xs)
  then show ?case by (cases xs) auto
qed simp

lemma escapes_ok_encode: "escapes_ok (encode_token t)"
  by (induction t) (auto simp: encode_token_def encode_char_def)

lemma encode_no_slash: "CHR ''/'' \<notin> set (encode_token t)"
  by (induction t) (auto simp: encode_token_def encode_char_def)

lemma split_on_nonempty [simp]: "split_on c s \<noteq> []"
  by (induction s) (auto split: list.splits)

lemma split_on_none: "c \<notin> set s \<Longrightarrow> split_on c s = [s]"
  by (induction s) auto

lemma split_on_append: "c \<notin> set s \<Longrightarrow> split_on c (s @ c # r) = s # split_on c r"
  by (induction s) auto

lemma split_pointer:
  "ts \<noteq> [] \<Longrightarrow> split_on CHR ''/'' (tl (pointer_of ts)) = map encode_token ts"
proof (induction ts)
  case (Cons t ts)
  show ?case
  proof (cases "ts = []")
    case True
    then show ?thesis by (simp add: pointer_of_def split_on_none encode_no_slash)
  next
    case False
    then obtain u us where "ts = u # us" by (cases ts) auto
    then have "tl (pointer_of (t # ts)) = encode_token t @ CHR ''/'' # tl (pointer_of ts)"
      by (simp add: pointer_of_def)
    then show ?thesis using Cons.IH[OF False] by (simp add: split_on_append encode_no_slash)
  qed
qed simp

lemma split_whole_pointer: "split_on CHR ''/'' (pointer_of ts) = [] # map encode_token ts"
  using split_pointer[of ts] by (cases ts) (simp_all add: pointer_of_def)

text \<open>Decoding undoes encoding: first every \<open>~1\<close>, then every \<open>~0\<close>.\<close>

definition half_encode :: "string \<Rightarrow> string" where
  "half_encode t = concat (map (\<lambda>c. if c = CHR ''~'' then ''~0'' else [c]) t)"

lemma replace_escape_plain: "c \<noteq> CHR ''~'' \<Longrightarrow> replace_escape d r (c # cs) = c # replace_escape d r cs"
  by (cases cs) simp_all

lemma replace_escape_one: "replace_escape CHR ''1'' CHR ''/'' (encode_token t) = half_encode t"
  by (induction t)
    (simp_all add: encode_token_def encode_char_def half_encode_def replace_escape_plain)

lemma replace_escape_zero: "replace_escape CHR ''0'' CHR ''~'' (half_encode t) = t"
  by (induction t) (simp_all add: half_encode_def replace_escape_plain)

lemma decode_encode [simp]: "decode_token (encode_token t) = t"
  by (simp add: decode_token_def replace_escape_one replace_escape_zero)

lemma pointer_text: "is_pointer_text (pointer_of ts)"
  by (cases ts) (simp_all add: is_pointer_text_def pointer_of_def)

lemma resolve_json_pointer_error: "resolve_json_pointer v p = Inl e \<Longrightarrow> is_contract_error e"
proof -
  have step: "resolve_token c t = Inl e \<Longrightarrow> is_contract_error e" for c t
    by (auto simp: resolve_token_def unresolved_def ensureR_def split: json.splits option.splits if_splits)
  have "foldR (\<lambda>c t. resolve_token c (decode_token t)) v ts = Inl e \<Longrightarrow> is_contract_error e" for ts
  proof (induction ts arbitrary: v)
    case (Cons t ts)
    then show ?case using step by (cases "resolve_token v (decode_token t)") auto
  qed simp
  then show "resolve_json_pointer v p = Inl e \<Longrightarrow> is_contract_error e"
    by (simp add: resolve_json_pointer_def split: if_splits)
qed

text \<open>Any property a value hands down to its parts holds of what a pointer resolves to.\<close>

lemma resolve_json_pointer_part:
  assumes "resolve_json_pointer v p = Inr w" "P v"
    and arr: "\<And>xs x. P (JArr xs) \<Longrightarrow> x \<in> set xs \<Longrightarrow> P x"
    and obj: "\<And>kvs k x. P (JObj kvs) \<Longrightarrow> (k, x) \<in> set kvs \<Longrightarrow> P x"
  shows "P w"
proof -
  have step: "resolve_token c t = Inr x \<Longrightarrow> P c \<Longrightarrow> P x" for c t x
    by (auto simp: resolve_token_def ensureR_Inr_iff split: json.splits option.splits if_splits
      intro: arr obj dest: map_of_SomeD)
  have "foldR (\<lambda>c t. resolve_token c (decode_token t)) u ts = Inr w \<Longrightarrow> P u \<Longrightarrow> P w" for u ts
  proof (induction ts arbitrary: u)
    case (Cons t ts)
    then show ?case using step by (auto simp: bindR_Inr_iff)
  qed simp
  then show ?thesis using assms(1,2) by (auto simp: resolve_json_pointer_def split: if_splits)
qed

text \<open>
  RFC 6901 pointers round-trip: the pointer built from any list of tokens (with
  \<open>~\<close> and \<open>/\<close> escaped) is accepted by \<open>parseJsonPointer\<close>, and \<open>resolveJsonPointer\<close>
  follows exactly those tokens, one step each, failing where a step fails.
\<close>

theorem resolve_pointer_of:
  "(length (pointer_of ts) \<le> 512 \<longrightarrow> parse_json_pointer (JStr (pointer_of ts)) = Inr (pointer_of ts)) \<and>
   resolve_json_pointer v (pointer_of ts) = foldR resolve_token v ts"
proof
  show "length (pointer_of ts) \<le> 512 \<longrightarrow> parse_json_pointer (JStr (pointer_of ts)) = Inr (pointer_of ts)"
    using pointer_text[of ts]
    by (simp add: parse_json_pointer_def parse_string_def split_whole_pointer list_all_iff
      escapes_ok_encode)
  have "foldR (\<lambda>c t. resolve_token c (decode_token t)) v (map encode_token ts) = foldR resolve_token v ts"
    for v
  proof (induction ts arbitrary: v)
    case (Cons t ts)
    then show ?case by (cases "resolve_token v t") simp_all
  qed simp
  moreover have "pointer_of ts = [] \<longleftrightarrow> ts = []" by (cases ts) (simp_all add: pointer_of_def)
  ultimately show "resolve_json_pointer v (pointer_of ts) = foldR resolve_token v ts"
    by (auto simp: resolve_json_pointer_def split_pointer)
qed

theorem resolve_pointer_of_witness:
  "parse_json_pointer (JStr ''/a~1b/1/~0'') = Inr ''/a~1b/1/~0'' \<and>
   resolve_json_pointer (JObj [(''a/b'', JArr [JNull, JObj [(''~'', JBool True)]])]) ''/a~1b/1/~0'' =
     Inr (JBool True)"
proof -
  have "pointer_of [''a/b'', ''1'', ''~''] = ''/a~1b/1/~0''"
    by (simp add: pointer_of_def encode_token_def encode_char_def)
  then show ?thesis
    using resolve_pointer_of[of "[''a/b'', ''1'', ''~'']"
      "JObj [(''a/b'', JArr [JNull, JObj [(''~'', JBool True)]])]"]
    by (simp add: resolve_token_def is_array_index_def is_digit_def digits_value_def digit_value_def)
qed

end
