(* ===== verification/Surface_Binding.thy ===== *)
theory Surface_Binding
  imports Session_Phases Json_Pointer
begin

text \<open>
  Which triaged surface a URL belongs to (\<open>src/src/phases/surface-binding.ts\<close>) and the
  detection of a new one (\<open>surface-changed.ts\<close>). The URL parser of the host is the
  parameter \<open>parse_url\<close>; the checkpoint that follows a transition is not modelled.
\<close>

record parsed_url =
  pu_protocol :: string
  pu_host :: string
  pu_pathname :: string
  pu_origin :: string

type_synonym url_parser = "string \<Rightarrow> parsed_url option"

record surface_state =
  su_map :: "(string \<times> string) list"
  su_last_url :: "string option"
  su_mutated :: bool

definition ascii_lower :: "char \<Rightarrow> char" where
  "ascii_lower c = (if 65 \<le> byte c \<and> byte c \<le> 90 then char_of (byte c + 32) else c)"

definition url_key :: "url_parser \<Rightarrow> string \<Rightarrow> string option" where
  "url_key parse raw = map_option (\<lambda>u.
     let path = (if pu_pathname u = [] then ''/'' else pu_pathname u);
         trimmed = (if 1 < length path \<and> last path = CHR ''/'' then butlast path else path)
     in pu_protocol u @ ''//'' @ map ascii_lower (pu_host u) @ trimmed) (parse raw)"

definition bind_url :: "url_parser \<Rightarrow> string \<Rightarrow> (string \<times> string) list \<Rightarrow> string \<Rightarrow> (string \<times> string) list" where
  "bind_url parse label m raw = (case url_key parse raw of None \<Rightarrow> m | Some k \<Rightarrow> AList.update k label m)"

definition bind_urls_to_surface :: "url_parser \<Rightarrow> string \<Rightarrow> string list \<Rightarrow> surface_state \<Rightarrow> surface_state" where
  "bind_urls_to_surface parse label urls su = su\<lparr>su_map := foldl (bind_url parse label) (su_map su) urls\<rparr>"

text \<open>\<open>decodeURIComponent\<close>: the percent escapes, then a check that the bytes are UTF-8.\<close>

fun percent_bytes :: "string \<Rightarrow> string option" where
  "percent_bytes [] = Some []"
| "percent_bytes (c # cs) =
     (if c = CHR ''%'' then (case cs of
          a # b # r \<Rightarrow> (case (hex_value a, hex_value b) of
              (Some x, Some y) \<Rightarrow> map_option ((#) (char_of (x * 16 + y))) (percent_bytes r)
            | _ \<Rightarrow> None)
        | _ \<Rightarrow> None)
      else map_option ((#) c) (percent_bytes cs))"

definition continuation_byte :: "char \<Rightarrow> bool" where
  "continuation_byte c \<longleftrightarrow> 128 \<le> byte c \<and> byte c < 192"

fun is_utf8 :: "string \<Rightarrow> bool" where
  "is_utf8 [] = True"
| "is_utf8 (a # r) =
     (if byte a < 128 then is_utf8 r
      else if 194 \<le> byte a \<and> byte a < 224 then
        (case r of b # r1 \<Rightarrow> continuation_byte b \<and> is_utf8 r1 | _ \<Rightarrow> False)
      else if 224 \<le> byte a \<and> byte a < 240 then
        (case r of b # c # r1 \<Rightarrow> continuation_byte b \<and> continuation_byte c \<and> (byte a = 224 \<longrightarrow> 160 \<le> byte b) \<and>
            (byte a = 237 \<longrightarrow> byte b < 160) \<and> is_utf8 r1
         | _ \<Rightarrow> False)
      else if 240 \<le> byte a \<and> byte a < 245 then
        (case r of b # c # d # r1 \<Rightarrow> continuation_byte b \<and> continuation_byte c \<and> continuation_byte d \<and>
            (byte a = 240 \<longrightarrow> 144 \<le> byte b) \<and> (byte a = 244 \<longrightarrow> byte b < 144) \<and> is_utf8 r1
         | _ \<Rightarrow> False)
      else False)"

definition decode_uri_component :: "string \<Rightarrow> string option" where
  "decode_uri_component s = (case percent_bytes s of None \<Rightarrow> None | Some t \<Rightarrow> if is_utf8 t then Some t else None)"

definition is_template_segment :: "string \<Rightarrow> bool" where
  "is_template_segment seg =
     (let decoded = (case decode_uri_component seg of None \<Rightarrow> seg | Some d \<Rightarrow> d) in
      2 < length decoded \<and> hd decoded = CHR 0x7B \<and> last decoded = CHR 0x7D)"

definition matches_templated_key :: "url_parser \<Rightarrow> string \<Rightarrow> string \<Rightarrow> bool" where
  "matches_templated_key parse template_key expanded_key = (case (parse template_key, parse expanded_key) of
     (Some t, Some e) \<Rightarrow> pu_origin t = pu_origin e \<and>
       list_all2 (\<lambda>ts es. ts = es \<or> (is_template_segment ts \<and> es \<noteq> []))
         (split_on CHR ''/'' (pu_pathname t)) (split_on CHR ''/'' (pu_pathname e))
   | _ \<Rightarrow> False)"

fun contains_substring :: "string \<Rightarrow> string \<Rightarrow> bool" where
  "contains_substring p [] = (p = [])"
| "contains_substring p (c # cs) = (take (length p) (c # cs) = p \<or> contains_substring p cs)"

definition lookup_surface :: "url_parser \<Rightarrow> surface_state \<Rightarrow> string \<Rightarrow> string option" where
  "lookup_surface parse su raw = (case url_key parse raw of
     None \<Rightarrow> None
   | Some key \<Rightarrow> (case map_of (su_map su) key of
       Some label \<Rightarrow> Some label
     | None \<Rightarrow> map_option snd (List.find (\<lambda>(k, _).
         (contains_substring [CHR 0x7B] k \<or> contains_substring ''%7B'' k) \<and> matches_templated_key parse k key) (su_map su))))"

definition is_path_distinct :: "url_parser \<Rightarrow> string option \<Rightarrow> string \<Rightarrow> bool" where
  "is_path_distinct parse prev url = (case prev of
     None \<Rightarrow> True
   | Some p \<Rightarrow> p = [] \<or> (case (url_key parse p, url_key parse url) of (Some a, Some b) \<Rightarrow> a \<noteq> b | _ \<Rightarrow> False))"

definition may_change_surface :: "phase_session \<Rightarrow> bool \<Rightarrow> session_phase \<Rightarrow> bool" where
  "may_change_surface s mutated p \<longleftrightarrow> p = Lift \<or> p = Triage \<or>
     (p = Drive \<and> mutated \<and> list_ex (\<lambda>t. gt_from t = Drive \<and> gt_on t = Surface_Changed) (pg_transitions (current_graph s)))"

text \<open>The result says whether the transition was made.\<close>

definition maybe_fire_surface_changed ::
  "phase_env \<Rightarrow> url_parser \<Rightarrow> string \<Rightarrow> phase_session \<times> surface_state \<Rightarrow>
    (phase_session \<times> surface_state) \<times> (phase_error + bool)" where
  "maybe_fire_surface_changed env parse url = (\<lambda>(s, su).
     if url = [] then ((s, su), Inr False)
     else (case current_phase s of
         Inl e \<Rightarrow> ((s, su), Inl e)
       | Inr p \<Rightarrow>
           let su1 = su\<lparr>su_last_url := Some url\<rparr> in
           if \<not> may_change_surface s (su_mutated su) p then ((s, su1), Inr False)
           else if \<not> is_path_distinct parse (su_last_url su) url then ((s, su1), Inr False)
           else
             let su2 = su1\<lparr>su_mutated := False\<rparr> in
             if lookup_surface parse su2 url \<noteq> None then ((s, su2), Inr False)
             else (case dispatch env \<lparr>pe_kind = Surface_Changed, pe_payload = None\<rparr> s of
                 Inl e \<Rightarrow> ((s, su2), Inl e)
               | Inr (s1, _) \<Rightarrow> ((s1, su2), Inr True))))"

section \<open>Lemmas\<close>

lemma url_key_bound: "url_key parse raw = Some k \<Longrightarrow> raw \<in> set urls \<Longrightarrow>
    \<exists>label'. map_of (foldl (bind_url parse label) m urls) k = Some label' \<and> label' = label"
proof (induction urls rule: rev_induct)
  case (snoc u us)
  then show ?case by (auto simp: bind_url_def update_conv' split: option.split)
qed simp

lemma bound_lookup:
  assumes "url \<in> set urls" "url_key parse url \<noteq> None"
  shows "lookup_surface parse (bind_urls_to_surface parse label urls su) url = Some label"
  using assms url_key_bound[of parse url _ urls label "su_map su"]
  by (auto simp: lookup_surface_def bind_urls_to_surface_def)

end
