(* ===== verification/Session_Proofs.thy ===== *)
theory Session_Proofs
  imports Surface_Binding
begin

text \<open>
  The phase machine as a step relation: what every reachable session satisfies, that the
  operations of the tools are sequences of legal transitions, and how the round budgets
  bind.
\<close>

section \<open>Steps\<close>

inductive session_step :: "tool_catalog \<Rightarrow> phase_session \<Rightarrow> phase_session \<Rightarrow> bool" for c where
  admitted: "admit_tool c tool (Some s) = Inr (Some s') \<Longrightarrow> session_step c s s'"
| dispatched: "dispatch env ev s = Inr (s', r) \<Longrightarrow> session_step c s s'"
| declined: "ss_graph s = Some Execute_Graph \<Longrightarrow> ss_phase s = None \<Longrightarrow>
    session_step c s (s\<lparr>ss_graph := Some Discover_Graph\<rparr>)"

inductive reachable_session :: "tool_catalog \<Rightarrow> phase_session \<Rightarrow> bool" for c where
  opened: "reachable_session c (opened_session g)"
| stepped: "reachable_session c s \<Longrightarrow> session_step c s s' \<Longrightarrow> reachable_session c s'"

lemmas phase_ops = admit_tool_def tick_phase_counter_def check_admissibility_def check_phase_admissibility_def
  dispatch_def

lemma dispatchE:
  assumes "dispatch env ev s = Inr (s', r)"
  obtains p to where "current_phase s = Inr p" "resolve_destination env s p ev = Some to"
    "s' = apply_destination env s to (Some (pe_kind ev))"
  using assms by (auto simp: dispatch_def bindR_Inr_iff split: option.split_asm)

lemma admitE:
  assumes "admit_tool c tool (Some s) = Inr (Some s')"
  obtains (universal) "is_universal c tool" "s' = s"
  | (ticked) p where "\<not> is_universal c tool" "check_admissibility c s tool = Inr ()" "current_phase s = Inr p" "s' = tick_phase p s"
  using assms by (auto simp: admit_tool_def tick_phase_counter_def bindR_Inr_iff split: if_split_asm)

lemma find_in: "List.find P xs = Some x \<Longrightarrow> x \<in> set xs \<and> P x"
  by (induction xs) (auto split: if_split_asm)

text \<open>Where the edges of a graph lead.\<close>

lemma graph_edges: "t \<in> set (pg_transitions (graph_for g)) \<Longrightarrow>
    gt_from t \<in> set (pg_nodes (graph_for g)) \<and>
    (case gt_to t of To_Phase p \<Rightarrow> (p = Triage \<or> (p = Lift \<and> gt_from t = Triage)) \<and> p \<in> set (pg_nodes (graph_for g))
      | Terminal_Node st \<Rightarrow> st \<noteq> Status_Active)"
  by (cases g) (auto simp: discover_graph_def map_graph_def execute_graph_def)

lemma resolve_edge:
  assumes "resolve_destination env s p ev = Some to"
  shows "\<exists>t \<in> set (pg_transitions (current_graph s)). gt_from t = p \<and> gt_on t = pe_kind ev \<and> gt_to t = to"
  using assms find_in by (fastforce simp: resolve_destination_def)

section \<open>The invariant\<close>

definition book_ok :: "'a phase_book_scheme \<Rightarrow> bool" where
  "book_ok b \<longleftrightarrow> 0 \<le> pb_rounds b \<and> (0 < pb_budget b \<longrightarrow> pb_soft_block b = (pb_budget b \<le> pb_rounds b)) \<and>
     (pb_budget b \<le> 0 \<longrightarrow> \<not> pb_soft_block b)"

definition session_ok :: "phase_session \<Rightarrow> bool" where
  "session_ok s \<longleftrightarrow> ss_graph s \<noteq> None \<and> ss_status s \<noteq> None \<and> ss_drive s = None \<and> ss_execute s = None \<and>
     (case ss_phase s of
        None \<Rightarrow> ss_triage s = None \<and> ss_lift s = None
      | Some p \<Rightarrow> ss_triage s \<noteq> None \<and> (p = Triage \<or> p = Lift \<and> ss_lift s \<noteq> None)) \<and>
     (case ss_triage s of None \<Rightarrow> True | Some b \<Rightarrow> book_ok b) \<and>
     (case ss_lift s of None \<Rightarrow> True | Some b \<Rightarrow> 0 \<le> pb_rounds b)"

lemma session_ok_current:
  assumes "session_ok s"
  shows "current_phase s = Inr (case ss_phase s of None \<Rightarrow> pg_entry (current_graph s) | Some p \<Rightarrow> p)"
proof -
  have "List.find (\<lambda>p. p \<noteq> e \<and> has_book s p) session_phases = None" if "ss_phase s = None" for e
    using assms that by (simp add: find_None_iff session_ok_def session_phases_def has_book_def)
  then show ?thesis by (simp add: current_phase_def split: option.split)
qed

lemma tick_book_ok: "book_ok b \<Longrightarrow> book_ok (tick_book b)"
  by (auto simp: book_ok_def tick_book_def Let_def)

lemma tick_book_rounds: "pb_rounds (tick_book b) = pb_rounds b + 1" "pb_budget (tick_book b) = pb_budget b"
  by (simp_all add: tick_book_def Let_def)

lemma tick_phase_ok: "session_ok s \<Longrightarrow> session_ok (tick_phase p s)"
  by (cases p) (auto simp: session_ok_def tick_phase_def tick_book_ok tick_book_rounds split: option.splits)

lemma opened_ok: "session_ok (opened_session g)"
  by (simp add: session_ok_def opened_session_def)

lemma enter_triage_ok: "session_ok s \<Longrightarrow> session_ok (apply_destination env s (To_Phase Triage) ev)"
  by (auto simp: session_ok_def apply_destination_def on_enter_def enter_triage_def book_ok_def split: option.splits)

lemma enter_lift_ok: "session_ok s \<Longrightarrow> ss_phase s = Some Triage \<Longrightarrow> session_ok (apply_destination env s (To_Phase Lift) ev)"
  by (auto simp: session_ok_def apply_destination_def on_enter_def enter_lift_def fresh_book_def Let_def split: option.splits)

lemma terminal_ok: "session_ok s \<Longrightarrow> session_ok (apply_destination env s (Terminal_Node st) ev)"
  by (auto simp: session_ok_def apply_destination_def split: option.splits)

lemma entry_not_triage: "pg_entry (graph_for g) \<noteq> Triage"
  by (cases g) (simp_all add: discover_graph_def map_graph_def execute_graph_def)

lemma dispatch_ok:
  assumes "session_ok s" "dispatch env ev s = Inr (s', r)"
  shows "session_ok s'"
proof -
  from assms(2) obtain p to where d: "current_phase s = Inr p" "resolve_destination env s p ev = Some to"
    "s' = apply_destination env s to (Some (pe_kind ev))" by (rule dispatchE)
  from resolve_edge[OF d(2)] obtain t where t: "t \<in> set (pg_transitions (current_graph s))" "gt_from t = p" "gt_to t = to" by blast
  note e = graph_edges[OF t(1)[unfolded current_graph_def]]
  show ?thesis
  proof (cases to)
    case (Terminal_Node st)
    then show ?thesis using d(3) terminal_ok assms(1) by simp
  next
    case (To_Phase q)
    then have q: "q = Triage \<or> q = Lift \<and> p = Triage" using e t by auto
    have "ss_phase s = Some Triage" if "p = Triage"
      using d(1) that session_ok_current[OF assms(1)] entry_not_triage
      by (auto simp: current_graph_def split: option.splits)
    then show ?thesis using q d(3) To_Phase enter_triage_ok[OF assms(1)] enter_lift_ok[OF assms(1)] by auto
  qed
qed

lemma session_step_ok:
  assumes "session_step c s s'" "session_ok s" shows "session_ok s'"
  using assms(1)
proof cases
  case (admitted tool)
  from admitted show ?thesis by (rule admitE) (auto intro: tick_phase_ok assms(2))
next
  case (dispatched env ev r)
  then show ?thesis using dispatch_ok[OF assms(2)] by blast
next
  case declined
  then show ?thesis using assms(2) by (simp add: session_ok_def)
qed

interpretation phases: transition_system "\<lambda>s. \<exists>g. s = opened_session g" "session_step c" session_ok for c
  by unfold_locales (auto intro: opened_ok session_step_ok)

lemma reachable_steps: "reachable_session c s \<Longrightarrow> \<exists>g. (session_step c)\<^sup>*\<^sup>* (opened_session g) s"
  by (induction rule: reachable_session.induct) (auto intro: rtranclp.rtrancl_into_rtrancl)

lemma reachable_ok: "reachable_session c s \<Longrightarrow> session_ok s"
  using reachable_steps phases.reached_ok by blast

lemma reachable_phase_in_graph:
  assumes "session_ok s" shows "\<exists>p \<in> set (pg_nodes (current_graph s)). current_phase s = Inr p"
proof -
  have "pg_entry (graph_for g) \<in> set (pg_nodes (graph_for g)) \<and> {Triage, Lift} \<subseteq> set (pg_nodes (graph_for g))" for g
    by (cases g) (simp_all add: discover_graph_def map_graph_def execute_graph_def)
  then show ?thesis using session_ok_current[OF assms] assms
    by (auto simp: session_ok_def current_graph_def split: option.splits)
qed


section \<open>The tool catalog\<close>

definition defines_tool :: "tool_def list \<Rightarrow> string \<Rightarrow> (tool_def \<Rightarrow> bool) \<Rightarrow> bool" where
  "defines_tool registry tool P \<longleftrightarrow> (\<exists>d \<in> set registry. td_name d = tool \<and> P d)"

lemma catalog_fold:
  assumes "foldl catalog_tool (c0, i0) registry = (c, issues)"
  shows "tc_universal c = tc_universal c0 @ map td_name (List.filter (\<lambda>d. td_category d = Universal) registry) \<and>
    set (tc_allowed c) = set (tc_allowed c0) \<union>
      {(p, td_name d) | p d. d \<in> set registry \<and> phase_scoped d \<and> p \<in> set (admissible_phases d)} \<and>
    set (tc_exhausted c) = set (tc_exhausted c0) \<union>
      {(p, td_name d) | p d. d \<in> set registry \<and> phase_scoped d \<and> p \<in> set (admissible_phases d) \<and> p \<in> set (td_exhausted_in d)} \<and>
    (issues = [] \<longleftrightarrow> i0 = [] \<and> (\<forall>d \<in> set registry. if phase_scoped d
        then set (td_exhausted_in d) \<subseteq> set (admissible_phases d) \<and>
          set (td_extra_phases d) \<inter> set (category_phases (td_category d)) = {}
        else td_extra_phases d = [] \<and> td_exhausted_in d = []))"
  using assms
proof (induction registry arbitrary: c0 i0)
  case (Cons d ds)
  obtain c1 i1 where s: "catalog_tool (c0, i0) d = (c1, i1)" by fastforce
  with Cons.prems have f: "foldl catalog_tool (c1, i1) ds = (c, issues)" by simp
  note ih = Cons.IH[OF f]
  show ?case
  proof (cases "phase_scoped d")
    case True
    then have n: "td_category d \<noteq> Universal" by (simp add: phase_scoped_def)
    from True s have c1: "tc_universal c1 = tc_universal c0"
      "set (tc_allowed c1) = set (tc_allowed c0) \<union> {(p, td_name d) | p. p \<in> set (admissible_phases d)}"
      "set (tc_exhausted c1) = set (tc_exhausted c0) \<union>
        {(p, td_name d) | p. p \<in> set (admissible_phases d) \<and> p \<in> set (td_exhausted_in d)}"
      "i1 = [] \<longleftrightarrow> i0 = [] \<and> set (td_exhausted_in d) \<subseteq> set (admissible_phases d) \<and>
        set (td_extra_phases d) \<inter> set (category_phases (td_category d)) = {}"
      by (auto simp: catalog_tool_def Let_def filter_empty_conv)
    show ?thesis unfolding ih[THEN conjunct1] using ih True n c1 by auto
  next
    case False
    with s have c1: "tc_universal c1 = tc_universal c0 @ (if td_category d = Universal then [td_name d] else [])"
      "tc_allowed c1 = tc_allowed c0" "tc_exhausted c1 = tc_exhausted c0"
      "i1 = [] \<longleftrightarrow> i0 = [] \<and> td_extra_phases d = [] \<and> td_exhausted_in d = []"
      by (auto simp: catalog_tool_def split: if_split_asm)
    show ?thesis unfolding ih[THEN conjunct1] using ih False c1 by auto
  qed
qed auto

lemma derived_catalog:
  assumes "derive_catalog registry = Inr c"
  shows "is_universal c tool \<longleftrightarrow> defines_tool registry tool (\<lambda>d. td_category d = Universal)"
    "allowed_in c p tool \<longleftrightarrow> defines_tool registry tool (\<lambda>d. phase_scoped d \<and> p \<in> set (admissible_phases d))"
    "allowed_when_exhausted c p tool \<longleftrightarrow> defines_tool registry tool (\<lambda>d. phase_scoped d \<and> p \<in> set (td_exhausted_in d))"
    "\<forall>d \<in> set registry. phase_scoped d \<longrightarrow> set (td_exhausted_in d) \<subseteq> set (admissible_phases d)"
proof -
  obtain c' issues where f: "foldl catalog_tool (empty_catalog, []) registry = (c', issues)" by fastforce
  with assms have i: "issues = []" "c' = c" by (auto simp: derive_catalog_def split: if_split_asm)
  note k = catalog_fold[OF f, unfolded i, simplified empty_catalog_def, simplified]
  show u: "\<forall>d \<in> set registry. phase_scoped d \<longrightarrow> set (td_exhausted_in d) \<subseteq> set (admissible_phases d)" using k by auto
  show "is_universal c tool \<longleftrightarrow> defines_tool registry tool (\<lambda>d. td_category d = Universal)"
    "allowed_in c p tool \<longleftrightarrow> defines_tool registry tool (\<lambda>d. phase_scoped d \<and> p \<in> set (admissible_phases d))"
    using k by (auto simp: is_universal_def allowed_in_def defines_tool_def)
  show "allowed_when_exhausted c p tool \<longleftrightarrow> defines_tool registry tool (\<lambda>d. phase_scoped d \<and> p \<in> set (td_exhausted_in d))"
    unfolding allowed_when_exhausted_def defines_tool_def k[THEN conjunct2, THEN conjunct2, THEN conjunct1]
    using u by blast
qed

text \<open>
  The catalog derived from the tool definitions is their projection: a tool is admitted
  in exactly the phases of its category and its extra phases, stays admitted on an exhausted
  budget in exactly the phases it declares, every such phase is one it is admitted in, and a
  universal tool is exactly one of that category.
\<close>

theorem derived_catalog_is_projection:
  assumes "derive_catalog registry = Inr c"
  shows "(is_universal c tool \<longleftrightarrow> (\<exists>d \<in> set registry. td_name d = tool \<and> td_category d = Universal)) \<and>
    (allowed_in c p tool \<longleftrightarrow> (\<exists>d \<in> set registry. td_name d = tool \<and>
       (p \<in> set (category_phases (td_category d)) \<or> p \<in> set (td_extra_phases d)))) \<and>
    (allowed_when_exhausted c p tool \<longleftrightarrow> (\<exists>d \<in> set registry. td_name d = tool \<and> p \<in> set (td_exhausted_in d))) \<and>
    (allowed_when_exhausted c p tool \<longrightarrow> allowed_in c p tool)"
proof -
  obtain c' issues where f: "foldl catalog_tool (empty_catalog, []) registry = (c', issues)" by fastforce
  with assms have i: "issues = []" "c' = c" by (auto simp: derive_catalog_def split: if_split_asm)
  note k = catalog_fold[OF f, unfolded i, simplified empty_catalog_def, simplified]
  have scoped: "\<forall>d \<in> set registry. \<not> phase_scoped d \<longrightarrow> category_phases (td_category d) = [] \<and>
      td_extra_phases d = [] \<and> td_exhausted_in d = []"
    using k by (auto simp: phase_scoped_def)
  note d = derived_catalog[OF assms]
  have "allowed_in c p tool \<longleftrightarrow> (\<exists>d \<in> set registry. td_name d = tool \<and>
      (p \<in> set (category_phases (td_category d)) \<or> p \<in> set (td_extra_phases d)))"
    using scoped unfolding d(2) defines_tool_def admissible_phases_def by fastforce
  moreover have "allowed_when_exhausted c p tool \<longleftrightarrow> (\<exists>d \<in> set registry. td_name d = tool \<and> p \<in> set (td_exhausted_in d))"
    using scoped unfolding d(3) defines_tool_def by fastforce
  moreover have "allowed_when_exhausted c p tool \<longrightarrow> allowed_in c p tool"
    using d(4) unfolding d(2,3) defines_tool_def by blast
  ultimately show ?thesis using d(1) unfolding defines_tool_def by blast
qed

section \<open>Budgets\<close>

text \<open>A sequence of tool calls the middleware admits, with no transition in between.\<close>

definition admit_calls :: "tool_catalog \<Rightarrow> string list \<Rightarrow> phase_session \<Rightarrow> phase_error + phase_session option" where
  "admit_calls c tools s = foldR (\<lambda>m tool. admit_tool c tool m) (Some s) tools"

definition spends_round :: "tool_catalog \<Rightarrow> session_phase \<Rightarrow> string \<Rightarrow> bool" where
  "spends_round c p tool \<longleftrightarrow> \<not> is_universal c tool \<and> \<not> allowed_when_exhausted c p tool"

lemma admit_triage:
  assumes "admit_tool c tool (Some s) = Inr m" "ss_phase s = Some Triage" "ss_triage s = Some b" "book_ok b"
    and "ss_status s = Some Status_Active"
  obtains s' b' where "m = Some s'" "ss_phase s' = Some Triage" "ss_status s' = Some Status_Active" "ss_triage s' = Some b'"
    "book_ok b'" "pb_budget b' = pb_budget b" "pb_rounds b \<le> pb_rounds b'"
    "spends_round c Triage tool \<Longrightarrow> pb_rounds b' = pb_rounds b + 1 \<and> (0 < pb_budget b \<longrightarrow> pb_rounds b < pb_budget b)"
proof (cases "is_universal c tool")
  case True
  then show ?thesis using assms that by (auto simp: admit_tool_def spends_round_def)
next
  case False
  have ph: "current_phase s = Inr Triage" by (simp add: current_phase_def assms(2))
  from assms(1) False have adm: "check_admissibility c s tool = Inr ()" "m = Some (tick_phase Triage s)"
    by (auto simp: admit_tool_def tick_phase_counter_def bindR_Inr_iff ph split: if_split_asm)
  then have "pb_soft_block b \<longrightarrow> allowed_when_exhausted c Triage tool"
    using False assms(5) assms(3) ph
    by (auto simp: check_admissibility_def check_phase_admissibility_def soft_blocked_def phase_state_def
      phase_book.truncate_def split: if_split_asm)
  then have "spends_round c Triage tool \<Longrightarrow> 0 < pb_budget b \<longrightarrow> pb_rounds b < pb_budget b"
    using assms(4) by (auto simp: book_ok_def spends_round_def)
  then show ?thesis using adm assms(2-5) tick_book_ok[OF assms(4)]
    by (intro that[of "tick_phase Triage s" "tick_book b"]) (auto simp: tick_phase_def tick_book_rounds)
qed

lemma admit_calls_triage:
  assumes "admit_calls c tools s = Inr m" "ss_phase s = Some Triage" "ss_triage s = Some b" "book_ok b"
    and "ss_status s = Some Status_Active" "0 < pb_budget b"
  shows "int (length (List.filter (spends_round c Triage) tools)) \<le> max 0 (pb_budget b - pb_rounds b)"
  using assms
proof (induction tools arbitrary: s b)
  case (Cons tool tools)
  from Cons.prems(1) obtain m1 where m: "admit_tool c tool (Some s) = Inr m1"
    "foldR (\<lambda>m tool. admit_tool c tool m) m1 tools = Inr m" by (auto simp: admit_calls_def bindR_Inr_iff)
  from m(1) Cons.prems(2-5) obtain s' b' where s': "m1 = Some s'" "ss_phase s' = Some Triage"
    "ss_status s' = Some Status_Active" "ss_triage s' = Some b'" "book_ok b'" "pb_budget b' = pb_budget b"
    "pb_rounds b \<le> pb_rounds b'"
    "spends_round c Triage tool \<Longrightarrow> pb_rounds b' = pb_rounds b + 1 \<and> (0 < pb_budget b \<longrightarrow> pb_rounds b < pb_budget b)"
    by (rule admit_triage) blast
  have "admit_calls c tools s' = Inr m" using m(2) s'(1) by (simp add: admit_calls_def)
  from Cons.IH[OF this s'(2,4,5,3)] Cons.prems(6) s'(6)
  have "int (length (List.filter (spends_round c Triage) tools)) \<le> max 0 (pb_budget b - pb_rounds b')" by simp
  then show ?case using s'(7,8) Cons.prems(6) by (cases "spends_round c Triage tool") auto
qed simp

text \<open>
  The round budget of triage binds: in a reachable active session in triage with a
  positive budget, however many tool calls are admitted before the next transition, at most
  as many of them as rounds are left are calls the budget blocks once it is exhausted.
\<close>

theorem triage_budget_bounds_calls:
  assumes "reachable_session c s" "ss_phase s = Some Triage" "ss_triage s = Some b" "ss_status s = Some Status_Active"
    and "0 < pb_budget b" "admit_calls c tools s = Inr m"
  shows "int (length (List.filter (spends_round c Triage) tools)) \<le> max 0 (pb_budget b - pb_rounds b)"
proof -
  have "book_ok b" using reachable_ok[OF assms(1)] assms(3) by (simp add: session_ok_def)
  then show ?thesis by (rule admit_calls_triage[OF assms(6,2,3) _ assms(4,5)])
qed

text \<open>The two ways out that are admitted on an exhausted budget.\<close>

definition abort_session_tool :: tool_def where
  "abort_session_tool = \<lparr>td_name = ''abort_session'', td_category = Escape_Valve, td_extra_phases = [],
     td_exhausted_in = [Drive, Triage, Lift]\<rparr>"

definition end_drive_def_tool :: tool_def where
  "end_drive_def_tool = \<lparr>td_name = end_drive_tool, td_category = Drive_Active, td_extra_phases = [Lift, Execute],
     td_exhausted_in = [Drive, Lift, Execute]\<rparr>"


section \<open>Tools as transitions\<close>

text \<open>One operation of a tool on a session.\<close>

inductive tool_step :: "tool_catalog \<Rightarrow> phase_session \<Rightarrow> phase_session \<Rightarrow> bool" for c where
  call: "admit_tool c tool (Some s) = Inr (Some s') \<Longrightarrow> tool_step c s s'"
| plan: "submit_triage_plan env accepted s = (s', r) \<Longrightarrow> tool_step c s s'"
| handoff: "drive_to_triage_handoff env s = s' \<Longrightarrow> tool_step c s s'"
| lift: "lift_observed_capability env has_platform observed s = Inr s' \<Longrightarrow> tool_step c s s'"
| surface: "maybe_fire_surface_changed env parse url (s, su) = ((s', su'), r) \<Longrightarrow> tool_step c s s'"
| executed: "ss_phase s = None \<Longrightarrow> dispatch_execute_outcome env report s = Inr s' \<Longrightarrow> tool_step c s s'"

inductive_cases tool_stepE: "tool_step c s s'"

abbreviation steps :: "tool_catalog \<Rightarrow> phase_session \<Rightarrow> phase_session \<Rightarrow> bool" where
  "steps c \<equiv> (session_step c)\<^sup>*\<^sup>*"

lemma dispatch_steps: "dispatch env ev s = Inr (s', r) \<Longrightarrow> steps c s s'"
  by (blast intro: dispatched)

lemma submit_steps:
  assumes "submit_triage_plan env accepted s = (s', r)" shows "steps c s s'"
proof (cases "current_phase s")
  case (Inr p)
  show ?thesis
  proof (cases "p = Triage \<or> p = Lift")
    case True
    show ?thesis
    proof (cases "dispatch env \<lparr>pe_kind = Plan_Submitted, pe_payload = None\<rparr> s")
      case (Inl e)
      then show ?thesis using assms Inr True by (auto simp: submit_triage_plan_def)
    next
      case d1: (Inr x)
      obtain s1 r1 where x: "x = (s1, r1)" by fastforce
      have st: "steps c s s1" using d1 x dispatch_steps by blast
      show ?thesis
      proof (cases "dispatch env \<lparr>pe_kind = Plan_Handoff, pe_payload = None\<rparr> s1")
        case (Inl e)
        then have "s' = s1" using assms Inr True d1 x by (auto simp: submit_triage_plan_def split: if_split_asm)
        then show ?thesis using st by simp
      next
        case d2: (Inr y)
        then have "s' = s1 \<or> s' = fst y" using assms Inr True d1 x
          by (auto simp: submit_triage_plan_def split: if_split_asm prod.split_asm)
        moreover have "steps c s1 (fst y)" using d2 dispatch_steps[of env _ s1 "fst y" "snd y"] by simp
        ultimately show ?thesis using st by (auto intro: rtranclp_trans)
      qed
    qed
  next
    case False
    then show ?thesis using assms Inr by (simp add: submit_triage_plan_def)
  qed
qed (use assms in \<open>simp add: submit_triage_plan_def\<close>)

lemma bind_fst_steps: "bindR (dispatch env ev s) (\<lambda>x. Inr (fst x)) = Inr s' \<Longrightarrow> steps c s s'"
  by (auto simp: bindR_Inr_iff dest: dispatch_steps)

lemma handoff_steps: "steps c s (drive_to_triage_handoff env s)"
  by (auto simp: drive_to_triage_handoff_def intro: dispatch_steps split: sum.split session_phase.split prod.split)

lemma outcome_steps:
  assumes "dispatch_execute_outcome env report s = Inr s'" "ss_phase s = None" shows "steps c s s'"
  using assms by (auto simp: dispatch_execute_outcome_def Let_def
    split: if_split_asm option.split_asm prod.split_asm dest: bind_fst_steps intro: r_into_rtranclp declined)

lemma tool_step_steps: "tool_step c s s' \<Longrightarrow> steps c s s'"
proof (erule tool_stepE)
  show "lift_observed_capability env has_platform observed s = Inr s' \<Longrightarrow> steps c s s'" for env has_platform observed
    by (auto simp: lift_observed_capability_def bindR_Inr_iff ensureR_Inr_iff dest: dispatch_steps)
  show "maybe_fire_surface_changed env parse url (s, su) = ((s', su'), r) \<Longrightarrow> steps c s s'" for env parse url su su' r
    by (auto simp: maybe_fire_surface_changed_def Let_def split: if_split_asm sum.split_asm dest: dispatch_steps)
qed (auto intro: submit_steps handoff_steps outcome_steps admitted)

inductive driven_session :: "tool_catalog \<Rightarrow> phase_session \<Rightarrow> bool" for c where
  driven_open: "driven_session c (opened_session g)"
| driven_step: "driven_session c s \<Longrightarrow> tool_step c s s' \<Longrightarrow> driven_session c s'"

lemma steps_reachable: "steps c s s' \<Longrightarrow> reachable_session c s \<Longrightarrow> reachable_session c s'"
  by (induction rule: rtranclp_induct) (auto intro: stepped)


section \<open>Budgets that do not bind\<close>

text \<open>
  No transition leads to drive and no session opens with its bookkeeping, so
  \<open>drive.max_rounds\<close> has no effect: no call is ever counted or blocked in drive.
\<close>

theorem drive_budget_never_engages:
  assumes "reachable_session c s" "current_phase s = Inr Drive" "ss_status s = Some Status_Active" "allowed_in c Drive tool"
  shows "ss_drive s = None \<and> admit_tool c tool (Some s) = Inr (Some s)"
proof -
  have "ss_drive s = None" using reachable_ok[OF assms(1)] by (simp add: session_ok_def)
  then show ?thesis using assms
    by (simp add: admit_tool_def check_admissibility_def check_phase_admissibility_def soft_blocked_def phase_state_def
      tick_phase_counter_def tick_phase_def)
qed

lemma edge_events: "t \<in> set (pg_transitions (graph_for g)) \<Longrightarrow>
    (gt_to t = To_Phase Lift \<longrightarrow> gt_on t = Plan_Handoff) \<and> (gt_on t = Plan_Submitted \<longrightarrow> gt_to t = To_Phase Triage) \<and>
    (gt_on t = Plan_Handoff \<longrightarrow> gt_to t = To_Phase Lift)"
  by (cases g) (auto simp: discover_graph_def map_graph_def execute_graph_def)

lemma dispatch_effect:
  assumes "dispatch env ev s = Inr (s', r)"
  shows "pe_kind ev \<noteq> Plan_Handoff \<Longrightarrow> ss_lift s' = ss_lift s"
    "pe_kind ev = Plan_Submitted \<Longrightarrow> \<exists>b. ss_triage s' = Some b \<and> tb_triggered_by b = Some Plan_Submitted"
    "pe_kind ev = Plan_Handoff \<Longrightarrow> s' = enter_lift env (s\<lparr>ss_phase := Some Lift\<rparr>)"
proof -
  from assms obtain p to where d: "resolve_destination env s p ev = Some to"
    "s' = apply_destination env s to (Some (pe_kind ev))" by (rule dispatchE)
  from resolve_edge[OF d(1)] obtain t where t: "t \<in> set (pg_transitions (current_graph s))" "gt_on t = pe_kind ev" "gt_to t = to" by blast
  note e = graph_edges[OF t(1)[unfolded current_graph_def]] edge_events[OF t(1)[unfolded current_graph_def]]
  show "pe_kind ev \<noteq> Plan_Handoff \<Longrightarrow> ss_lift s' = ss_lift s"
    using e t d(2) by (auto simp: apply_destination_def on_enter_def enter_triage_def split: target.splits)
  show "pe_kind ev = Plan_Submitted \<Longrightarrow> \<exists>b. ss_triage s' = Some b \<and> tb_triggered_by b = Some Plan_Submitted"
    "pe_kind ev = Plan_Handoff \<Longrightarrow> s' = enter_lift env (s\<lparr>ss_phase := Some Lift\<rparr>)"
    using e t d(2) by (auto simp: apply_destination_def on_enter_def enter_triage_def)
qed

lemma bind_fst_lift: "bindR (dispatch env ev s) (\<lambda>x. Inr (fst x)) = Inr s' \<Longrightarrow> pe_kind ev \<noteq> Plan_Handoff \<Longrightarrow> ss_lift s' = ss_lift s"
  using dispatch_effect(1) by (fastforce simp: bindR_Inr_iff)

definition lift_kept :: "phase_book option \<Rightarrow> phase_book option \<Rightarrow> bool" where
  "lift_kept m m' \<longleftrightarrow> (\<forall>b. m = Some b \<longrightarrow> (\<exists>b'. m' = Some b' \<and> pb_rounds b \<le> pb_rounds b' \<and> (pb_soft_block b \<longrightarrow> pb_soft_block b')))"

lemma lift_kept_refl: "lift_kept m m"
  by (simp add: lift_kept_def)

lemma submit_keeps_lift:
  assumes "submit_triage_plan env accepted s = (s', r)" shows "lift_kept (ss_lift s) (ss_lift s')"
proof (cases "dispatch env \<lparr>pe_kind = Plan_Submitted, pe_payload = None\<rparr> s")
  case (Inl e)
  then show ?thesis using assms by (auto simp: submit_triage_plan_def lift_kept_refl split: sum.split_asm if_split_asm)
next
  case d1: (Inr x)
  obtain s1 r1 where x: "x = (s1, r1)" by fastforce
  from d1 x dispatch_effect[of env _ s s1 r1] obtain b where b: "ss_lift s1 = ss_lift s" "ss_triage s1 = Some b"
    "tb_triggered_by b = Some Plan_Submitted" by force
  show ?thesis
  proof (cases "dispatch env \<lparr>pe_kind = Plan_Handoff, pe_payload = None\<rparr> s1")
    case (Inl e)
    then have "s' = s \<or> s' = s1" using assms d1 x by (auto simp: submit_triage_plan_def split: sum.split_asm if_split_asm)
    then show ?thesis using b by (auto simp: lift_kept_refl)
  next
    case d2: (Inr y)
    then have "s' = s \<or> s' = s1 \<or> s' = fst y" using assms d1 x
      by (auto simp: submit_triage_plan_def split: sum.split_asm if_split_asm prod.split_asm)
    moreover have "fst y = enter_lift env (s1\<lparr>ss_phase := Some Lift\<rparr>)"
      using d2 dispatch_effect(3)[of env _ s1 "fst y" "snd y"] by simp
    ultimately show ?thesis using b
      by (auto simp: lift_kept_refl enter_lift_def lift_kept_def Let_def split: option.split)
  qed
qed

text \<open>
  A fresh lift budget for a new surface never comes about: a plan is submitted before every
  hand-over, which makes \<open>plan_submitted\<close> the last trigger of triage, so once a session has
  been in lift its rounds and its soft block outlive every surface change.
\<close>

theorem lift_rounds_outlive_surfaces:
  assumes "tool_step c s s'" "ss_lift s = Some b"
  shows "\<exists>b'. ss_lift s' = Some b' \<and> pb_rounds b \<le> pb_rounds b' \<and> (pb_soft_block b \<longrightarrow> pb_soft_block b')"
proof -
  have "lift_kept (ss_lift s) (ss_lift s')"
    using assms(1)
  proof cases
    case (call tool)
    then show ?thesis
      by (rule admitE) (auto simp: tick_phase_def lift_kept_def tick_book_rounds tick_book_def Let_def split: session_phase.split)
  next
    case plan
    then show ?thesis using submit_keeps_lift by blast
  next
    case (handoff env)
    then show ?thesis using dispatch_effect(1)[of env _ s]
      by (auto simp: drive_to_triage_handoff_def lift_kept_refl split: sum.splits session_phase.splits prod.splits)
  next
    case (lift env has_platform observed)
    then have "ss_lift s' = ss_lift s"
      by (auto simp: lift_observed_capability_def bindR_Inr_iff[of "current_phase s"] ensureR_Inr_iff dest: bind_fst_lift)
    then show ?thesis by (simp add: lift_kept_refl)
  next
    case (surface env parse url su su' r)
    then show ?thesis using dispatch_effect(1)[of env _ s]
      by (auto simp: maybe_fire_surface_changed_def Let_def lift_kept_refl split: if_split_asm sum.split_asm)
  next
    case (executed env report)
    then have "ss_lift s' = ss_lift s"
      by (simp add: dispatch_execute_outcome_def Let_def split: if_split_asm option.split_asm prod.split_asm)
        (auto dest: bind_fst_lift)
    then show ?thesis by (simp add: lift_kept_refl)
  qed
  then show ?thesis using assms(2) by (auto simp: lift_kept_def)
qed

section \<open>Surfaces\<close>

lemma lookup_by_map: "su_map su = su_map su' \<Longrightarrow> lookup_surface parse su url = lookup_surface parse su' url"
  unfolding lookup_surface_def by (simp only:)

lemma lookup_by_key: "url_key parse url = url_key parse bound \<Longrightarrow> lookup_surface parse su url = lookup_surface parse su bound"
  by (simp add: lookup_surface_def)

text \<open>
  A plan settles its surface: once a plan has been bound to a set of URLs, navigating
  to any of them keeps a reachable session where it is, without an error, whatever the
  query or fragment of the URL; and the check never fails on a reachable session.
\<close>

theorem bound_surface_never_retriaged:
  assumes "reachable_session c s" "bound \<in> set urls" "url_key parse url = url_key parse bound" "url_key parse bound \<noteq> None"
  shows "\<exists>su'. maybe_fire_surface_changed env parse url (s, bind_urls_to_surface parse label urls su) = ((s, su'), Inr False) \<and>
    lookup_surface parse su' url = Some label"
proof -
  obtain p where p: "current_phase s = Inr p" using reachable_phase_in_graph[OF reachable_ok[OF assms(1)]] by blast
  let ?su = "bind_urls_to_surface parse label urls su"
  have l: "lookup_surface parse (?su\<lparr>su_last_url := x\<rparr>) url = Some label" "lookup_surface parse (?su\<lparr>su_last_url := x, su_mutated := False\<rparr>) url = Some label"
    "lookup_surface parse ?su url = Some label" for x
    using bound_lookup[OF assms(2,4), of label su] assms(3)
      lookup_by_map[of ?su "?su\<lparr>su_last_url := x\<rparr>"] lookup_by_map[of ?su "?su\<lparr>su_last_url := x, su_mutated := False\<rparr>"]
    by (simp_all add: lookup_by_key[OF assms(3)])
  show ?thesis using p l by (cases "url = []") (auto simp: maybe_fire_surface_changed_def Let_def)
qed

section \<open>A concrete session\<close>

definition reading_tool :: tool_def where
  "reading_tool = \<lparr>td_name = ''get_a11y_tree'', td_category = Read_Only_Diagnostic, td_extra_phases = [], td_exhausted_in = []\<rparr>"

definition small_registry :: "tool_def list" where
  "small_registry = [reading_tool, abort_session_tool, end_drive_def_tool]"

definition small_catalog :: tool_catalog where
  "small_catalog = (case derive_catalog small_registry of Inr c \<Rightarrow> c | Inl _ \<Rightarrow> empty_catalog)"

definition small_env :: phase_env where
  "small_env = \<lparr>env_config = \<lparr>drive_max_rounds = 0, triage_max_rounds = 2, lift_max_rounds = 0, rediscover_threshold = 0\<rparr>,
     env_now = 5, env_worst_rate = (\<lambda>_ _. None)\<rparr>"

lemmas small_defs = small_registry_def reading_tool_def abort_session_tool_def end_drive_def_tool_def end_drive_tool_def

lemma small_derived: "derive_catalog small_registry = Inr small_catalog"
proof -
  have "case derive_catalog small_registry of Inr c \<Rightarrow> True | Inl _ \<Rightarrow> False"
    by (simp add: derive_catalog_def small_defs catalog_tool_def empty_catalog_def phase_scoped_def admissible_phases_def)
  then show ?thesis by (auto simp: small_catalog_def split: sum.splits)
qed

definition triage_session :: phase_session where
  "triage_session = enter_triage small_env (Some End_Drive_Unresolved) ((opened_session Discover_Graph)\<lparr>ss_phase := Some Triage\<rparr>)"

lemma triage_session_step: "session_step c (opened_session Discover_Graph) triage_session"
proof -
  have "dispatch small_env \<lparr>pe_kind = End_Drive_Unresolved, pe_payload = None\<rparr> (opened_session Discover_Graph) =
      Inr (triage_session, \<lparr>tr_from = Drive, tr_to = To_Phase Triage, tr_event = Some End_Drive_Unresolved, tr_at = 5\<rparr>)"
    by (simp add: dispatch_def current_phase_def opened_session_def current_graph_def discover_graph_def session_phases_def
      has_book_def resolve_destination_def apply_destination_def on_enter_def triage_session_def small_env_def)
  then show ?thesis by (rule dispatched)
qed

lemma triage_session_reachable: "reachable_session c triage_session"
  by (rule stepped[OF opened triage_session_step])

lemma triage_session_simps: "ss_phase triage_session = Some Triage" "ss_status triage_session = Some Status_Active"
  "\<exists>b. ss_triage triage_session = Some b \<and> pb_budget b = 2 \<and> pb_rounds b = 0 \<and> \<not> pb_soft_block b"
  by (simp_all add: triage_session_def enter_triage_def opened_session_def small_env_def)


lemma small_catalog_tools: "allowed_in small_catalog Triage ''get_a11y_tree''" "\<not> is_universal small_catalog ''get_a11y_tree''"
  "\<not> allowed_when_exhausted small_catalog Triage ''get_a11y_tree''"
  using derived_catalog(1,2,3)[OF small_derived]
  by (auto simp: defines_tool_def small_defs phase_scoped_def admissible_phases_def)

theorem derived_catalog_is_projection_witness:
  "derive_catalog small_registry = Inr small_catalog \<and> allowed_in small_catalog Triage ''abort_session''"
  using small_derived derived_catalog_is_projection[OF small_derived, of "''abort_session''" Triage]
  by (simp add: small_defs)

lemma two_reads: "\<exists>s. admit_calls small_catalog [''get_a11y_tree'', ''get_a11y_tree''] triage_session = Inr (Some s)"
proof -
  obtain b where b: "ss_triage triage_session = Some b" "pb_budget b = 2" "pb_rounds b = 0" "\<not> pb_soft_block b"
    using triage_session_simps(3) by blast
  have one: "admit_tool small_catalog ''get_a11y_tree'' (Some s) = Inr (Some (tick_phase Triage s))"
    if "ss_phase s = Some Triage" "ss_status s = Some Status_Active" "ss_triage s = Some b'" "\<not> pb_soft_block b'" for s b'
    using that small_catalog_tools
    by (simp add: admit_tool_def check_admissibility_def check_phase_admissibility_def tick_phase_counter_def
      current_phase_def soft_blocked_def phase_state_def phase_book.truncate_def end_drive_tool_def)
  have "ss_triage (tick_phase Triage triage_session) = Some (tick_book b)" "\<not> pb_soft_block (tick_book b)"
    "ss_phase (tick_phase Triage triage_session) = Some Triage"
    "ss_status (tick_phase Triage triage_session) = Some Status_Active"
    using b triage_session_simps by (simp_all add: tick_phase_def tick_book_def Let_def)
  with one[OF triage_session_simps(1,2) b(1,4)] one show ?thesis by (simp add: admit_calls_def)
qed

theorem triage_budget_bounds_calls_witness:
  "\<exists>s b. admit_calls small_catalog [''get_a11y_tree'', ''get_a11y_tree''] triage_session = Inr (Some s) \<and>
    ss_triage triage_session = Some b \<and>
    int (length (List.filter (spends_round small_catalog Triage) [''get_a11y_tree'', ''get_a11y_tree''])) \<le> max 0 (pb_budget b - pb_rounds b)"
proof -
  obtain b where b: "ss_triage triage_session = Some b" "0 < pb_budget b" using triage_session_simps(3) by auto
  obtain s where s: "admit_calls small_catalog [''get_a11y_tree'', ''get_a11y_tree''] triage_session = Inr (Some s)"
    using two_reads by blast
  show ?thesis
    using triage_budget_bounds_calls[OF triage_session_reachable triage_session_simps(1) b(1) triage_session_simps(2) b(2) s] b s
    by blast
qed



definition plain_parser :: url_parser where
  "plain_parser raw = (if take 4 raw = ''http'' then Some \<lparr>pu_protocol = ''http:'', pu_host = ''h'',
     pu_pathname = takeWhile (\<lambda>c. c \<noteq> CHR ''?'') (drop 4 raw), pu_origin = ''o''\<rparr> else None)"

theorem bound_surface_never_retriaged_witness:
  "\<exists>su'. maybe_fire_surface_changed small_env plain_parser ''http/cart?q=1''
      (triage_session, bind_urls_to_surface plain_parser ''cart'' [''http/cart''] \<lparr>su_map = [], su_last_url = None, su_mutated = True\<rparr>) =
    ((triage_session, su'), Inr False)"
proof -
  have "url_key plain_parser ''http/cart?q=1'' = url_key plain_parser ''http/cart''" "url_key plain_parser ''http/cart'' \<noteq> None"
    by (simp_all add: url_key_def plain_parser_def)
  then show ?thesis
    using bound_surface_never_retriaged[OF triage_session_reachable, of "''http/cart''" "[''http/cart'']" plain_parser "''http/cart?q=1''"]
    by fastforce
qed

end
