(* ===== verification/Json_Roundtrip.thy ===== *)
theory Json_Roundtrip 
  imports Json_Parse
begin

text \<open>
  The round trip of canonical JSON: the strict parser reads the canonical text of a value
  back as the value with the keys of its objects in order. Numbers first, then strings,
  then values by induction; a value is read correctly in any context that cannot extend a
  number, which is what follows a value inside an array or an object.
\<close>

section \<open>Numbers\<close>


lemma byte_char_of [simp]: "n < 256 \<Longrightarrow> byte (char_of (n::nat)) = n"
  by simp

lemma is_digit_char_of [simp]: "n < 10 \<Longrightarrow> is_digit (char_of (48 + n :: nat))"
  by (simp add: is_digit_def)

lemma digit_value_char_of [simp]: "n < 10 \<Longrightarrow> digit_value (char_of (48 + n :: nat)) = n"
  by (simp add: digit_value_def)

lemma digits_of_digits: "c \<in> set (digits_of n) \<Longrightarrow> is_digit c"
proof (induction n rule: digits_of.induct)
  case (1 n)
  show ?case
  proof (cases "n < 10")
    case True
    with 1 show ?thesis by (simp add: digits_of.simps[of n])
  next
    case False
    with 1 show ?thesis by (auto simp: digits_of.simps[of n])
  qed
qed

lemma digits_of_nonempty [simp]: "digits_of n \<noteq> []"
  by (subst digits_of.simps) simp

lemma digits_value_append:
  "digits_value (xs @ ys) = digits_value xs * 10 ^ length ys + digits_value ys"
proof (induction ys rule: rev_induct)
  case Nil
  then show ?case by (simp add: digits_value_def)
next
  case (snoc y ys)
  have "digits_value (xs @ ys @ [y]) = 10 * digits_value (xs @ ys) + digit_value y"
    by (simp add: digits_value_def)
  also have "\<dots> = digits_value xs * 10 ^ length (ys @ [y]) + (10 * digits_value ys + digit_value y)"
    using snoc by (simp add: algebra_simps)
  also have "10 * digits_value ys + digit_value y = digits_value (ys @ [y])"
    by (simp add: digits_value_def)
  finally show ?case .
qed

lemma digits_value_Nil [simp]: "digits_value [] = 0"
  by (simp add: digits_value_def)

lemma digits_value_single [simp]: "digits_value [c] = digit_value c"
  by (simp add: digits_value_def)

lemma digit_value_0 [simp]: "digit_value CHR ''0'' = 0"
  by (simp add: digit_value_def)

lemma is_digit_0 [simp]: "is_digit CHR ''0''"
  by (simp add: is_digit_def)

lemma digits_value_zeros [simp]: "digits_value (replicate n CHR ''0'') = 0"
  by (induction n) (simp_all add: digits_value_def)

lemma digits_value_digits_of [simp]: "digits_value (digits_of n) = n"
proof (induction n rule: digits_of.induct)
  case (1 n)
  show ?case
  proof (cases "n < 10")
    case True
    then show ?thesis by (simp add: digits_of.simps[of n])
  next
    case False
    with 1 show ?thesis by (simp add: digits_of.simps[of n] digits_value_append)
  qed
qed

lemma hd_digits_of: "n \<noteq> 0 \<Longrightarrow> hd (digits_of n) \<noteq> CHR ''0''"
proof (induction n rule: digits_of.induct)
  case (1 n)
  show ?case
  proof (cases "n < 10")
    case True
    have "char_of (48 + n) \<noteq> CHR ''0''"
    proof
      assume "char_of (48 + n) = CHR ''0''"
      then have "digit_value (char_of (48 + n)) = 0" by simp
      with True 1 show False by simp
    qed
    with True show ?thesis by (simp add: digits_of.simps[of n])
  next
    case False
    then have "n div 10 \<noteq> 0" by simp
    with 1 False show ?thesis by (simp add: digits_of.simps[of n])
  qed
qed

lemma strip_zeros_scaled:
  "d mod 10 \<noteq> 0 \<Longrightarrow> strip_zeros (d * 10 ^ j) e = (d, e + int j)"
proof (induction j arbitrary: e)
  case 0
  then show ?case by (simp add: strip_zeros.simps[of d])
next
  case (Suc j)
  then have "d * 10 ^ Suc j \<noteq> 0" by (cases d) auto
  moreover have "d * 10 ^ Suc j mod 10 = 0" "d * 10 ^ Suc j div 10 = d * 10 ^ j" by simp_all
  ultimately have "strip_zeros (d * 10 ^ Suc j) e = strip_zeros (d * 10 ^ j) (e + 1)"
    by (subst strip_zeros.simps) simp
  with Suc show ?case by simp
qed

lemma strip_zeros_result:
  "m \<noteq> 0 \<Longrightarrow> strip_zeros m e = (d, x) \<Longrightarrow> d mod 10 \<noteq> 0 \<and> e \<le> x \<and> m = d * 10 ^ nat (x - e)"
proof (induction m e rule: strip_zeros.induct)
  case (1 m e)
  show ?case
  proof (cases "m mod 10 = 0")
    case True
    with 1 have s: "strip_zeros (m div 10) (e + 1) = (d, x)"
      by (simp add: strip_zeros.simps[of m])
    have "m div 10 \<noteq> 0" using True 1(2) by auto
    with 1(1) 1(2) True s have r: "d mod 10 \<noteq> 0" "e + 1 \<le> x" "m div 10 = d * 10 ^ nat (x - (e + 1))"
      by auto
    have "m = 10 * (m div 10)" using True by auto
    also have "\<dots> = d * 10 ^ Suc (nat (x - (e + 1)))" using r(3) by simp
    also have "Suc (nat (x - (e + 1))) = nat (x - e)" using r(2) by simp
    finally show ?thesis using r by simp
  next
    case False
    with 1 show ?thesis by (simp add: strip_zeros.simps[of m])
  qed
qed

definition number_end :: "string \<Rightarrow> bool" where
  "number_end s \<longleftrightarrow> (case s of [] \<Rightarrow> True | c # _ \<Rightarrow>
     \<not> is_digit c \<and> c \<noteq> CHR ''.'' \<and> c \<noteq> CHR ''e'' \<and> c \<noteq> CHR ''E'')"

lemma takeWhile_digits:
  "\<forall>c \<in> set ds. is_digit c \<Longrightarrow> (r = [] \<or> \<not> is_digit (hd r)) \<Longrightarrow>
    takeWhile is_digit (ds @ r) = ds \<and> dropWhile is_digit (ds @ r) = r"
  by (cases r; induction ds) auto

lemma scan_integer_nonzero:
  "ds \<noteq> [] \<Longrightarrow> hd ds \<noteq> CHR ''0'' \<Longrightarrow> \<forall>c \<in> set ds. is_digit c \<Longrightarrow> r = [] \<or> \<not> is_digit (hd r) \<Longrightarrow>
    scan_integer (ds @ r) = Some (ds, r)"
  using takeWhile_digits[of ds r] by (cases ds) (auto simp: scan_integer_def)

lemma scan_integer_zero: "scan_integer (CHR ''0'' # r) = Some (''0'', r)"
  by (simp add: scan_integer_def)

lemma scan_fraction_some:
  "ds \<noteq> [] \<Longrightarrow> \<forall>c \<in> set ds. is_digit c \<Longrightarrow> r = [] \<or> \<not> is_digit (hd r) \<Longrightarrow>
    scan_fraction (CHR ''.'' # ds @ r) = (ds, r)"
  using takeWhile_digits[of ds r] by (simp add: scan_fraction_def)

lemma scan_fraction_none: "r = [] \<or> hd r \<noteq> CHR ''.'' \<Longrightarrow> scan_fraction r = ([], r)"
  by (cases r) (auto simp: scan_fraction_def)

lemma scan_exponent_none:
  "r = [] \<or> hd r \<noteq> CHR ''e'' \<and> hd r \<noteq> CHR ''E'' \<Longrightarrow> scan_exponent r = (0, r)"
  by (cases r) (auto simp: scan_exponent_def)

lemma digit_not_sign: "is_digit c \<Longrightarrow> c \<noteq> CHR ''-'' \<and> c \<noteq> CHR ''+'' \<and> c \<noteq> CHR ''.'' \<and> c \<noteq> CHR ''e'' \<and> c \<noteq> CHR ''E''"
  by (auto simp: is_digit_def)

lemma scan_exponent_some:
  assumes "number_end r"
  shows "scan_exponent (CHR ''e'' # (if 0 \<le> x then ''+'' else ''-'') @ digits_of (nat \<bar>x\<bar>) @ r) = (x, r)"
proof -
  have "r = [] \<or> \<not> is_digit (hd r)" using assms by (cases r) (auto simp: number_end_def)
  then have "takeWhile is_digit (digits_of (nat \<bar>x\<bar>) @ r) = digits_of (nat \<bar>x\<bar>)"
    "dropWhile is_digit (digits_of (nat \<bar>x\<bar>) @ r) = r"
    using takeWhile_digits[of "digits_of (nat \<bar>x\<bar>)" r] digits_of_digits by blast+
  then show ?thesis
    using digits_of_nonempty[of "nat \<bar>x\<bar>"] by (auto simp: scan_exponent_def Let_def simp del: digits_of_nonempty)
qed

lemma number_end_facts:
  assumes "number_end r"
  shows "r = [] \<or> \<not> is_digit (hd r)" "r = [] \<or> hd r \<noteq> CHR ''.''"
    "r = [] \<or> hd r \<noteq> CHR ''e'' \<and> hd r \<noteq> CHR ''E''"
  using assms by (cases r; auto simp: number_end_def)+

lemma scan_unsigned_decimal:
  assumes d: "d mod 10 \<noteq> 0" and r: "number_end r"
  shows "\<exists>m e. scan_unsigned (decimal_text d x @ r) = Some (m, e, r) \<and> m \<noteq> 0 \<and> strip_zeros m e = (d, x)"
proof -
  define ds where "ds = digits_of d"
  define k where "k = length ds"
  define n where "n = int k + x"
  have d0: "d \<noteq> 0" using d by (cases d) auto
  have ds: "ds \<noteq> []" "\<forall>c \<in> set ds. is_digit c" "hd ds \<noteq> CHR ''0''" "digits_value ds = d"
    using hd_digits_of[OF d0] digits_of_digits by (auto simp: ds_def)
  have k: "0 < k" using ds by (simp add: k_def)
  have sz: "strip_zeros d x = (d, x)" using strip_zeros_scaled[OF d, of 0 x] by simp
  note ends = number_end_facts[OF r]
  have dt: "decimal_text d x =
     (if int k \<le> n \<and> n \<le> 21 then ds @ replicate (nat (n - int k)) CHR ''0''
      else if 0 < n \<and> n \<le> 21 then take (nat n) ds @ ''.'' @ drop (nat n) ds
      else if - 6 < n \<and> n \<le> 0 then ''0.'' @ replicate (nat (- n)) CHR ''0'' @ ds
      else take 1 ds @ (if int k = 1 then '''' else ''.'' @ drop 1 ds) @ ''e'' @
        (if 0 \<le> n - 1 then ''+'' else ''-'') @ digits_of (nat \<bar>n - 1\<bar>))"
    by (simp only: decimal_text_def Let_def ds_def k_def n_def)
  consider (plain) "int k \<le> n" "n \<le> 21" | (point) "0 < n" "n < int k" "n \<le> 21"
    | (small) "- 6 < n" "n \<le> 0" | (expo) "\<not> (int k \<le> n \<and> n \<le> 21)" "\<not> (0 < n \<and> n \<le> 21)" "\<not> (- 6 < n \<and> n \<le> 0)"
    by linarith
  then show ?thesis
  proof cases
    case plain
    let ?ip = "ds @ replicate (nat (n - int k)) CHR ''0''"
    have "scan_integer (?ip @ r) = Some (?ip, r)"
      by (rule scan_integer_nonzero) (use ds ends in auto)
    then have "scan_unsigned (decimal_text d x @ r) = Some (d * 10 ^ nat x, 0, r)"
      using plain ends by (simp add: scan_unsigned_def dt scan_fraction_none scan_exponent_none
        digits_value_append ds n_def)
    moreover have "strip_zeros (d * 10 ^ nat x) 0 = (d, x)"
      using plain by (simp add: strip_zeros_scaled[OF d] n_def)
    ultimately show ?thesis using d0 by auto
  next
    case point
    let ?ip = "take (nat n) ds" and ?fp = "drop (nat n) ds"
    have ne: "?ip \<noteq> []" "?fp \<noteq> []" using point ds by (auto simp: k_def)
    have mem: "\<forall>c \<in> set ?ip. is_digit c" "\<forall>c \<in> set ?fp. is_digit c"
      using ds(2) by (auto dest: in_set_takeD in_set_dropD)
    have hd: "hd ?ip \<noteq> CHR ''0''" using ds point by (simp add: hd_take)
    have i: "scan_integer (?ip @ CHR ''.'' # ?fp @ r) = Some (?ip, CHR ''.'' # ?fp @ r)"
      by (rule scan_integer_nonzero) (use ne mem hd in \<open>auto simp: is_digit_def\<close>)
    have f: "scan_fraction (CHR ''.'' # ?fp @ r) = (?fp, r)"
      by (rule scan_fraction_some) (use ne mem ends in auto)
    have "digits_value (?ip @ ?fp) = d" using ds by simp
    then have "scan_unsigned (decimal_text d x @ r) = Some (d, x, r)"
      using point i f ends by (simp add: scan_unsigned_def dt scan_exponent_none n_def k_def)
    then show ?thesis using d0 sz by blast
  next
    case small
    let ?fp = "replicate (nat (- n)) CHR ''0'' @ ds"
    have f: "scan_fraction (CHR ''.'' # ?fp @ r) = (?fp, r)"
      by (rule scan_fraction_some) (use ds ends in auto)
    have dts: "decimal_text d x = ''0.'' @ ?fp" using small k by (simp add: dt)
    have nn: "int (nat (- n)) = - n" using small by simp
    have "digits_value (''0'' @ ?fp) = d"
      using ds by (simp only: digits_value_append digits_value_zeros) simp
    then have "scan_unsigned (decimal_text d x @ r) = Some (d, x, r)"
      using f ends dts nn by (simp add: scan_unsigned_def scan_integer_zero scan_exponent_none n_def k_def)
    then show ?thesis using d0 sz by blast
  next
    case expo
    let ?e = "CHR ''e'' # (if 0 \<le> n - 1 then ''+'' else ''-'') @ digits_of (nat \<bar>n - 1\<bar>) @ r"
    have t1: "take 1 ds = [hd ds]" using ds by (cases ds) auto
    have hdd: "is_digit (hd ds)" using ds by (cases ds) auto
    have e: "scan_exponent ?e = (n - 1, r)" by (rule scan_exponent_some[OF r])
    show ?thesis
    proof (cases "k = 1")
      case True
      then have one: "ds = [hd ds]" by (cases ds) (auto simp: k_def)
      have dtx: "decimal_text d x @ r = [hd ds] @ ?e"
        using expo True by (simp only: dt t1) simp
      have "scan_integer ([hd ds] @ ?e) = Some ([hd ds], ?e)"
        by (rule scan_integer_nonzero) (use ds hdd in \<open>auto simp: is_digit_def\<close>)
      moreover have "scan_fraction ?e = ([], ?e)" by (rule scan_fraction_none) simp
      moreover have "digit_value (hd ds) = d" using ds one digits_value_single by metis
      ultimately have "scan_unsigned (decimal_text d x @ r) = Some (d, x, r)"
        using e True by (simp only: scan_unsigned_def dtx) (simp add: n_def)
      then show ?thesis using d0 sz by blast
    next
      case False
      let ?fp = "drop 1 ds"
      have fne: "?fp \<noteq> []" using False k unfolding k_def by (cases ds) auto
      have mem: "\<forall>c \<in> set ?fp. is_digit c" using ds(2) by (auto dest: in_set_dropD)
      have dtx: "decimal_text d x @ r = [hd ds] @ CHR ''.'' # ?fp @ ?e"
        using expo False by (simp only: dt t1) simp
      have "scan_integer ([hd ds] @ CHR ''.'' # ?fp @ ?e) = Some ([hd ds], CHR ''.'' # ?fp @ ?e)"
        by (rule scan_integer_nonzero) (use ds hdd in \<open>auto simp: is_digit_def\<close>)
      moreover have "scan_fraction (CHR ''.'' # ?fp @ ?e) = (?fp, ?e)"
        by (rule scan_fraction_some) (use fne mem in \<open>auto simp: is_digit_def\<close>)
      moreover have "digits_value ([hd ds] @ ?fp) = d"
        using ds by (metis append_take_drop_id t1)
      moreover have "int (length ?fp) = int k - 1" using k unfolding k_def by (cases ds) auto
      ultimately have "scan_unsigned (decimal_text d x @ r) = Some (d, x, r)"
        using e by (simp only: scan_unsigned_def dtx) (simp add: n_def)
      then show ?thesis using d0 sz by blast
    qed
  qed
qed

lemma decimal_text_hd: "decimal_text d x \<noteq> [] \<and> is_digit (hd (decimal_text d x))"
proof -
  have h: "is_digit (hd (digits_of d))" using digits_of_digits[of "hd (digits_of d)" d] by simp
  obtain c cs where c: "digits_of d = c # cs" by (cases "digits_of d") auto
  with h have "is_digit c" by simp
  then show ?thesis
    by (simp add: decimal_text_def Let_def c take_Cons' )
qed

fun num_wf :: "jsnum \<Rightarrow> bool" where
  "num_wf (NInt i) = (\<bar>i\<bar> < 2 ^ 1024 - 2 ^ 970)"
| "num_wf (NDec m k) = (0 < k \<and> m mod 10 \<noteq> 0)"
| "num_wf NNonFinite = False"

lemma scan_signed:
  assumes "d mod 10 \<noteq> 0" and "number_end r"
  shows "scan_number ((if neg then ''-'' else '''') @ decimal_text d x @ r) =
    Some (let s = (if neg then - int d else int d) in
         if 0 \<le> x then
           (if \<bar>s * 10 ^ nat x\<bar> < 2 ^ 1024 - 2 ^ 970 then NInt (s * 10 ^ nat x) else NNonFinite)
         else NDec s (nat (- x)), r)"
proof -
  obtain m e where u: "scan_unsigned (decimal_text d x @ r) = Some (m, e, r)" "m \<noteq> 0"
    "strip_zeros m e = (d, x)"
    using scan_unsigned_decimal[OF assms] by blast
  have "hd (decimal_text d x @ r) \<noteq> CHR ''-''" "decimal_text d x @ r \<noteq> []"
    using decimal_text_hd[of d x] by (auto simp: hd_append is_digit_def)
  then have "\<not> (case decimal_text d x @ r of c # _ \<Rightarrow> c = CHR ''-'' | [] \<Rightarrow> False)"
    by (cases "decimal_text d x @ r") auto
  then show ?thesis
    using u by (cases neg) (simp_all add: scan_number_def normal_number_def Let_def)
qed

lemma mod10_abs: "nat \<bar>m\<bar> mod 10 \<noteq> 0 \<longleftrightarrow> (m::int) mod 10 \<noteq> 0"
proof -
  have "nat \<bar>m\<bar> mod 10 \<noteq> 0 \<longleftrightarrow> \<not> 10 dvd nat \<bar>m\<bar>" by (simp add: dvd_eq_mod_eq_0)
  also have "\<dots> \<longleftrightarrow> \<not> 10 dvd m" using nat_abs_dvd_iff[of m 10] by (metis abs_dvd_iff dvd_abs_iff int_dvd_int_iff nat_0_le abs_ge_zero of_nat_numeral)
  finally show ?thesis by (simp add: dvd_eq_mod_eq_0)
qed

lemma scan_number_text:
  assumes "num_wf n" and r: "number_end r"
  shows "scan_number (num_text n @ r) = Some (n, r)"
proof (cases n)
  case (NInt i)
  show ?thesis
  proof (cases "i = 0")
    case True
    have "scan_unsigned (''0'' @ r) = Some (0, 0, r)"
      using number_end_facts[OF r]
      by (simp add: scan_unsigned_def scan_integer_zero scan_fraction_none scan_exponent_none)
    then show ?thesis using NInt True by (simp add: scan_number_def normal_number_def)
  next
    case False
    obtain d x where dx: "strip_zeros (nat \<bar>i\<bar>) 0 = (d, x)" by fastforce
    then have s: "d mod 10 \<noteq> 0" "0 \<le> x" "nat \<bar>i\<bar> = d * 10 ^ nat x"
      using strip_zeros_result[OF _ dx] False by auto
    have "\<bar>i\<bar> = int d * 10 ^ nat x"
      using s(3) by (metis abs_ge_zero nat_0_le of_nat_mult of_nat_numeral of_nat_power)
    then have "i = (if i < 0 then - int d else int d) * 10 ^ nat x" by (cases "i < 0") simp_all
    then show ?thesis
      using scan_signed[OF s(1) r, of "i < 0" x] assms NInt False s(2) dx
      by (simp add: signed_text_def Let_def)
  qed
next
  case (NDec m k)
  then have m: "m mod 10 \<noteq> 0" "0 < k" using assms by simp_all
  then have s: "nat \<bar>m\<bar> mod 10 \<noteq> 0" using mod10_abs[of m] by blast
  have "strip_zeros (nat \<bar>m\<bar>) (- int k) = (nat \<bar>m\<bar>, - int k)"
    using strip_zeros_scaled[OF s, of 0] by simp
  moreover have "(if m < 0 then - int (nat \<bar>m\<bar>) else int (nat \<bar>m\<bar>)) = m" by simp
  ultimately show ?thesis
    using scan_signed[OF s r, of "m < 0" "- int k"] NDec m by (simp add: signed_text_def Let_def)
next
  case NNonFinite
  then show ?thesis using assms by simp
qed

section \<open>Strings\<close>

lemma hex_value_hex_digit [simp]: "k < 16 \<Longrightarrow> hex_value (hex_digit k) = Some k"
  by (auto simp: hex_value_def hex_digit_def is_digit_def digit_value_def)

lemma hex4_control: "n < 32 \<Longrightarrow> hex4 CHR ''0'' CHR ''0'' (hex_digit (n div 16)) (hex_digit (n mod 16)) = Some n"
  by (simp add: hex4_def hex_value_def[of "CHR ''0''"])

lemma char_of_byte_eq: "byte c = n \<Longrightarrow> c = char_of n"
  by auto

lemma char_of_34: "char_of (34::nat) = CHR 0x22"
  by (rule of_char_eqI[where 'a = nat]) simp

lemma char_of_92: "char_of (92::nat) = CHR 0x5C"
  by (rule of_char_eqI[where 'a = nat]) simp

lemma scan_string_escape:
  "scan_string (escape_char c @ s) = map_option (\<lambda>(t, r). (c # t, r)) (scan_string s)"
proof -
  consider "byte c = 34" | "byte c = 92" | "byte c = 8" | "byte c = 9" | "byte c = 10"
    | "byte c = 12" | "byte c = 13" | (ctl) "byte c < 32" "byte c \<noteq> 8" "byte c \<noteq> 9" "byte c \<noteq> 10" "byte c \<noteq> 12" "byte c \<noteq> 13"
    | (plain) "32 \<le> byte c" "byte c \<noteq> 34" "byte c \<noteq> 92"
    by (metis leI)
  then show ?thesis
  proof cases
    case ctl
    then have "escape_char c = [CHR 0x5C, CHR ''u'', CHR ''0'', CHR ''0'', hex_digit (byte c div 16),
        hex_digit (byte c mod 16)]"
      by (simp add: escape_char_def Let_def)
    moreover have "utf8 (byte c) = [c]" using ctl by (simp add: utf8_def)
    ultimately show ?thesis using ctl by (simp add: hex4_control)
  next
    case plain
    then have "escape_char c = [c]" by (simp add: escape_char_def Let_def)
    with plain show ?thesis by simp
  qed (auto dest!: char_of_byte_eq simp: escape_char_def simple_escape_def Let_def char_of_34 char_of_92)
qed

lemma scan_string_quote:
  "scan_string (concat (map escape_char s) @ CHR 0x22 # r) = Some (s, r)"
  by (induction s) (simp_all add: scan_string_escape)

section \<open>Values\<close>

fun canon :: "json \<Rightarrow> json" where
  "canon (JArr xs) = JArr (map canon xs)"
| "canon (JObj kvs) = JObj (sort_key fst (map (\<lambda>kv. (fst kv, canon (snd kv))) kvs))"
| "canon v = v"

fun json_wf :: "json \<Rightarrow> bool" where
  "json_wf (JNum n) = num_wf n"
| "json_wf (JArr xs) = list_all json_wf xs"
| "json_wf (JObj kvs) = (distinct (map fst kvs) \<and> list_all (\<lambda>kv. json_wf (snd kv)) kvs)"
| "json_wf v = True"

text \<open>White space is among the ASCII space characters.\<close>

definition space_class :: "(char \<Rightarrow> bool) \<Rightarrow> bool" where
  "space_class ws \<longleftrightarrow> (\<forall>c. ws c \<longrightarrow> byte c \<le> 32)"

lemma space_classes [simp]: "space_class regex_space" "space_class json_space"
  by (auto simp: space_class_def regex_space_def json_space_def)

lemma not_space [simp]: "space_class ws \<Longrightarrow> 32 < byte c \<Longrightarrow> \<not> ws c"
  by (auto simp: space_class_def)

definition reads :: "(string \<Rightarrow> exn + json \<times> string) \<Rightarrow> string \<Rightarrow> json \<Rightarrow> bool" where
  "reads rd t v \<longleftrightarrow> (\<forall>r. number_end r \<longrightarrow> rd (t @ r) = Inr (v, r))"

lemma number_end_punct [simp]:
  "number_end (CHR '','' # r)" "number_end (CHR '']'' # r)" "number_end (CHR ''}'' # r)"
  by (simp_all add: number_end_def is_digit_def)

lemma scan_entries_join:
  assumes ws: "space_class ws"
  shows "list_all2 (reads rd) ts vs \<Longrightarrow> ts \<noteq> [] \<Longrightarrow> length ts \<le> n \<Longrightarrow>
    scan_entries n rd ws (join_with '','' ts @ CHR '']'' # r) = Inr (vs, r)"
proof (induction ts arbitrary: vs n)
  case Nil
  then show ?case by simp
next
  case (Cons t ts)
  then obtain v vs' where vs: "vs = v # vs'" "reads rd t v" "list_all2 (reads rd) ts vs'"
    by (cases vs) auto
  obtain k where n: "n = Suc k" using Cons.prems(3) by (cases n) auto
  show ?case
  proof (cases "ts = []")
    case True
    have "rd (t @ CHR '']'' # r) = Inr (v, CHR '']'' # r)" using vs(2) by (simp add: reads_def)
    then show ?thesis using True vs n ws by simp
  next
    case False
    let ?s = "CHR '','' # join_with '','' ts @ CHR '']'' # r"
    have "rd (t @ ?s) = Inr (v, ?s)" using vs(2) by (simp add: reads_def)
    moreover have "scan_entries k rd ws (join_with '','' ts @ CHR '']'' # r) = Inr (vs', r)"
      using Cons.IH[OF vs(3) False] Cons.prems(3) n by simp
    ultimately show ?thesis using False vs n ws by (simp add: join_with_Cons)
  qed
qed

definition member_text :: "string \<Rightarrow> string \<Rightarrow> string" where
  "member_text k t = json_quote k @ '':'' @ t"

lemma scan_members_join:
  assumes ws: "space_class ws"
  shows "list_all2 (\<lambda>m kv. \<exists>t. m = member_text (fst kv) t \<and> reads rd t (snd kv)) ms kvs \<Longrightarrow>
    ms \<noteq> [] \<Longrightarrow> length ms \<le> n \<Longrightarrow> distinct (map fst kvs) \<Longrightarrow> set (map fst kvs) \<inter> set seen = {} \<Longrightarrow>
    scan_members n rd ws seen (join_with '','' ms @ CHR ''}'' # r) = Inr (kvs, r)"
proof (induction ms arbitrary: kvs n seen)
  case Nil
  then show ?case by simp
next
  case (Cons m ms)
  then obtain k v kvs' t where vs: "kvs = (k, v) # kvs'" "m = member_text k t" "reads rd t v"
    "list_all2 (\<lambda>m kv. \<exists>t. m = member_text (fst kv) t \<and> reads rd t (snd kv)) ms kvs'"
    by (cases kvs) auto
  obtain j where n: "n = Suc j" using Cons.prems(3) by (cases n) auto
  have q: "scan_string (concat (map escape_char k) @ CHR 0x22 # s) = Some (k, s)" for s
    by (rule scan_string_quote)
  have k: "k \<notin> set seen" using Cons.prems(5) vs(1) by simp
  show ?case
  proof (cases "ms = []")
    case True
    have "rd (t @ CHR ''}'' # r) = Inr (v, CHR ''}'' # r)" using vs(3) by (simp add: reads_def)
    then show ?thesis
      using True vs n ws k by (simp add: member_text_def json_quote_def q of_option_def)
  next
    case False
    let ?s = "CHR '','' # join_with '','' ms @ CHR ''}'' # r"
    have "rd (t @ ?s) = Inr (v, ?s)" using vs(3) by (simp add: reads_def)
    moreover have "scan_members j rd ws (k # seen) (join_with '','' ms @ CHR ''}'' # r) = Inr (kvs', r)"
      using Cons.IH[OF vs(4) False, of j "k # seen"] Cons.prems n vs(1) by auto
    ultimately show ?thesis
      using False vs n ws k by (simp add: join_with_Cons member_text_def json_quote_def q of_option_def)
  qed
qed


text \<open>The first character of a rendered value.\<close>

definition value_start :: "string \<Rightarrow> bool" where
  "value_start t \<longleftrightarrow> (\<exists>c cs. t = c # cs \<and> 32 < byte c \<and> c \<noteq> CHR '']'' \<and> c \<noteq> CHR ''}'')"

lemma value_start_literals [simp]:
  "value_start (CHR ''n'' # s)" "value_start (CHR ''t'' # s)" "value_start (CHR ''f'' # s)"
  "value_start (CHR 0x22 # s)" "value_start (CHR ''['' # s)" "value_start (CHR ''{'' # s)"
  "value_start (CHR ''-'' # s)" "value_start (CHR ''0'' # s)"
  by (simp_all add: value_start_def)

definition number_start :: "char \<Rightarrow> bool" where
  "number_start c \<longleftrightarrow> is_digit c \<or> c = CHR ''-''"

lemma num_text_start:
  assumes "num_wf n"
  obtains c cs where "num_text n = c # cs" "number_start c"
proof -
  have sg: "\<exists>c cs. signed_text m e = c # cs \<and> number_start c" for m e
  proof -
    obtain d x where "strip_zeros (nat \<bar>m\<bar>) e = (d, x)" by fastforce
    moreover obtain c cs where "decimal_text d x = c # cs" "is_digit c"
      using decimal_text_hd[of d x] by (cases "decimal_text d x") auto
    ultimately show ?thesis by (simp add: signed_text_def number_start_def)
  qed
  have "\<exists>c cs. num_text n = c # cs \<and> number_start c"
    using assms sg by (cases n) (auto simp: number_start_def)
  then show thesis using that by blast
qed

lemma number_start_facts:
  "number_start c \<Longrightarrow> 32 < byte c \<and> c \<noteq> CHR ''['' \<and> c \<noteq> CHR ''{'' \<and> c \<noteq> CHR '']'' \<and> c \<noteq> CHR ''}'' \<and>
    byte c \<noteq> 34 \<and> c \<noteq> CHR ''t'' \<and> c \<noteq> CHR ''f'' \<and> c \<noteq> CHR ''n''"
  by (auto simp: number_start_def is_digit_def)

lemma render_start: "render_json d v = Inr t \<Longrightarrow> json_wf v \<Longrightarrow> value_start t"
proof (cases v)
  case (JNum n)
  assume "render_json d v = Inr t" "json_wf v"
  with JNum have "num_wf n" "t = num_text n" by (auto simp: depth_guard_def ensureR_Inr_iff)
  then show ?thesis
    using num_text_start[of n] number_start_facts unfolding value_start_def by metis
qed (auto simp: depth_guard_def ensureR_Inr_iff bindR_Inr_iff json_quote_def)

lemma scan_literal_constants [simp]:
  "scan_literal (CHR ''t'' # CHR ''r'' # CHR ''u'' # CHR ''e'' # r) = Some (JBool True, r)"
  "scan_literal (CHR ''f'' # CHR ''a'' # CHR ''l'' # CHR ''s'' # CHR ''e'' # r) = Some (JBool False, r)"
  "scan_literal (CHR ''n'' # CHR ''u'' # CHR ''l'' # CHR ''l'' # r) = Some (JNull, r)"
  by (simp_all add: scan_literal_def strip_prefix_def)

lemma scan_literal_number:
  assumes "num_wf n" "number_end r"
  shows "scan_literal (num_text n @ r) = Some (JNum n, r)"
proof -
  obtain c cs where c: "num_text n = c # cs" "number_start c" using num_text_start[OF assms(1)] by blast
  then have "scan_literal (num_text n @ r) = map_option (\<lambda>(n, r). (JNum n, r)) (scan_number (num_text n @ r))"
    using number_start_facts[of c] by (simp add: scan_literal_def strip_prefix_def)
  then show ?thesis by (simp add: scan_number_text[OF assms])
qed

lemma json_quote_length: "2 \<le> length (json_quote s)"
  by (simp add: json_quote_def)

lemma member_length: "t \<in> set ts \<Longrightarrow> length t \<le> length (join_with sep ts)"
  by (induction ts) (auto simp: join_with_Cons)

lemma join_count: "\<forall>t \<in> set ts. t \<noteq> [] \<Longrightarrow> length ts \<le> length (join_with sep ts)"
proof (induction ts)
  case (Cons x ts)
  then have "1 \<le> length x" by (cases x) auto
  with Cons show ?case by (auto simp: join_with_Cons)
qed simp

definition round_trips :: "json \<Rightarrow> bool" where
  "round_trips v \<longleftrightarrow> (\<forall>n ws maxd d e t. json_wf v \<longrightarrow> space_class ws \<longrightarrow> render_json d v = Inr t \<longrightarrow>
     assert_json_value_at maxd e v = Inr () \<longrightarrow> length t < n \<longrightarrow>
     reads (scan_value n ws maxd e) t (canon v))"

lemma round_tripsD:
  "round_trips v \<Longrightarrow> json_wf v \<Longrightarrow> space_class ws \<Longrightarrow> render_json d v = Inr t \<Longrightarrow>
    assert_json_value_at maxd e v = Inr () \<Longrightarrow> length t < n \<Longrightarrow>
    reads (scan_value n ws maxd e) t (canon v)"
  unfolding round_trips_def by blast

lemma sort_key_map_snd:
  "sort_key fst (map (\<lambda>kv. (fst kv, f (snd kv))) kvs) =
    map (\<lambda>kv. (fst kv, f (snd kv))) (sort_key fst kvs)"
proof -
  have i: "insort_key fst (fst x, f (snd x)) (map (\<lambda>kv. (fst kv, f (snd kv))) ys) =
    map (\<lambda>kv. (fst kv, f (snd kv))) (insort_key fst x ys)" for x ys
    by (induction ys) auto
  show ?thesis by (induction kvs) (simp_all add: i)
qed

lemma round_trips_arr:
  assumes IH: "\<And>v. v \<in> set xs \<Longrightarrow> round_trips v"
  shows "round_trips (JArr xs)"
  unfolding round_trips_def reads_def
proof (intro allI impI)
  fix n ws maxd d e t r
  assume wf: "json_wf (JArr xs)" and ws: "space_class ws" and rd: "render_json d (JArr xs) = Inr t"
    and dep: "assert_json_value_at maxd e (JArr xs) = Inr ()" and n: "length t < n"
  obtain k where k: "n = Suc k" using n by (cases n) auto
  from rd obtain ts where ts: "list_all2 (\<lambda>x y. render_json (Suc d) x = Inr y) xs ts"
    "t = ''['' @ join_with '','' ts @ '']''"
    by (auto simp: depth_guard_def ensureR_Inr_iff bindR_Inr_iff mapR_Inr_iff)
  from dep have e: "e \<le> maxd" "\<forall>x \<in> set xs. assert_json_value_at maxd (Suc e) x = Inr ()"
    by (auto simp: ensureR_Inr_iff bindR_Inr_iff mapR_unit)
  show "scan_value n ws maxd e (t @ r) = Inr (canon (JArr xs), r)"
  proof (cases "xs = []")
    case True
    then show ?thesis using ts ws k e by simp
  next
    case False
    then have ne: "ts \<noteq> []" using ts by auto
    have start: "\<forall>t \<in> set ts. value_start t"
      using ts(1) wf by (fastforce simp: list_all2_conv_all_nth in_set_conv_nth list_all_iff dest: render_start)
    have len: "\<forall>t \<in> set ts. length t < k"
      using n k ts(2) by (auto dest: member_length[where sep = "'',''"])
    have "\<forall>t \<in> set ts. t \<noteq> []" using start by (auto simp: value_start_def)
    then have cnt: "length ts \<le> k" using join_count[of ts "'',''"] n k ts(2) by simp
    have "list_all2 (reads (scan_value k ws maxd (Suc e))) ts (map canon xs)"
      unfolding list_all2_conv_all_nth
    proof (intro conjI allI impI)
      show "length ts = length (map canon xs)" using ts(1) by (simp add: list_all2_lengthD)
      fix i assume i: "i < length ts"
      then have i': "i < length xs" using ts(1) by (simp add: list_all2_lengthD)
      show "reads (scan_value k ws maxd (Suc e)) (ts ! i) (map canon xs ! i)"
        using round_tripsD[OF IH, of "xs ! i" ws "Suc d" "ts ! i" maxd "Suc e" k] i i' wf ws e len ts(1)
        by (auto simp: list_all_iff list_all2_conv_all_nth)
    qed
    from scan_entries_join[OF ws this ne cnt]
    have sc: "scan_entries k (scan_value k ws maxd (Suc e)) ws (join_with '','' ts @ CHR '']'' # r) =
      Inr (map canon xs, r)" .
    have "value_start (join_with '','' ts)"
      using start ne by (cases ts) (auto simp: join_with_Cons value_start_def)
    then obtain c cs where c: "join_with '','' ts = c # cs" "32 < byte c" "c \<noteq> CHR '']''"
      by (auto simp: value_start_def)
    then show ?thesis using ts(2) ws k e sc by simp
  qed
qed


lemma sort_key_distinct: "distinct (map fst (sort_key f xs)) = distinct (map fst xs)"
  by (rule mset_eq_imp_distinct_iff) simp

lemma round_trips_obj:
  assumes IH: "\<And>kv. kv \<in> set kvs \<Longrightarrow> round_trips (snd kv)"
  shows "round_trips (JObj kvs)"
  unfolding round_trips_def reads_def
proof (intro allI impI)
  fix n ws maxd d e t r
  assume wf: "json_wf (JObj kvs)" and ws: "space_class ws" and rd: "render_json d (JObj kvs) = Inr t"
    and dep: "assert_json_value_at maxd e (JObj kvs) = Inr ()" and n: "length t < n"
  obtain k where k: "n = Suc k" using n by (cases n) auto
  define skvs where "skvs = sort_key fst kvs"
  have set: "set skvs = set kvs" and dist: "distinct (map fst skvs)"
    using wf by (simp_all add: skvs_def sort_key_distinct)
  let ?member = "\<lambda>kv. bindR (render_json (Suc d) (snd kv))
    (\<lambda>t. Inr (json_quote (fst kv) @ '':'' @ t))"
  from rd obtain ms where m: "mapR ?member skvs = Inr ms" "t = ''{'' @ join_with '','' ms @ ''}''"
    by (auto simp: depth_guard_def ensureR_Inr_iff bindR_Inr_iff skvs_def)
  have ms: "list_all2 (\<lambda>kv m. \<exists>t. render_json (Suc d) (snd kv) = Inr t \<and>
      m = member_text (fst kv) t) skvs ms" "t = ''{'' @ join_with '','' ms @ ''}''"
    using m by (auto simp: mapR_Inr_iff bindR_Inr_iff member_text_def elim!: list_all2_mono)
  from dep have e: "e \<le> maxd" "\<forall>x \<in> set kvs. assert_json_value_at maxd (Suc e) (snd x) = Inr ()"
    by (auto simp: ensureR_Inr_iff bindR_Inr_iff mapR_unit)
  have can: "canon (JObj kvs) = JObj (map (\<lambda>kv. (fst kv, canon (snd kv))) skvs)"
    by (simp add: skvs_def sort_key_map_snd)
  show "scan_value n ws maxd e (t @ r) = Inr (canon (JObj kvs), r)"
  proof (cases "skvs = []")
    case True
    then show ?thesis using ms ws k e can by simp
  next
    case False
    then have ne: "ms \<noteq> []" using ms by auto
    have start: "\<forall>m \<in> set ms. \<exists>cs. m = CHR 0x22 # cs"
      using ms(1) by (fastforce simp: list_all2_conv_all_nth in_set_conv_nth member_text_def json_quote_def)
    have len: "\<forall>m \<in> set ms. length m < k"
      using n k ms(2) by (auto dest: member_length[where sep = "'',''"])
    have "\<forall>m \<in> set ms. m \<noteq> []" using start by auto
    then have cnt: "length ms \<le> k" using join_count[of ms "'',''"] n k ms(2) by simp
    let ?kvs = "map (\<lambda>kv. (fst kv, canon (snd kv))) skvs"
    have "list_all2 (\<lambda>m kv. \<exists>t. m = member_text (fst kv) t \<and>
        reads (scan_value k ws maxd (Suc e)) t (snd kv)) ms ?kvs"
      unfolding list_all2_conv_all_nth
    proof (intro conjI allI impI)
      show "length ms = length ?kvs" using ms(1) by (simp add: list_all2_lengthD)
      fix i assume i: "i < length ms"
      then have i': "i < length skvs" using ms(1) by (simp add: list_all2_lengthD)
      then have mem: "skvs ! i \<in> set kvs" using set nth_mem by blast
      from ms(1) i i' obtain u where u: "render_json (Suc d) (snd (skvs ! i)) = Inr u"
        "ms ! i = member_text (fst (skvs ! i)) u"
        by (auto simp: list_all2_conv_all_nth)
      have "length u < k" using len i u(2) nth_mem[OF i] by (fastforce simp: member_text_def)
      moreover have "json_wf (snd (skvs ! i))" using wf mem by (auto simp: list_all_iff)
      ultimately have "reads (scan_value k ws maxd (Suc e)) u (canon (snd (skvs ! i)))"
        using round_tripsD[OF IH[OF mem] _ ws u(1)] e mem by blast
      then show "\<exists>t. ms ! i = member_text (fst (?kvs ! i)) t \<and>
          reads (scan_value k ws maxd (Suc e)) t (snd (?kvs ! i))"
        using u(2) i' by auto
    qed
    moreover have "distinct (map fst ?kvs)" using dist by (simp add: comp_def)
    ultimately have sc: "scan_members k (scan_value k ws maxd (Suc e)) ws []
        (join_with '','' ms @ CHR ''}'' # r) = Inr (?kvs, r)"
      using scan_members_join[OF ws _ ne cnt] by simp
    obtain cs where c: "join_with '','' ms = CHR 0x22 # cs"
      using start ne by (cases ms) (auto simp: join_with_Cons)
    then show ?thesis using ms(2) ws k e sc can by simp
  qed
qed

lemma round_trips_all: "round_trips v"
proof (induction v rule: json.induct)
  case (JNum n)
  show ?case unfolding round_trips_def reads_def
  proof (intro allI impI)
    fix k ws maxd d e t r
    assume a: "json_wf (JNum n)" "space_class ws" "render_json d (JNum n) = Inr t"
      "assert_json_value_at maxd e (JNum n) = Inr ()" "length t < k" "number_end r"
    then obtain c cs where t: "t = num_text n" "num_text n = c # cs" "number_start c" "num_wf n"
      using num_text_start[of n] by (auto simp: depth_guard_def ensureR_Inr_iff)
    from a have k: "e \<le> maxd" "\<exists>j. k = Suc j" by (auto simp: ensureR_Inr_iff gr0_conv_Suc dest: less_imp_Suc_add)
    have "scan_literal (c # cs @ r) = Some (JNum n, r)" using scan_literal_number[OF t(4) a(6)] t(2) by simp
    then show "scan_value k ws maxd e (t @ r) = Inr (canon (JNum n), r)"
      using k t number_start_facts[OF t(3)] a(2) by (auto simp: of_option_def)
  qed
next
  case (JArr xs)
  then show ?case by (intro round_trips_arr)
next
  case (JObj kvs)
  then show ?case by (intro round_trips_obj) (auto simp: snds.simps)
qed (auto simp: round_trips_def reads_def depth_guard_def ensureR_Inr_iff json_quote_def scan_string_quote
  of_option_def gr0_conv_Suc split: if_splits dest!: less_imp_Suc_add)

lemma parse_text_canonical:
  assumes "json_wf v" "canonical_json v = Inr t" "assert_json_value maxd v = Inr ()" "space_class ws"
  shows "parse_text ws maxd t = Inr (canon v)"
proof -
  have "reads (scan_value (length t + 1) ws maxd 0) t (canon v)"
    using round_tripsD[OF round_trips_all assms(1) assms(4)] assms(2,3)
    by (simp add: canonical_json_def assert_json_value_def)
  then have "scan_value (length t + 1) ws maxd 0 (t @ []) = Inr (canon v, [])"
    unfolding reads_def by (auto simp only: number_end_def list.case)
  then show ?thesis by (simp add: parse_text_def)
qed

section \<open>Canonical text determines the value\<close>

lemma render_assert: "render_json d v = Inr t \<Longrightarrow> assert_json_value_at 100 d v = Inr ()"
proof (induction v arbitrary: d t rule: json.induct)
  case (JArr xs)
  then obtain ts where "d \<le> 100" "mapR (render_json (Suc d)) xs = Inr ts"
    by (auto simp: depth_guard_def ensureR_Inr_iff bindR_Inr_iff)
  moreover from this JArr.IH have "\<forall>x \<in> set xs. assert_json_value_at 100 (Suc d) x = Inr ()"
    by (blast dest: mapR_each)
  ultimately show ?case by (auto simp: mapR_unit[symmetric])
next
  case (JObj kvs)
  let ?member = "\<lambda>kv. bindR (render_json (Suc d) (snd kv))
    (\<lambda>t. Inr (json_quote (fst kv) @ '':'' @ t))"
  from JObj.prems obtain ms where m: "d \<le> 100" "mapR ?member (sort_key fst kvs) = Inr ms"
    by (auto simp: depth_guard_def ensureR_Inr_iff bindR_Inr_iff)
  have "assert_json_value_at 100 (Suc d) (snd kv) = Inr ()" if kv: "kv \<in> set kvs" for kv
  proof -
    have "\<exists>u. render_json (Suc d) (snd kv) = Inr u"
      using mapR_each[OF m(2), of kv] kv by (auto simp: bindR_Inr_iff)
    then show ?thesis using JObj.IH[OF kv, of "snd kv" "Suc d"] by (auto simp: snds.simps)
  qed
  then have "\<exists>us. mapR (\<lambda>kv. assert_json_value_at 100 (Suc d) (snd kv)) kvs = Inr us"
    by (subst mapR_unit) blast
  then show ?case using m(1) by auto
qed (auto simp: depth_guard_def ensureR_Inr_iff)

lemma mapR_map: "mapR f (map g xs) = mapR (\<lambda>x. f (g x)) xs"
  by (induction xs) simp_all

lemma render_canon: "render_json d (canon v) = render_json d v"
proof (induction v arbitrary: d rule: json.induct)
  case (JArr xs)
  have "mapR (render_json (Suc d)) (map canon xs) = mapR (render_json (Suc d)) xs"
    unfolding mapR_map by (rule mapR_cong) (use JArr in auto)
  then show ?case by simp
next
  case (JObj kvs)
  have s: "sort_key fst (sort_key fst (map (\<lambda>kv. (fst kv, canon (snd kv))) kvs)) =
      map (\<lambda>kv. (fst kv, canon (snd kv))) (sort_key fst kvs)"
    by (simp add: sort_key_map_snd sort_key_id_if_sorted)
  have e: "render_json (Suc d) (canon (snd x)) = render_json (Suc d) (snd x)" if "x \<in> set kvs" for x
    using JObj.IH[OF that, of "snd x"] by (simp add: snds.simps)
  have "mapR (\<lambda>kv. bindR (render_json (Suc d) (snd kv)) (\<lambda>t. Inr (json_quote (fst kv) @ '':'' @ t)))
      (map (\<lambda>kv. (fst kv, canon (snd kv))) (sort_key fst kvs)) =
    mapR (\<lambda>kv. bindR (render_json (Suc d) (snd kv)) (\<lambda>t. Inr (json_quote (fst kv) @ '':'' @ t)))
      (sort_key fst kvs)"
    unfolding mapR_map by (rule mapR_cong) (auto simp: e)
  then show ?case by (simp only: canon.simps render_json.simps s)
qed simp_all

text \<open>Depth: what \<open>assertJsonValue\<close> accepts, at a smaller depth and of the parts.\<close>

lemma assert_json_value_at_mono:
  "assert_json_value_at m d v = Inr () \<Longrightarrow> e \<le> d \<Longrightarrow> m \<le> n \<Longrightarrow> assert_json_value_at n e v = Inr ()"
proof (induction v arbitrary: d e rule: json.induct)
  case (JArr xs)
  then have *: "d \<le> m" "\<forall>x \<in> set xs. assert_json_value_at m (Suc d) x = Inr ()"
    by (auto simp: ensureR_Inr_iff bindR_Inr_iff mapR_unit)
  have "\<forall>x \<in> set xs. assert_json_value_at n (Suc e) x = Inr ()"
    using JArr.IH[of _ "Suc d" "Suc e"] JArr.prems(2,3) *(2) by simp
  then obtain us where "mapR (assert_json_value_at n (Suc e)) xs = Inr us"
    by (auto simp: mapR_unit[symmetric])
  then show ?case using JArr.prems * by simp
next
  case (JObj kvs)
  then have *: "d \<le> m" "\<forall>x \<in> set kvs. assert_json_value_at m (Suc d) (snd x) = Inr ()"
    by (auto simp: ensureR_Inr_iff bindR_Inr_iff mapR_unit)
  have "\<forall>x \<in> set kvs. assert_json_value_at n (Suc e) (snd x) = Inr ()"
  proof
    fix x assume x: "x \<in> set kvs"
    show "assert_json_value_at n (Suc e) (snd x) = Inr ()"
      by (rule JObj.IH[OF x, of "snd x" "Suc d"]) (use x JObj.prems *(2) in \<open>auto simp: snds.simps\<close>)
  qed
  then obtain us where "mapR (\<lambda>kv. assert_json_value_at n (Suc e) (snd kv)) kvs = Inr us"
    using mapR_unit[of "\<lambda>kv. assert_json_value_at n (Suc e) (snd kv)" kvs] by auto
  then show ?case using JObj.prems * by simp
qed (auto simp: ensureR_Inr_iff)

lemma assert_json_value_at_arr:
  "assert_json_value_at m d (JArr xs) = Inr () \<Longrightarrow> x \<in> set xs \<Longrightarrow> assert_json_value_at m (Suc d) x = Inr ()"
  by (auto simp: ensureR_Inr_iff bindR_Inr_iff mapR_unit)

lemma assert_json_value_at_obj:
  "assert_json_value_at m d (JObj kvs) = Inr () \<Longrightarrow> kv \<in> set kvs \<Longrightarrow>
    assert_json_value_at m (Suc d) (snd kv) = Inr ()"
  by (auto simp: ensureR_Inr_iff bindR_Inr_iff mapR_unit)

lemma mapR_exists: "\<forall>x \<in> set xs. \<exists>y. f x = Inr y \<Longrightarrow> \<exists>ys. mapR f xs = Inr ys"
  by (induction xs) auto

lemma render_total: "assert_json_value_at 100 d v = Inr () \<Longrightarrow> \<exists>t. render_json d v = Inr t"
proof (induction v arbitrary: d rule: json.induct)
  case (JArr xs)
  then have *: "d \<le> 100" "\<forall>x \<in> set xs. assert_json_value_at 100 (Suc d) x = Inr ()"
    by (auto simp: ensureR_Inr_iff bindR_Inr_iff mapR_unit)
  have "\<forall>x \<in> set xs. \<exists>t. render_json (Suc d) x = Inr t" using JArr.IH *(2) by blast
  from mapR_exists[OF this] show ?case using * by (auto simp: depth_guard_def)
next
  case (JObj kvs)
  then have *: "d \<le> 100" "\<forall>x \<in> set kvs. assert_json_value_at 100 (Suc d) (snd x) = Inr ()"
    by (auto simp: ensureR_Inr_iff bindR_Inr_iff mapR_unit)
  let ?member = "\<lambda>kv. bindR (render_json (Suc d) (snd kv))
    (\<lambda>t. Inr (json_quote (fst kv) @ '':'' @ t))"
  have "\<forall>kv \<in> set (sort_key fst kvs). \<exists>t. ?member kv = Inr t"
  proof
    fix kv assume "kv \<in> set (sort_key fst kvs)"
    then have kv: "kv \<in> set kvs" by simp
    from JObj.IH[OF kv, of "snd kv" "Suc d"] *(2) kv obtain t where "render_json (Suc d) (snd kv) = Inr t"
      by (auto simp: snds.simps)
    then show "\<exists>t. ?member kv = Inr t" by simp
  qed
  from mapR_exists[OF this] show ?case using * by (auto simp: depth_guard_def)
qed (auto simp: depth_guard_def ensureR_Inr_iff)

lemma canonical_json_total: "assert_json_value 100 v = Inr () \<Longrightarrow> \<exists>t. canonical_json v = Inr t"
  using render_total[of 0 v] by (simp add: canonical_json_def assert_json_value_def)

lemma canonical_json_eq:
  assumes "json_wf v" "json_wf w" "canonical_json v = Inr s" "canonical_json w = Inr t"
  shows "s = t \<longleftrightarrow> canon v = canon w"
proof
  have p: "parse_text json_space 100 t = Inr (canon u)" if "json_wf u" "canonical_json u = Inr t" for u t
    using that parse_text_canonical[OF that, of 100 json_space] render_assert[of 0 u t]
    by (simp add: canonical_json_def assert_json_value_def)
  assume "s = t"
  with p[OF assms(1,3)] p[OF assms(2,4)] show "canon v = canon w" by simp
next
  assume "canon v = canon w"
  then show "s = t"
    using assms(3,4) render_canon[of 0 v] render_canon[of 0 w] by (simp add: canonical_json_def)
qed

lemma parse_canonical:
  "json_wf v \<Longrightarrow> canonical_json v = Inr t \<Longrightarrow> assert_json_value maxd v = Inr () \<Longrightarrow> length t \<le> m \<Longrightarrow>
    parse_strict_json m maxd t = Inr (canon v)"
  by (simp add: parse_strict_json_def parse_text_canonical)

text \<open>
  C27: the strict parser reads the canonical text of a value back: for a value of bounded
  depth with distinct keys and numbers a double can hold, \<open>parseStrictJson\<close> of
  \<open>canonicalJson\<close> is the value with its object keys sorted, and no error.
\<close>

theorem parse_strict_json_canonical:
  assumes "json_wf v" "canonical_json v = Inr t" "assert_json_value maxd v = Inr ()" "length t \<le> m"
  shows "parse_strict_json m maxd t = Inr (canon v)"
  using assms by (rule parse_canonical)

theorem parse_strict_json_canonical_witness:
  "parse_strict_json 100 5 (''{'' @ json_quote ''a'' @ '':[1,-250,null],'' @ json_quote ''b'' @ '':0.5}'') =
    Inr (JObj [(''a'', JArr [JNum (NInt 1), JNum (NInt (- 250)), JNull]), (''b'', JNum (NDec 5 1))])"
proof -
  let ?v = "JObj [(''b'', JNum (NDec 5 1)), (''a'', JArr [JNum (NInt 1), JNum (NInt (- 250)), JNull])]"
  have "canon ?v = JObj [(''a'', JArr [JNum (NInt 1), JNum (NInt (- 250)), JNull]), (''b'', JNum (NDec 5 1))]"
    by code_simp
  moreover have "json_wf ?v" by code_simp
  moreover have "assert_json_value 5 ?v = Inr ()" by code_simp
  moreover have "canonical_json ?v =
    Inr (''{'' @ json_quote ''a'' @ '':[1,-250,null],'' @ json_quote ''b'' @ '':0.5}'')" by code_simp
  moreover have "length (''{'' @ json_quote ''a'' @ '':[1,-250,null],'' @ json_quote ''b'' @ '':0.5}'') \<le> 100"
    by code_simp
  ultimately show ?thesis using parse_strict_json_canonical[of ?v _ 5 100] by simp
qed

text \<open>
  C28: canonical text identifies a value up to the order of object keys: two values have
  the same canonical text exactly when their normal forms agree, so a digest of the text
  neither depends on key order nor confuses two different values.
\<close>

theorem canonical_json_identifies:
  assumes "json_wf v" "json_wf w" "canonical_json v = Inr t"
  shows "canonical_json w = Inr t \<longleftrightarrow> canon v = canon w"
proof
  assume "canonical_json w = Inr t"
  then show "canon v = canon w" using canonical_json_eq assms by blast
next
  assume "canon v = canon w"
  then show "canonical_json w = Inr t"
    using assms(3) render_canon[of 0 v] render_canon[of 0 w] by (simp add: canonical_json_def)
qed

theorem canonical_json_identifies_witness:
  "canonical_json (JObj [(''b'', JNull), (''a'', JBool True)]) =
    canonical_json (JObj [(''a'', JBool True), (''b'', JNull)])"
proof -
  let ?v = "JObj [(''a'', JBool True), (''b'', JNull)]" and ?w = "JObj [(''b'', JNull), (''a'', JBool True)]"
  have "json_wf ?v" "json_wf ?w" "canon ?v = canon ?w" by code_simp+
  moreover obtain t where t: "canonical_json ?v = Inr t"
    by (simp add: canonical_json_def depth_guard_def)
  ultimately show ?thesis using canonical_json_identifies[of ?v ?w t] by simp
qed

end
