(* ===== verification/Data_Spool.thy ===== *)
theory Data_Spool
  imports Json_Roundtrip Contracts_Common
begin

text \<open>
  The data spool of a run, \<open>src/src/consumer/scrape/data-spool.ts\<close>: an append-only file
  of canonical JSON blobs, each referred to by offset, length and digest.

  A file is the list of its bytes; the run store creates the spool, so it exists.
  \<open>sha\<close> stands for SHA-256 in lowercase hexadecimal (\<open>node:crypto\<close>); the proofs use of it
  that its result is 64 lowercase hexadecimal digits (\<open>sha_ok\<close>).
\<close>

type_synonym hash = "string \<Rightarrow> string"

definition sha_ok :: "hash \<Rightarrow> bool" where
  "sha_ok sha \<longleftrightarrow> (\<forall>s. is_sha256_digest (sha s))"

record blob_ref =
  br_offset :: int
  br_length :: int
  br_sha256 :: string

definition parse_blob_ref :: "json \<Rightarrow> exn + blob_ref" where
  "parse_blob_ref v = bindR (parse_exact_record [''offset'', ''length'', ''sha256''] v) (\<lambda>r.
     bindR (parse_integer 0 max_safe_integer (fld r ''offset'')) (\<lambda>offset.
     bindR (parse_integer 0 max_safe_integer (fld r ''length'')) (\<lambda>len.
     bindR (parse_sha256_digest (fld r ''sha256'')) (\<lambda>digest.
       Inr \<lparr>br_offset = offset, br_length = len, br_sha256 = digest\<rparr>))))"

text \<open>
  The object a reference is, with its keys in alphabetical order. It only reaches
  \<open>canonicalJson\<close>, which sorts the keys, and \<open>parseExactRecord\<close>, which does not read
  their order. The same holds of every other record below.
\<close>

definition blob_json :: "blob_ref \<Rightarrow> json" where
  "blob_json r = JObj [(''length'', JNum (NInt (br_length r))), (''offset'', JNum (NInt (br_offset r))),
     (''sha256'', JStr (br_sha256 r))]"

definition append_data_blob :: "hash \<Rightarrow> string \<Rightarrow> json \<Rightarrow> int \<Rightarrow> exn + string \<times> blob_ref" where
  "append_data_blob sha spool v maximum_bytes =
     ensureR (\<bar>maximum_bytes\<bar> \<le> max_safe_integer \<and> 0 \<le> maximum_bytes)
       (DataSpoolError Spool_Budget_Exhausted (STR ''data spool budget is invalid''))
      (bindR (canonical_json v) (\<lambda>bytes.
        ensureR (int (length spool) \<le> max_safe_integer \<and>
            int (length spool) + int (length bytes) \<le> maximum_bytes)
          (DataSpoolError Spool_Budget_Exhausted (STR ''data spool byte budget is exhausted''))
         (Inr (spool @ bytes, \<lparr>br_offset = int (length spool), br_length = int (length bytes),
            br_sha256 = sha bytes\<rparr>))))"

definition blob_slice :: "string \<Rightarrow> blob_ref \<Rightarrow> string" where
  "blob_slice spool r = take (nat (br_length r)) (drop (nat (br_offset r)) spool)"

definition read_data_blob :: "hash \<Rightarrow> string \<Rightarrow> blob_ref \<Rightarrow> exn + json" where
  "read_data_blob sha spool reference =
     bindR (parse_blob_ref (blob_json reference)) (\<lambda>r.
       ensureR (br_offset r + br_length r \<le> int (length spool))
         (DataSpoolError Spool_Corrupt (STR ''blob reference is outside the data spool''))
        (ensureR (sha (blob_slice spool r) = br_sha256 r)
          (DataSpoolError Spool_Corrupt (STR ''blob digest does not match spool bytes''))
         (bindR (parse_strict_json (nat (br_length r)) 12 (blob_slice spool r)) (\<lambda>v.
           bindR (canonical_json v) (\<lambda>t.
             ensureR (t = blob_slice spool r)
               (DataSpoolError Spool_Corrupt (STR ''blob is not canonical JSON'')) (Inr v))))))"

section \<open>Leaf parsers and records of known shape\<close>

lemma parse_integer_num: "parse_integer lo hi (JNum (NInt i)) =
    (if \<bar>i\<bar> \<le> max_safe_integer \<and> lo \<le> i \<and> i \<le> hi then Inr i
     else Inl (PublicContractError (STR ''must be an integer from MIN to MAX'')))"
  by (simp add: parse_integer_def ensureR_def)

lemma hex_is_ascii: "list_all is_lower_hex s \<Longrightarrow> list_all (\<lambda>c. byte c \<le> 127) s"
  by (auto simp: list_all_iff is_lower_hex_def is_digit_def)

lemma parse_sha256_digest_Inr: "parse_sha256_digest v = Inr d \<longleftrightarrow> v = JStr d \<and> is_sha256_digest d"
  using hex_is_ascii
  by (cases v) (auto simp: parse_sha256_digest_def parse_ascii_string_def parse_string_def
    bindR_Inr_iff ensureR_Inr_iff is_sha256_digest_def)

lemma parse_stable_identifier_Inr:
  "parse_stable_identifier v = Inr s \<longleftrightarrow> v = JStr s \<and> is_stable_identifier s"
proof -
  have "list_all (\<lambda>c. byte c \<le> 127) s \<and> length s \<le> 64" if "is_stable_identifier s" for s
    using that by (cases s) (auto simp: is_stable_identifier_def list_all_iff is_lower_alnum_def
      is_lower_def is_digit_def)
  then show ?thesis
    by (cases v) (auto simp: parse_stable_identifier_def parse_ascii_string_def parse_string_def
      bindR_Inr_iff ensureR_Inr_iff)
qed

lemma parse_string_Inr: "parse_string m v = Inr s \<longleftrightarrow> v = JStr s \<and> length s \<le> m"
  by (cases v) (auto simp: parse_string_def ensureR_Inr_iff)

lemmas leaf_Inr = parse_integer_Inr parse_sha256_digest_Inr parse_stable_identifier_Inr parse_string_Inr
  parse_stable_contract_id_def parse_capability_id_def

lemma parse_exact_record_obj:
  "parse_exact_record keys (JObj kvs) =
    (if \<not> list_all (\<lambda>k. k \<in> set keys) (map fst kvs) then Inl (PublicContractError (STR ''is not allowed''))
     else if \<not> list_all (\<lambda>k. k \<in> set (map fst kvs)) keys
       then Inl (PublicContractError (STR ''is missing required key'')) else Inr kvs)"
  by (simp add: parse_exact_record_def as_object_def ensureR_def)

lemma canon_sorted: "sorted (map fst kvs) \<Longrightarrow> canon (JObj kvs) = JObj (map (\<lambda>kv. (fst kv, canon (snd kv))) kvs)"
  by (simp add: sort_key_id_if_sorted comp_def)

lemma safe_integer_wf: "\<bar>i\<bar> \<le> max_safe_integer \<Longrightarrow> num_wf (NInt i)"
proof -
  have "max_safe_integer < 2 ^ 1024 - 2 ^ 970" by (simp add: max_safe_integer_def)
  then show "\<bar>i\<bar> \<le> max_safe_integer \<Longrightarrow> num_wf (NInt i)" by simp
qed

definition blob_ok :: "blob_ref \<Rightarrow> bool" where
  "blob_ok r \<longleftrightarrow> 0 \<le> br_offset r \<and> br_offset r \<le> max_safe_integer \<and> 0 \<le> br_length r \<and>
     br_length r \<le> max_safe_integer \<and> is_sha256_digest (br_sha256 r)"

lemma parse_blob_ref_json: "parse_blob_ref (blob_json r) = Inr r' \<longleftrightarrow> r' = r \<and> blob_ok r"
  by (cases r) (auto simp: parse_blob_ref_def blob_json_def parse_exact_record_obj fld_def leaf_Inr
    bindR_Inr_iff blob_ok_def)

lemma canon_blob: "canon (blob_json r) = blob_json r"
  by (simp add: blob_json_def canon_sorted del: canon.simps(2)) 

lemma blob_json_wf: "blob_ok r \<Longrightarrow> json_wf (blob_json r)"
  using safe_integer_wf[of "br_offset r"] safe_integer_wf[of "br_length r"]
  by (simp add: blob_json_def blob_ok_def)

section \<open>Reading back\<close>

lemma read_data_blob_Inr:
  assumes "read_data_blob sha spool r = Inr v"
  shows "blob_ok r \<and> br_offset r + br_length r \<le> int (length spool) \<and>
    sha (blob_slice spool r) = br_sha256 r \<and> canonical_json v = Inr (blob_slice spool r)"
  using assms by (auto simp: read_data_blob_def bindR_Inr_iff ensureR_Inr_iff parse_blob_ref_json)

lemma append_data_blob_Inr:
  assumes "append_data_blob sha spool v m = Inr (spool', r)"
  shows "\<exists>t. canonical_json v = Inr t \<and> spool' = spool @ t \<and> int (length spool') \<le> m \<and>
    m \<le> max_safe_integer \<and>
    r = \<lparr>br_offset = int (length spool), br_length = int (length t), br_sha256 = sha t\<rparr>"
  using assms by (auto simp: append_data_blob_def bindR_Inr_iff ensureR_Inr_iff)

lemma read_appended_blob:
  assumes sha: "sha_ok sha" and wf: "json_wf v" and d: "assert_json_value 12 v = Inr ()"
    and a: "append_data_blob sha spool v m = Inr (spool', r)"
  shows "read_data_blob sha (spool' @ later) r = Inr (canon v)"
proof -
  from append_data_blob_Inr[OF a] obtain t where t: "canonical_json v = Inr t" "spool' = spool @ t"
    "int (length spool') \<le> m" "m \<le> max_safe_integer"
    "r = \<lparr>br_offset = int (length spool), br_length = int (length t), br_sha256 = sha t\<rparr>" by blast
  have s: "blob_slice (spool' @ later) r = t" by (simp add: blob_slice_def t)
  have "parse_blob_ref (blob_json r) = Inr r"
    using sha t by (simp add: parse_blob_ref_json blob_ok_def sha_ok_def)
  moreover have "parse_strict_json (nat (br_length r)) 12 t = Inr (canon v)"
    by (rule parse_canonical[OF wf t(1) d]) (simp add: t)
  moreover have "canonical_json (canon v) = Inr t"
    using t(1) render_canon[of 0 v] by (simp add: canonical_json_def)
  ultimately show ?thesis by (simp add: read_data_blob_def s) (simp add: t)
qed

text \<open>
  What is appended to the data spool is read back: after a successful append, the
  returned reference reads the value (with its keys sorted) from the spool, whatever is
  appended to the spool later.
\<close>

theorem appended_blob_reads_back:
  assumes "sha_ok sha" "json_wf v" "assert_json_value 12 v = Inr ()"
    and "append_data_blob sha spool v m = Inr (spool', r)"
  shows "read_data_blob sha (spool' @ later) r = Inr (canon v) \<and> br_offset r = int (length spool) \<and>
    int (length spool') \<le> m"
  using read_appended_blob[OF assms] append_data_blob_Inr[OF assms(4)] by auto

definition zero_sha :: hash where
  "zero_sha s = replicate 64 CHR ''0''"

lemma zero_sha_ok: "sha_ok zero_sha"
  by (simp add: sha_ok_def zero_sha_def is_sha256_digest_def is_lower_hex_def is_digit_def list_all_iff)

theorem appended_blob_reads_back_witness:
  "read_data_blob zero_sha (''null'' @ ''[1,true]'' @ ''7'')
    \<lparr>br_offset = 4, br_length = 8, br_sha256 = replicate 64 CHR ''0''\<rparr> =
    Inr (JArr [JNum (NInt 1), JBool True])"
proof -
  let ?v = "JArr [JNum (NInt 1), JBool True]"
  have t: "canonical_json ?v = Inr ''[1,true]''" by code_simp
  have "append_data_blob zero_sha ''null'' ?v 100 = Inr (''null'' @ ''[1,true]'',
      \<lparr>br_offset = 4, br_length = 8, br_sha256 = replicate 64 CHR ''0''\<rparr>)"
    unfolding append_data_blob_def t by (simp add: max_safe_integer_def zero_sha_def)
  moreover have "assert_json_value 12 ?v = Inr ()" "json_wf ?v" by code_simp+
  ultimately show ?thesis
    using appended_blob_reads_back[OF zero_sha_ok, of ?v "''null''" 100 _ _ "''7''"] by (simp add: append_assoc)
qed

end
