(* ===== verification/Journal_Event.thy ===== *)
theory Journal_Event
  imports Data_Spool
begin

text \<open>
  The events of a run journal and the body of a journal frame: the data types of
  \<open>src/src/consumer/scrape/journal.ts\<close> and \<open>stop-reason.ts\<close>, the parser of every event
  and the JSON object every event is. The section on round trips shows that a body that
  passes the parser is read back from its own canonical text.
\<close>

section \<open>Data\<close>

datatype run_stop =
    Stop_Cancelled | Stop_Deadline_Exhausted | Stop_Task_Failed | Stop_Run_Budget_Exhausted
  | Stop_Item_Invalid | Stop_Output_Sink_Failure

datatype terminal_stop = Run_Stop run_stop | Source_Exhausted | Date_Cutoff_Reached string

datatype result_kind = Scrape_Outcome | Scrape_Partial | Scrape_Failure

datatype output_format = Format_Json | Format_Ndjson | Format_Csv

datatype output_descriptor = Output_Inline bool | Output_File string output_format bool | Output_None

datatype cancellation_source = Foreground_Sigint | Sdk_Cancel | Mcp_Cancel | Cli_Cancel

datatype observed_kind =
    Observed_Outcome | Observed_Unclassified | Observed_Ambiguous | Observed_Verification_Failed
  | Observed_Projection_Failed | Observed_Failure

datatype interruption = Daemon_Stopped | Daemon_Crash | Process_Crash | Browser_Crash

datatype journal_state = State_Queued | State_Running int

record logical_order =
  node_ordinal :: int
  page_ordinal :: int
  item_ordinal :: int

record run_summary =
  items_emitted :: int
  items_duplicate :: int
  tasks_completed :: int
  tasks_failed :: int
  target_requests :: int

record terminal_descriptor =
  td_result_kind :: result_kind
  td_stop :: terminal_stop
  td_summary :: run_summary
  td_output :: output_descriptor

record enqueued_node =
  en_node_id :: string
  en_logical_key_digest :: string
  en_node_state :: blob_ref
  en_task_kind_id :: string
  en_root_ordinal :: int
  en_seed_ordinal :: "int option"
  en_depth :: int
  en_output_ordinal :: int

record prepared_output =
  po_path_digest :: string
  po_content_digest :: string
  po_byte_length :: int
  po_descriptor :: terminal_descriptor
  po_descriptor_digest :: string

datatype journal_event =
    Run_Created string "blob_ref list option"
  | State_Changed journal_state
  | Node_Enqueued enqueued_node
  | Node_Progressed string blob_ref
  | Node_Replay_Authorized string string
  | Attempt_Intent string string
  | Attempt_Observed string string observed_kind int
  | Task_Completed string string
  | Item_Buffered string string blob_ref logical_order
  | Item_Committed string string logical_order int
  | Item_Duplicate string string logical_order
  | Sink_Committed int int string
  | Output_Prepared prepared_output
  | Output_Committed string int string
  | Node_Completed string
  | Task_Skipped string string run_stop
  | Stop_Reason "string option" "string option" run_stop string
  | Interrupted interruption
  | Cancel_Requested cancellation_source
  | Terminal terminal_descriptor string

record frame_body =
  fb_run_id :: string
  fb_sequence :: int
  fb_execution_epoch :: int
  fb_previous :: "string option"
  fb_event :: journal_event

section \<open>Names\<close>

fun run_stop_name :: "run_stop \<Rightarrow> string" where
  "run_stop_name Stop_Cancelled = ''cancelled''"
| "run_stop_name Stop_Deadline_Exhausted = ''deadline_exhausted''"
| "run_stop_name Stop_Task_Failed = ''task_failed''"
| "run_stop_name Stop_Run_Budget_Exhausted = ''run_budget_exhausted''"
| "run_stop_name Stop_Item_Invalid = ''item_invalid''"
| "run_stop_name Stop_Output_Sink_Failure = ''output_sink_failure''"

fun result_kind_name :: "result_kind \<Rightarrow> string" where
  "result_kind_name Scrape_Outcome = ''scrape_outcome''"
| "result_kind_name Scrape_Partial = ''scrape_partial''"
| "result_kind_name Scrape_Failure = ''scrape_failure''"

fun output_format_name :: "output_format \<Rightarrow> string" where
  "output_format_name Format_Json = ''json''"
| "output_format_name Format_Ndjson = ''ndjson''"
| "output_format_name Format_Csv = ''csv''"

fun cancellation_source_name :: "cancellation_source \<Rightarrow> string" where
  "cancellation_source_name Foreground_Sigint = ''foreground_sigint''"
| "cancellation_source_name Sdk_Cancel = ''sdk_cancel''"
| "cancellation_source_name Mcp_Cancel = ''mcp_cancel''"
| "cancellation_source_name Cli_Cancel = ''cli_cancel''"

fun observed_kind_name :: "observed_kind \<Rightarrow> string" where
  "observed_kind_name Observed_Outcome = ''outcome''"
| "observed_kind_name Observed_Unclassified = ''unclassified_response''"
| "observed_kind_name Observed_Ambiguous = ''ambiguous_response''"
| "observed_kind_name Observed_Verification_Failed = ''verification_failed''"
| "observed_kind_name Observed_Projection_Failed = ''projection_failed''"
| "observed_kind_name Observed_Failure = ''failure''"

fun interruption_name :: "interruption \<Rightarrow> string" where
  "interruption_name Daemon_Stopped = ''daemon_stopped''"
| "interruption_name Daemon_Crash = ''daemon_crash''"
| "interruption_name Process_Crash = ''process_crash''"
| "interruption_name Browser_Crash = ''browser_crash''"

definition parse_name :: "('a \<Rightarrow> string) \<Rightarrow> 'a list \<Rightarrow> json \<Rightarrow> exn + 'a" where
  "parse_name name xs v = (case v of
     JStr s \<Rightarrow> (case List.find (\<lambda>x. name x = s) xs of
         Some x \<Rightarrow> Inr x
       | None \<Rightarrow> Inl (PublicContractError (STR ''is invalid'')))
   | _ \<Rightarrow> Inl (PublicContractError (STR ''is invalid'')))"

definition parse_run_stop :: "json \<Rightarrow> exn + run_stop" where
  "parse_run_stop = parse_name run_stop_name [Stop_Cancelled, Stop_Deadline_Exhausted, Stop_Task_Failed,
     Stop_Run_Budget_Exhausted, Stop_Item_Invalid, Stop_Output_Sink_Failure]"

definition parse_result_kind :: "json \<Rightarrow> exn + result_kind" where
  "parse_result_kind = parse_name result_kind_name [Scrape_Outcome, Scrape_Partial, Scrape_Failure]"

definition parse_output_format :: "json \<Rightarrow> exn + output_format" where
  "parse_output_format = parse_name output_format_name [Format_Json, Format_Ndjson, Format_Csv]"

definition parse_cancellation_source :: "json \<Rightarrow> exn + cancellation_source" where
  "parse_cancellation_source = parse_name cancellation_source_name
     [Foreground_Sigint, Sdk_Cancel, Mcp_Cancel, Cli_Cancel]"

definition parse_observed_kind :: "json \<Rightarrow> exn + observed_kind" where
  "parse_observed_kind = parse_name observed_kind_name [Observed_Outcome, Observed_Unclassified,
     Observed_Ambiguous, Observed_Verification_Failed, Observed_Projection_Failed, Observed_Failure]"

definition parse_interruption :: "json \<Rightarrow> exn + interruption" where
  "parse_interruption = parse_name interruption_name
     [Daemon_Stopped, Daemon_Crash, Process_Crash, Browser_Crash]"

section \<open>Identifiers\<close>

definition is_prefixed_hex :: "string \<Rightarrow> string \<Rightarrow> bool" where
  "is_prefixed_hex prefix s \<longleftrightarrow> take (length prefix) s = prefix \<and>
     length s = length prefix + 32 \<and> list_all is_lower_hex (drop (length prefix) s)"

definition parse_prefixed_hex :: "string \<Rightarrow> String.literal \<Rightarrow> json \<Rightarrow> exn + string" where
  "parse_prefixed_hex prefix message v = (case v of
     JStr s \<Rightarrow> ensureR (is_prefixed_hex prefix s) (PublicContractError message) (Inr s)
   | _ \<Rightarrow> Inl (PublicContractError message))"

definition parse_run_id :: "json \<Rightarrow> exn + string" where
  "parse_run_id = parse_prefixed_hex ''run_v1_'' (STR ''must be a canonical run id'')"

definition parse_run_operation_id :: "json \<Rightarrow> exn + string" where
  "parse_run_operation_id = parse_prefixed_hex ''op_v1_'' (STR ''must be a canonical run operation id'')"

definition parse_run_node_id :: "json \<Rightarrow> exn + string" where
  "parse_run_node_id = parse_prefixed_hex ''node_v1_'' (STR ''must be a canonical run node id'')"

text \<open>\<open>createRunNodeId\<close>.\<close>

definition create_run_node_id :: "hash \<Rightarrow> string \<Rightarrow> json \<Rightarrow> exn + string" where
  "create_run_node_id sha run_id logical_key = bindR (canonical_json logical_key) (\<lambda>t.
     Inr (''node_v1_'' @ take 32 (sha (''klura-node-v1'' @ [CHR 0x00] @ run_id @ [CHR 0x00] @ t))))"

section \<open>The objects of the journal\<close>

definition num_json :: "int \<Rightarrow> json" where
  "num_json i = JNum (NInt i)"

definition option_json :: "('a \<Rightarrow> json) \<Rightarrow> 'a option \<Rightarrow> json" where
  "option_json f m = (case m of None \<Rightarrow> JNull | Some x \<Rightarrow> f x)"

definition order_json :: "logical_order \<Rightarrow> json" where
  "order_json p = JObj [(''item_ordinal'', num_json (item_ordinal p)),
     (''node_ordinal'', num_json (node_ordinal p)), (''page_ordinal'', num_json (page_ordinal p))]"

definition summary_json :: "run_summary \<Rightarrow> json" where
  "summary_json s = JObj [(''items_duplicate'', num_json (items_duplicate s)),
     (''items_emitted'', num_json (items_emitted s)), (''target_requests'', num_json (target_requests s)),
     (''tasks_completed'', num_json (tasks_completed s)), (''tasks_failed'', num_json (tasks_failed s))]"

fun stop_json :: "terminal_stop \<Rightarrow> json" where
  "stop_json (Run_Stop s) = JStr (run_stop_name s)"
| "stop_json Source_Exhausted = JObj [(''kind'', JStr ''source_exhausted'')]"
| "stop_json (Date_Cutoff_Reached i) =
     JObj [(''kind'', JStr ''date_cutoff_reached''), (''semantic_stop_id'', JStr i)]"

fun output_json :: "output_descriptor \<Rightarrow> json" where
  "output_json (Output_Inline p) = JObj [(''kind'', JStr ''inline''), (''partial'', JBool p)]"
| "output_json (Output_File path f p) = JObj [(''format'', JStr (output_format_name f)),
     (''kind'', JStr ''file''), (''partial'', JBool p), (''path'', JStr path)]"
| "output_json Output_None = JObj [(''kind'', JStr ''none'')]"

definition descriptor_json :: "terminal_descriptor \<Rightarrow> json" where
  "descriptor_json d = JObj [(''descriptor_schema_version'', num_json 1),
     (''output'', output_json (td_output d)), (''result_kind'', JStr (result_kind_name (td_result_kind d))),
     (''stop'', stop_json (td_stop d)), (''summary'', summary_json (td_summary d))]"

definition task_json :: "string \<Rightarrow> string \<Rightarrow> string \<Rightarrow> json" where
  "task_json kind n t = JObj [(''kind'', JStr kind), (''node_id'', JStr n), (''task_kind_id'', JStr t)]"

fun event_json :: "journal_event \<Rightarrow> json" where
  "event_json (Run_Created d None) = JObj [(''kind'', JStr ''run_created''), (''meta_digest'', JStr d)]"
| "event_json (Run_Created d (Some bs)) = JObj [(''initial_nodes'', JArr (map blob_json bs)),
     (''kind'', JStr ''run_created''), (''meta_digest'', JStr d)]"
| "event_json (State_Changed State_Queued) = JObj [(''kind'', JStr ''state_changed''),
     (''state'', JObj [(''kind'', JStr ''queued'')])]"
| "event_json (State_Changed (State_Running e)) = JObj [(''kind'', JStr ''state_changed''),
     (''state'', JObj [(''current_node_id'', JNull), (''execution_epoch'', num_json e),
       (''kind'', JStr ''running'')])]"
| "event_json (Node_Enqueued n) = JObj [(''depth'', num_json (en_depth n)), (''kind'', JStr ''node_enqueued''),
     (''logical_key_digest'', JStr (en_logical_key_digest n)), (''node_id'', JStr (en_node_id n)),
     (''node_state'', blob_json (en_node_state n)), (''output_ordinal'', num_json (en_output_ordinal n)),
     (''root_ordinal'', num_json (en_root_ordinal n)),
     (''seed_ordinal'', option_json num_json (en_seed_ordinal n)), (''task_kind_id'', JStr (en_task_kind_id n))]"
| "event_json (Node_Progressed n b) = JObj [(''kind'', JStr ''node_progressed''), (''node_id'', JStr n),
     (''node_state'', blob_json b)]"
| "event_json (Node_Replay_Authorized n t) = task_json ''node_replay_authorized'' n t"
| "event_json (Attempt_Intent n t) = task_json ''attempt_intent'' n t"
| "event_json (Attempt_Observed n t k a) = JObj [(''attempts'', num_json a),
     (''kind'', JStr ''attempt_observed''), (''node_id'', JStr n),
     (''result_kind'', JStr (observed_kind_name k)), (''task_kind_id'', JStr t)]"
| "event_json (Task_Completed n t) = task_json ''task_completed'' n t"
| "event_json (Item_Buffered n i b p) = JObj [(''data'', blob_json b), (''identity_digest'', JStr i),
     (''kind'', JStr ''item_buffered''), (''logical_order'', order_json p), (''node_id'', JStr n)]"
| "event_json (Item_Committed n i p q) = JObj [(''identity_digest'', JStr i), (''item_sequence'', num_json q),
     (''kind'', JStr ''item_committed''), (''logical_order'', order_json p), (''node_id'', JStr n)]"
| "event_json (Item_Duplicate n i p) = JObj [(''identity_digest'', JStr i),
     (''kind'', JStr ''item_duplicate''), (''logical_order'', order_json p), (''node_id'', JStr n)]"
| "event_json (Sink_Committed q b d) = JObj [(''byte_offset'', num_json b),
     (''kind'', JStr ''sink_committed''), (''prefix_digest'', JStr d), (''through_item_sequence'', num_json q)]"
| "event_json (Output_Prepared p) = JObj [(''byte_length'', num_json (po_byte_length p)),
     (''content_digest'', JStr (po_content_digest p)), (''kind'', JStr ''output_prepared''),
     (''path_digest'', JStr (po_path_digest p)), (''terminal_descriptor'', descriptor_json (po_descriptor p)),
     (''terminal_descriptor_digest'', JStr (po_descriptor_digest p))]"
| "event_json (Output_Committed c b d) = JObj [(''byte_length'', num_json b), (''content_digest'', JStr c),
     (''kind'', JStr ''output_committed''), (''terminal_descriptor_digest'', JStr d)]"
| "event_json (Node_Completed n) = JObj [(''kind'', JStr ''node_completed''), (''node_id'', JStr n)]"
| "event_json (Task_Skipped n t s) = JObj [(''kind'', JStr ''task_skipped''), (''node_id'', JStr n),
     (''stop'', JStr (run_stop_name s)), (''task_kind_id'', JStr t)]"
| "event_json (Stop_Reason n t s m) = JObj [(''kind'', JStr ''stop_reason''), (''message'', JStr m),
     (''node_id'', option_json JStr n), (''stop'', JStr (run_stop_name s)),
     (''task_kind_id'', option_json JStr t)]"
| "event_json (Interrupted r) = JObj [(''kind'', JStr ''interrupted''), (''reason'', JStr (interruption_name r))]"
| "event_json (Cancel_Requested s) = JObj [(''kind'', JStr ''cancel_requested''),
     (''source'', JStr (cancellation_source_name s))]"
| "event_json (Terminal d g) = JObj [(''descriptor'', descriptor_json d), (''descriptor_digest'', JStr g),
     (''kind'', JStr ''terminal'')]"

definition frame_json :: "frame_body \<Rightarrow> json" where
  "frame_json b = JObj [(''event'', event_json (fb_event b)),
     (''execution_epoch'', num_json (fb_execution_epoch b)), (''frame_schema_version'', num_json 1),
     (''previous_frame_digest'', option_json JStr (fb_previous b)), (''run_id'', JStr (fb_run_id b)),
     (''sequence'', num_json (fb_sequence b))]"

end
