(* ===== verification/Journal_Parse.thy ===== *)
theory Journal_Parse
  imports Journal_Event
begin

text \<open>
  The parsers of journal events and frame bodies (\<open>parseJournalEvent\<close>,
  \<open>parseTerminalResultDescriptor\<close> and \<open>parseJournalFrameBody\<close> of
  \<open>src/src/consumer/scrape/journal.ts\<close>, \<open>parseStopReasonEvent\<close> of \<open>stop-reason.ts\<close>), and
  their round trip with the objects of \<open>Journal_Event\<close>.
\<close>

section \<open>Parts\<close>

text \<open>\<open>readRecordKind\<close>.\<close>

definition read_record_kind :: "json \<Rightarrow> exn + string" where
  "read_record_kind v = bindR (as_object v) (\<lambda>r.
     (case field r ''kind'' of
        Some (JStr k) \<Rightarrow> Inr k
      | _ \<Rightarrow> Inl (PublicContractError (STR ''must be a string''))))"

definition parse_nullable_with :: "(json \<Rightarrow> exn + 'a) \<Rightarrow> json \<Rightarrow> exn + 'a option" where
  "parse_nullable_with f v = (case v of JNull \<Rightarrow> Inr None | _ \<Rightarrow> bindR (f v) (\<lambda>x. Inr (Some x)))"

abbreviation parse_count :: "json \<Rightarrow> exn + int" where
  "parse_count \<equiv> parse_integer 0 max_safe_integer"

definition parse_item_logical_order :: "json \<Rightarrow> exn + logical_order" where
  "parse_item_logical_order v =
     bindR (parse_exact_record [''node_ordinal'', ''page_ordinal'', ''item_ordinal''] v) (\<lambda>r.
     bindR (parse_count (fld r ''node_ordinal'')) (\<lambda>n.
     bindR (parse_integer 0 1000 (fld r ''page_ordinal'')) (\<lambda>p.
     bindR (parse_integer 0 1000000 (fld r ''item_ordinal'')) (\<lambda>i.
       Inr \<lparr>node_ordinal = n, page_ordinal = p, item_ordinal = i\<rparr>))))"

definition parse_terminal_summary :: "json \<Rightarrow> exn + run_summary" where
  "parse_terminal_summary v =
     bindR (parse_exact_record [''items_emitted'', ''items_duplicate'', ''tasks_completed'',
       ''tasks_failed'', ''target_requests''] v) (\<lambda>r.
     bindR (parse_count (fld r ''items_emitted'')) (\<lambda>e.
     bindR (parse_count (fld r ''items_duplicate'')) (\<lambda>d.
     bindR (parse_count (fld r ''tasks_completed'')) (\<lambda>c.
     bindR (parse_count (fld r ''tasks_failed'')) (\<lambda>f.
     bindR (parse_count (fld r ''target_requests'')) (\<lambda>t.
       Inr \<lparr>items_emitted = e, items_duplicate = d, tasks_completed = c, tasks_failed = f,
         target_requests = t\<rparr>))))))"

definition parse_bool :: "json \<Rightarrow> exn + bool" where
  "parse_bool v = (case v of JBool b \<Rightarrow> Inr b | _ \<Rightarrow> Inl (PublicContractError (STR ''must be a boolean'')))"

definition parse_terminal_output :: "json \<Rightarrow> exn + output_descriptor" where
  "parse_terminal_output v = bindR (read_record_kind v) (\<lambda>k.
     if k = ''none'' then bindR (parse_exact_record [''kind''] v) (\<lambda>_. Inr Output_None)
     else if k = ''inline'' then bindR (parse_exact_record [''kind'', ''partial''] v) (\<lambda>r.
       bindR (parse_bool (fld r ''partial'')) (\<lambda>p. Inr (Output_Inline p)))
     else bindR (parse_exact_record [''kind'', ''path'', ''format'', ''partial''] v) (\<lambda>r.
       ensureR (k = ''file'') (PublicContractError (STR ''is invalid''))
        (case fld r ''path'' of
           JStr path \<Rightarrow> ensureR (path \<noteq> []) (PublicContractError (STR ''must be a non-empty string''))
             (bindR (parse_output_format (fld r ''format'')) (\<lambda>f.
              bindR (parse_bool (fld r ''partial'')) (\<lambda>p. Inr (Output_File path f p))))
         | _ \<Rightarrow> Inl (PublicContractError (STR ''must be a non-empty string'')))))"

definition parse_terminal_run_stop :: "result_kind \<Rightarrow> json \<Rightarrow> exn + terminal_stop" where
  "parse_terminal_run_stop kind v =
     (if kind \<noteq> Scrape_Outcome then bindR (parse_run_stop v) (\<lambda>s. Inr (Run_Stop s))
      else bindR (as_object v) (\<lambda>r.
        if field r ''kind'' = Some (JStr ''source_exhausted'')
        then bindR (parse_exact_record [''kind''] v) (\<lambda>_. Inr Source_Exhausted)
        else bindR (parse_exact_record [''kind'', ''semantic_stop_id''] v) (\<lambda>r.
          ensureR (fld r ''kind'' = JStr ''date_cutoff_reached'')
            (PublicContractError (STR ''does not match scrape_outcome''))
           (bindR (parse_stable_contract_id (fld r ''semantic_stop_id'')) (\<lambda>i.
             Inr (Date_Cutoff_Reached i))))))"

definition parse_terminal_descriptor :: "json \<Rightarrow> exn + terminal_descriptor" where
  "parse_terminal_descriptor v =
     bindR (parse_exact_record [''descriptor_schema_version'', ''result_kind'', ''stop'', ''summary'',
       ''output''] v) (\<lambda>r.
     ensureR (fld r ''descriptor_schema_version'' = JNum (NInt 1)) (PublicContractError (STR ''must be 1''))
     (bindR (parse_result_kind (fld r ''result_kind'')) (\<lambda>k.
      bindR (parse_terminal_run_stop k (fld r ''stop'')) (\<lambda>s.
      bindR (parse_terminal_summary (fld r ''summary'')) (\<lambda>m.
      bindR (parse_terminal_output (fld r ''output'')) (\<lambda>out.
      let d = \<lparr>td_result_kind = k, td_stop = s, td_summary = m, td_output = out\<rparr> in
      bindR (canonical_json (descriptor_json d)) (\<lambda>t.
        ensureR (length t \<le> 16384)
          (PublicContractError (STR ''exceeds the 16 KiB terminal descriptor bound'')) (Inr d))))))))"

definition terminal_descriptor_digest :: "hash \<Rightarrow> terminal_descriptor \<Rightarrow> exn + string" where
  "terminal_descriptor_digest sha d =
     bindR (parse_terminal_descriptor (descriptor_json d)) (\<lambda>p. canonical_json_digest sha (descriptor_json p))"

text \<open>A descriptor and the digest that must be its own.\<close>

definition parse_bound_descriptor :: "hash \<Rightarrow> json \<Rightarrow> json \<Rightarrow> exn + terminal_descriptor \<times> string" where
  "parse_bound_descriptor sha dv gv =
     bindR (parse_terminal_descriptor dv) (\<lambda>d.
     bindR (parse_sha256_digest gv) (\<lambda>g.
     bindR (terminal_descriptor_digest sha d) (\<lambda>h.
       ensureR (g = h) (PublicContractError (STR ''does not match the terminal descriptor'')) (Inr (d, g)))))"

definition parse_journal_state :: "json \<Rightarrow> exn + journal_state" where
  "parse_journal_state v = bindR (read_record_kind v) (\<lambda>k.
     if k = ''queued'' then bindR (parse_exact_record [''kind''] v) (\<lambda>_. Inr State_Queued)
     else bindR (parse_exact_record [''kind'', ''execution_epoch'', ''current_node_id''] v) (\<lambda>r.
       ensureR (k = ''running'' \<and> fld r ''current_node_id'' = JNull) (PublicContractError (STR ''is invalid''))
        (bindR (parse_count (fld r ''execution_epoch'')) (\<lambda>e. Inr (State_Running e)))))"

section \<open>Events\<close>

definition parse_run_created :: "json \<Rightarrow> exn + journal_event" where
  "parse_run_created v = bindR (as_object v) (\<lambda>o0.
     if has_key o0 ''initial_nodes'' then
       bindR (parse_exact_record [''kind'', ''meta_digest'', ''initial_nodes''] v) (\<lambda>r.
       (case fld r ''initial_nodes'' of
          JArr xs \<Rightarrow> ensureR (length xs \<le> 1000) (PublicContractError (STR ''must contain at most 1,000 nodes''))
            (bindR (parse_sha256_digest (fld r ''meta_digest'')) (\<lambda>d.
             bindR (mapR parse_blob_ref xs) (\<lambda>bs. Inr (Run_Created d (Some bs)))))
        | _ \<Rightarrow> Inl (PublicContractError (STR ''must contain at most 1,000 nodes''))))
     else
       bindR (parse_exact_record [''kind'', ''meta_digest''] v) (\<lambda>r.
       bindR (parse_sha256_digest (fld r ''meta_digest'')) (\<lambda>d. Inr (Run_Created d None))))"

definition parse_node_enqueued :: "json \<Rightarrow> exn + journal_event" where
  "parse_node_enqueued v =
     bindR (parse_exact_record [''kind'', ''node_id'', ''logical_key_digest'', ''node_state'',
       ''task_kind_id'', ''root_ordinal'', ''seed_ordinal'', ''depth'', ''output_ordinal''] v) (\<lambda>r.
     bindR (parse_run_node_id (fld r ''node_id'')) (\<lambda>n.
     bindR (parse_sha256_digest (fld r ''logical_key_digest'')) (\<lambda>l.
     bindR (parse_blob_ref (fld r ''node_state'')) (\<lambda>b.
     bindR (parse_stable_contract_id (fld r ''task_kind_id'')) (\<lambda>t.
     bindR (parse_count (fld r ''root_ordinal'')) (\<lambda>ro.
     bindR (parse_nullable_with parse_count (fld r ''seed_ordinal'')) (\<lambda>so.
     bindR (parse_integer 0 3 (fld r ''depth'')) (\<lambda>d.
     bindR (parse_count (fld r ''output_ordinal'')) (\<lambda>oo.
       Inr (Node_Enqueued \<lparr>en_node_id = n, en_logical_key_digest = l, en_node_state = b,
         en_task_kind_id = t, en_root_ordinal = ro, en_seed_ordinal = so, en_depth = d,
         en_output_ordinal = oo\<rparr>))))))))))"

text \<open>The events that carry a node and its task kind only.\<close>

definition parse_task_event :: "(string \<Rightarrow> string \<Rightarrow> journal_event) \<Rightarrow> json \<Rightarrow> exn + journal_event" where
  "parse_task_event mk v = bindR (parse_exact_record [''kind'', ''node_id'', ''task_kind_id''] v) (\<lambda>r.
     bindR (parse_run_node_id (fld r ''node_id'')) (\<lambda>n.
     bindR (parse_stable_contract_id (fld r ''task_kind_id'')) (\<lambda>t. Inr (mk n t))))"

definition parse_node_progressed :: "json \<Rightarrow> exn + journal_event" where
  "parse_node_progressed v = bindR (parse_exact_record [''kind'', ''node_id'', ''node_state''] v) (\<lambda>r.
     bindR (parse_run_node_id (fld r ''node_id'')) (\<lambda>n.
     bindR (parse_blob_ref (fld r ''node_state'')) (\<lambda>b. Inr (Node_Progressed n b))))"

definition parse_attempt_observed :: "json \<Rightarrow> exn + journal_event" where
  "parse_attempt_observed v =
     bindR (parse_exact_record [''kind'', ''node_id'', ''task_kind_id'', ''result_kind'', ''attempts''] v) (\<lambda>r.
     bindR (parse_observed_kind (fld r ''result_kind'')) (\<lambda>k.
     bindR (parse_run_node_id (fld r ''node_id'')) (\<lambda>n.
     bindR (parse_stable_contract_id (fld r ''task_kind_id'')) (\<lambda>t.
     bindR (parse_count (fld r ''attempts'')) (\<lambda>a. Inr (Attempt_Observed n t k a))))))"

definition parse_item_buffered :: "json \<Rightarrow> exn + journal_event" where
  "parse_item_buffered v =
     bindR (parse_exact_record [''kind'', ''node_id'', ''identity_digest'', ''data'', ''logical_order''] v) (\<lambda>r.
     bindR (parse_run_node_id (fld r ''node_id'')) (\<lambda>n.
     bindR (parse_sha256_digest (fld r ''identity_digest'')) (\<lambda>i.
     bindR (parse_blob_ref (fld r ''data'')) (\<lambda>b.
     bindR (parse_item_logical_order (fld r ''logical_order'')) (\<lambda>p. Inr (Item_Buffered n i b p))))))"

definition parse_item_committed :: "json \<Rightarrow> exn + journal_event" where
  "parse_item_committed v =
     bindR (parse_exact_record [''kind'', ''node_id'', ''identity_digest'', ''logical_order'',
       ''item_sequence''] v) (\<lambda>r.
     bindR (parse_run_node_id (fld r ''node_id'')) (\<lambda>n.
     bindR (parse_sha256_digest (fld r ''identity_digest'')) (\<lambda>i.
     bindR (parse_item_logical_order (fld r ''logical_order'')) (\<lambda>p.
     bindR (parse_integer 1 max_safe_integer (fld r ''item_sequence'')) (\<lambda>q.
       Inr (Item_Committed n i p q))))))"

definition parse_item_duplicate :: "json \<Rightarrow> exn + journal_event" where
  "parse_item_duplicate v =
     bindR (parse_exact_record [''kind'', ''node_id'', ''identity_digest'', ''logical_order''] v) (\<lambda>r.
     bindR (parse_run_node_id (fld r ''node_id'')) (\<lambda>n.
     bindR (parse_sha256_digest (fld r ''identity_digest'')) (\<lambda>i.
     bindR (parse_item_logical_order (fld r ''logical_order'')) (\<lambda>p. Inr (Item_Duplicate n i p)))))"

definition parse_sink_committed :: "json \<Rightarrow> exn + journal_event" where
  "parse_sink_committed v =
     bindR (parse_exact_record [''kind'', ''through_item_sequence'', ''byte_offset'', ''prefix_digest''] v) (\<lambda>r.
     bindR (parse_integer 1 max_safe_integer (fld r ''through_item_sequence'')) (\<lambda>q.
     bindR (parse_integer 1 max_safe_integer (fld r ''byte_offset'')) (\<lambda>b.
     bindR (parse_sha256_digest (fld r ''prefix_digest'')) (\<lambda>d. Inr (Sink_Committed q b d)))))"

definition parse_output_prepared :: "hash \<Rightarrow> json \<Rightarrow> exn + journal_event" where
  "parse_output_prepared sha v =
     bindR (parse_exact_record [''kind'', ''path_digest'', ''content_digest'', ''byte_length'',
       ''terminal_descriptor'', ''terminal_descriptor_digest''] v) (\<lambda>r.
     bindR (parse_bound_descriptor sha (fld r ''terminal_descriptor'') (fld r ''terminal_descriptor_digest''))
       (\<lambda>(d, g).
     bindR (parse_sha256_digest (fld r ''path_digest'')) (\<lambda>p.
     bindR (parse_sha256_digest (fld r ''content_digest'')) (\<lambda>c.
     bindR (parse_count (fld r ''byte_length'')) (\<lambda>b.
       Inr (Output_Prepared \<lparr>po_path_digest = p, po_content_digest = c, po_byte_length = b,
         po_descriptor = d, po_descriptor_digest = g\<rparr>))))))"

definition parse_output_committed :: "json \<Rightarrow> exn + journal_event" where
  "parse_output_committed v =
     bindR (parse_exact_record [''kind'', ''content_digest'', ''byte_length'',
       ''terminal_descriptor_digest''] v) (\<lambda>r.
     bindR (parse_sha256_digest (fld r ''content_digest'')) (\<lambda>c.
     bindR (parse_count (fld r ''byte_length'')) (\<lambda>b.
     bindR (parse_sha256_digest (fld r ''terminal_descriptor_digest'')) (\<lambda>g.
       Inr (Output_Committed c b g)))))"

definition parse_task_skipped :: "json \<Rightarrow> exn + journal_event" where
  "parse_task_skipped v =
     bindR (parse_exact_record [''kind'', ''node_id'', ''task_kind_id'', ''stop''] v) (\<lambda>r.
     bindR (parse_run_node_id (fld r ''node_id'')) (\<lambda>n.
     bindR (parse_stable_contract_id (fld r ''task_kind_id'')) (\<lambda>t.
     bindR (parse_run_stop (fld r ''stop'')) (\<lambda>s. Inr (Task_Skipped n t s)))))"

text \<open>\<open>parseStopReasonEvent\<close>.\<close>

definition parse_stop_reason_event :: "json \<Rightarrow> exn + journal_event" where
  "parse_stop_reason_event v =
     bindR (parse_exact_record [''kind'', ''node_id'', ''task_kind_id'', ''stop'', ''message''] v) (\<lambda>r.
     bindR (parse_nullable_with parse_run_node_id (fld r ''node_id'')) (\<lambda>n.
     bindR (parse_nullable_with parse_stable_contract_id (fld r ''task_kind_id'')) (\<lambda>t.
     bindR (parse_run_stop (fld r ''stop'')) (\<lambda>s.
     bindR (parse_string 512 (fld r ''message'')) (\<lambda>m. Inr (Stop_Reason n t s m))))))"

definition parse_node_completed :: "json \<Rightarrow> exn + journal_event" where
  "parse_node_completed v = bindR (parse_exact_record [''kind'', ''node_id''] v) (\<lambda>r.
     bindR (parse_run_node_id (fld r ''node_id'')) (\<lambda>n. Inr (Node_Completed n)))"

definition parse_interrupted :: "json \<Rightarrow> exn + journal_event" where
  "parse_interrupted v = bindR (parse_exact_record [''kind'', ''reason''] v) (\<lambda>r.
     bindR (parse_interruption (fld r ''reason'')) (\<lambda>x. Inr (Interrupted x)))"

definition parse_cancel_requested :: "json \<Rightarrow> exn + journal_event" where
  "parse_cancel_requested v = bindR (parse_exact_record [''kind'', ''source''] v) (\<lambda>r.
     bindR (parse_cancellation_source (fld r ''source'')) (\<lambda>x. Inr (Cancel_Requested x)))"

definition parse_terminal :: "hash \<Rightarrow> json \<Rightarrow> exn + journal_event" where
  "parse_terminal sha v =
     bindR (parse_exact_record [''kind'', ''descriptor'', ''descriptor_digest''] v) (\<lambda>r.
     bindR (parse_bound_descriptor sha (fld r ''descriptor'') (fld r ''descriptor_digest'')) (\<lambda>(d, g).
       Inr (Terminal d g)))"

definition parse_journal_event :: "hash \<Rightarrow> json \<Rightarrow> exn + journal_event" where
  "parse_journal_event sha v = bindR (read_record_kind v) (\<lambda>k.
     if k = ''run_created'' then parse_run_created v
     else if k = ''state_changed'' then bindR (parse_exact_record [''kind'', ''state''] v) (\<lambda>r.
       bindR (parse_journal_state (fld r ''state'')) (\<lambda>s. Inr (State_Changed s)))
     else if k = ''node_enqueued'' then parse_node_enqueued v
     else if k = ''attempt_intent'' then parse_task_event Attempt_Intent v
     else if k = ''node_replay_authorized'' then parse_task_event Node_Replay_Authorized v
     else if k = ''node_progressed'' then parse_node_progressed v
     else if k = ''attempt_observed'' then parse_attempt_observed v
     else if k = ''task_completed'' then parse_task_event Task_Completed v
     else if k = ''item_buffered'' then parse_item_buffered v
     else if k = ''item_committed'' then parse_item_committed v
     else if k = ''item_duplicate'' then parse_item_duplicate v
     else if k = ''sink_committed'' then parse_sink_committed v
     else if k = ''output_prepared'' then parse_output_prepared sha v
     else if k = ''output_committed'' then parse_output_committed v
     else if k = ''task_skipped'' then parse_task_skipped v
     else if k = ''stop_reason'' then parse_stop_reason_event v
     else if k = ''node_completed'' then parse_node_completed v
     else if k = ''interrupted'' then parse_interrupted v
     else if k = ''cancel_requested'' then parse_cancel_requested v
     else if k = ''terminal'' then parse_terminal sha v
     else Inl (PublicContractError (STR ''is not a supported journal event'')))"

definition parse_journal_frame_body :: "hash \<Rightarrow> json \<Rightarrow> exn + frame_body" where
  "parse_journal_frame_body sha v =
     bindR (parse_exact_record [''frame_schema_version'', ''run_id'', ''sequence'', ''execution_epoch'',
       ''previous_frame_digest'', ''event''] v) (\<lambda>r.
     ensureR (fld r ''frame_schema_version'' = JNum (NInt 1)) (PublicContractError (STR ''must be 1''))
     (bindR (parse_run_id (fld r ''run_id'')) (\<lambda>i.
      bindR (parse_integer 1 max_safe_integer (fld r ''sequence'')) (\<lambda>q.
      bindR (parse_count (fld r ''execution_epoch'')) (\<lambda>e.
      bindR (parse_nullable_with parse_sha256_digest (fld r ''previous_frame_digest'')) (\<lambda>p.
      bindR (parse_journal_event sha (fld r ''event'')) (\<lambda>ev.
        Inr \<lparr>fb_run_id = i, fb_sequence = q, fb_execution_epoch = e, fb_previous = p, fb_event = ev\<rparr>)))))))"

section \<open>Round trip with the objects\<close>

lemma parse_names [simp]:
  "parse_run_stop (JStr (run_stop_name s)) = Inr s"
  "parse_result_kind (JStr (result_kind_name k)) = Inr k"
  "parse_output_format (JStr (output_format_name f)) = Inr f"
  "parse_cancellation_source (JStr (cancellation_source_name c)) = Inr c"
  "parse_observed_kind (JStr (observed_kind_name q)) = Inr q"
  "parse_interruption (JStr (interruption_name i)) = Inr i"
proof -
  show "parse_run_stop (JStr (run_stop_name s)) = Inr s"
    by (cases s) (simp_all add: parse_run_stop_def parse_name_def)
  show "parse_result_kind (JStr (result_kind_name k)) = Inr k"
    by (cases k) (simp_all add: parse_result_kind_def parse_name_def)
  show "parse_output_format (JStr (output_format_name f)) = Inr f"
    by (cases f) (simp_all add: parse_output_format_def parse_name_def)
  show "parse_cancellation_source (JStr (cancellation_source_name c)) = Inr c"
    by (cases c) (simp_all add: parse_cancellation_source_def parse_name_def)
  show "parse_observed_kind (JStr (observed_kind_name q)) = Inr q"
    by (cases q) (simp_all add: parse_observed_kind_def parse_name_def)
  show "parse_interruption (JStr (interruption_name i)) = Inr i"
    by (cases i) (simp_all add: parse_interruption_def parse_name_def)
qed

lemma parse_run_stop_obj [simp]: "parse_run_stop (JObj r) \<noteq> Inr x"
  by (simp add: parse_run_stop_def parse_name_def)

lemma parse_prefixed_hex_Inr:
  "parse_prefixed_hex p m v = Inr s \<longleftrightarrow> v = JStr s \<and> is_prefixed_hex p s"
  by (cases v) (auto simp: parse_prefixed_hex_def ensureR_Inr_iff)

lemmas id_Inr = parse_prefixed_hex_Inr[of "''run_v1_''" "STR ''must be a canonical run id''", folded parse_run_id_def]
  parse_prefixed_hex_Inr[of "''node_v1_''" "STR ''must be a canonical run node id''", folded parse_run_node_id_def]

lemma parse_nullable_num: "parse_nullable_with parse_count (option_json num_json m) = Inr m' \<longleftrightarrow>
    m' = m \<and> (case m of None \<Rightarrow> True | Some i \<Rightarrow> 0 \<le> i \<and> i \<le> max_safe_integer)"
  by (cases m) (auto simp: parse_nullable_with_def option_json_def num_json_def bindR_Inr_iff parse_integer_Inr)

lemma parse_nullable_str:
  assumes "\<And>v s. f v = Inr s \<longleftrightarrow> v = JStr s \<and> P s"
  shows "parse_nullable_with f (option_json JStr m) = Inr m' \<longleftrightarrow> m' = m \<and> pred_option P m"
  by (cases m) (auto simp: parse_nullable_with_def option_json_def bindR_Inr_iff assms)

lemma parse_stable_contract_id_Inr:
  "parse_stable_contract_id v = Inr s \<longleftrightarrow> v = JStr s \<and> is_stable_identifier s"
  by (simp add: parse_stable_contract_id_def parse_stable_identifier_Inr)

lemmas nullable_Inr = parse_nullable_num parse_nullable_str[OF parse_sha256_digest_Inr]
  parse_nullable_str[OF parse_stable_contract_id_Inr] parse_nullable_str[OF id_Inr(2)]

lemma num_wf_safe: "\<bar>i\<bar> \<le> max_safe_integer \<Longrightarrow> json_wf (num_json i)"
  using safe_integer_wf[of i] by (simp add: num_json_def)

lemma option_json_wf: "(case m of None \<Rightarrow> True | Some i \<Rightarrow> 0 \<le> i \<and> i \<le> max_safe_integer) \<Longrightarrow>
    json_wf (option_json num_json m)" "json_wf (option_json JStr q)"
  using num_wf_safe by (cases m; cases q; force simp: option_json_def)+

lemmas object_read = parse_exact_record_obj as_object_def fld_def field_def bindR_Inr_iff ensureR_Inr_iff leaf_Inr id_Inr
  nullable_Inr

lemma num_json_eq [simp]: "(num_json i = JNum n) = (n = NInt i)" "(num_json i = num_json j) = (i = j)"
  by (auto simp: num_json_def)

lemma parse_integer_num_json: "parse_integer lo hi (num_json i) = Inr j \<longleftrightarrow>
    j = i \<and> \<bar>i\<bar> \<le> max_safe_integer \<and> lo \<le> i \<and> i \<le> hi"
  by (auto simp: num_json_def parse_integer_Inr)

definition order_ok :: "logical_order \<Rightarrow> bool" where
  "order_ok p \<longleftrightarrow> 0 \<le> node_ordinal p \<and> node_ordinal p \<le> max_safe_integer \<and> 0 \<le> page_ordinal p \<and>
     page_ordinal p \<le> 1000 \<and> 0 \<le> item_ordinal p \<and> item_ordinal p \<le> 1000000"

definition count_ok :: "int \<Rightarrow> bool" where
  "count_ok i \<longleftrightarrow> 0 \<le> i \<and> i \<le> max_safe_integer"

definition summary_ok :: "run_summary \<Rightarrow> bool" where
  "summary_ok s \<longleftrightarrow> count_ok (items_emitted s) \<and> count_ok (items_duplicate s) \<and>
     count_ok (tasks_completed s) \<and> count_ok (tasks_failed s) \<and> count_ok (target_requests s)"

lemma parse_order_json: "parse_item_logical_order (order_json p) = Inr p' \<longleftrightarrow> p' = p \<and> order_ok p"
  by (cases p) (auto simp: parse_item_logical_order_def order_json_def object_read parse_integer_num_json
    order_ok_def max_safe_integer_def)

lemma parse_summary_json: "parse_terminal_summary (summary_json s) = Inr s' \<longleftrightarrow> s' = s \<and> summary_ok s"
  by (cases s) (auto simp: parse_terminal_summary_def summary_json_def object_read parse_integer_num_json
    summary_ok_def count_ok_def)

lemma parse_output_json: "parse_terminal_output (output_json d) = Inr d' \<Longrightarrow> d' = d"
  by (cases d) (auto simp: parse_terminal_output_def read_record_kind_def object_read parse_bool_def)

lemma parse_stop_json: "parse_terminal_run_stop k (stop_json s) = Inr s' \<Longrightarrow> s' = s"
  by (cases s) (auto simp: parse_terminal_run_stop_def object_read split: if_split_asm)

lemma parse_descriptor_json:
  assumes "parse_terminal_descriptor (descriptor_json d) = Inr d'"
  shows "d' = d \<and> summary_ok (td_summary d)"
  using assms by (cases d) (auto simp: parse_terminal_descriptor_def descriptor_json_def object_read Let_def
    parse_summary_json dest!: parse_stop_json parse_output_json)

lemma parse_bound_json:
  assumes "parse_bound_descriptor sha (descriptor_json d) (JStr g) = Inr (d', g')"
  shows "d' = d \<and> g' = g \<and> summary_ok (td_summary d)"
  using assms by (auto simp: parse_bound_descriptor_def object_read dest!: parse_descriptor_json)

lemma parse_bound_Inr:
  assumes "parse_bound_descriptor sha v w = Inr (d, g)"
  shows "canonical_json_digest sha (descriptor_json d) = Inr g"
  using assms parse_descriptor_json
  by (auto simp: parse_bound_descriptor_def terminal_descriptor_digest_def bindR_Inr_iff ensureR_Inr_iff)

text \<open>The objects are values a double and a JSON text can hold.\<close>

lemma count_wf: "count_ok i \<Longrightarrow> json_wf (num_json i)"
  using num_wf_safe[of i] by (simp add: count_ok_def)

lemma order_wf: "order_ok p \<Longrightarrow> json_wf (order_json p)"
  using num_wf_safe[of "node_ordinal p"] num_wf_safe[of "page_ordinal p"] num_wf_safe[of "item_ordinal p"]
  by (simp add: order_json_def order_ok_def max_safe_integer_def)

lemma summary_wf: "summary_ok s \<Longrightarrow> json_wf (summary_json s)"
  by (simp add: summary_json_def summary_ok_def count_wf)

lemma output_wf: "json_wf (output_json d)"
  by (cases d) simp_all

lemma stop_wf: "json_wf (stop_json s)"
  by (cases s) simp_all

lemma descriptor_wf: "summary_ok (td_summary d) \<Longrightarrow> json_wf (descriptor_json d)"
  by (simp add: descriptor_json_def summary_wf output_wf stop_wf num_wf_safe max_safe_integer_def)

lemmas parts_wf = order_wf descriptor_wf blob_json_wf option_json_wf num_wf_safe


text \<open>
  An event that passes the parser is the event it was, holds safe integers only, and binds
  its terminal descriptor to the descriptor's digest.
\<close>

definition event_bound :: "hash \<Rightarrow> journal_event \<Rightarrow> bool" where
  "event_bound sha e = (case e of
     Output_Prepared p \<Rightarrow> canonical_json_digest sha (descriptor_json (po_descriptor p)) = Inr (po_descriptor_digest p)
   | Terminal d g \<Rightarrow> canonical_json_digest sha (descriptor_json d) = Inr g
   | _ \<Rightarrow> True)"

lemma mapR_blob_json: "mapR parse_blob_ref (map blob_json bs) = Inr bs' \<longleftrightarrow> bs' = bs \<and> list_all blob_ok bs"
  by (induction bs arbitrary: bs') (auto simp: bindR_Inr_iff parse_blob_ref_json)

lemma parse_task_event_json:
  "parse_task_event mk (task_json k n t) = Inr e \<Longrightarrow> e = mk n t"
  by (auto simp: parse_task_event_def task_json_def object_read)

lemmas event_parsers = parse_run_created_def parse_node_enqueued_def parse_node_progressed_def
  parse_attempt_observed_def parse_item_buffered_def parse_item_committed_def parse_item_duplicate_def
  parse_sink_committed_def parse_output_prepared_def parse_output_committed_def parse_task_skipped_def
  parse_stop_reason_event_def parse_node_completed_def parse_interrupted_def parse_cancel_requested_def
  parse_terminal_def parse_journal_state_def

lemmas parts_json = parse_order_json parse_blob_ref_json mapR_blob_json parse_integer_num_json

lemma parse_event_json:
  assumes "parse_journal_event sha (event_json e) = Inr e'"
  shows "e' = e \<and> json_wf (event_json e)"
proof (cases e)
  case (Run_Created d bs)
  then show ?thesis using assms
    by (cases bs) (auto simp: parse_journal_event_def read_record_kind_def event_parsers object_read parts_json
      has_key_def list_all_iff intro!: blob_json_wf)
next
  case (State_Changed s)
  then show ?thesis using assms
    by (cases s) (auto simp: parse_journal_event_def read_record_kind_def event_parsers object_read parts_json
      intro!: num_wf_safe)
next
  case (Node_Enqueued n)
  then show ?thesis using assms
    by (cases n) (auto simp: parse_journal_event_def read_record_kind_def event_parsers object_read parts_json
      intro!: blob_json_wf num_wf_safe option_json_wf(1))
next
  case (Output_Prepared p)
  then show ?thesis using assms
    by (cases p) (auto simp: parse_journal_event_def read_record_kind_def event_parsers object_read parts_json
      intro!: num_wf_safe descriptor_wf dest!: parse_bound_json)
next
  case (Terminal d g)
  then show ?thesis using assms
    by (auto simp: parse_journal_event_def read_record_kind_def event_parsers object_read parts_json
      intro!: num_wf_safe descriptor_wf dest!: parse_bound_json)
next
  case (Stop_Reason n t s m)
  then show ?thesis using assms
    by (auto simp: parse_journal_event_def read_record_kind_def event_parsers object_read parts_json
      intro!: option_json_wf(2))
qed (use assms in \<open>auto simp: parse_journal_event_def read_record_kind_def event_parsers object_read parts_json
      task_json_def parse_task_event_def intro!: num_wf_safe order_wf blob_json_wf\<close>)

lemma parse_event_bound:
  assumes "parse_journal_event sha v = Inr e"
  shows "event_bound sha e"
proof (rule ccontr)
  assume n: "\<not> event_bound sha e"
  then have "\<exists>p. e = Output_Prepared p \<or> (\<exists>d g. e = Terminal d g)"
    by (auto simp: event_bound_def split: journal_event.splits)
  then show False using assms n
    by (auto simp: parse_journal_event_def event_parsers bindR_Inr_iff ensureR_Inr_iff parse_task_event_def
      event_bound_def res_elims split: if_split_asm dest!: parse_bound_Inr)
qed

lemma parse_frame_json:
  assumes "parse_journal_frame_body sha (frame_json b) = Inr b'"
  shows "b' = b \<and> json_wf (frame_json b) \<and> 1 \<le> fb_sequence b"
proof -
  have e: "(fb_event b' = fb_event b \<and> json_wf (event_json (fb_event b)))"
    using assms parse_event_json by (auto simp: parse_journal_frame_body_def frame_json_def object_read)
  show ?thesis
    using assms e by (cases b; cases b') (auto simp: parse_journal_frame_body_def frame_json_def object_read
      parse_integer_num_json intro!: num_wf_safe option_json_wf(2))
qed

section \<open>Normal form and depth of the objects\<close>

lemma canon_num [simp]: "canon (num_json i) = num_json i"
  by (simp add: num_json_def)

lemma canon_option [simp]: "canon (option_json num_json m) = option_json num_json m"
  "canon (option_json JStr q) = option_json JStr q"
  by (simp_all add: option_json_def split: option.split)

lemmas canon_keys = canon_sorted canon_blob

lemma canon_order: "canon (order_json p) = order_json p"
  by (simp add: order_json_def canon_keys del: canon.simps(2))

lemma canon_summary: "canon (summary_json s) = summary_json s"
  by (simp add: summary_json_def canon_keys del: canon.simps(2))

lemma canon_output: "canon (output_json d) = output_json d"
  by (cases d) (simp_all add: canon_keys del: canon.simps(2))

lemma canon_stop: "canon (stop_json s) = stop_json s"
  by (cases s) (simp_all add: canon_keys del: canon.simps(2))

lemma canon_descriptor: "canon (descriptor_json d) = descriptor_json d"
  by (simp add: descriptor_json_def canon_keys canon_summary canon_output canon_stop del: canon.simps(2))

lemma canon_event: "canon (event_json e) = event_json e"
  by (cases e rule: event_json.cases)
    (simp_all add: canon_keys canon_order canon_descriptor task_json_def comp_def del: canon.simps(2))

lemma canon_frame: "canon (frame_json b) = frame_json b"
  by (simp add: frame_json_def canon_keys canon_event del: canon.simps(2))

lemma depth_leaf [simp]: "d \<le> m \<Longrightarrow> assert_json_value_at m d (num_json i) = Inr ()"
  "d \<le> m \<Longrightarrow> assert_json_value_at m d (option_json num_json x) = Inr ()"
  "d \<le> m \<Longrightarrow> assert_json_value_at m d (option_json JStr y) = Inr ()"
  by (simp_all add: num_json_def option_json_def split: option.split)

lemma depth_parts [simp]: "d < m \<Longrightarrow> assert_json_value_at m d (blob_json b) = Inr ()"
  "d < m \<Longrightarrow> assert_json_value_at m d (order_json p) = Inr ()"
  "d < m \<Longrightarrow> assert_json_value_at m d (summary_json s) = Inr ()"
  by (simp_all add: blob_json_def order_json_def summary_json_def)

lemma depth_descriptor [simp]: "Suc d < m \<Longrightarrow> assert_json_value_at m d (descriptor_json t) = Inr ()"
  by (cases "td_stop t"; cases "td_output t") (simp_all add: descriptor_json_def)

lemma depth_blobs: "Suc d < m \<Longrightarrow> assert_json_value_at m d (JArr (map blob_json bs)) = Inr ()"
  by (induction bs) (auto simp: bindR_Inr_iff ensureR_def)

lemma depth_event: "Suc (Suc d) < m \<Longrightarrow> assert_json_value_at m d (event_json e) = Inr ()"
  by (cases e rule: event_json.cases) (simp_all add: task_json_def depth_blobs del: assert_json_value_at.simps(2))

lemma depth_frame: "assert_json_value 12 (frame_json b) = Inr ()"
  by (simp add: assert_json_value_def frame_json_def depth_event)

end
