(* ===== verification/Run_State.thy ===== *)
theory Run_State
  imports Journal_Parse
begin

text \<open>
  The in-memory state of one executing run (\<open>src/src/consumer/scrape/run-state.ts\<close>), the
  order of items (\<open>item-order.ts\<close>) and the budget constants of the journal
  (\<open>src/src/public/contracts/journal-budget.ts\<close>). The policy of a run
  (\<open>ScrapeRunPolicyV1\<close>) is in \<open>Scrape_Policy\<close>.
\<close>

section \<open>State\<close>

record buffered_item =
  bi_node_id :: string
  bi_identity_digest :: string
  bi_logical_order :: logical_order
  bi_item :: json
  bi_item_bytes :: int
  bi_reserved_output_bytes :: int

record execution_state =
  sequence :: int
  previous_digest :: "string option"
  execution_epoch :: int
  summary :: run_summary
  identity_digests :: "string list"
  maximum_journal_bytes :: int
  maximum_journal_frames :: int
  local_state_bytes :: int
  retained_fanout_item_bytes :: int
  output_bytes :: int
  tasks_started :: int
  pages_started :: int
  next_node_ordinal :: int
  next_item_sequence :: int
  known_node_ids :: "string list"
  buffered_items :: "(string \<times> buffered_item) list"
  reserved_item_count :: int
  reserved_output_bytes :: int
  reserved_identity_state_bytes :: int
  reserved_target_requests :: int
  reserved_reorder_buffer_bytes :: int
  had_independent_failure :: bool
  terminal :: bool

definition zero_summary :: run_summary where
  "zero_summary = \<lparr>items_emitted = 0, items_duplicate = 0, tasks_completed = 0, tasks_failed = 0,
     target_requests = 0\<rparr>"

text \<open>\<open>Set.add\<close>: insertion order, no duplicates.\<close>

definition set_add :: "'a \<Rightarrow> 'a list \<Rightarrow> 'a list" where
  "set_add x xs = (if x \<in> set xs then xs else xs @ [x])"

lemma set_add [simp]: "set (set_add x xs) = insert x (set xs)"
  by (auto simp: set_add_def)

lemma set_add_distinct: "distinct xs \<Longrightarrow> distinct (set_add x xs)"
  by (simp add: set_add_def)

section \<open>Order of items\<close>

definition compare_item_logical_order :: "logical_order \<Rightarrow> logical_order \<Rightarrow> int" where
  "compare_item_logical_order l r =
     (if node_ordinal l \<noteq> node_ordinal r then node_ordinal l - node_ordinal r
      else if page_ordinal l \<noteq> page_ordinal r then page_ordinal l - page_ordinal r
      else item_ordinal l - item_ordinal r)"

definition item_logical_order_key :: "logical_order \<Rightarrow> exn + string" where
  "item_logical_order_key p = canonical_json (order_json p)"

text \<open>The order is the lexicographic one on the three ordinals, made available as such.\<close>

definition order_triple :: "logical_order \<Rightarrow> int \<times> int \<times> int" where
  "order_triple p = (node_ordinal p, page_ordinal p, item_ordinal p)"

definition order_less :: "logical_order \<Rightarrow> logical_order \<Rightarrow> bool" where
  "order_less l r \<longleftrightarrow> node_ordinal l < node_ordinal r \<or> (node_ordinal l = node_ordinal r \<and>
     (page_ordinal l < page_ordinal r \<or> (page_ordinal l = page_ordinal r \<and> item_ordinal l < item_ordinal r)))"

lemma compare_item_logical_order_less: "compare_item_logical_order l r < 0 \<longleftrightarrow> order_less l r"
  by (simp add: compare_item_logical_order_def order_less_def)

lemma compare_item_logical_order_zero: "compare_item_logical_order l r = 0 \<longleftrightarrow> l = r"
  by (cases l; cases r) (auto simp: compare_item_logical_order_def)

lemma order_less_trans: "order_less a b \<Longrightarrow> order_less b c \<Longrightarrow> order_less a c"
  by (auto simp: order_less_def)

lemma order_less_irrefl: "\<not> order_less a a"
  by (simp add: order_less_def)

lemma item_logical_order_key_total: "\<exists>k. item_logical_order_key p = Inr k"
  unfolding item_logical_order_key_def
  by (rule canonical_json_total) (simp add: assert_json_value_def)

lemma item_logical_order_key_inj:
  assumes "order_ok p" "order_ok q" "item_logical_order_key p = Inr k" "item_logical_order_key q = Inr k"
  shows "p = q"
proof -
  have "canon (order_json p) = canon (order_json q)"
    using canonical_json_eq[OF order_wf[OF assms(1)] order_wf[OF assms(2)]] assms(3,4)
    by (simp add: item_logical_order_key_def)
  then show ?thesis by (cases p; cases q) (simp add: canon_order, simp add: order_json_def)
qed

section \<open>Journal budget\<close>

definition journal_frame_header_bytes :: nat where "journal_frame_header_bytes = 4"
definition journal_frame_trailer_bytes :: nat where "journal_frame_trailer_bytes = 32"
definition journal_emergency_frame_body_bytes :: int where "journal_emergency_frame_body_bytes = 65536"
definition journal_emergency_frame_reserve :: int where "journal_emergency_frame_reserve = 5"

definition journal_emergency_byte_reserve :: int where
  "journal_emergency_byte_reserve = journal_emergency_frame_reserve *
     (int journal_frame_header_bytes + journal_emergency_frame_body_bytes + int journal_frame_trailer_bytes)"

definition journal_frames_fixed :: int where
  "journal_frames_fixed = 4 + journal_emergency_frame_reserve"

definition journal_frames_per_task :: int where "journal_frames_per_task = 5"
definition journal_frames_per_item :: int where "journal_frames_per_item = 3"
definition journal_ordinary_frame_bytes :: int where "journal_ordinary_frame_bytes = 1024"

definition minimum_journal_frames :: "int \<Rightarrow> int \<Rightarrow> int" where
  "minimum_journal_frames max_tasks max_items = journal_frames_fixed +
     journal_frames_per_task * max_tasks + journal_frames_per_item * max_items"

definition minimum_journal_bytes :: "int \<Rightarrow> int \<Rightarrow> int" where
  "minimum_journal_bytes max_tasks max_items = journal_emergency_byte_reserve +
     journal_ordinary_frame_bytes * minimum_journal_frames max_tasks max_items"

lemmas journal_budget_defs = journal_frame_header_bytes_def journal_frame_trailer_bytes_def
  journal_emergency_frame_body_bytes_def journal_emergency_frame_reserve_def
  journal_emergency_byte_reserve_def

end
