(* ===== verification/Run_Journal.thy ===== *)
theory Run_Journal
  imports Run_State
begin

text \<open>
  The journal file of a run: frames on disk, reading, appending, repair after a crash
  (\<open>src/src/consumer/scrape/journal.ts\<close>), the emergency path
  (\<open>journal-emergency.ts\<close>) and the ordinary append of \<open>run-service.ts\<close>.

  A file is \<open>None\<close> when it does not exist and \<open>Some\<close> its bytes otherwise; an operation
  returns the file it leaves next to its result, because a repair truncates the file even
  when the operation then fails. An I/O error of the operating system is not modelled.
\<close>

section \<open>Bytes\<close>

definition be32 :: "nat \<Rightarrow> string" where
  "be32 n = [char_of (n div 16777216), char_of (n div 65536), char_of (n div 256), char_of n]"

fun of_be32 :: "string \<Rightarrow> nat" where
  "of_be32 [a, b, c, d] = byte a * 16777216 + byte b * 65536 + byte c * 256 + byte d"
| "of_be32 _ = 0"

text \<open>\<open>Buffer.toString('hex')\<close> and \<open>Buffer.from(_, 'hex')\<close> on hexadecimal digits.\<close>

definition hex_of :: "string \<Rightarrow> string" where
  "hex_of s = concat (map (\<lambda>c. [hex_digit (byte c div 16), hex_digit (byte c mod 16)]) s)"

definition hex_nibble :: "char \<Rightarrow> nat" where
  "hex_nibble c = (if byte c < 58 then byte c - 48 else byte c - 87)"

fun unhex :: "string \<Rightarrow> string" where
  "unhex (a # b # r) = char_of (hex_nibble a * 16 + hex_nibble b) # unhex r"
| "unhex _ = []"

lemma base256: "(a::nat) = b * 256 + x \<Longrightarrow> b = c * 256 + y \<Longrightarrow> c = d * 256 + z \<Longrightarrow>
    d * 16777216 + z * 65536 + y * 256 + x = a"
  by simp

lemma of_be32_be32: "n < 4294967296 \<Longrightarrow> of_be32 (be32 n) = n"
proof -
  assume n: "n < 4294967296"
  have q: "n div 65536 = n div 256 div 256" "n div 16777216 = n div 256 div 256 div 256"
    by (simp_all add: div_mult2_eq[symmetric])
  have "n div 256 div 256 div 256 < 256" using n by (simp add: div_mult2_eq[symmetric] less_mult_imp_div_less)
  then have "n div 256 div 256 div 256 mod 256 = n div 256 div 256 div 256" by simp
  then show "of_be32 (be32 n) = n" unfolding be32_def q
    by (simp add: base256[of n "n div 256" "n mod 256" "n div 256 div 256"])
qed

lemma length_be32 [simp]: "length (be32 n) = 4"
  by (simp add: be32_def)

lemma hex_digit_nibble: "is_lower_hex c \<Longrightarrow> hex_nibble c < 16 \<and> hex_digit (hex_nibble c) = c"
proof -
  assume h: "is_lower_hex c"
  have e: "char_of (byte c) = c" by simp
  from h show ?thesis
    by (auto simp: is_lower_hex_def is_digit_def hex_nibble_def hex_digit_def e)
qed

lemma hex_of_unhex: "list_all is_lower_hex s \<Longrightarrow> even (length s) \<Longrightarrow> hex_of (unhex s) = s"
proof (induction s rule: unhex.induct)
  case (1 a b r)
  have a: "hex_nibble a < 16" "hex_digit (hex_nibble a) = a"
    and b: "hex_nibble b < 16" "hex_digit (hex_nibble b) = b"
    using 1 hex_digit_nibble by auto
  have "byte (char_of (hex_nibble a * 16 + hex_nibble b)) = hex_nibble a * 16 + hex_nibble b"
    using a b by simp
  then show ?case using 1 a b by (simp add: hex_of_def)
qed (auto simp: hex_of_def)

lemma length_unhex: "length (unhex s) = length s div 2"
  by (induction s rule: unhex.induct) auto

section \<open>Frames\<close>

record journal_frame =
  jf_body :: frame_body
  jf_digest :: string
  jf_offset :: nat
  jf_end_offset :: nat

definition max_frame_body_bytes :: nat where
  "max_frame_body_bytes = 1024 * 1024"

definition encode_journal_frame :: "hash \<Rightarrow> frame_body \<Rightarrow> exn + string" where
  "encode_journal_frame sha body =
     bindR (parse_journal_frame_body sha (frame_json body)) (\<lambda>parsed.
     bindR (canonical_json (frame_json parsed)) (\<lambda>bytes.
       ensureR (length bytes \<le> max_frame_body_bytes)
         (RunJournalError Journal_Budget_Exhausted (STR ''journal frame body exceeds 1 MiB''))
        (Inr (be32 (length bytes) @ bytes @ unhex (sha bytes)))))"

text \<open>\<open>error.message\<close> of a contract error.\<close>

fun contract_message :: "exn \<Rightarrow> String.literal" where
  "contract_message (PublicContractError m) = m"
| "contract_message (ValueExpressionError m) = m"
| "contract_message (ScrapeValueError m) = m"
| "contract_message (DataSpoolError _ m) = m"
| "contract_message (RunJournalError _ m) = m"
| "contract_message (RunRecoveryError m) = m"
| "contract_message (ScrapeResumeError m) = m"
| "contract_message (ScrapePlanningError m) = m"
| "contract_message (RunOutputSinkError m) = m"
| "contract_message _ = STR ''error''"

definition corrupt :: "String.literal \<Rightarrow> exn" where
  "corrupt m = RunJournalError Journal_Corrupt m"

definition parse_canonical_frame_body :: "hash \<Rightarrow> string \<Rightarrow> exn + frame_body" where
  "parse_canonical_frame_body sha bytes =
     bindR (parse_strict_json max_frame_body_bytes 12 bytes) (\<lambda>v.
     bindR (canonical_json v) (\<lambda>t.
       ensureR (t = bytes) (corrupt (STR ''journal frame body is not canonical JSON''))
        (catchR (parse_journal_frame_body sha v)
          (\<lambda>e. if is_contract_error e then corrupt (contract_message e) else e))))"

text \<open>The checks of one complete frame: its stored digest, its body, its place in the journal.\<close>

definition check_frame ::
  "hash \<Rightarrow> string option \<Rightarrow> nat \<Rightarrow> int \<Rightarrow> string option \<Rightarrow> string \<Rightarrow> string \<Rightarrow> exn + journal_frame" where
  "check_frame sha run_id offset expected previous body_bytes stored =
     ensureR (stored = sha body_bytes) (corrupt (STR ''journal frame checksum does not match its body''))
      (bindR (parse_canonical_frame_body sha body_bytes) (\<lambda>body.
        ensureR (run_id = None \<or> run_id = Some (fb_run_id body))
          (corrupt (STR ''journal frame belongs to a different run''))
         (ensureR (fb_sequence body = expected) (corrupt (STR ''journal sequence is not contiguous''))
          (ensureR (fb_previous body = previous) (corrupt (STR ''journal hash chain is broken''))
            (Inr \<lparr>jf_body = body, jf_digest = sha body_bytes, jf_offset = offset,
               jf_end_offset = offset + journal_frame_header_bytes + length body_bytes +
                 journal_frame_trailer_bytes\<rparr>)))))"

text \<open>
  One iteration of \<open>readJournal\<close> at \<open>offset\<close>, on the bytes from there: \<open>None\<close> when they
  end inside the frame.
\<close>

definition read_frame ::
  "hash \<Rightarrow> string option \<Rightarrow> nat \<Rightarrow> int \<Rightarrow> string option \<Rightarrow> string \<Rightarrow> exn + (journal_frame \<times> string) option" where
  "read_frame sha run_id offset expected previous bytes =
     (if length bytes < journal_frame_header_bytes then Inr None
      else let n = of_be32 (take journal_frame_header_bytes bytes);
          total = journal_frame_header_bytes + n + journal_frame_trailer_bytes in
        ensureR (n \<le> max_frame_body_bytes) (corrupt (STR ''journal frame declares an oversized body''))
         (if length bytes < total then Inr None
          else bindR (check_frame sha run_id offset expected previous
              (take n (drop journal_frame_header_bytes bytes))
              (hex_of (take journal_frame_trailer_bytes (drop (journal_frame_header_bytes + n) bytes))))
            (\<lambda>f. Inr (Some (f, drop total bytes)))))"

lemma read_frame_shorter:
  "read_frame sha rid off e p bytes = Inr (Some (f, rest)) \<Longrightarrow> length rest < length bytes"
  by (auto simp: read_frame_def Let_def ensureR_Inr_iff bindR_Inr_iff journal_budget_defs split: if_split_asm)

function read_frames ::
  "hash \<Rightarrow> string option \<Rightarrow> nat \<Rightarrow> int \<Rightarrow> string option \<Rightarrow> string \<Rightarrow> exn + journal_frame list \<times> nat option" where
  "read_frames sha run_id offset expected previous bytes =
     (if bytes = [] then Inr ([], None)
      else bindR (read_frame sha run_id offset expected previous bytes) (\<lambda>r.
        (case r of
           None \<Rightarrow> Inr ([], Some offset)
         | Some (f, rest) \<Rightarrow>
             bindR (read_frames sha run_id (jf_end_offset f) (expected + 1) (Some (jf_digest f)) rest)
               (\<lambda>(fs, t). Inr (f # fs, t)))))"
  by pat_completeness auto
termination
  by (relation "measure (\<lambda>(_, _, _, _, _, bytes). length bytes)") (auto dest: read_frame_shorter)

declare read_frames.simps [simp del]

definition read_journal :: "hash \<Rightarrow> string option \<Rightarrow> string \<Rightarrow> exn + journal_frame list \<times> nat option" where
  "read_journal sha run_id bytes = read_frames sha run_id 0 1 None bytes"

section \<open>The file\<close>

type_synonym file_state = "string option"

definition recover_journal_file :: "hash \<Rightarrow> string option \<Rightarrow> file_state \<Rightarrow> file_state \<times> (exn + journal_frame list)" where
  "recover_journal_file sha run_id f = (case f of
     None \<Rightarrow> (None, Inr [])
   | Some bytes \<Rightarrow> (case read_journal sha run_id bytes of
       Inl e \<Rightarrow> (f, Inl e)
     | Inr (frames, None) \<Rightarrow> (f, Inr frames)
     | Inr (frames, Some offset) \<Rightarrow> (Some (take offset bytes), Inr frames)))"

definition file_bytes :: "file_state \<Rightarrow> string" where
  "file_bytes f = (case f of None \<Rightarrow> [] | Some bytes \<Rightarrow> bytes)"

definition last_frame :: "journal_frame list \<Rightarrow> journal_frame option" where
  "last_frame fs = (if fs = [] then None else Some (last fs))"

definition safe_int :: "int \<Rightarrow> bool" where
  "safe_int i \<longleftrightarrow> \<bar>i\<bar> \<le> max_safe_integer"

text \<open>\<open>appendJournalFrame\<close> after the repair: the checks and the bytes it writes.\<close>

definition frame_to_append ::
  "hash \<Rightarrow> journal_frame list \<Rightarrow> nat \<Rightarrow> frame_body \<Rightarrow> int \<Rightarrow> int option \<Rightarrow> int \<Rightarrow> exn + string \<times> journal_frame" where
  "frame_to_append sha frames prior_bytes body maximum_bytes maximum_frames reserved =
     ensureR (case maximum_frames of None \<Rightarrow> True
         | Some m \<Rightarrow> safe_int m \<and> 1 \<le> m \<and> int (length frames) < m)
       (RunJournalError Journal_Budget_Exhausted (STR ''journal frame budget is exhausted''))
      (bindR (parse_journal_frame_body sha (frame_json body)) (\<lambda>parsed.
        ensureR (fb_sequence parsed = (case last_frame frames of None \<Rightarrow> 0 | Some p \<Rightarrow> fb_sequence (jf_body p)) + 1)
          (corrupt (STR ''appended sequence is not contiguous''))
         (ensureR (fb_previous parsed = map_option jf_digest (last_frame frames))
           (corrupt (STR ''appended frame does not extend the hash chain''))
          (bindR (encode_journal_frame sha parsed) (\<lambda>encoded.
            ensureR (safe_int maximum_bytes \<and> safe_int reserved \<and> 0 \<le> reserved \<and>
                int prior_bytes + int (length encoded) + reserved \<le> maximum_bytes)
              (RunJournalError Journal_Budget_Exhausted (STR ''journal byte budget is exhausted''))
             (Inr (encoded, \<lparr>jf_body = parsed,
               jf_digest = sha (take (of_be32 (take 4 encoded)) (drop journal_frame_header_bytes encoded)),
               jf_offset = prior_bytes, jf_end_offset = prior_bytes + length encoded\<rparr>)))))))"

definition append_journal_frame ::
  "hash \<Rightarrow> file_state \<Rightarrow> frame_body \<Rightarrow> int \<Rightarrow> int option \<Rightarrow> int \<Rightarrow> file_state \<times> (exn + journal_frame)" where
  "append_journal_frame sha f body maximum_bytes maximum_frames reserved =
     (case recover_journal_file sha (Some (fb_run_id body)) f of
        (f1, Inl e) \<Rightarrow> (f1, Inl e)
      | (f1, Inr frames) \<Rightarrow>
          (case frame_to_append sha frames (length (file_bytes f1)) body maximum_bytes maximum_frames reserved of
             Inl e \<Rightarrow> (f1, Inl e)
           | Inr (encoded, frame) \<Rightarrow> (Some (file_bytes f1 @ encoded), Inr frame)))"

section \<open>Ordinary and emergency appends\<close>

definition has_ordinary_journal_capacity :: "execution_state \<Rightarrow> int \<Rightarrow> bool" where
  "has_ordinary_journal_capacity s n \<longleftrightarrow>
     safe_int n \<and> 1 \<le> n \<and> sequence s + n + journal_emergency_frame_reserve \<le> maximum_journal_frames s"

definition next_body :: "string \<Rightarrow> execution_state \<Rightarrow> journal_event \<Rightarrow> frame_body" where
  "next_body run_id s event = \<lparr>fb_run_id = run_id, fb_sequence = sequence s + 1,
     fb_execution_epoch = execution_epoch s, fb_previous = previous_digest s, fb_event = event\<rparr>"

definition advance_cursor :: "journal_frame \<Rightarrow> execution_state \<Rightarrow> execution_state" where
  "advance_cursor f s = s\<lparr>sequence := fb_sequence (jf_body f), previous_digest := Some (jf_digest f)\<rparr>"

text \<open>\<open>append\<close> of the run service: \<open>False\<close> when the ordinary budget is exhausted.\<close>

definition run_append ::
  "hash \<Rightarrow> string \<Rightarrow> int \<Rightarrow> journal_event \<Rightarrow> file_state \<times> execution_state \<Rightarrow> (file_state \<times> execution_state) \<times> (exn + bool)" where
  "run_append sha run_id maximum_bytes event = (\<lambda>(f, s).
     if \<not> has_ordinary_journal_capacity s 1 then ((f, s), Inr False)
     else (case append_journal_frame sha f (next_body run_id s event) maximum_bytes
             (Some (maximum_journal_frames s)) journal_emergency_byte_reserve of
         (f1, Inl e) \<Rightarrow> ((f1, s), Inl e)
       | (f1, Inr frame) \<Rightarrow> ((f1, advance_cursor frame s), Inr True)))"

definition append_emergency_journal_frame ::
  "hash \<Rightarrow> string \<Rightarrow> int \<Rightarrow> journal_event \<Rightarrow> file_state \<Rightarrow> execution_state \<Rightarrow> file_state \<times> (exn + journal_frame)" where
  "append_emergency_journal_frame sha run_id maximum_bytes event f s =
     (if maximum_journal_frames s \<le> sequence s
      then (f, Inl (OtherError (STR ''journal frame budget cannot record a terminal result'')))
      else (case encode_journal_frame sha (next_body run_id s event) of
         Inl e \<Rightarrow> (f, Inl e)
       | Inr encoded \<Rightarrow>
           if journal_emergency_frame_body_bytes <
               int (length encoded) - int journal_frame_header_bytes - int journal_frame_trailer_bytes
           then (f, Inl (OtherError (STR ''emergency journal event exceeds its reserved body budget'')))
           else append_journal_frame sha f (next_body run_id s event) maximum_bytes
             (Some (maximum_journal_frames s)) 0))"

definition append_emergency_journal_event ::
  "hash \<Rightarrow> string \<Rightarrow> int \<Rightarrow> journal_event \<Rightarrow> file_state \<times> execution_state \<Rightarrow> (file_state \<times> execution_state) \<times> (exn + unit)" where
  "append_emergency_journal_event sha run_id maximum_bytes event = (\<lambda>(f, s).
     case append_emergency_journal_frame sha run_id maximum_bytes event f s of
       (f1, Inl e) \<Rightarrow> ((f1, s), Inl e)
     | (f1, Inr frame) \<Rightarrow>
         ((f1, (advance_cursor frame s)\<lparr>terminal := (case event of Terminal _ _ \<Rightarrow> True | _ \<Rightarrow> terminal s)\<rparr>), Inr ()))"

end
