(* ===== verification/Journal_Reserve.thy ===== *)
theory Journal_Reserve
  imports Journal_Proofs
begin

text \<open>
  The reserve for emergency frames: after every successful ordinary append the journal has
  room for five emergency frames, and emergency appends never fail for lack of room until
  five have been written. The sixth is refused, whatever it records.
\<close>

text \<open>Emergency events appended one after the other, up to the first failure.\<close>

fun emergency_appends ::
  "hash \<Rightarrow> string \<Rightarrow> int \<Rightarrow> journal_event list \<Rightarrow> file_state \<times> execution_state \<Rightarrow>
    (file_state \<times> execution_state) \<times> (exn + unit)" where
  "emergency_appends sha run_id mb [] st = (st, Inr ())"
| "emergency_appends sha run_id mb (ev # evs) st =
     (case append_emergency_journal_event sha run_id mb ev st of
        (st1, Inl e) \<Rightarrow> (st1, Inl e)
      | (st1, Inr _) \<Rightarrow> emergency_appends sha run_id mb evs st1)"

text \<open>
  The journal on disk is whole and is where the state says it is, and \<open>k\<close> more emergency
  frames fit.
\<close>

definition journal_ready :: "hash \<Rightarrow> string \<Rightarrow> int \<Rightarrow> nat \<Rightarrow> file_state \<times> execution_state \<Rightarrow> bool" where
  "journal_ready sha run_id mb k = (\<lambda>(f, s). \<exists>frames.
     recover_journal_file sha (Some run_id) f = (f, Inr frames) \<and> sequence s = int (length frames) \<and>
     previous_digest s = last_digest None frames \<and> sequence s + int k \<le> maximum_journal_frames s \<and>
     safe_int (maximum_journal_frames s) \<and> safe_int mb \<and>
     int (length (file_bytes f)) + int k * (journal_emergency_frame_body_bytes + 36) \<le> mb)"

text \<open>Why an emergency event can fail when there is room for it.\<close>

definition event_fault :: "hash \<Rightarrow> string \<Rightarrow> journal_event \<Rightarrow> exn \<Rightarrow> bool" where
  "event_fault sha run_id ev e \<longleftrightarrow> (\<exists>s. encode_journal_frame sha (next_body run_id s ev) = Inl e) \<or>
     e = OtherError (STR ''emergency journal event exceeds its reserved body budget'')"

lemma recover_idempotent:
  assumes "recover_journal_file sha rid f = (f1, Inr frames)" shows "recover_journal_file sha rid f1 = (f1, Inr frames)"
proof (cases f1)
  case None
  then show ?thesis using assms
    by (auto simp: recover_journal_file_def split: option.split_asm sum.split_asm prod.split_asm)
next
  case (Some bytes)
  then show ?thesis using recover_whole[of sha rid bytes] recover_reads[OF assms] by (simp add: file_bytes_def)
qed

text \<open>The state after a frame that was appended behind a whole journal.\<close>

lemma appended_ready:
  assumes sha: "sha_ok sha" and rec: "recover_journal_file sha (Some rid) f = (f1, Inr frames)"
    and fr: "frame_to_append sha frames (length (file_bytes f1)) (next_body rid s ev) mb mf r = Inr (enc, fr)"
  shows "recover_journal_file sha (Some rid) (Some (file_bytes f1 @ enc)) = (Some (file_bytes f1 @ enc), Inr (frames @ [fr]))"
    and "fb_sequence (jf_body fr) = int (length (frames @ [fr]))" and "sequence s = int (length frames)"
    and "Some (jf_digest fr) = last_digest None (frames @ [fr])"
proof -
  have id: "fb_run_id (next_body rid s ev) = rid" by (simp add: next_body_def)
  note reads = appended_frame_reads(1)[OF sha _ fr, of f, unfolded id, OF rec]
  show "recover_journal_file sha (Some rid) (Some (file_bytes f1 @ enc)) = (Some (file_bytes f1 @ enc), Inr (frames @ [fr]))"
    by (rule recover_whole[OF reads])
  show "Some (jf_digest fr) = last_digest None (frames @ [fr])" by (simp add: last_digest_def)
  show seq: "fb_sequence (jf_body fr) = int (length (frames @ [fr]))"
    using last_frame_sequence(1)[OF read_frames_chain[OF reads]] by (simp add: last_frame_def)
  show "sequence s = int (length frames)"
    using frame_to_append_Inr(3)[OF fr] last_frame_sequence(1)[OF read_frames_chain[OF recover_reads[OF rec]]]
    by (simp add: next_body_def)
qed

lemma emergency_step_ok:
  assumes sha: "sha_ok sha" and ready: "journal_ready sha rid mb (Suc k) (f, s)"
    and enc: "encode_journal_frame sha (next_body rid s ev) = Inr enc"
    and small: "int (length enc) \<le> journal_emergency_frame_body_bytes + 36"
  shows "\<exists>f1 s1 t. append_emergency_journal_event sha rid mb ev (f, s) = ((f1, s1), Inr ()) \<and>
    journal_ready sha rid mb k (f1, s1) \<and> sequence s1 = sequence s + 1 \<and> previous_digest s1 = Some (sha t) \<and>
    maximum_journal_frames s1 = maximum_journal_frames s \<and> execution_epoch s1 = execution_epoch s"
proof -
  obtain frames where r: "recover_journal_file sha (Some rid) f = (f, Inr frames)" "sequence s = int (length frames)"
    "previous_digest s = last_digest None frames" "sequence s + int (Suc k) \<le> maximum_journal_frames s"
    "safe_int (maximum_journal_frames s)" "safe_int mb"
    "int (length (file_bytes f)) + int (Suc k) * (journal_emergency_frame_body_bytes + 36) \<le> mb"
    using ready by (auto simp: journal_ready_def)
  from encode_Inr[OF enc] have p: "parse_journal_frame_body sha (frame_json (next_body rid s ev)) = Inr (next_body rid s ev)"
    by blast
  note last = last_frame_sequence[OF read_frames_chain[OF recover_reads[OF r(1)]]]
  have bytes: "int (length (file_bytes f)) + int (length enc) \<le> mb"
    using r(7) small by (simp add: algebra_simps journal_emergency_frame_body_bytes_def)
  define fr where "fr = frame_at sha (length (file_bytes f)) (next_body rid s ev) enc"
  have fta: "frame_to_append sha frames (length (file_bytes f)) (next_body rid s ev) mb
      (Some (maximum_journal_frames s)) 0 = Inr (enc, fr)"
    using p enc bytes r(2-6) last
    by (auto simp: frame_to_append_def fr_def frame_at_def safe_int_def next_body_def max_safe_integer_def)
  note afterwards = appended_ready[OF sha r(1) fta]
  have "append_emergency_journal_frame sha rid mb ev f s = (Some (file_bytes f @ enc), Inr fr)"
    using r(1,4) enc small fta
    by (simp add: append_emergency_journal_frame_def append_journal_frame_def next_body_def
      journal_frame_header_bytes_def journal_frame_trailer_bytes_def)
  then have st: "append_emergency_journal_event sha rid mb ev (f, s) = ((Some (file_bytes f @ enc),
      (advance_cursor fr s)\<lparr>terminal := (case ev of Terminal _ _ \<Rightarrow> True | _ \<Rightarrow> terminal s)\<rparr>), Inr ())"
    by (simp add: append_emergency_journal_event_def)
  have "journal_ready sha rid mb k (Some (file_bytes f @ enc),
      (advance_cursor fr s)\<lparr>terminal := (case ev of Terminal _ _ \<Rightarrow> True | _ \<Rightarrow> terminal s)\<rparr>)"
    using afterwards r(2,4-7) small
    by (auto simp: journal_ready_def advance_cursor_def file_bytes_def[of "Some _"] algebra_simps
      simp del: append_assoc)
  then show ?thesis using st afterwards(2) r(2) by (auto simp: advance_cursor_def fr_def frame_at_def)
qed

lemma emergency_step:
  assumes sha: "sha_ok sha" and ready: "journal_ready sha rid mb (Suc k) (f, s)"
    and a: "append_emergency_journal_event sha rid mb ev (f, s) = (st, res)"
  shows "(\<exists>f1 s1. st = (f1, s1) \<and> res = Inr () \<and> journal_ready sha rid mb k st \<and> sequence s1 = sequence s + 1 \<and>
      maximum_journal_frames s1 = maximum_journal_frames s) \<or>
    (\<exists>e. res = Inl e \<and> event_fault sha rid ev e)"
proof -
  have room: "sequence s < maximum_journal_frames s" using ready by (auto simp: journal_ready_def)
  consider (unencodable) e where "encode_journal_frame sha (next_body rid s ev) = Inl e"
    | (large) enc where "encode_journal_frame sha (next_body rid s ev) = Inr enc"
      "journal_emergency_frame_body_bytes + 36 < int (length enc)"
    | (ok) enc where "encode_journal_frame sha (next_body rid s ev) = Inr enc"
      "int (length enc) \<le> journal_emergency_frame_body_bytes + 36"
    by (cases "encode_journal_frame sha (next_body rid s ev)") force+
  then show ?thesis
  proof cases
    case ok
    then show ?thesis using emergency_step_ok[OF sha ready ok] a by auto
  qed (use a room in \<open>auto simp: append_emergency_journal_event_def append_emergency_journal_frame_def
        event_fault_def journal_frame_header_bytes_def journal_frame_trailer_bytes_def\<close>)
qed

lemma emergency_run:
  assumes "sha_ok sha"
  shows "journal_ready sha rid mb (length evs + k) (f, s) \<Longrightarrow>
    emergency_appends sha rid mb evs (f, s) = (st, res) \<Longrightarrow>
    (\<exists>f1 s1. st = (f1, s1) \<and> res = Inr () \<and> journal_ready sha rid mb k st \<and>
      sequence s1 = sequence s + int (length evs) \<and> maximum_journal_frames s1 = maximum_journal_frames s) \<or>
    (\<exists>e. \<exists>ev \<in> set evs. res = Inl e \<and> event_fault sha rid ev e)"
proof (induction evs arbitrary: f s)
  case (Cons ev evs)
  obtain st1 res1 where a: "append_emergency_journal_event sha rid mb ev (f, s) = (st1, res1)" by fastforce
  obtain f1 s1 where st1: "st1 = (f1, s1)" by (cases st1)
  from emergency_step[OF assms _ a, of "length evs + k"] Cons.prems(1) consider
      (ok) "res1 = Inr ()" "journal_ready sha rid mb (length evs + k) (f1, s1)" "sequence s1 = sequence s + 1"
        "maximum_journal_frames s1 = maximum_journal_frames s"
    | (bad) e where "res1 = Inl e" "event_fault sha rid ev e"
    using st1 by auto
  then show ?case
  proof cases
    case ok
    then show ?thesis using Cons.IH[OF ok(2)] Cons.prems(2) a st1 by auto
  next
    case bad
    then show ?thesis using Cons.prems(2) a by auto
  qed
qed auto

lemma ordinary_append_ready:
  assumes sha: "sha_ok sha" and a: "run_append sha rid mb ev (f, s) = ((f1, s1), Inr True)"
  shows "journal_ready sha rid mb 5 (f1, s1)"
proof -
  have cap: "has_ordinary_journal_capacity s 1" using a by (auto simp: run_append_def split: if_split_asm)
  then obtain fr where ap: "append_journal_frame sha f (next_body rid s ev) mb (Some (maximum_journal_frames s))
      journal_emergency_byte_reserve = (f1, Inr fr)" "s1 = advance_cursor fr s"
    using a by (auto simp: run_append_def split: prod.splits sum.splits)
  from append_Inr[OF ap(1)] obtain f0 frames enc where r:
    "recover_journal_file sha (Some rid) f = (f0, Inr frames)"
    "frame_to_append sha frames (length (file_bytes f0)) (next_body rid s ev) mb
      (Some (maximum_journal_frames s)) journal_emergency_byte_reserve = Inr (enc, fr)"
    "f1 = Some (file_bytes f0 @ enc)"
    by (auto simp: next_body_def)
  note afterwards = appended_ready[OF sha r(1,2)]
  have "safe_int (maximum_journal_frames s)" "safe_int mb"
    using r(2) by (auto simp: frame_to_append_def ensureR_Inr_iff bindR_Inr_iff)
  then show ?thesis
    using afterwards cap frame_to_append_Inr(5)[OF r(2)]
    by (auto simp: journal_ready_def r(3) ap(2) advance_cursor_def file_bytes_def[of "Some _"]
      has_ordinary_journal_capacity_def journal_emergency_byte_reserve_def journal_frame_header_bytes_def
      journal_emergency_frame_body_bytes_def journal_emergency_frame_reserve_def journal_frame_trailer_bytes_def)
qed

text \<open>
  C3: work that the ordinary budget admits always leaves room to end the run: after a
  successful ordinary append, up to five emergency events are recorded one after the other,
  unless one of them cannot be encoded or is larger than 64 KiB; neither the frame budget
  nor the byte budget of the journal refuses them.
\<close>

theorem emergency_reserve_suffices:
  assumes "sha_ok sha" "run_append sha rid mb ev (f, s) = ((f1, s1), Inr True)" "length evs \<le> 5"
    and "emergency_appends sha rid mb evs (f1, s1) = (st, res)"
  shows "res = Inr () \<or> (\<exists>e. \<exists>ev \<in> set evs. res = Inl e \<and> event_fault sha rid ev e)"
proof -
  have "length evs + (5 - length evs) = 5" using assms(3) by simp
  then show ?thesis
    using emergency_run[OF assms(1) _ assms(4), of "5 - length evs"] ordinary_append_ready[OF assms(1,2)] by auto
qed

text \<open>
  The reserve is for five frames whatever they record: when the ordinary budget is
  exhausted and five stop reasons have been written (\<open>recordStopReason\<close> takes the emergency
  path, once per failing chain), the terminal frame is refused.
\<close>

theorem five_stop_reasons_block_the_terminal:
  assumes "sha_ok sha" "journal_ready sha rid mb 5 (f, s)" "\<not> has_ordinary_journal_capacity s 1"
    and "length evs = 5" "list_all (\<lambda>ev. \<exists>n t c m. ev = Stop_Reason n t c m) evs"
    and "emergency_appends sha rid mb evs (f, s) = ((f1, s1), Inr ())"
  shows "append_emergency_journal_event sha rid mb (Terminal d g) (f1, s1) =
    ((f1, s1), Inl (OtherError (STR ''journal frame budget cannot record a terminal result'')))"
proof -
  have "sequence s + 5 = maximum_journal_frames s"
    using assms(2,3) by (auto simp: journal_ready_def has_ordinary_journal_capacity_def safe_int_def
      journal_emergency_frame_reserve_def max_safe_integer_def)
  then have "maximum_journal_frames s1 \<le> sequence s1"
    using emergency_run[OF assms(1) _ assms(6), of 0] assms(2,4) by auto
  then show ?thesis
    by (simp add: append_emergency_journal_event_def append_emergency_journal_frame_def)
qed

section \<open>A concrete exhausted journal\<close>

definition idle_state :: "int \<Rightarrow> execution_state" where
  "idle_state frames = \<lparr>sequence = 0, previous_digest = None, execution_epoch = 0, summary = zero_summary,
     identity_digests = [], maximum_journal_bytes = 400000, maximum_journal_frames = frames,
     local_state_bytes = 0, retained_fanout_item_bytes = 0, output_bytes = 0, tasks_started = 0,
     pages_started = 0, next_node_ordinal = 0, next_item_sequence = 1, known_node_ids = [],
     buffered_items = [], reserved_item_count = 0, reserved_output_bytes = 0,
     reserved_identity_state_bytes = 0, reserved_target_requests = 0, reserved_reorder_buffer_bytes = 0,
     had_independent_failure = False, terminal = False\<rparr>"

definition task_failed_reason :: journal_event where
  "task_failed_reason = Stop_Reason None None Stop_Task_Failed ''page attempt returned failure''"

definition stop_body :: "int \<Rightarrow> string option \<Rightarrow> frame_body" where
  "stop_body q p = \<lparr>fb_run_id = example_run, fb_sequence = q, fb_execution_epoch = 0, fb_previous = p,
     fb_event = task_failed_reason\<rparr>"

lemma stop_body_parses:
  assumes "1 \<le> q" "q \<le> 5" "p = None \<or> p = Some (zero_sha [])"
  shows "parse_journal_frame_body zero_sha (frame_json (stop_body q p)) = Inr (stop_body q p)"
  using assms parse_names(1)[of Stop_Task_Failed] zero_sha_ok
  by (auto simp: stop_body_def frame_json_def parse_journal_frame_body_def object_read parts_json
    parse_journal_event_def read_record_kind_def event_parsers task_failed_reason_def parse_nullable_with_def
    option_json_def example_run_def is_prefixed_hex_def max_safe_integer_def list_all_iff is_lower_hex_def
    is_digit_def sha_ok_def num_json_def)

lemma stop_body_texts: "list_all (\<lambda>q. case canonical_json (frame_json (stop_body q None)) of
    Inr t \<Rightarrow> length t < 600 | Inl _ \<Rightarrow> False) [1, 2, 3, 4, 5]"
  "list_all (\<lambda>q. case canonical_json (frame_json (stop_body q (Some (zero_sha [])))) of
    Inr t \<Rightarrow> length t < 600 | Inl _ \<Rightarrow> False) [1, 2, 3, 4, 5]"
  by code_simp+

lemma stop_body_encodes:
  assumes "1 \<le> q" "q \<le> 5" "p = None \<or> p = Some (zero_sha [])"
  shows "\<exists>enc. encode_journal_frame zero_sha (stop_body q p) = Inr enc \<and>
    int (length enc) \<le> journal_emergency_frame_body_bytes + 36"
proof -
  have "q = 1 \<or> q = 2 \<or> q = 3 \<or> q = 4 \<or> q = 5" using assms(1,2) by presburger
  then have "case canonical_json (frame_json (stop_body q p)) of Inr t \<Rightarrow> length t < 600 | Inl _ \<Rightarrow> False"
    using stop_body_texts assms(3) by (auto simp only: list.pred_inject(2))
  then obtain t where t: "canonical_json (frame_json (stop_body q p)) = Inr t" "length t < 600"
    by (cases "canonical_json (frame_json (stop_body q p))") auto
  have "length (unhex (zero_sha t)) = 32" using sha_hex[OF zero_sha_ok] by simp
  then show ?thesis using t stop_body_parses[OF assms]
    by (simp add: encode_journal_frame_def max_frame_body_bytes_def journal_emergency_frame_body_bytes_def)
qed

lemma stop_reasons_recorded:
  "journal_ready zero_sha example_run 400000 k (f, s) \<Longrightarrow> 0 \<le> sequence s \<Longrightarrow> sequence s + int k \<le> 5 \<Longrightarrow>
    execution_epoch s = 0 \<Longrightarrow> previous_digest s = None \<or> previous_digest s = Some (zero_sha []) \<Longrightarrow>
    \<exists>f1 s1. emergency_appends zero_sha example_run 400000 (replicate k task_failed_reason) (f, s) = ((f1, s1), Inr ())"
proof (induction k arbitrary: f s)
  case (Suc k)
  have b: "next_body example_run s task_failed_reason = stop_body (sequence s + 1) (previous_digest s)"
    using Suc.prems by (simp add: next_body_def stop_body_def)
  obtain enc where enc: "encode_journal_frame zero_sha (next_body example_run s task_failed_reason) = Inr enc"
    "int (length enc) \<le> journal_emergency_frame_body_bytes + 36"
    using stop_body_encodes[of "sequence s + 1" "previous_digest s"] Suc.prems by (auto simp: b)
  obtain f1 s1 t where st: "append_emergency_journal_event zero_sha example_run 400000 task_failed_reason (f, s) =
      ((f1, s1), Inr ())" "journal_ready zero_sha example_run 400000 k (f1, s1)" "sequence s1 = sequence s + 1"
    "previous_digest s1 = Some (zero_sha t)" "execution_epoch s1 = execution_epoch s"
    using emergency_step_ok[OF zero_sha_ok Suc.prems(1) enc] by blast
  have "zero_sha t = zero_sha []" by (simp add: zero_sha_def)
  then show ?case using Suc.IH[OF st(2)] st Suc.prems by simp
qed simp

lemma idle_ready: "journal_ready zero_sha example_run 400000 5 (None, idle_state 5)"
  by (simp add: journal_ready_def idle_state_def recover_journal_file_def last_digest_def safe_int_def
    max_safe_integer_def file_bytes_def journal_emergency_frame_body_bytes_def)

theorem five_stop_reasons_block_the_terminal_witness:
  "\<exists>f s. emergency_appends zero_sha example_run 400000 (replicate 5 task_failed_reason) (None, idle_state 5) =
      ((f, s), Inr ()) \<and>
    snd (append_emergency_journal_event zero_sha example_run 400000
      (Terminal \<lparr>td_result_kind = Scrape_Partial, td_stop = Run_Stop Stop_Task_Failed,
         td_summary = zero_summary, td_output = Output_None\<rparr> (zero_sha [])) (f, s)) =
      Inl (OtherError (STR ''journal frame budget cannot record a terminal result''))"
proof -
  obtain f s where st: "emergency_appends zero_sha example_run 400000 (replicate 5 task_failed_reason) (None, idle_state 5) =
      ((f, s), Inr ())"
    using stop_reasons_recorded[OF idle_ready] by (auto simp: idle_state_def)
  have n: "\<not> has_ordinary_journal_capacity (idle_state 5) 1"
    by (simp add: has_ordinary_journal_capacity_def idle_state_def journal_emergency_frame_reserve_def)
  have "list_all (\<lambda>ev. \<exists>n t c m. ev = Stop_Reason n t c m) (replicate 5 task_failed_reason)"
    by (simp add: task_failed_reason_def list_all_iff)
  with five_stop_reasons_block_the_terminal[OF zero_sha_ok idle_ready n _ _ st] st show ?thesis by auto
qed

lemma first_ordinary_append:
  "\<exists>f s. run_append zero_sha example_run 400000 (Cancel_Requested Cli_Cancel) (None, idle_state 6) = ((f, s), Inr True)"
proof -
  obtain t where t: "encode_journal_frame zero_sha example_body = Inr (be32 (length t) @ t @ unhex (zero_sha t))"
    "length t < 400" using example_encodes by blast
  have b: "next_body example_run (idle_state 6) (Cancel_Requested Cli_Cancel) = example_body"
    by (simp add: next_body_def idle_state_def example_body_def)
  have "length (unhex (zero_sha t)) = 32" using sha_hex[OF zero_sha_ok] by simp
  moreover have "fb_sequence example_body = 1" "fb_previous example_body = None" "file_bytes None = []"
    by (simp_all add: example_body_def file_bytes_def)
  moreover have "has_ordinary_journal_capacity (idle_state 6) 1" "maximum_journal_frames (idle_state 6) = 6"
    by (simp_all add: has_ordinary_journal_capacity_def idle_state_def journal_emergency_frame_reserve_def
      safe_int_def max_safe_integer_def)
  ultimately show ?thesis using t example_parses
    by (simp add: run_append_def b append_journal_frame_def recover_journal_file_def frame_to_append_def
      last_frame_def safe_int_def max_safe_integer_def journal_budget_defs)
qed

theorem emergency_reserve_suffices_witness:
  "\<exists>f s st res. run_append zero_sha example_run 400000 (Cancel_Requested Cli_Cancel) (None, idle_state 6) = ((f, s), Inr True) \<and>
    emergency_appends zero_sha example_run 400000 [task_failed_reason, Interrupted Daemon_Stopped] (f, s) = (st, res) \<and>
    (res = Inr () \<or> (\<exists>e. \<exists>ev \<in> set [task_failed_reason, Interrupted Daemon_Stopped]. res = Inl e \<and>
      event_fault zero_sha example_run ev e))"
proof -
  obtain f s where a: "run_append zero_sha example_run 400000 (Cancel_Requested Cli_Cancel) (None, idle_state 6) =
      ((f, s), Inr True)" using first_ordinary_append by blast
  obtain st res where e: "emergency_appends zero_sha example_run 400000
      [task_failed_reason, Interrupted Daemon_Stopped] (f, s) = (st, res)" by fastforce
  have "length [task_failed_reason, Interrupted Daemon_Stopped] \<le> 5" by simp
  from emergency_reserve_suffices[OF zero_sha_ok a this e] a e show ?thesis by blast
qed

end
