(* ===== verification/Collection_Predicate.thy ===== *)
theory Collection_Predicate
  imports Json_Pointer Json_Roundtrip
begin

text \<open>
  The predicate language of task handlers and item acceptance
  (\<open>src/src/public/contracts/collection-predicate.ts\<close>): its syntax tree, the parser from
  JSON with its depth and size limits, and the evaluator.

  A parser that descends takes as its first argument the levels left, 13 at the root: the
  code's depth is 13 less it, and its error at 0 is the code's depth error. A set of
  allowed sources is a list.
\<close>

section \<open>Syntax\<close>

datatype predicate_source = Pred_Args | Pred_Parent_Item | Pred_Task_Data | Pred_Task_Outcome | Pred_Raw_Item

definition predicate_source_name :: "predicate_source \<Rightarrow> string" where
  "predicate_source_name s = (case s of
     Pred_Args \<Rightarrow> ''args'' | Pred_Parent_Item \<Rightarrow> ''parent_item'' | Pred_Task_Data \<Rightarrow> ''task_data''
   | Pred_Task_Outcome \<Rightarrow> ''task_outcome'' | Pred_Raw_Item \<Rightarrow> ''raw_item'')"

record predicate_ref =
  ref_from :: predicate_source
  ref_pointer :: string

datatype predicate_value = Ref_Value predicate_ref | Literal_Value json

datatype json_type = Type_Null | Type_Boolean | Type_Number | Type_String | Type_Array | Type_Object

definition json_type_names :: "(string \<times> json_type) list" where
  "json_type_names = [(''null'', Type_Null), (''boolean'', Type_Boolean), (''number'', Type_Number),
     (''string'', Type_String), (''array'', Type_Array), (''object'', Type_Object)]"

datatype length_relation = Rel_Eq | Rel_Min | Rel_Max

definition length_relations :: "(string \<times> length_relation) list" where
  "length_relations = [(''eq'', Rel_Eq), (''min'', Rel_Min), (''max'', Rel_Max)]"

datatype predicate =
    P_Exists predicate_ref
  | P_Not_Exists predicate_ref
  | P_Json_Type predicate_ref json_type
  | P_Equals predicate_value predicate_value
  | P_One_Of predicate_value "json list"
  | P_Array_Length predicate_ref length_relation int
  | P_All "predicate list"
  | P_Any "predicate list"
  | P_Not predicate

section \<open>Parsing\<close>

definition contract_error :: "String.literal \<Rightarrow> exn + 'a" where
  "contract_error m = Inl (PublicContractError m)"

definition find_source :: "predicate_source list \<Rightarrow> json \<Rightarrow> predicate_source option" where
  "find_source allowed v = (case v of
     JStr s \<Rightarrow> find (\<lambda>x. predicate_source_name x = s) allowed
   | _ \<Rightarrow> None)"

definition parse_reference :: "predicate_source list \<Rightarrow> json \<Rightarrow> exn + predicate_ref" where
  "parse_reference allowed v =
     bindR (parse_exact_record [''from'', ''pointer''] v) (\<lambda>r.
       (case find_source allowed (fld r ''from'') of
          None \<Rightarrow> contract_error (STR ''is not available in this predicate context'')
        | Some s \<Rightarrow> bindR (parse_json_pointer (fld r ''pointer'')) (\<lambda>p.
            Inr \<lparr>ref_from = s, ref_pointer = p\<rparr>)))"

definition parse_predicate_value :: "predicate_source list \<Rightarrow> json \<Rightarrow> exn + predicate_value" where
  "parse_predicate_value allowed v = (case v of
     JObj kvs \<Rightarrow>
       (if fld kvs ''kind'' = JStr ''ref'' then
          bindR (parse_exact_record [''kind'', ''ref''] v) (\<lambda>r.
            bindR (parse_reference allowed (fld r ''ref'')) (\<lambda>x. Inr (Ref_Value x)))
        else if fld kvs ''kind'' = JStr ''literal'' then
          bindR (parse_exact_record [''kind'', ''value''] v) (\<lambda>r.
            bindR (assert_json_value 12 (fld r ''value'')) (\<lambda>_. Inr (Literal_Value (fld r ''value''))))
        else contract_error (STR ''must be ref or literal''))
   | _ \<Rightarrow> contract_error (STR ''must be a predicate value''))"

text \<open>\<open>assertCanonicalUnique\<close>.\<close>

fun assert_canonical_unique :: "string list \<Rightarrow> json list \<Rightarrow> exn + unit" where
  "assert_canonical_unique seen [] = Inr ()"
| "assert_canonical_unique seen (v # vs) =
     bindR (canonical_json v) (\<lambda>t.
       ensureR (t \<notin> set seen) (PublicContractError (STR ''must not contain duplicate values''))
         (assert_canonical_unique (t # seen) vs))"

definition parse_list_of :: "nat \<Rightarrow> String.literal \<Rightarrow> json \<Rightarrow> exn + json list" where
  "parse_list_of m e v = (case v of
     JArr xs \<Rightarrow> ensureR (xs \<noteq> [] \<and> length xs \<le> m) (PublicContractError e) (Inr xs)
   | _ \<Rightarrow> contract_error e)"

text \<open>An array of at most \<open>m\<close> values, possibly none.\<close>

definition parse_list_max :: "nat \<Rightarrow> String.literal \<Rightarrow> json \<Rightarrow> exn + json list" where
  "parse_list_max m e v = (case v of
     JArr xs \<Rightarrow> ensureR (length xs \<le> m) (PublicContractError e) (Inr xs)
   | _ \<Rightarrow> contract_error e)"

definition parse_leaf_predicate :: "predicate_source list \<Rightarrow> string \<Rightarrow> json \<Rightarrow> exn + predicate" where
  "parse_leaf_predicate allowed opn v =
     (if opn = ''exists'' then
        bindR (parse_exact_record [''op'', ''ref''] v) (\<lambda>r.
          bindR (parse_reference allowed (fld r ''ref'')) (\<lambda>x. Inr (P_Exists x)))
      else if opn = ''not_exists'' then
        bindR (parse_exact_record [''op'', ''ref''] v) (\<lambda>r.
          bindR (parse_reference allowed (fld r ''ref'')) (\<lambda>x. Inr (P_Not_Exists x)))
      else if opn = ''json_type'' then
        bindR (parse_exact_record [''op'', ''ref'', ''value''] v) (\<lambda>r.
          (case fld r ''value'' of
             JStr s \<Rightarrow>
               (case map_of json_type_names s of
                  None \<Rightarrow> contract_error (STR ''must be a JSON type'')
                | Some t \<Rightarrow> bindR (parse_reference allowed (fld r ''ref'')) (\<lambda>x. Inr (P_Json_Type x t)))
           | _ \<Rightarrow> contract_error (STR ''must be a JSON type'')))
      else if opn = ''equals'' then
        bindR (parse_exact_record [''op'', ''left'', ''right''] v) (\<lambda>r.
          bindR (parse_predicate_value allowed (fld r ''left'')) (\<lambda>a.
          bindR (parse_predicate_value allowed (fld r ''right'')) (\<lambda>b. Inr (P_Equals a b))))
      else if opn = ''one_of'' then
        bindR (parse_exact_record [''op'', ''value'', ''constants''] v) (\<lambda>r.
          bindR (parse_list_of 32 (STR ''must contain one to 32 values'') (fld r ''constants'')) (\<lambda>cs.
          bindR (mapR (assert_json_value 12) cs) (\<lambda>_.
          bindR (assert_canonical_unique [] cs) (\<lambda>_.
          bindR (parse_predicate_value allowed (fld r ''value'')) (\<lambda>x. Inr (P_One_Of x cs))))))
      else if opn = ''array_length'' then
        bindR (parse_exact_record [''op'', ''ref'', ''relation'', ''value''] v) (\<lambda>r.
          (case fld r ''relation'' of
             JStr s \<Rightarrow>
               (case map_of length_relations s of
                  None \<Rightarrow> contract_error (STR ''must be eq, min, or max'')
                | Some q \<Rightarrow>
                    bindR (parse_reference allowed (fld r ''ref'')) (\<lambda>x.
                    bindR (parse_integer 0 1000000 (fld r ''value'')) (\<lambda>n.
                      Inr (P_Array_Length x q n))))
           | _ \<Rightarrow> contract_error (STR ''must be eq, min, or max'')))
      else contract_error (STR ''must be a supported collection predicate''))"

primrec parse_predicate :: "nat \<Rightarrow> predicate_source list \<Rightarrow> json \<Rightarrow> exn + predicate" where
  "parse_predicate 0 allowed v = contract_error (STR ''exceeds predicate depth 12'')"
| "parse_predicate (Suc n) allowed v = (case v of
     JObj kvs \<Rightarrow>
       (case fld kvs ''op'' of
          JStr opn \<Rightarrow>
            (if opn = ''all'' \<or> opn = ''any'' then
               bindR (parse_exact_record [''op'', ''predicates''] v) (\<lambda>r.
               bindR (parse_list_of 32 (STR ''must contain one to 32 predicates'') (fld r ''predicates''))
                 (\<lambda>vs. bindR (mapR (parse_predicate n allowed) vs) (\<lambda>ps.
                   Inr (if opn = ''all'' then P_All ps else P_Any ps))))
             else if opn = ''not'' then
               bindR (parse_exact_record [''op'', ''predicate''] v) (\<lambda>r.
                 bindR (parse_predicate n allowed (fld r ''predicate'')) (\<lambda>p. Inr (P_Not p)))
             else parse_leaf_predicate allowed opn v)
        | _ \<Rightarrow> contract_error (STR ''must be a supported collection predicate''))
   | _ \<Rightarrow> contract_error (STR ''must be a predicate object''))"

definition parse_collection_predicate :: "predicate_source list \<Rightarrow> json \<Rightarrow> exn + predicate" where
  "parse_collection_predicate allowed v = parse_predicate 13 allowed v"

section \<open>Evaluation\<close>

type_synonym predicate_context = "predicate_source \<Rightarrow> json option"

text \<open>
  \<open>resolveReference\<close>: an absent source or a pointer that does not resolve is not found.
\<close>

definition resolve_reference :: "predicate_ref \<Rightarrow> predicate_context \<Rightarrow> exn + json option" where
  "resolve_reference r ctx = (case ctx (ref_from r) of
     None \<Rightarrow> Inr None
   | Some v \<Rightarrow> (case resolve_json_pointer v (ref_pointer r) of
       Inr x \<Rightarrow> Inr (Some x)
     | Inl e \<Rightarrow> if is_contract_error e then Inr None else Inl e))"

definition resolve_value :: "predicate_value \<Rightarrow> predicate_context \<Rightarrow> exn + json option" where
  "resolve_value v ctx = (case v of
     Literal_Value x \<Rightarrow> Inr (Some x)
   | Ref_Value r \<Rightarrow> resolve_reference r ctx)"

definition json_type_of :: "json \<Rightarrow> json_type" where
  "json_type_of v = (case v of
     JNull \<Rightarrow> Type_Null | JBool _ \<Rightarrow> Type_Boolean | JNum _ \<Rightarrow> Type_Number | JStr _ \<Rightarrow> Type_String
   | JArr _ \<Rightarrow> Type_Array | JObj _ \<Rightarrow> Type_Object)"

definition length_relates :: "length_relation \<Rightarrow> int \<Rightarrow> int \<Rightarrow> bool" where
  "length_relates q n m = (case q of Rel_Eq \<Rightarrow> n = m | Rel_Min \<Rightarrow> n \<ge> m | Rel_Max \<Rightarrow> n \<le> m)"

text \<open>\<open>every\<close> and \<open>some\<close> of a predicate that may throw, left to right, short-circuiting.\<close>

fun everyR :: "('a \<Rightarrow> exn + bool) \<Rightarrow> 'a list \<Rightarrow> exn + bool" where
  "everyR f [] = Inr True"
| "everyR f (x # xs) = bindR (f x) (\<lambda>b. if b then everyR f xs else Inr False)"

fun someR :: "('a \<Rightarrow> exn + bool) \<Rightarrow> 'a list \<Rightarrow> exn + bool" where
  "someR f [] = Inr False"
| "someR f (x # xs) = bindR (f x) (\<lambda>b. if b then Inr True else someR f xs)"

lemma everyR_cong [fundef_cong]:
  "xs = ys \<Longrightarrow> (\<And>x. x \<in> set ys \<Longrightarrow> f x = g x) \<Longrightarrow> everyR f xs = everyR g ys"
proof (induction ys arbitrary: xs)
  case (Cons y ys)
  then have "f y = g y" "everyR f ys = everyR g ys" by auto
  with Cons.prems(1) show ?case by (simp cong: if_cong)
qed simp

lemma someR_cong [fundef_cong]:
  "xs = ys \<Longrightarrow> (\<And>x. x \<in> set ys \<Longrightarrow> f x = g x) \<Longrightarrow> someR f xs = someR g ys"
proof (induction ys arbitrary: xs)
  case (Cons y ys)
  then have "f y = g y" "someR f ys = someR g ys" by auto
  with Cons.prems(1) show ?case by (simp cong: if_cong)
qed simp

definition is_constant :: "string \<Rightarrow> json \<Rightarrow> exn + bool" where
  "is_constant rendered c = bindR (canonical_json c) (\<lambda>u. Inr (u = rendered))"

fun evaluate_predicate :: "predicate \<Rightarrow> predicate_context \<Rightarrow> exn + bool" where
  "evaluate_predicate (P_Exists r) ctx = bindR (resolve_reference r ctx) (\<lambda>x. Inr (x \<noteq> None))"
| "evaluate_predicate (P_Not_Exists r) ctx = bindR (resolve_reference r ctx) (\<lambda>x. Inr (x = None))"
| "evaluate_predicate (P_Json_Type r t) ctx = bindR (resolve_reference r ctx) (\<lambda>x.
     Inr (case x of None \<Rightarrow> False | Some v \<Rightarrow> json_type_of v = t))"
| "evaluate_predicate (P_Equals l r) ctx = bindR (resolve_value l ctx) (\<lambda>x.
     bindR (resolve_value r ctx) (\<lambda>y.
       (case (x, y) of
          (Some v, Some w) \<Rightarrow> bindR (canonical_json v) (\<lambda>s. bindR (canonical_json w) (\<lambda>t. Inr (s = t)))
        | _ \<Rightarrow> Inr False)))"
| "evaluate_predicate (P_One_Of v cs) ctx = bindR (resolve_value v ctx) (\<lambda>x.
     (case x of
        None \<Rightarrow> Inr False
      | Some w \<Rightarrow> bindR (canonical_json w) (\<lambda>t. someR (is_constant t) cs)))"
| "evaluate_predicate (P_Array_Length r q n) ctx = bindR (resolve_reference r ctx) (\<lambda>x.
     Inr (case x of Some (JArr xs) \<Rightarrow> length_relates q (int (length xs)) n | _ \<Rightarrow> False))"
| "evaluate_predicate (P_All ps) ctx = everyR (\<lambda>p. evaluate_predicate p ctx) ps"
| "evaluate_predicate (P_Any ps) ctx = someR (\<lambda>p. evaluate_predicate p ctx) ps"
| "evaluate_predicate (P_Not p) ctx = bindR (evaluate_predicate p ctx) (\<lambda>b. Inr (\<not> b))"

section \<open>Reference semantics\<close>

text \<open>
  The meaning of a predicate without errors, strings or digests: values are compared up to
  the order of object keys.
\<close>

definition find_reference :: "predicate_ref \<Rightarrow> predicate_context \<Rightarrow> json option" where
  "find_reference r ctx = (case ctx (ref_from r) of
     None \<Rightarrow> None
   | Some v \<Rightarrow> (case resolve_json_pointer v (ref_pointer r) of Inr x \<Rightarrow> Some x | Inl _ \<Rightarrow> None))"

definition find_value :: "predicate_value \<Rightarrow> predicate_context \<Rightarrow> json option" where
  "find_value v ctx = (case v of Literal_Value x \<Rightarrow> Some x | Ref_Value r \<Rightarrow> find_reference r ctx)"

fun holds :: "predicate \<Rightarrow> predicate_context \<Rightarrow> bool" where
  "holds (P_Exists r) ctx = (find_reference r ctx \<noteq> None)"
| "holds (P_Not_Exists r) ctx = (find_reference r ctx = None)"
| "holds (P_Json_Type r t) ctx = (map_option json_type_of (find_reference r ctx) = Some t)"
| "holds (P_Equals l r) ctx = (case (find_value l ctx, find_value r ctx) of
     (Some v, Some w) \<Rightarrow> canon v = canon w | _ \<Rightarrow> False)"
| "holds (P_One_Of v cs) ctx = (case find_value v ctx of
     Some w \<Rightarrow> (\<exists>c \<in> set cs. canon c = canon w) | None \<Rightarrow> False)"
| "holds (P_Array_Length r q n) ctx = (case find_reference r ctx of
     Some (JArr xs) \<Rightarrow> length_relates q (int (length xs)) n | _ \<Rightarrow> False)"
| "holds (P_All ps) ctx = (\<forall>p \<in> set ps. holds p ctx)"
| "holds (P_Any ps) ctx = (\<exists>p \<in> set ps. holds p ctx)"
| "holds (P_Not p) ctx = (\<not> holds p ctx)"

text \<open>The values evaluation compares: well-formed and within the canonical depth limit.\<close>

definition comparable :: "json \<Rightarrow> bool" where
  "comparable v \<longleftrightarrow> json_wf v \<and> assert_json_value 100 v = Inr ()"

definition comparable_context :: "predicate_context \<Rightarrow> bool" where
  "comparable_context ctx \<longleftrightarrow> (\<forall>s v. ctx s = Some v \<longrightarrow> comparable v)"

fun comparable_predicate :: "predicate \<Rightarrow> bool" where
  "comparable_predicate (P_Equals l r) =
     ((\<forall>v. l = Literal_Value v \<longrightarrow> comparable v) \<and> (\<forall>v. r = Literal_Value v \<longrightarrow> comparable v))"
| "comparable_predicate (P_One_Of l cs) =
     ((\<forall>v. l = Literal_Value v \<longrightarrow> comparable v) \<and> (\<forall>c \<in> set cs. comparable c))"
| "comparable_predicate (P_All ps) = (\<forall>p \<in> set ps. comparable_predicate p)"
| "comparable_predicate (P_Any ps) = (\<forall>p \<in> set ps. comparable_predicate p)"
| "comparable_predicate (P_Not p) = comparable_predicate p"
| "comparable_predicate _ = True"

lemma comparable_arr: "comparable (JArr xs) \<Longrightarrow> x \<in> set xs \<Longrightarrow> comparable x"
  unfolding comparable_def assert_json_value_def
  by (metis assert_json_value_at_arr assert_json_value_at_mono json_wf.simps(2) le0 order_refl list_all_iff)

lemma comparable_obj: "comparable (JObj kvs) \<Longrightarrow> (k, x) \<in> set kvs \<Longrightarrow> comparable x"
  unfolding comparable_def assert_json_value_def
  by (metis assert_json_value_at_obj assert_json_value_at_mono json_wf.simps(3) le0 order_refl list_all_iff snd_conv)

lemma find_reference_comparable:
  "comparable_context ctx \<Longrightarrow> find_reference r ctx = Some v \<Longrightarrow> comparable v"
  unfolding find_reference_def comparable_context_def
  by (auto split: option.splits sum.splits intro: resolve_json_pointer_part[where P = comparable]
    comparable_arr comparable_obj)

lemma resolve_reference_find: "resolve_reference r ctx = Inr (find_reference r ctx)"
  by (auto simp: resolve_reference_def find_reference_def split: option.splits sum.splits
    dest: resolve_json_pointer_error)

lemma resolve_value_find: "resolve_value v ctx = Inr (find_value v ctx)"
  by (simp add: resolve_value_def find_value_def resolve_reference_find split: predicate_value.splits)

lemma find_value_comparable:
  "comparable_context ctx \<Longrightarrow> (\<And>x. v = Literal_Value x \<Longrightarrow> comparable x) \<Longrightarrow>
    find_value v ctx = Some w \<Longrightarrow> comparable w"
  by (auto simp: find_value_def find_reference_comparable split: predicate_value.splits)

lemma comparableE:
  assumes "comparable v"
  obtains t where "canonical_json v = Inr t" "json_wf v"
  using assms canonical_json_total[of v] by (auto simp: comparable_def)

lemma compare_canonical:
  assumes "comparable v" "comparable w"
  shows "bindR (canonical_json v) (\<lambda>s. bindR (canonical_json w) (\<lambda>t. Inr (s = t))) = Inr (canon v = canon w)"
proof -
  obtain s t where "canonical_json v = Inr s" "canonical_json w = Inr t" "json_wf v" "json_wf w"
    using assms by (auto elim!: comparableE)
  then show ?thesis using canonical_json_eq[of v w s t] by simp
qed

lemma is_constant_canon:
  assumes "comparable c" "comparable w" "canonical_json w = Inr t"
  shows "is_constant t c = Inr (canon c = canon w)"
  using compare_canonical[OF assms(1,2)] assms(3) by (simp add: is_constant_def)

lemma someR_total: "(\<And>x. x \<in> set xs \<Longrightarrow> f x = Inr (P x)) \<Longrightarrow> someR f xs = Inr (\<exists>x \<in> set xs. P x)"
  by (induction xs) auto

lemma everyR_total: "(\<And>x. x \<in> set xs \<Longrightarrow> f x = Inr (P x)) \<Longrightarrow> everyR f xs = Inr (\<forall>x \<in> set xs. P x)"
  by (induction xs) auto

lemma evaluate_predicate_holds:
  "comparable_predicate p \<Longrightarrow> comparable_context ctx \<Longrightarrow> evaluate_predicate p ctx = Inr (holds p ctx)"
proof (induction p)
  case (P_Equals l r)
  then have l: "\<And>v. find_value l ctx = Some v \<Longrightarrow> comparable v"
    and r: "\<And>v. find_value r ctx = Some v \<Longrightarrow> comparable v"
    using find_value_comparable by (simp, blast)+
  show ?case
    by (cases "find_value l ctx"; cases "find_value r ctx")
      (simp_all add: resolve_value_find compare_canonical l r)
next
  case (P_One_Of v cs)
  show ?case
  proof (cases "find_value v ctx")
    case None
    then show ?thesis by (simp add: resolve_value_find)
  next
    case (Some w)
    with P_One_Of have w: "comparable w" using find_value_comparable[of ctx v w] by auto
    then obtain t where t: "canonical_json w = Inr t" by (rule comparableE)
    have "someR (is_constant t) cs = Inr (\<exists>c \<in> set cs. canon c = canon w)"
      by (rule someR_total) (use P_One_Of w t is_constant_canon in auto)
    then show ?thesis using Some t by (simp add: resolve_value_find)
  qed
next
  case (P_All ps)
  then show ?case by (auto intro!: everyR_total)
next
  case (P_Any ps)
  then show ?case by (auto intro!: someR_total)
qed (auto simp: resolve_reference_find split: option.splits)

section \<open>Parsed predicates\<close>

lemma parse_exact_record_Inr: "parse_exact_record ks v = Inr kvs \<Longrightarrow> v = JObj kvs"
  by (auto simp: parse_exact_record_def as_object_def bindR_Inr_iff ensureR_Inr_iff split: json.splits)

lemma json_wf_fld: "json_wf (JObj kvs) \<Longrightarrow> json_wf (fld kvs k)"
  by (auto simp: fld_def list_all_iff split: option.splits dest!: map_of_SomeD)

lemma comparable_bounded: "json_wf v \<Longrightarrow> assert_json_value 12 v = Inr () \<Longrightarrow> comparable v"
  unfolding comparable_def assert_json_value_def
  by (auto intro: assert_json_value_at_mono)

lemma parse_predicate_value_comparable:
  "parse_predicate_value allowed v = Inr x \<Longrightarrow> json_wf v \<Longrightarrow> x = Literal_Value w \<Longrightarrow> comparable w"
  by (auto simp: parse_predicate_value_def contract_error_def bindR_Inr_iff simp del: json_wf.simps
    split: json.splits if_splits dest!: parse_exact_record_Inr intro: comparable_bounded json_wf_fld)

lemma parse_list_of_Inr: "parse_list_of m e v = Inr xs \<Longrightarrow> v = JArr xs \<and> xs \<noteq> [] \<and> length xs \<le> m"
  by (auto simp: parse_list_of_def contract_error_def ensureR_Inr_iff split: json.splits)

lemma parse_one_of_comparable:
  assumes "parse_leaf_predicate allowed ''one_of'' v = Inr p" "json_wf v"
  shows "comparable_predicate p"
proof -
  from assms(1) obtain r cs us x where r: "parse_exact_record [''op'', ''value'', ''constants''] v = Inr r"
    and cs: "parse_list_of 32 (STR ''must contain one to 32 values'') (fld r ''constants'') = Inr cs"
    and us: "mapR (assert_json_value 12) cs = Inr us"
    and x: "parse_predicate_value allowed (fld r ''value'') = Inr x" and p: "p = P_One_Of x cs"
    by (simp add: parse_leaf_predicate_def bindR_Inr_iff) blast
  note v = parse_exact_record_Inr[OF r] conjunct1[OF parse_list_of_Inr[OF cs]] us x p
  have "json_wf (JArr cs)" using json_wf_fld[of r "''constants''"] assms(2) v by simp
  moreover have "\<forall>c \<in> set cs. assert_json_value 12 c = Inr ()" using us mapR_unit[of "assert_json_value 12" cs] by auto
  ultimately have "\<forall>c \<in> set cs. comparable c" by (auto simp: list_all_iff intro: comparable_bounded)
  moreover have "x = Literal_Value w \<Longrightarrow> comparable w" for w
    using parse_predicate_value_comparable[OF v(4)] json_wf_fld assms(2) v(1) by blast
  ultimately show ?thesis by (simp add: v(5))
qed

lemma parse_equals_comparable:
  assumes "parse_leaf_predicate allowed ''equals'' v = Inr p" "json_wf v"
  shows "comparable_predicate p"
proof -
  from assms(1) obtain r x y where v: "v = JObj r" "parse_predicate_value allowed (fld r ''left'') = Inr x"
    "parse_predicate_value allowed (fld r ''right'') = Inr y" "p = P_Equals x y"
    by (auto simp: parse_leaf_predicate_def bindR_Inr_iff dest!: parse_exact_record_Inr)
  have "x = Literal_Value w \<Longrightarrow> comparable w" "y = Literal_Value w \<Longrightarrow> comparable w" for w
    using parse_predicate_value_comparable[OF v(2)] parse_predicate_value_comparable[OF v(3)]
      json_wf_fld assms(2) v(1) by blast+
  then show ?thesis by (simp add: v(4))
qed

lemma parse_leaf_comparable:
  assumes "parse_leaf_predicate allowed opn v = Inr p" "json_wf v"
  shows "comparable_predicate p"
proof (cases "opn = ''one_of'' \<or> opn = ''equals''")
  case True
  with assms parse_one_of_comparable parse_equals_comparable show ?thesis by blast
next
  case False
  with assms show ?thesis
    unfolding parse_leaf_predicate_def contract_error_def
    by (auto simp: res_elims simp del: json_wf.simps split: if_split_asm)
qed

lemma parse_predicate_comparable:
  "parse_predicate n allowed v = Inr p \<Longrightarrow> json_wf v \<Longrightarrow> comparable_predicate p"
proof (induction n arbitrary: v p)
  case (Suc n)
  from Suc.prems(1) obtain kvs opn where v: "v = JObj kvs" "fld kvs ''op'' = JStr opn"
    by (auto simp: contract_error_def split: json.splits)
  consider (junction) "opn = ''all'' \<or> opn = ''any''" | (neg) "opn = ''not''"
    | (leaf) "\<not> (opn = ''all'' \<or> opn = ''any'')" "opn \<noteq> ''not''" by blast
  then show ?case
  proof cases
    case junction
    with Suc.prems v obtain vs ps where "fld kvs ''predicates'' = JArr vs"
      "mapR (parse_predicate n allowed) vs = Inr ps" "p = P_All ps \<or> p = P_Any ps"
      by (auto simp: bindR_Inr_iff simp del: json_wf.simps dest!: parse_exact_record_Inr parse_list_of_Inr)
    moreover from this have "list_all json_wf vs"
      using json_wf_fld[of kvs "''predicates''"] Suc.prems(2) v by simp
    ultimately have "\<forall>q \<in> set ps. comparable_predicate q"
      using Suc.IH unfolding mapR_Inr_iff list_all2_conv_all_nth in_set_conv_nth list_all_length
      by (metis (no_types, lifting) in_set_conv_nth)
    then show ?thesis using \<open>p = P_All ps \<or> p = P_Any ps\<close> by auto
  next
    case neg
    with Suc.prems v obtain q where "parse_predicate n allowed (fld kvs ''predicate'') = Inr q" "p = P_Not q"
      by (auto simp: bindR_Inr_iff simp del: json_wf.simps dest!: parse_exact_record_Inr)
    then show ?thesis using Suc.IH json_wf_fld Suc.prems(2) v by auto
  next
    case leaf
    with Suc.prems v have "parse_leaf_predicate allowed opn v = Inr p" by simp
    then show ?thesis using parse_leaf_comparable Suc.prems(2) by blast
  qed
qed (simp add: contract_error_def)

text \<open>
  C40: a predicate that parses evaluates without an exception on every context of
  well-formed values, and to what it means: references that do not resolve are not found,
  equality is equality of JSON values up to key order.
\<close>

theorem parsed_predicate_evaluates:
  assumes "parse_collection_predicate allowed v = Inr p" "json_wf v" "comparable_context ctx"
  shows "evaluate_predicate p ctx = Inr (holds p ctx)"
  using assms parse_predicate_comparable evaluate_predicate_holds
  unfolding parse_collection_predicate_def by blast

theorem parsed_predicate_evaluates_witness:
  "\<exists>p. parse_collection_predicate [Pred_Args]
      (JObj [(''op'', JStr ''not''), (''predicate'', JObj [(''op'', JStr ''exists''),
        (''ref'', JObj [(''from'', JStr ''args''), (''pointer'', JStr ''/x'')])])]) = Inr p \<and>
    evaluate_predicate p (\<lambda>s. if s = Pred_Args then Some (JObj []) else None) = Inr True"
proof -
  let ?v = "JObj [(''op'', JStr ''not''), (''predicate'', JObj [(''op'', JStr ''exists''),
        (''ref'', JObj [(''from'', JStr ''args''), (''pointer'', JStr ''/x'')])])]"
  let ?p = "P_Not (P_Exists \<lparr>ref_from = Pred_Args, ref_pointer = ''/x''\<rparr>)"
  let ?ctx = "\<lambda>s. if s = Pred_Args then Some (JObj []) else None"
  have p: "parse_collection_predicate [Pred_Args] ?v = Inr ?p"
    by (simp add: parse_collection_predicate_def eval_nat_numeral fld_def parse_exact_record_def
      as_object_def parse_leaf_predicate_def parse_reference_def find_source_def
      predicate_source_name_def parse_json_pointer_def parse_string_def is_pointer_text_def)
  moreover have "json_wf ?v" by simp
  moreover have "comparable_context ?ctx"
    by (simp add: comparable_context_def comparable_def assert_json_value_def)
  ultimately have "evaluate_predicate ?p ?ctx = Inr (holds ?p ?ctx)"
    by (rule parsed_predicate_evaluates)
  moreover have "holds ?p ?ctx"
    by (simp add: find_reference_def resolve_json_pointer_def resolve_token_def unresolved_def)
  ultimately show ?thesis using p by auto
qed

end
