(* ===== verification/Scrape_Value.thy ===== *)
theory Scrape_Value
  imports Collection_Predicate
begin

text \<open>
  The value language that builds capability arguments and child inputs
  (\<open>src/src/public/contracts/scrape-value.ts\<close>): syntax, parser and evaluator. As in the
  predicate language, a parser's first argument is the number of levels left.
\<close>

section \<open>Syntax\<close>

datatype scrape_value_source = Val_Args | Val_Seed | Val_Parent_Item | Val_Task_Data | Val_Raw_Item

definition scrape_value_source_name :: "scrape_value_source \<Rightarrow> string" where
  "scrape_value_source_name s = (case s of
     Val_Args \<Rightarrow> ''args'' | Val_Seed \<Rightarrow> ''seed'' | Val_Parent_Item \<Rightarrow> ''parent_item''
   | Val_Task_Data \<Rightarrow> ''task_data'' | Val_Raw_Item \<Rightarrow> ''raw_item'')"

datatype scrape_value =
    V_Get scrape_value_source string
  | V_Literal json
  | V_Add_Integer scrape_value int
  | V_Object "(string \<times> scrape_value) list"
  | V_Array "scrape_value list"

type_synonym scrape_value_context = "scrape_value_source \<Rightarrow> json option"

section \<open>Parsing\<close>

definition parse_members :: "(json \<Rightarrow> exn + 'a) \<Rightarrow> jobject \<Rightarrow> exn + (string \<times> 'a) list" where
  "parse_members f kvs = mapR (\<lambda>(k, v). bindR (f v) (\<lambda>x. Inr (k, x))) kvs"

primrec parse_value_at :: "nat \<Rightarrow> scrape_value_source list \<Rightarrow> json \<Rightarrow> exn + scrape_value" where
  "parse_value_at 0 allowed v = contract_error (STR ''exceeds scrape value depth 12'')"
| "parse_value_at (Suc n) allowed v = (case v of
     JObj kvs \<Rightarrow>
       (if fld kvs ''op'' = JStr ''get'' then
          bindR (parse_exact_record [''op'', ''from'', ''pointer''] v) (\<lambda>r.
            (case fld r ''from'' of
               JStr from \<Rightarrow>
                 (case find (\<lambda>x. scrape_value_source_name x = from) allowed of
                    None \<Rightarrow> contract_error (STR ''is not available in this value context'')
                  | Some s \<Rightarrow> bindR (parse_json_pointer (fld r ''pointer'')) (\<lambda>p. Inr (V_Get s p)))
             | _ \<Rightarrow> contract_error (STR ''is not available in this value context'')))
        else if fld kvs ''op'' = JStr ''literal'' then
          bindR (parse_exact_record [''op'', ''value''] v) (\<lambda>r.
            bindR (assert_json_value 12 (fld r ''value'')) (\<lambda>_. Inr (V_Literal (fld r ''value''))))
        else if fld kvs ''op'' = JStr ''add_integer'' then
          bindR (parse_exact_record [''op'', ''value'', ''amount''] v) (\<lambda>r.
            bindR (parse_value_at n allowed (fld r ''value'')) (\<lambda>x.
            bindR (parse_integer (- 1000000) 1000000 (fld r ''amount'')) (\<lambda>i. Inr (V_Add_Integer x i))))
        else if fld kvs ''op'' = JStr ''object'' then
          bindR (parse_exact_record [''op'', ''entries''] v) (\<lambda>r.
            bindR (parse_bounded_record 64 (fld r ''entries'')) (\<lambda>entries.
            bindR (parse_members (parse_value_at n allowed) entries) (\<lambda>es. Inr (V_Object es))))
        else if fld kvs ''op'' = JStr ''array'' then
          bindR (parse_exact_record [''op'', ''items''] v) (\<lambda>r.
            (case fld r ''items'' of
               JArr xs \<Rightarrow>
                 ensureR (length xs \<le> 64) (PublicContractError (STR ''must contain at most 64 entries''))
                   (bindR (mapR (parse_value_at n allowed) xs) (\<lambda>ys. Inr (V_Array ys)))
             | _ \<Rightarrow> contract_error (STR ''must contain at most 64 entries'')))
        else contract_error (STR ''must be a supported scrape value operation''))
   | _ \<Rightarrow> contract_error (STR ''must be a scrape value object''))"

definition parse_scrape_value :: "scrape_value_source list \<Rightarrow> json \<Rightarrow> exn + scrape_value" where
  "parse_scrape_value allowed v = parse_value_at 13 allowed v"

section \<open>Evaluation\<close>

fun evaluate_scrape_value :: "scrape_value \<Rightarrow> scrape_value_context \<Rightarrow> exn + json" where
  "evaluate_scrape_value (V_Get s p) ctx = (case ctx s of
     None \<Rightarrow> Inl (ScrapeValueError (STR ''source is unavailable''))
   | Some v \<Rightarrow> catchR (resolve_json_pointer v p)
       (\<lambda>e. if is_contract_error e then ScrapeValueError (STR ''pointer does not resolve'') else e))"
| "evaluate_scrape_value (V_Literal v) ctx = Inr v"
| "evaluate_scrape_value (V_Add_Integer x i) ctx = bindR (evaluate_scrape_value x ctx) (\<lambda>c.
     (case c of
        JNum (NInt j) \<Rightarrow>
          ensureR (\<bar>j\<bar> \<le> max_safe_integer)
            (ScrapeValueError (STR ''add_integer operand must be a safe integer''))
            (ensureR (\<bar>j + i\<bar> \<le> max_safe_integer)
              (ScrapeValueError (STR ''add_integer result is out of range'')) (Inr (JNum (NInt (j + i)))))
      | _ \<Rightarrow> Inl (ScrapeValueError (STR ''add_integer operand must be a safe integer''))))"
| "evaluate_scrape_value (V_Object es) ctx =
     bindR (mapR (\<lambda>e. bindR (evaluate_scrape_value (snd e) ctx) (\<lambda>x. Inr (fst e, x))) es)
       (\<lambda>kvs. Inr (JObj kvs))"
| "evaluate_scrape_value (V_Array xs) ctx =
     bindR (mapR (\<lambda>x. evaluate_scrape_value x ctx) xs) (\<lambda>ys. Inr (JArr ys))"

section \<open>Evaluation is substitution\<close>

text \<open>
  The sources a value reads, and what it means once they are there: a template filled in,
  without errors.
\<close>

fun value_reads :: "scrape_value \<Rightarrow> (scrape_value_source \<times> string) set" where
  "value_reads (V_Get s p) = {(s, p)}"
| "value_reads (V_Literal v) = {}"
| "value_reads (V_Add_Integer x i) = value_reads x"
| "value_reads (V_Object es) = (\<Union>e \<in> set es. value_reads (snd e))"
| "value_reads (V_Array xs) = (\<Union>x \<in> set xs. value_reads x)"

text \<open>
  A scrape value depends only on what it reads: two contexts that agree on every source
  and pointer of the value evaluate it alike, errors included.
\<close>

theorem evaluate_scrape_value_reads:
  assumes "\<forall>(s, p) \<in> value_reads v.
    map_option (\<lambda>x. resolve_json_pointer x p) (ctx s) = map_option (\<lambda>x. resolve_json_pointer x p) (ctx' s)"
  shows "evaluate_scrape_value v ctx = evaluate_scrape_value v ctx'"
  using assms
proof (induction v)
  case (V_Get s p)
  then show ?case by (auto simp: map_option_case split: option.splits)
next
  case (V_Add_Integer v i)
  then show ?case by simp
next
  case (V_Object es)
  have "mapR (\<lambda>e. bindR (evaluate_scrape_value (snd e) ctx) (\<lambda>x. Inr (fst e, x))) es =
      mapR (\<lambda>e. bindR (evaluate_scrape_value (snd e) ctx') (\<lambda>x. Inr (fst e, x))) es"
  proof (rule mapR_cong[OF refl])
    fix e assume e: "e \<in> set es"
    have "evaluate_scrape_value (snd e) ctx = evaluate_scrape_value (snd e) ctx'"
      by (rule V_Object.IH[OF e]) (use e V_Object.prems in \<open>auto simp: snds.simps\<close>)
    then show "bindR (evaluate_scrape_value (snd e) ctx) (\<lambda>x. Inr (fst e, x)) =
      bindR (evaluate_scrape_value (snd e) ctx') (\<lambda>x. Inr (fst e, x))" by simp
  qed
  then show ?case by simp
next
  case (V_Array xs)
  have "mapR (\<lambda>x. evaluate_scrape_value x ctx) xs = mapR (\<lambda>x. evaluate_scrape_value x ctx') xs"
    by (rule mapR_cong[OF refl]) (use V_Array in auto)
  then show ?case by simp
qed simp

theorem evaluate_scrape_value_reads_witness:
  "evaluate_scrape_value (V_Add_Integer (V_Get Val_Args ''/n'') 1)
      (\<lambda>s. if s = Val_Args then Some (JObj [(''n'', JNum (NInt 4)), (''m'', JNull)]) else None) =
    evaluate_scrape_value (V_Add_Integer (V_Get Val_Args ''/n'') 1)
      (\<lambda>s. if s = Val_Args then Some (JObj [(''n'', JNum (NInt 4))]) else Some JNull)"
  by (rule evaluate_scrape_value_reads) (simp add: resolve_json_pointer_def decode_token_def resolve_token_def)

text \<open>
  An integer a scrape value computes is always one JavaScript represents exactly, so
  that page arithmetic cannot silently round.
\<close>

theorem add_integer_is_exact:
  assumes "evaluate_scrape_value (V_Add_Integer v i) ctx = Inr w"
  shows "\<exists>j. evaluate_scrape_value v ctx = Inr (JNum (NInt j)) \<and> w = JNum (NInt (j + i)) \<and>
    is_safe_integer (NInt j) \<and> is_safe_integer (NInt (j + i))"
proof -
  from assms obtain c where c: "evaluate_scrape_value v ctx = Inr c"
    and r: "(case c of
        JNum (NInt j) \<Rightarrow>
          ensureR (\<bar>j\<bar> \<le> max_safe_integer)
            (ScrapeValueError (STR ''add_integer operand must be a safe integer''))
            (ensureR (\<bar>j + i\<bar> \<le> max_safe_integer)
              (ScrapeValueError (STR ''add_integer result is out of range'')) (Inr (JNum (NInt (j + i)))))
      | _ \<Rightarrow> Inl (ScrapeValueError (STR ''add_integer operand must be a safe integer''))) = Inr w"
    by (auto simp: bindR_Inr_iff)
  from r obtain j where "c = JNum (NInt j)" by (auto split: json.split_asm jsnum.split_asm)
  then show ?thesis using c r by (auto simp: ensureR_Inr_iff)
qed

theorem add_integer_is_exact_witness:
  "\<exists>j. evaluate_scrape_value (V_Literal (JNum (NInt 41))) (\<lambda>_. None) = Inr (JNum (NInt j)) \<and> j + 1 = 42"
proof -
  have "evaluate_scrape_value (V_Add_Integer (V_Literal (JNum (NInt 41))) 1) (\<lambda>_. None) = Inr (JNum (NInt 42))"
    by (simp add: max_safe_integer_def)
  from add_integer_is_exact[OF this] show ?thesis by auto
qed

end
