(* ===== verification/Json_Schema.thy ===== *)
theory Json_Schema
  imports Scrape_Value
begin

text \<open>
  The bounded JSON Schema of package inputs and outputs
  (\<open>src/src/public/contracts/json-schema.ts\<close>): parser and validator.

  The parser threads the node counter and takes the levels left, 13 at the root. A property
  lookup on an object literal also finds what \<open>Object.prototype\<close> has; the validator's
  lookup \<open>schema.properties[name]\<close> is modelled with it, and the value it then finds is not a
  schema: reading its \<open>enum\<close> throws a \<open>TypeError\<close>. A schema that declares a property
  \<open>__proto__\<close>, which assignment does not store as a property, is not modelled.
\<close>

section \<open>Schemas\<close>

datatype json_schema =
    S_Null "json list option"
  | S_Boolean bool "json list option"
  | S_String bool "int option" "int option" "json list option"
  | S_Number bool bool "jsnum option" "jsnum option" "json list option"
  | S_Array bool json_schema "int option" "int option" "json list option"
  | S_Object bool "(string \<times> json_schema) list" "string list" "json_schema option"
      "int option" "int option" "json list option"

section \<open>Parsing\<close>

text \<open>A field that may be absent: \<open>undefined\<close> is \<open>None\<close>.\<close>

definition parse_schema_record :: "string list \<Rightarrow> string list \<Rightarrow> json \<Rightarrow> exn + jobject" where
  "parse_schema_record allowed required v =
     bindR (parse_bounded_record (length allowed) v) (\<lambda>r.
       ensureR (list_all (\<lambda>k. k \<in> set allowed) (map fst r)) (PublicContractError (STR ''is not allowed''))
         (ensureR (list_all (\<lambda>k. k \<in> set (map fst r)) required)
           (PublicContractError (STR ''is missing required key'')) (Inr r)))"

definition parse_nullable :: "json option \<Rightarrow> exn + bool" where
  "parse_nullable v = (case v of
     None \<Rightarrow> Inr False
   | Some (JBool b) \<Rightarrow> Inr b
   | Some _ \<Rightarrow> contract_error (STR ''must be a boolean''))"

datatype scalar_type = Scalar_Null | Scalar_Boolean | Scalar_String | Scalar_Number

definition is_scalar :: "scalar_type \<Rightarrow> json \<Rightarrow> bool" where
  "is_scalar t v = (case (t, v) of
     (Scalar_Null, JNull) \<Rightarrow> True | (Scalar_Boolean, JBool _) \<Rightarrow> True
   | (Scalar_String, JStr _) \<Rightarrow> True | (Scalar_Number, JNum _) \<Rightarrow> True | _ \<Rightarrow> False)"

text \<open>The loop of \<open>parseScalarEnum\<close>: type, finiteness, then no duplicate.\<close>

fun check_scalar_enum :: "scalar_type \<Rightarrow> string list \<Rightarrow> json list \<Rightarrow> exn + unit" where
  "check_scalar_enum t seen [] = Inr ()"
| "check_scalar_enum t seen (v # vs) =
     ensureR (is_scalar t v) (PublicContractError (STR ''must be a SCALAR''))
      (ensureR (case v of JNum n \<Rightarrow> is_finite n | _ \<Rightarrow> True) (PublicContractError (STR ''must be finite''))
        (bindR (canonical_json v) (\<lambda>k.
          ensureR (k \<notin> set seen) (PublicContractError (STR ''must not contain duplicates''))
            (check_scalar_enum t (k # seen) vs))))"

definition parse_enum_with :: "(json list \<Rightarrow> exn + unit) \<Rightarrow> json option \<Rightarrow> exn + json list option" where
  "parse_enum_with check v = (case v of
     None \<Rightarrow> Inr None
   | Some JNull \<Rightarrow> Inr None
   | Some (JArr xs) \<Rightarrow>
       ensureR (xs \<noteq> [] \<and> length xs \<le> 64)
         (PublicContractError (STR ''must be null or a non-empty array with at most 64 values''))
         (bindR (check xs) (\<lambda>_. Inr (Some xs)))
   | Some _ \<Rightarrow> contract_error (STR ''must be null or a non-empty array with at most 64 values''))"

definition parse_scalar_enum :: "scalar_type \<Rightarrow> json option \<Rightarrow> exn + json list option" where
  "parse_scalar_enum t v = parse_enum_with (check_scalar_enum t []) v"

fun check_json_enum :: "string list \<Rightarrow> json list \<Rightarrow> exn + unit" where
  "check_json_enum seen [] = Inr ()"
| "check_json_enum seen (v # vs) =
     bindR (assert_json_value 12 v) (\<lambda>_. bindR (canonical_json v) (\<lambda>k.
       ensureR (k \<notin> set seen) (PublicContractError (STR ''must not contain duplicates''))
         (check_json_enum (k # seen) vs)))"

definition parse_json_enum :: "json option \<Rightarrow> exn + json list option" where
  "parse_json_enum v = parse_enum_with (check_json_enum []) v"

definition parse_optional_with :: "(json \<Rightarrow> exn + 'a) \<Rightarrow> json option \<Rightarrow> exn + 'a option" where
  "parse_optional_with f v = (case v of
     None \<Rightarrow> Inr None
   | Some JNull \<Rightarrow> Inr None
   | Some x \<Rightarrow> bindR (f x) (\<lambda>y. Inr (Some y)))"

definition parse_nullable_bounds :: "int \<Rightarrow> int \<Rightarrow> json option \<Rightarrow> json option \<Rightarrow> exn + int option \<times> int option" where
  "parse_nullable_bounds lo hi minimum maximum =
     bindR (parse_optional_with (parse_integer lo hi) minimum) (\<lambda>mn.
     bindR (parse_optional_with (parse_integer lo hi) maximum) (\<lambda>mx.
     ensureR (case (mn, mx) of (Some a, Some b) \<Rightarrow> a \<le> b | _ \<Rightarrow> True)
       (PublicContractError (STR ''minimum must not exceed maximum'')) (Inr (mn, mx))))"

definition parse_length_bounds :: "json option \<Rightarrow> json option \<Rightarrow> exn + int option \<times> int option" where
  "parse_length_bounds = parse_nullable_bounds 0 65536"

definition parse_item_bounds :: "json option \<Rightarrow> json option \<Rightarrow> exn + int option \<times> int option" where
  "parse_item_bounds = parse_nullable_bounds 0 10000"

definition parse_schema_number :: "json \<Rightarrow> exn + jsnum" where
  "parse_schema_number v = (case v of
     JNum n \<Rightarrow> ensureR (is_finite n) (PublicContractError (STR ''must be a finite number or null'')) (Inr n)
   | _ \<Rightarrow> contract_error (STR ''must be a finite number or null''))"

definition parse_number_bounds :: "json option \<Rightarrow> json option \<Rightarrow> exn + jsnum option \<times> jsnum option" where
  "parse_number_bounds minimum maximum =
     bindR (parse_optional_with parse_schema_number minimum) (\<lambda>mn.
     bindR (parse_optional_with parse_schema_number maximum) (\<lambda>mx.
     ensureR (case (mn, mx) of (Some a, Some b) \<Rightarrow> \<not> num_less b a | _ \<Rightarrow> True)
       (PublicContractError (STR ''minimum must not exceed maximum'')) (Inr (mn, mx))))"

fun check_required :: "string list \<Rightarrow> string list \<Rightarrow> json list \<Rightarrow> exn + string list" where
  "check_required names seen [] = Inr seen"
| "check_required names seen (v # vs) =
     bindR (parse_string 256 v) (\<lambda>n.
       ensureR (n \<in> set names) (PublicContractError (STR ''must name a declared property''))
         (ensureR (n \<notin> set seen) (PublicContractError (STR ''must not contain duplicates''))
           (check_required names (seen @ [n]) vs)))"

definition parse_required :: "string list \<Rightarrow> json option \<Rightarrow> exn + string list" where
  "parse_required names v = (case v of
     None \<Rightarrow> Inr []
   | Some (JArr xs) \<Rightarrow>
       ensureR (length xs \<le> 64) (PublicContractError (STR ''must be an array with at most 64 values''))
         (check_required names [] xs)
   | Some _ \<Rightarrow> contract_error (STR ''must be an array with at most 64 values''))"

definition parse_null_schema :: "json \<Rightarrow> exn + json_schema" where
  "parse_null_schema v =
     bindR (parse_schema_record [''type'', ''enum''] [''type''] v) (\<lambda>r.
     bindR (parse_scalar_enum Scalar_Null (field r ''enum'')) (\<lambda>en. Inr (S_Null en)))"

definition parse_boolean_schema :: "json \<Rightarrow> exn + json_schema" where
  "parse_boolean_schema v =
     bindR (parse_schema_record [''type'', ''nullable'', ''enum''] [''type''] v) (\<lambda>r.
     bindR (parse_nullable (field r ''nullable'')) (\<lambda>nl.
     bindR (parse_scalar_enum Scalar_Boolean (field r ''enum'')) (\<lambda>en. Inr (S_Boolean nl en))))"

definition parse_string_schema :: "json \<Rightarrow> exn + json_schema" where
  "parse_string_schema v =
     bindR (parse_schema_record [''type'', ''nullable'', ''minLength'', ''maxLength'', ''enum''] [''type''] v) (\<lambda>r.
     bindR (parse_length_bounds (field r ''minLength'') (field r ''maxLength'')) (\<lambda>(mn, mx).
     bindR (parse_nullable (field r ''nullable'')) (\<lambda>nl.
     bindR (parse_scalar_enum Scalar_String (field r ''enum'')) (\<lambda>en. Inr (S_String nl mn mx en)))))"

definition parse_number_schema :: "bool \<Rightarrow> json \<Rightarrow> exn + json_schema" where
  "parse_number_schema is_integer v =
     bindR (parse_schema_record [''type'', ''nullable'', ''minimum'', ''maximum'', ''enum''] [''type''] v) (\<lambda>r.
     bindR (parse_number_bounds (field r ''minimum'') (field r ''maximum'')) (\<lambda>(mn, mx).
     bindR (parse_scalar_enum Scalar_Number (field r ''enum'')) (\<lambda>en.
     ensureR (is_integer \<longrightarrow> list_all (\<lambda>x. case x of JNum n \<Rightarrow> is_safe_integer n | _ \<Rightarrow> False)
         (case en of None \<Rightarrow> [] | Some xs \<Rightarrow> xs))
       (PublicContractError (STR ''integer enums must contain safe integers only''))
       (bindR (parse_nullable (field r ''nullable'')) (\<lambda>nl. Inr (S_Number is_integer nl mn mx en))))))"

text \<open>
  The cases that descend take the parser of one level below, which threads the node count.
\<close>

type_synonym schema_parser = "json \<Rightarrow> nat \<Rightarrow> exn + json_schema \<times> nat"

definition parse_array_schema :: "schema_parser \<Rightarrow> schema_parser" where
  "parse_array_schema parse v nodes =
     bindR (parse_schema_record [''type'', ''nullable'', ''items'', ''minItems'', ''maxItems'', ''enum'']
       [''type'', ''items''] v) (\<lambda>r.
     bindR (parse_item_bounds (field r ''minItems'') (field r ''maxItems'')) (\<lambda>(mn, mx).
     bindR (parse_nullable (field r ''nullable'')) (\<lambda>nl.
     bindR (parse (fld r ''items'') nodes) (\<lambda>(items, nodes2).
     bindR (parse_json_enum (field r ''enum'')) (\<lambda>en.
       Inr (S_Array nl items mn mx en, nodes2))))))"

definition parse_property :: "schema_parser \<Rightarrow> string \<times> json \<Rightarrow> nat \<Rightarrow> exn + (string \<times> json_schema) \<times> nat" where
  "parse_property parse = (\<lambda>(k, p) m. bindR (parse_string 256 (JStr k)) (\<lambda>_.
     bindR (parse p m) (\<lambda>(s, m2). Inr ((k, s), m2))))"

definition parse_additional_properties ::
  "schema_parser \<Rightarrow> json option \<Rightarrow> int option \<Rightarrow> nat \<Rightarrow> exn + json_schema option \<times> nat" where
  "parse_additional_properties parse v mx nodes = (case v of
     Some (JBool False) \<Rightarrow> Inr (None, nodes)
   | None \<Rightarrow> contract_error (STR ''must be false or a bounded schema'')
   | Some a \<Rightarrow>
       (if mx = None then contract_error (STR ''schema-valued maps require maxProperties'')
        else bindR (parse a nodes) (\<lambda>(s, m). Inr (Some s, m))))"

definition parse_object_schema :: "schema_parser \<Rightarrow> schema_parser" where
  "parse_object_schema parse v nodes =
     bindR (parse_schema_record [''type'', ''nullable'', ''properties'', ''required'',
       ''additionalProperties'', ''minProperties'', ''maxProperties'', ''enum'']
       [''type'', ''additionalProperties''] v) (\<lambda>r.
     bindR (case field r ''properties'' of None \<Rightarrow> Inr [] | Some p \<Rightarrow> parse_bounded_record 64 p) (\<lambda>ps.
     bindR (mapSR (parse_property parse) ps nodes) (\<lambda>(props, nodes2).
     bindR (parse_required (map fst props) (field r ''required'')) (\<lambda>req.
     bindR (parse_item_bounds (field r ''minProperties'') (field r ''maxProperties'')) (\<lambda>(mn, mx).
     bindR (parse_additional_properties parse (field r ''additionalProperties'') mx nodes2) (\<lambda>(extra, nodes3).
     bindR (parse_nullable (field r ''nullable'')) (\<lambda>nl.
     bindR (parse_json_enum (field r ''enum'')) (\<lambda>en.
       Inr (S_Object nl props req extra mn mx en, nodes3)))))))))"

text \<open>The switch of \<open>parseSchema\<close>.\<close>

definition parse_schema_type :: "schema_parser \<Rightarrow> string \<Rightarrow> schema_parser" where
  "parse_schema_type parse t v nodes =
     (if t = ''null'' then bindR (parse_null_schema v) (\<lambda>s. Inr (s, nodes))
      else if t = ''boolean'' then bindR (parse_boolean_schema v) (\<lambda>s. Inr (s, nodes))
      else if t = ''string'' then bindR (parse_string_schema v) (\<lambda>s. Inr (s, nodes))
      else if t = ''number'' then bindR (parse_number_schema False v) (\<lambda>s. Inr (s, nodes))
      else if t = ''integer'' then bindR (parse_number_schema True v) (\<lambda>s. Inr (s, nodes))
      else if t = ''array'' then parse_array_schema parse v nodes
      else if t = ''object'' then parse_object_schema parse v nodes
      else contract_error (STR ''must be a supported JSON Schema type''))"

primrec parse_schema :: "nat \<Rightarrow> json \<Rightarrow> nat \<Rightarrow> exn + json_schema \<times> nat" where
  "parse_schema 0 v nodes = contract_error (STR ''exceeds maximum schema depth 12'')"
| "parse_schema (Suc n) v nodes =
     ensureR (nodes + 1 \<le> 256) (PublicContractError (STR ''exceeds maximum schema node count 256''))
      (bindR (parse_bounded_record 16 v) (\<lambda>tr.
        (case field tr ''type'' of
           Some (JStr t) \<Rightarrow> parse_schema_type (parse_schema n) t v (nodes + 1)
         | _ \<Rightarrow> contract_error (STR ''must be a supported JSON Schema type''))))"

definition parse_json_schema :: "json \<Rightarrow> exn + json_schema" where
  "parse_json_schema v = bindR (parse_schema 13 v 0) (\<lambda>(s, _). Inr s)"

section \<open>Validation\<close>

text \<open>\<open>Array.from(value).length\<close>: code points, the bytes that do not continue one.\<close>

definition code_points :: "string \<Rightarrow> nat" where
  "code_points s = length (List.filter (\<lambda>c. byte c < 128 \<or> 192 \<le> byte c) s)"

definition validate_string :: "int option \<Rightarrow> int option \<Rightarrow> string \<Rightarrow> exn + unit" where
  "validate_string mn mx s =
     ensureR (case mn of None \<Rightarrow> True | Some n \<Rightarrow> n \<le> int (code_points s))
       (PublicContractError (STR ''must contain at least N characters''))
      (ensureR (case mx of None \<Rightarrow> True | Some n \<Rightarrow> int (code_points s) \<le> n)
        (PublicContractError (STR ''must contain at most N characters'')) (Inr ()))"

definition validate_number :: "jsnum option \<Rightarrow> jsnum option \<Rightarrow> jsnum \<Rightarrow> exn + unit" where
  "validate_number mn mx x =
     ensureR (case mn of None \<Rightarrow> True | Some n \<Rightarrow> \<not> num_less x n) (PublicContractError (STR ''must be at least N''))
      (ensureR (case mx of None \<Rightarrow> True | Some n \<Rightarrow> \<not> num_less n x)
        (PublicContractError (STR ''must be at most N'')) (Inr ()))"

definition validate_count :: "int option \<Rightarrow> int option \<Rightarrow> nat \<Rightarrow> exn + unit" where
  "validate_count mn mx k =
     ensureR (case mn of None \<Rightarrow> True | Some n \<Rightarrow> n \<le> int k) (PublicContractError (STR ''must contain at least N''))
      (ensureR (case mx of None \<Rightarrow> True | Some n \<Rightarrow> int k \<le> n)
        (PublicContractError (STR ''must contain at most N'')) (Inr ()))"

definition schema_nullable :: "json_schema \<Rightarrow> bool" where
  "schema_nullable s = (case s of
     S_Null _ \<Rightarrow> False | S_Boolean b _ \<Rightarrow> b | S_String b _ _ _ \<Rightarrow> b | S_Number _ b _ _ _ \<Rightarrow> b
   | S_Array b _ _ _ _ \<Rightarrow> b | S_Object b _ _ _ _ _ _ \<Rightarrow> b)"

text \<open>The names a plain object inherits.\<close>

definition object_prototype_keys :: "string list" where
  "object_prototype_keys = [''constructor'', ''__defineGetter__'', ''__defineSetter__'', ''hasOwnProperty'',
     ''__lookupGetter__'', ''__lookupSetter__'', ''isPrototypeOf'', ''propertyIsEnumerable'', ''toString'',
     ''valueOf'', ''__proto__'', ''toLocaleString'']"

definition validate_enum :: "json list option \<Rightarrow> json \<Rightarrow> exn + unit" where
  "validate_enum en v = (case en of
     None \<Rightarrow> Inr ()
   | Some cs \<Rightarrow> bindR (someR (\<lambda>c. bindR (canonical_json c) (\<lambda>a. bindR (canonical_json v) (\<lambda>b. Inr (a = b)))) cs)
       (\<lambda>b. ensureR b (PublicContractError (STR ''is not one of the declared enum values'')) (Inr ())))"

fun validate_against_schema :: "json_schema \<Rightarrow> json \<Rightarrow> exn + unit" where
  "validate_against_schema (S_Null en) v =
     ensureR (v = JNull) (PublicContractError (STR ''must be null'')) (validate_enum en v)"
| "validate_against_schema (S_Boolean nl en) v =
     (if v = JNull \<and> nl then Inr () else
      (case v of JBool b \<Rightarrow> validate_enum en v | _ \<Rightarrow> contract_error (STR ''must be a boolean'')))"
| "validate_against_schema (S_String nl mn mx en) v =
     (if v = JNull \<and> nl then Inr () else
      (case v of
         JStr s \<Rightarrow> bindR (validate_string mn mx s) (\<lambda>_. validate_enum en v)
       | _ \<Rightarrow> contract_error (STR ''must be a string'')))"
| "validate_against_schema (S_Number is_integer nl mn mx en) v =
     (if v = JNull \<and> nl then Inr () else
      (case v of
         JNum x \<Rightarrow>
           ensureR (is_finite x) (PublicContractError (STR ''must be a finite number''))
            (ensureR (is_integer \<longrightarrow> is_safe_integer x) (PublicContractError (STR ''must be a safe integer''))
              (bindR (validate_number mn mx x) (\<lambda>_. validate_enum en v)))
       | _ \<Rightarrow> contract_error (STR ''must be a finite number'')))"
| "validate_against_schema (S_Array nl items mn mx en) v =
     (if v = JNull \<and> nl then Inr () else
      (case v of
         JArr xs \<Rightarrow>
           bindR (validate_count mn mx (length xs)) (\<lambda>_.
           bindR (mapR (\<lambda>x. validate_against_schema items x) xs) (\<lambda>_. validate_enum en v))
       | _ \<Rightarrow> contract_error (STR ''must be an array'')))"
| "validate_against_schema (S_Object nl props req extra mn mx en) v =
     (if v = JNull \<and> nl then Inr () else
      (case v of
         JObj kvs \<Rightarrow>
           bindR (validate_count mn mx (length kvs)) (\<lambda>_.
           ensureR (list_all (\<lambda>n. n \<in> set (map fst kvs)) req)
             (PublicContractError (STR ''is missing required property''))
             (let declared = map (\<lambda>p. (fst p, \<lambda>x. validate_against_schema (snd p) x)) props;
                  other = map_option (\<lambda>s x. validate_against_schema s x) extra in
              bindR (mapR (\<lambda>kv.
                (case map_of declared (fst kv) of
                   Some check \<Rightarrow> check (snd kv)
                 | None \<Rightarrow>
                     (if fst kv \<in> set object_prototype_keys then Inl (OtherError (STR ''TypeError''))
                      else (case other of
                          None \<Rightarrow> contract_error (STR ''is not allowed'')
                        | Some check \<Rightarrow> check (snd kv))))) kvs) (\<lambda>_. validate_enum en v)))
       | _ \<Rightarrow> contract_error (STR ''must be an object'')))"

definition validate_json_schema :: "json_schema \<Rightarrow> json \<Rightarrow> exn + json" where
  "validate_json_schema s v = bindR (assert_json_value 12 v) (\<lambda>_.
     bindR (validate_against_schema s v) (\<lambda>_. Inr v))"

section \<open>Errors\<close>

text \<open>No key, at any depth, is a name that plain objects inherit.\<close>

fun plain_keys :: "json \<Rightarrow> bool" where
  "plain_keys (JArr xs) = list_all plain_keys xs"
| "plain_keys (JObj kvs) = list_all (\<lambda>kv. fst kv \<notin> set object_prototype_keys \<and> plain_keys (snd kv)) kvs"
| "plain_keys v = True"

lemma mapR_Inl: "mapR f xs = Inl e \<Longrightarrow> \<exists>x \<in> set xs. f x = Inl e"
proof (induction xs)
  case (Cons x xs)
  then show ?case by (cases "f x"; cases "mapR f xs") auto
qed simp

lemma bindR_Inl_iff: "bindR m f = Inl e \<longleftrightarrow> m = Inl e \<or> (\<exists>x. m = Inr x \<and> f x = Inl e)"
  by (cases m) simp_all

lemma ensureR_Inl_iff: "ensureR b x m = Inl e \<longleftrightarrow> \<not> b \<and> x = e \<or> b \<and> m = Inl e"
  by (auto simp: ensureR_def)

lemma render_json_error: "render_json d v = Inl e \<Longrightarrow> is_contract_error e"
proof (induction v arbitrary: d rule: json.induct)
  case (JArr xs)
  then show ?case by (fastforce simp: depth_guard_def ensureR_Inl_iff bindR_Inl_iff dest!: mapR_Inl)
next
  case (JObj kvs)
  then show ?case
    by (fastforce simp: depth_guard_def ensureR_Inl_iff bindR_Inl_iff snds.simps dest!: mapR_Inl)
qed (auto simp: depth_guard_def ensureR_Inl_iff)

lemma canonical_json_error: "canonical_json v = Inl e \<Longrightarrow> is_contract_error e"
  unfolding canonical_json_def by (rule render_json_error)

lemma someR_Inl: "someR f xs = Inl e \<Longrightarrow> \<exists>x \<in> set xs. f x = Inl e"
  by (induction xs) (auto simp: bindR_Inl_iff split: if_splits)

lemma validate_enum_error: "validate_enum en v = Inl e \<Longrightarrow> is_contract_error e"
  by (auto simp: validate_enum_def bindR_Inl_iff ensureR_Inl_iff canonical_json_error
    split: option.splits dest!: someR_Inl)

lemma validate_count_error: "validate_count mn mx k = Inl e \<Longrightarrow> is_contract_error e"
  by (auto simp: validate_count_def ensureR_Inl_iff)

lemma validate_against_schema_error:
  "validate_against_schema s v = Inl e \<Longrightarrow> plain_keys v \<Longrightarrow> is_contract_error e"
proof (induction s arbitrary: v)
  case (S_Array nl items mn mx en)
  then show ?case
    by (auto simp: contract_error_def bindR_Inl_iff ensureR_Inl_iff validate_count_def list_all_iff
      validate_enum_error split: if_splits json.splits dest!: mapR_Inl)
next
  case (S_Object nl props req extra mn mx en)
  let ?declared = "map (\<lambda>p. (fst p, \<lambda>x. validate_against_schema (snd p) x)) props"
  have d: "map_of ?declared k = Some check \<Longrightarrow> plain_keys x \<Longrightarrow> check x = Inl e \<Longrightarrow> is_contract_error e"
    for k check x
    using S_Object.IH(1) by (auto dest!: map_of_SomeD simp: snds.simps)
  have o: "extra = Some s' \<Longrightarrow> plain_keys x \<Longrightarrow> validate_against_schema s' x = Inl e \<Longrightarrow> is_contract_error e"
    for s' x using S_Object.IH(2)[of s'] by auto
  show ?case
  proof (cases v)
    case (JObj kvs)
    let ?entry = "\<lambda>kv. (case map_of ?declared (fst kv) of
        Some check \<Rightarrow> check (snd kv)
      | None \<Rightarrow> (if fst kv \<in> set object_prototype_keys then Inl (OtherError (STR ''TypeError''))
          else (case map_option (\<lambda>s x. validate_against_schema s x) extra of
              None \<Rightarrow> contract_error (STR ''is not allowed'') | Some check \<Rightarrow> check (snd kv))))"
    from S_Object.prems(1) JObj consider (count) "validate_count mn mx (length kvs) = Inl e"
      | (missing) "e = PublicContractError (STR ''is missing required property'')"
      | (member) "mapR ?entry kvs = Inl e" | (enum) "validate_enum en (JObj kvs) = Inl e"
      by (auto simp: bindR_Inl_iff ensureR_Inl_iff Let_def)
    then show ?thesis
    proof cases
      case member
      then obtain kv where kv: "kv \<in> set kvs" "?entry kv = Inl e" using mapR_Inl by fast
      then have "plain_keys (snd kv)" "fst kv \<notin> set object_prototype_keys"
        using S_Object.prems(2) JObj by (auto simp: list_all_iff)
      then show ?thesis using kv(2) d[of "fst kv"] o
        by (cases "map_of ?declared (fst kv)"; cases extra) (auto simp: contract_error_def)
    qed (auto simp: validate_count_error validate_enum_error)
  qed (use S_Object.prems(1) in \<open>auto simp: contract_error_def split: if_splits\<close>)
qed (auto simp: contract_error_def bindR_Inl_iff ensureR_Inl_iff validate_enum_error validate_string_def
  validate_number_def split: if_splits json.splits)

lemma assert_json_value_at_error: "assert_json_value_at m d v = Inl e \<Longrightarrow> is_contract_error e"
proof (induction v arbitrary: d rule: json.induct)
  case (JArr xs)
  then show ?case by (auto simp: ensureR_Inl_iff bindR_Inl_iff dest!: mapR_Inl)
next
  case (JObj kvs)
  then show ?case by (auto simp: ensureR_Inl_iff bindR_Inl_iff snds.simps dest!: mapR_Inl)
qed (auto simp: ensureR_Inl_iff)

lemma assert_json_value_error: "assert_json_value n v = Inl e \<Longrightarrow> is_contract_error e"
  by (simp add: assert_json_value_def assert_json_value_at_error)

text \<open>
  Schema validation fails only with the contract error it documents, for every schema
  and every value without a key named like a member of \<open>Object.prototype\<close>.
\<close>

theorem validation_error_is_contract_error:
  assumes "validate_json_schema s v = Inl e" "plain_keys v"
  shows "is_contract_error e"
  using assms validate_against_schema_error assert_json_value_error
  by (auto simp: validate_json_schema_def bindR_Inl_iff)

theorem validation_error_is_contract_error_witness:
  "\<exists>e. validate_json_schema (S_Object False [] [''id''] None None None None) (JObj []) = Inl e \<and> is_contract_error e"
proof -
  obtain e where "validate_json_schema (S_Object False [] [''id''] None None None None) (JObj []) = Inl e"
    by (simp add: validate_json_schema_def assert_json_value_def validate_count_def)
  then show ?thesis using validation_error_is_contract_error[of _ "JObj []" e] by auto
qed

definition string_map_schema :: json_schema where
  "string_map_schema = S_Object False [] [] (Some (S_String False None None None)) None (Some 8) None"

text \<open>
  The own-property check is missing in the validator: a map schema whose values may be
  any string rejects a key such as \<open>constructor\<close> with a \<open>TypeError\<close>, although the key is
  as good as any other and validates in every other position.
\<close>

theorem validation_crashes_on_inherited_names:
  "validate_json_schema string_map_schema (JObj [(''constructor'', JStr ''Acme'')]) =
     Inl (OtherError (STR ''TypeError'')) \<and>
   validate_json_schema string_map_schema (JObj [(''builder'', JStr ''Acme'')]) =
     Inr (JObj [(''builder'', JStr ''Acme'')])"
  by (simp add: validate_json_schema_def string_map_schema_def assert_json_value_def validate_count_def
    object_prototype_keys_def validate_string_def validate_enum_def)

section \<open>Meaning\<close>

definition in_enum :: "json list option \<Rightarrow> json \<Rightarrow> bool" where
  "in_enum en v = (case en of None \<Rightarrow> True | Some cs \<Rightarrow> \<exists>c \<in> set cs. canon c = canon v)"

definition in_bounds :: "int option \<Rightarrow> int option \<Rightarrow> int \<Rightarrow> bool" where
  "in_bounds mn mx k \<longleftrightarrow> (\<forall>n. mn = Some n \<longrightarrow> n \<le> k) \<and> (\<forall>n. mx = Some n \<longrightarrow> k \<le> n)"

fun conforms :: "json_schema \<Rightarrow> json \<Rightarrow> bool" where
  "conforms (S_Null en) v = (v = JNull \<and> in_enum en v)"
| "conforms (S_Boolean nl en) v = (nl \<and> v = JNull \<or> (\<exists>b. v = JBool b) \<and> in_enum en v)"
| "conforms (S_String nl mn mx en) v =
     (nl \<and> v = JNull \<or> (\<exists>s. v = JStr s \<and> in_bounds mn mx (int (code_points s))) \<and> in_enum en v)"
| "conforms (S_Number is_integer nl mn mx en) v =
     (nl \<and> v = JNull \<or> (\<exists>x. v = JNum x \<and> is_finite x \<and> (is_integer \<longrightarrow> is_safe_integer x) \<and>
        (\<forall>n. mn = Some n \<longrightarrow> \<not> num_less x n) \<and> (\<forall>n. mx = Some n \<longrightarrow> \<not> num_less n x)) \<and> in_enum en v)"
| "conforms (S_Array nl items mn mx en) v =
     (nl \<and> v = JNull \<or> (\<exists>xs. v = JArr xs \<and> in_bounds mn mx (int (length xs)) \<and>
        (\<forall>x \<in> set xs. conforms items x)) \<and> in_enum en v)"
| "conforms (S_Object nl props req extra mn mx en) v =
     (nl \<and> v = JNull \<or> (\<exists>kvs. v = JObj kvs \<and> in_bounds mn mx (int (length kvs)) \<and>
        set req \<subseteq> fst ` set kvs \<and>
        (\<forall>(k, x) \<in> set kvs.
          (case map_of (map (\<lambda>p. (fst p, \<lambda>y. conforms (snd p) y)) props) k of
             Some P \<Rightarrow> P x
           | None \<Rightarrow> k \<notin> set object_prototype_keys \<and>
               (case map_option (\<lambda>s y. conforms s y) extra of None \<Rightarrow> False | Some P \<Rightarrow> P x)))) \<and>
      in_enum en v)"

fun comparable_schema :: "json_schema \<Rightarrow> bool" where
  "comparable_schema (S_Null en) = (\<forall>cs. en = Some cs \<longrightarrow> list_all comparable cs)"
| "comparable_schema (S_Boolean nl en) = (\<forall>cs. en = Some cs \<longrightarrow> list_all comparable cs)"
| "comparable_schema (S_String nl mn mx en) = (\<forall>cs. en = Some cs \<longrightarrow> list_all comparable cs)"
| "comparable_schema (S_Number i nl mn mx en) = (\<forall>cs. en = Some cs \<longrightarrow> list_all comparable cs)"
| "comparable_schema (S_Array nl items mn mx en) =
     (comparable_schema items \<and> (\<forall>cs. en = Some cs \<longrightarrow> list_all comparable cs))"
| "comparable_schema (S_Object nl props req extra mn mx en) =
     (list_all (\<lambda>p. comparable_schema (snd p)) props \<and> pred_option comparable_schema extra \<and>
      (\<forall>cs. en = Some cs \<longrightarrow> list_all comparable cs))"

lemma validate_enum_iff:
  assumes "\<forall>cs. en = Some cs \<longrightarrow> list_all comparable cs" "comparable v"
  shows "validate_enum en v = Inr () \<longleftrightarrow> in_enum en v"
proof (cases en)
  case (Some cs)
  have "someR (\<lambda>c. bindR (canonical_json c) (\<lambda>a. bindR (canonical_json v) (\<lambda>b. Inr (a = b)))) cs =
      Inr (\<exists>c \<in> set cs. canon c = canon v)"
    by (rule someR_total) (use Some assms in \<open>auto simp: list_all_iff compare_canonical\<close>)
  then show ?thesis by (simp add: validate_enum_def in_enum_def Some ensureR_Inr_iff)
qed (simp add: validate_enum_def in_enum_def)

lemma validate_count_iff: "validate_count mn mx k = Inr () \<longleftrightarrow> in_bounds mn mx (int k)"
  by (auto simp: validate_count_def in_bounds_def ensureR_Inr_iff split: option.splits)

lemma validate_string_iff: "validate_string mn mx s = Inr () \<longleftrightarrow> in_bounds mn mx (int (code_points s))"
  by (auto simp: validate_string_def in_bounds_def ensureR_Inr_iff split: option.splits)

lemma mapR_unit_iff:
  fixes f :: "'a \<Rightarrow> 'e + unit"
  shows "(\<exists>us. mapR f xs = Inr us \<and> Q) \<longleftrightarrow> (\<forall>x \<in> set xs. f x = Inr ()) \<and> Q"
  using mapR_unit[of f xs] by blast

lemma bind_unit_iff:
  fixes m :: "'e + unit"
  shows "bindR m (\<lambda>_. k) = Inr x \<longleftrightarrow> m = Inr () \<and> k = Inr x"
  by (auto simp: bindR_Inr_iff)

lemma validate_iff_conforms:
  "comparable_schema s \<Longrightarrow> comparable v \<Longrightarrow> validate_against_schema s v = Inr () \<longleftrightarrow> conforms s v"
proof (induction s arbitrary: v)
  case (S_Array nl items mn mx en)
  show ?case
  proof (cases v)
    case (JArr xs)
    have "validate_against_schema items x = Inr () \<longleftrightarrow> conforms items x" if "x \<in> set xs" for x
      using S_Array.IH S_Array.prems that JArr comparable_arr by simp
    then have "(\<exists>us. mapR (\<lambda>x. validate_against_schema items x) xs = Inr us) \<longleftrightarrow> (\<forall>x \<in> set xs. conforms items x)"
      by (simp add: mapR_unit)
    moreover have "validate_enum en (JArr xs) = Inr () \<longleftrightarrow> in_enum en (JArr xs)"
      by (rule validate_enum_iff) (use S_Array.prems JArr in auto)
    ultimately show ?thesis
      by (simp add: JArr bind_unit_iff bindR_Inr_iff validate_count_iff)
  qed (simp_all add: contract_error_def)
next
  case (S_Object nl props req extra mn mx en)
  show ?case
  proof (cases v)
    case (JObj kvs)
    let ?D = "map (\<lambda>p. (fst p, \<lambda>x. validate_against_schema (snd p) x)) props"
    let ?C = "map (\<lambda>p. (fst p, \<lambda>y. conforms (snd p) y)) props"
    have look: "map_of (map (\<lambda>p. (fst p, g (snd p))) props) k = map_option g (map_of props k)"
      for k :: string and g :: "json_schema \<Rightarrow> 'x"
      by (induction props) auto
    have decl: "validate_against_schema s' x = Inr () \<longleftrightarrow> conforms s' x"
      if "map_of props k = Some s'" "(k, x) \<in> set kvs" for k s' x
    proof -
      have "(k, s') \<in> set props" using that(1) by (rule map_of_SomeD)
      moreover have "comparable x" using comparable_obj S_Object.prems(2) that(2) JObj by blast
      ultimately show ?thesis using S_Object.IH(1)[of "(k, s')" s' x] S_Object.prems(1)
        by (auto simp: list_all_iff)
    qed
    have ext: "validate_against_schema s' x = Inr () \<longleftrightarrow> conforms s' x" if "extra = Some s'" "(k, x) \<in> set kvs" for k s' x
    proof -
      have "comparable x" using comparable_obj S_Object.prems(2) that(2) JObj by blast
      then show ?thesis using S_Object.IH(2)[of s' x] S_Object.prems(1) that(1) by auto
    qed
    have each: "(case map_of ?D k of Some check \<Rightarrow> check x
         | None \<Rightarrow> (if k \<in> set object_prototype_keys then Inl (OtherError (STR ''TypeError''))
            else (case map_option (\<lambda>s x. validate_against_schema s x) extra of
                None \<Rightarrow> contract_error (STR ''is not allowed'') | Some check \<Rightarrow> check x))) = Inr () \<longleftrightarrow>
        (case map_of ?C k of Some P \<Rightarrow> P x
         | None \<Rightarrow> k \<notin> set object_prototype_keys \<and>
             (case map_option (\<lambda>s y. conforms s y) extra of None \<Rightarrow> False | Some P \<Rightarrow> P x))"
      if "(k, x) \<in> set kvs" for k x
      using decl[OF _ that] ext[OF _ that]
      by (cases "map_of props k"; cases extra) (simp_all add: look contract_error_def)
    have req: "list_all (\<lambda>n. n \<in> set (map fst kvs)) req \<longleftrightarrow> set req \<subseteq> fst ` set kvs"
      by (auto simp: list_all_iff)
    have all: "(\<forall>kv \<in> set kvs. (case map_of ?D (fst kv) of Some check \<Rightarrow> check (snd kv)
         | None \<Rightarrow> (if fst kv \<in> set object_prototype_keys then Inl (OtherError (STR ''TypeError''))
            else (case map_option (\<lambda>s x. validate_against_schema s x) extra of
                None \<Rightarrow> contract_error (STR ''is not allowed'') | Some check \<Rightarrow> check (snd kv)))) = Inr ()) \<longleftrightarrow>
       (\<forall>(k, x) \<in> set kvs. (case map_of ?C k of Some P \<Rightarrow> P x
         | None \<Rightarrow> k \<notin> set object_prototype_keys \<and>
             (case map_option (\<lambda>s y. conforms s y) extra of None \<Rightarrow> False | Some P \<Rightarrow> P x)))"
      unfolding case_prod_unfold by (rule ball_cong[OF refl], rule each) simp
    have en: "validate_enum en v = Inr () \<longleftrightarrow> in_enum en v"
      by (rule validate_enum_iff) (use S_Object.prems in auto)
    have m: "(\<exists>us. mapR (\<lambda>kv. (case map_of ?D (fst kv) of Some check \<Rightarrow> check (snd kv)
         | None \<Rightarrow> (if fst kv \<in> set object_prototype_keys then Inl (OtherError (STR ''TypeError''))
            else (case map_option (\<lambda>s x. validate_against_schema s x) extra of
                None \<Rightarrow> contract_error (STR ''is not allowed'') | Some check \<Rightarrow> check (snd kv))))) kvs = Inr us) \<longleftrightarrow>
       (\<forall>(k, x) \<in> set kvs. (case map_of ?C k of Some P \<Rightarrow> P x
         | None \<Rightarrow> k \<notin> set object_prototype_keys \<and>
             (case map_option (\<lambda>s y. conforms s y) extra of None \<Rightarrow> False | Some P \<Rightarrow> P x)))"
      unfolding all[symmetric] by (rule mapR_unit)
    have c: "conforms (S_Object nl props req extra mn mx en) v \<longleftrightarrow>
        in_bounds mn mx (int (length kvs)) \<and> set req \<subseteq> fst ` set kvs \<and>
        (\<forall>(k, x) \<in> set kvs. (case map_of ?C k of Some P \<Rightarrow> P x
         | None \<Rightarrow> k \<notin> set object_prototype_keys \<and>
             (case map_option (\<lambda>s y. conforms s y) extra of None \<Rightarrow> False | Some P \<Rightarrow> P x))) \<and> in_enum en v"
      unfolding conforms.simps JObj by blast
    show ?thesis
      unfolding c m[symmetric]
      by (simp only: validate_against_schema.simps JObj json.distinct simp_thms if_False json.case Let_def
        bind_unit_iff ensureR_Inr_iff validate_count_iff bindR_Inr_iff req en[unfolded JObj]) blast
  qed (simp_all add: contract_error_def)
qed (auto simp: contract_error_def bind_unit_iff ensureR_Inr_iff validate_enum_iff validate_string_iff
  validate_number_def split: json.splits option.splits)

section \<open>Parsed schemas\<close>

fun schema_nodes :: "json_schema \<Rightarrow> nat" where
  "schema_nodes (S_Array nl items mn mx en) = 1 + schema_nodes items"
| "schema_nodes (S_Object nl props req extra mn mx en) =
     1 + sum_list (map (\<lambda>p. schema_nodes (snd p)) props) +
     (case map_option schema_nodes extra of None \<Rightarrow> 0 | Some n \<Rightarrow> n)"
| "schema_nodes s = 1"

fun schema_height :: "json_schema \<Rightarrow> nat" where
  "schema_height (S_Array nl items mn mx en) = 1 + schema_height items"
| "schema_height (S_Object nl props req extra mn mx en) =
     1 + max (fold max (map (\<lambda>p. schema_height (snd p)) props) 0)
       (case map_option schema_height extra of None \<Rightarrow> 0 | Some n \<Rightarrow> n)"
| "schema_height s = 1"

definition ordered_bounds :: "int option \<Rightarrow> int option \<Rightarrow> bool" where
  "ordered_bounds mn mx \<longleftrightarrow> (\<forall>a b. mn = Some a \<longrightarrow> mx = Some b \<longrightarrow> a \<le> b)"

fun satisfiable_bounds :: "json_schema \<Rightarrow> bool" where
  "satisfiable_bounds (S_String nl mn mx en) = ordered_bounds mn mx"
| "satisfiable_bounds (S_Array nl items mn mx en) = (ordered_bounds mn mx \<and> satisfiable_bounds items)"
| "satisfiable_bounds (S_Object nl props req extra mn mx en) =
     (ordered_bounds mn mx \<and> set req \<subseteq> set (map fst props) \<and>
      list_all (\<lambda>p. satisfiable_bounds (snd p)) props \<and> pred_option satisfiable_bounds extra \<and>
      (extra \<noteq> None \<longrightarrow> mx \<noteq> None))"
| "satisfiable_bounds s = True"

definition parsed_schema_ok :: "nat \<Rightarrow> nat \<Rightarrow> json_schema \<Rightarrow> nat \<Rightarrow> bool" where
  "parsed_schema_ok h nodes s nodes' \<longleftrightarrow> nodes' = nodes + schema_nodes s \<and> nodes' \<le> 256 \<and>
     schema_height s \<le> h \<and> comparable_schema s \<and> satisfiable_bounds s"

lemma parse_schema_record_Inr: "parse_schema_record a r v = Inr kvs \<Longrightarrow> v = JObj kvs"
  by (auto simp: parse_schema_record_def parse_bounded_record_def as_object_def bindR_Inr_iff
    ensureR_Inr_iff split: json.splits)

lemma parse_bounded_record_Inr: "parse_bounded_record m v = Inr kvs \<Longrightarrow> v = JObj kvs \<and> length kvs \<le> m"
  by (auto simp: parse_bounded_record_def as_object_def bindR_Inr_iff ensureR_Inr_iff split: json.splits)

lemma json_wf_field: "json_wf (JObj kvs) \<Longrightarrow> field kvs k = Some v \<Longrightarrow> json_wf v"
  by (auto simp: field_def list_all_iff dest!: map_of_SomeD)

lemma parse_nullable_bounds_ordered: "parse_nullable_bounds lo hi a b = Inr (mn, mx) \<Longrightarrow> ordered_bounds mn mx"
  by (auto simp: parse_nullable_bounds_def bindR_Inr_iff ensureR_Inr_iff ordered_bounds_def split: option.splits)

lemma parse_enum_with_Inr:
  "parse_enum_with check v = Inr en \<Longrightarrow> en = Some cs \<Longrightarrow> v = Some (JArr cs) \<and> check cs = Inr ()"
  by (auto simp: parse_enum_with_def contract_error_def bindR_Inr_iff ensureR_Inr_iff
    split: option.splits json.splits)

lemma check_scalar_enum_comparable:
  "check_scalar_enum t seen vs = Inr () \<Longrightarrow> list_all json_wf vs \<Longrightarrow> list_all comparable vs"
proof (induction vs arbitrary: seen)
  case (Cons v vs)
  then have "is_scalar t v" "json_wf v" "\<forall>n. v = JNum n \<longrightarrow> is_finite n"
    by (auto simp: ensureR_Inr_iff bindR_Inr_iff)
  then have "comparable v"
    by (auto simp: is_scalar_def comparable_def assert_json_value_def split: scalar_type.splits json.splits)
  moreover have "list_all comparable vs" using Cons by (auto simp: ensureR_Inr_iff bindR_Inr_iff)
  ultimately show ?case by simp
qed simp

lemma check_json_enum_comparable:
  "check_json_enum seen vs = Inr () \<Longrightarrow> list_all json_wf vs \<Longrightarrow> list_all comparable vs"
  by (induction vs arbitrary: seen) (auto simp: ensureR_Inr_iff bindR_Inr_iff intro: comparable_bounded)

lemma parse_scalar_enum_comparable:
  "parse_scalar_enum t (field r k) = Inr en \<Longrightarrow> json_wf (JObj r) \<Longrightarrow> en = Some cs \<Longrightarrow> list_all comparable cs"
  unfolding parse_scalar_enum_def
  using parse_enum_with_Inr json_wf_field check_scalar_enum_comparable by (metis json_wf.simps(2))

lemma parse_json_enum_comparable:
  "parse_json_enum (field r k) = Inr en \<Longrightarrow> json_wf (JObj r) \<Longrightarrow> en = Some cs \<Longrightarrow> list_all comparable cs"
  unfolding parse_json_enum_def
  using parse_enum_with_Inr json_wf_field check_json_enum_comparable by (metis json_wf.simps(2))

lemma check_required_subset:
  "check_required names seen vs = Inr req \<Longrightarrow> set seen \<subseteq> set names \<Longrightarrow> set req \<subseteq> set names"
proof (induction vs arbitrary: seen)
  case (Cons v vs)
  then obtain n where "n \<in> set names" "check_required names (seen @ [n]) vs = Inr req"
    by (auto simp: ensureR_Inr_iff bindR_Inr_iff)
  then show ?case using Cons.IH[of "seen @ [n]"] Cons.prems(2) by simp
qed simp

lemma parse_required_subset: "parse_required names v = Inr req \<Longrightarrow> set req \<subseteq> set names"
  by (auto simp: parse_required_def contract_error_def ensureR_Inr_iff dest: check_required_subset
    split: option.splits json.splits)

lemma parse_leaf_schemas_ok:
  assumes "json_wf v" "nodes + 1 \<le> 256"
  shows "parse_null_schema v = Inr s \<Longrightarrow> parsed_schema_ok (Suc h) nodes s (nodes + 1)"
    and "parse_boolean_schema v = Inr s \<Longrightarrow> parsed_schema_ok (Suc h) nodes s (nodes + 1)"
    and "parse_string_schema v = Inr s \<Longrightarrow> parsed_schema_ok (Suc h) nodes s (nodes + 1)"
    and "parse_number_schema i v = Inr s \<Longrightarrow> parsed_schema_ok (Suc h) nodes s (nodes + 1)"
  using assms
  by (auto simp: parse_null_schema_def parse_boolean_schema_def parse_string_schema_def
    parse_number_schema_def parse_length_bounds_def bindR_Inr_iff ensureR_Inr_iff parsed_schema_ok_def
    simp del: json_wf.simps dest!: parse_schema_record_Inr
    intro: parse_scalar_enum_comparable parse_nullable_bounds_ordered)

lemma fold_max_le: "(\<forall>x \<in> set xs. x \<le> (h::nat)) \<Longrightarrow> a \<le> h \<Longrightarrow> fold max xs a \<le> h"
  by (induction xs arbitrary: a) auto

text \<open>A parser of one level below does its part.\<close>

definition parses_ok :: "nat \<Rightarrow> schema_parser \<Rightarrow> bool" where
  "parses_ok n parse \<longleftrightarrow> (\<forall>v k s k'. parse v k = Inr (s, k') \<longrightarrow> json_wf v \<longrightarrow> parsed_schema_ok n k s k')"

lemma parse_properties_ok:
  assumes "parses_ok n parse"
  shows "mapSR (parse_property parse) ps k = Inr (props, k') \<Longrightarrow> list_all (\<lambda>p. json_wf (snd p)) ps \<Longrightarrow> k \<le> 256 \<Longrightarrow>
    k' = k + sum_list (map (\<lambda>p. schema_nodes (snd p)) props) \<and> k' \<le> 256 \<and> map fst props = map fst ps \<and>
    list_all (\<lambda>p. schema_height (snd p) \<le> n \<and> comparable_schema (snd p) \<and> satisfiable_bounds (snd p)) props"
proof (induction ps arbitrary: k props)
  case (Cons p ps)
  obtain key v where p: "p = (key, v)" by (cases p)
  from Cons.prems(1) obtain s k1 props' where r: "parse v k = Inr (s, k1)"
    "mapSR (parse_property parse) ps k1 = Inr (props', k')" "props = (key, s) # props'"
    by (auto simp: p parse_property_def bindR_Inr_iff)
  have "parsed_schema_ok n k s k1" using assms r(1) Cons.prems(2) p by (simp add: parses_ok_def)
  then have s: "k1 = k + schema_nodes s" "k1 \<le> 256" "schema_height s \<le> n" "comparable_schema s" "satisfiable_bounds s"
    by (simp_all add: parsed_schema_ok_def)
  from Cons.IH[OF r(2) _ s(2)] Cons.prems(2) show ?case using s r(3) p by simp
qed simp

lemma parse_array_ok:
  assumes "parses_ok n parse" "json_wf v" "parse_array_schema parse v (nodes + 1) = Inr (s, nodes')"
  shows "parsed_schema_ok (Suc n) nodes s nodes'"
proof -
  from assms(3) obtain r mn mx nl items en where r: "v = JObj r"
    "parse_item_bounds (field r ''minItems'') (field r ''maxItems'') = Inr (mn, mx)"
    "parse (fld r ''items'') (nodes + 1) = Inr (items, nodes')"
    "parse_json_enum (field r ''enum'') = Inr en" "s = S_Array nl items mn mx en"
    by (auto simp: parse_array_schema_def bindR_Inr_iff dest!: parse_schema_record_Inr)
  have w: "json_wf (JObj r)" using assms(2) r(1) by simp
  have "parsed_schema_ok n (nodes + 1) items nodes'"
    using assms(1) r(3) json_wf_fld[OF w] unfolding parses_ok_def by blast
  then show ?thesis
    using parse_nullable_bounds_ordered[of 0 10000] parse_json_enum_comparable[OF r(4) w] r(2,5)
    by (auto simp: parsed_schema_ok_def parse_item_bounds_def)
qed

lemma parse_additional_cases:
  assumes "parse_additional_properties parse v mx nodes2 = Inr (extra, nodes3)"
  shows "extra = None \<and> nodes3 = nodes2 \<or> mx \<noteq> None \<and> (\<exists>a s. v = Some a \<and>
      parse a nodes2 = Inr (s, nodes3) \<and> extra = Some s)"
  using assms by (auto simp: parse_additional_properties_def contract_error_def bindR_Inr_iff
    split: option.split_asm json.split_asm bool.split_asm if_split_asm)

lemma parse_object_ok:
  assumes P: "parses_ok n parse" and wf: "json_wf v" and k: "nodes + 1 \<le> 256"
    and e: "parse_object_schema parse v (nodes + 1) = Inr (s, nodes3)"
  shows "parsed_schema_ok (Suc n) nodes s nodes3"
proof -
  from e obtain r ps props nodes2 req mn mx extra nl en where
        rec: "parse_schema_record [''type'', ''nullable'', ''properties'', ''required'',
       ''additionalProperties'', ''minProperties'', ''maxProperties'', ''enum'']
       [''type'', ''additionalProperties''] v = Inr r"
    and ps: "(case field r ''properties'' of None \<Rightarrow> Inr [] | Some p \<Rightarrow> parse_bounded_record 64 p) = Inr ps"
    and props: "mapSR (parse_property parse) ps (nodes + 1) = Inr (props, nodes2)"
    and req: "parse_required (map fst props) (field r ''required'') = Inr req"
    and bounds: "parse_item_bounds (field r ''minProperties'') (field r ''maxProperties'') = Inr (mn, mx)"
    and extra: "parse_additional_properties parse (field r ''additionalProperties'') mx nodes2 = Inr (extra, nodes3)"
    and en: "parse_json_enum (field r ''enum'') = Inr en" and s: "s = S_Object nl props req extra mn mx en"
    unfolding parse_object_schema_def by (elim bindR2E bindRE) (simp only: sum.inject prod.inject, blast)
  note r = parse_schema_record_Inr[OF rec]
  have w: "json_wf (JObj r)" using wf r by simp
  have "list_all (\<lambda>p. json_wf (snd p)) ps"
    using ps json_wf_field[OF w, of "''properties''"] by (cases "field r ''properties''") (auto dest!: parse_bounded_record_Inr)
  from parse_properties_ok[OF P props this k] have p:
    "nodes2 = nodes + 1 + sum_list (map (\<lambda>p. schema_nodes (snd p)) props)" "nodes2 \<le> 256"
    "list_all (\<lambda>p. schema_height (snd p) \<le> n \<and> comparable_schema (snd p) \<and> satisfiable_bounds (snd p)) props"
    by auto
  have h: "fold max (map (\<lambda>p. schema_height (snd p)) props) 0 \<le> n"
    by (rule fold_max_le) (use p(3) in \<open>auto simp: list_all_iff\<close>)
  have ex: "nodes3 = nodes2 + (case map_option schema_nodes extra of None \<Rightarrow> 0 | Some n \<Rightarrow> n) \<and> nodes3 \<le> 256 \<and>
      (case map_option schema_height extra of None \<Rightarrow> 0 | Some n \<Rightarrow> n) \<le> n \<and>
      pred_option comparable_schema extra \<and> pred_option satisfiable_bounds extra \<and> (extra \<noteq> None \<longrightarrow> mx \<noteq> None)"
    using parse_additional_cases[OF extra]
  proof (elim disjE conjE exE)
    fix a s' assume a: "field r ''additionalProperties'' = Some a" "parse a nodes2 = Inr (s', nodes3)"
      "extra = Some s'" "mx \<noteq> None"
    have "parsed_schema_ok n nodes2 s' nodes3"
      using P a(2) json_wf_field[OF w a(1)] unfolding parses_ok_def by blast
    then show ?thesis using a by (simp add: parsed_schema_ok_def)
  qed (simp add: p(2))
  have b: "ordered_bounds mn mx" using bounds parse_nullable_bounds_ordered by (auto simp: parse_item_bounds_def)
  show ?thesis
    using p h ex b parse_required_subset[OF req] parse_json_enum_comparable[OF en w]
    by (auto simp: s parsed_schema_ok_def list_all_iff)
qed

lemma parse_schema_type_ok:
  assumes "parses_ok n parse" "json_wf v" "nodes + 1 \<le> 256"
    "parse_schema_type parse t v (nodes + 1) = Inr (s, nodes')"
  shows "parsed_schema_ok (Suc n) nodes s nodes'"
proof -
  note leaf = parse_leaf_schemas_ok[OF assms(2,3)]
  consider (leaf) "parse_schema_type parse t v (nodes + 1) = bindR (parse_null_schema v) (\<lambda>s. Inr (s, nodes + 1))"
    | (bool) "parse_schema_type parse t v (nodes + 1) = bindR (parse_boolean_schema v) (\<lambda>s. Inr (s, nodes + 1))"
    | (str) "parse_schema_type parse t v (nodes + 1) = bindR (parse_string_schema v) (\<lambda>s. Inr (s, nodes + 1))"
    | (num) i where "parse_schema_type parse t v (nodes + 1) = bindR (parse_number_schema i v) (\<lambda>s. Inr (s, nodes + 1))"
    | (arr) "parse_schema_type parse t v (nodes + 1) = parse_array_schema parse v (nodes + 1)"
    | (obj) "parse_schema_type parse t v (nodes + 1) = parse_object_schema parse v (nodes + 1)"
    using assms(4) by (simp add: parse_schema_type_def contract_error_def split: if_split_asm) metis+
  then show ?thesis
  proof cases
    case arr
    then show ?thesis using assms(4) parse_array_ok[OF assms(1,2)] by simp
  next
    case obj
    then show ?thesis using assms(4) parse_object_ok[OF assms(1,2,3)] by simp
  qed (use assms(4) leaf in \<open>simp_all add: bindR_Inr_iff\<close>, blast+)
qed

lemma parse_schema_ok: "parses_ok n (parse_schema n)"
proof (induction n)
  case (Suc n)
  show ?case unfolding parses_ok_def
  proof (intro allI impI)
    fix v k s k' assume a: "parse_schema (Suc n) v k = Inr (s, k')" "json_wf v"
    from a(1) have k: "k + 1 \<le> 256" by (simp only: parse_schema.simps ensureR_Inr_iff)
    from a(1) obtain tr where "(case field tr ''type'' of
           Some (JStr t) \<Rightarrow> parse_schema_type (parse_schema n) t v (k + 1)
         | _ \<Rightarrow> contract_error (STR ''must be a supported JSON Schema type'')) = Inr (s, k')"
      by (simp only: parse_schema.simps ensureR_Inr_iff) (elim conjE bindRE)
    then obtain t where "parse_schema_type (parse_schema n) t v (k + 1) = Inr (s, k')"
      by (simp add: contract_error_def split: option.split_asm json.split_asm)
    with k have "k + 1 \<le> 256" "parse_schema_type (parse_schema n) t v (k + 1) = Inr (s, k')" .
    then show "parsed_schema_ok (Suc n) k s k'" using parse_schema_type_ok[OF Suc a(2)] by blast
  qed
qed (simp add: parses_ok_def contract_error_def)



end
