(* ===== verification/Frontier.thy ===== *)
theory Frontier
  imports Journal_Reserve Json_Schema
begin

text \<open>
  Scrape nodes, the bounded frontier of nodes still to run
  (\<open>src/src/consumer/scrape/frontier.ts\<close>) and the operations that make a node durable
  before it is queued (\<open>durable-frontier.ts\<close>).
\<close>

section \<open>Nodes\<close>

record scrape_node =
  sn_node_id :: string
  sn_logical_key :: json
  sn_task_kind_id :: string
  sn_capability :: string
  sn_input :: json
  sn_root_ordinal :: int
  sn_seed_ordinal :: "int option"
  sn_depth :: int
  sn_output_ordinal :: int
  sn_seen_input_digests :: "string list"
  sn_pages_started_in_chain :: int

text \<open>What a caller of \<open>createScrapeNode\<close> supplies.\<close>

record node_seed =
  ns_task_kind_id :: string
  ns_capability :: string
  ns_input :: json
  ns_root_ordinal :: int
  ns_seed_ordinal :: "int option"
  ns_depth :: int

definition create_scrape_node :: "hash \<Rightarrow> string \<Rightarrow> json \<Rightarrow> int \<Rightarrow> node_seed \<Rightarrow> exn + scrape_node" where
  "create_scrape_node sha run_id logical_key output_ordinal n =
     bindR (create_run_node_id sha run_id logical_key) (\<lambda>node_id.
     bindR (canonical_json_digest sha (ns_input n)) (\<lambda>digest.
       Inr \<lparr>sn_node_id = node_id, sn_logical_key = logical_key, sn_task_kind_id = ns_task_kind_id n,
         sn_capability = ns_capability n, sn_input = ns_input n, sn_root_ordinal = ns_root_ordinal n,
         sn_seed_ordinal = ns_seed_ordinal n, sn_depth = ns_depth n, sn_output_ordinal = output_ordinal,
         sn_seen_input_digests = [digest], sn_pages_started_in_chain = 0\<rparr>))"

definition scrape_node_value :: "scrape_node \<Rightarrow> json" where
  "scrape_node_value n = JObj [(''capability'', JStr (sn_capability n)), (''depth'', num_json (sn_depth n)),
     (''input'', sn_input n), (''logical_key'', sn_logical_key n), (''node_id'', JStr (sn_node_id n)),
     (''output_ordinal'', num_json (sn_output_ordinal n)),
     (''pages_started_in_chain'', num_json (sn_pages_started_in_chain n)),
     (''root_ordinal'', num_json (sn_root_ordinal n)),
     (''seed_ordinal'', option_json num_json (sn_seed_ordinal n)),
     (''seen_input_digests'', JArr (map JStr (sn_seen_input_digests n))),
     (''task_kind_id'', JStr (sn_task_kind_id n))]"

definition encoded_node_bytes :: "scrape_node \<Rightarrow> exn + int" where
  "encoded_node_bytes n = bindR (canonical_json (scrape_node_value n)) (\<lambda>t. Inr (int (length t)))"

section \<open>The frontier\<close>

record frontier =
  fr_nodes :: "scrape_node list"
  fr_encoded_bytes :: int
  fr_maximum_bytes :: int

definition new_frontier :: "int \<Rightarrow> frontier" where
  "new_frontier maximum = \<lparr>fr_nodes = [], fr_encoded_bytes = 0, fr_maximum_bytes = maximum\<rparr>"

definition can_enqueue_node :: "frontier \<Rightarrow> scrape_node \<Rightarrow> exn + bool" where
  "can_enqueue_node q n = bindR (encoded_node_bytes n) (\<lambda>b. Inr (fr_encoded_bytes q + b \<le> fr_maximum_bytes q))"

definition enqueue_node :: "frontier \<Rightarrow> scrape_node \<Rightarrow> exn + frontier \<times> bool" where
  "enqueue_node q n = bindR (encoded_node_bytes n) (\<lambda>b.
     if fr_maximum_bytes q < fr_encoded_bytes q + b then Inr (q, False)
     else Inr (q\<lparr>fr_nodes := fr_nodes q @ [n], fr_encoded_bytes := fr_encoded_bytes q + b\<rparr>, True))"

definition has_next_node :: "frontier \<Rightarrow> bool" where
  "has_next_node q \<longleftrightarrow> 0 < length (fr_nodes q)"

definition dequeue_node :: "frontier \<Rightarrow> exn + frontier \<times> scrape_node" where
  "dequeue_node q = (case fr_nodes q of
     [] \<Rightarrow> Inl (PublicContractError (STR ''is unexpectedly empty''))
   | n # ns \<Rightarrow> bindR (encoded_node_bytes n) (\<lambda>b.
       Inr (q\<lparr>fr_nodes := ns, fr_encoded_bytes := fr_encoded_bytes q - b\<rparr>, n)))"

text \<open>The byte count is that of the queued nodes, and within the bound.\<close>

definition node_size :: "scrape_node \<Rightarrow> int" where
  "node_size n = (case encoded_node_bytes n of Inr b \<Rightarrow> b | Inl _ \<Rightarrow> 0)"

definition frontier_ok :: "frontier \<Rightarrow> bool" where
  "frontier_ok q \<longleftrightarrow> fr_encoded_bytes q = sum_list (map node_size (fr_nodes q)) \<and>
     fr_encoded_bytes q \<le> fr_maximum_bytes q \<and> (\<forall>n \<in> set (fr_nodes q). \<exists>b. encoded_node_bytes n = Inr b)"

datatype frontier_op = Enqueue_Node scrape_node | Dequeue_Node

text \<open>One call; \<open>Some n\<close> is the node a dequeue hands out. A call that throws changes nothing.\<close>

definition frontier_step :: "frontier \<Rightarrow> frontier_op \<Rightarrow> frontier \<times> scrape_node option" where
  "frontier_step q op = (case op of
     Enqueue_Node n \<Rightarrow> (case enqueue_node q n of Inr (q', _) \<Rightarrow> (q', None) | Inl _ \<Rightarrow> (q, None))
   | Dequeue_Node \<Rightarrow> (case dequeue_node q of Inr (q', n) \<Rightarrow> (q', Some n) | Inl _ \<Rightarrow> (q, None)))"

fun frontier_run :: "frontier \<Rightarrow> frontier_op list \<Rightarrow> frontier \<times> scrape_node list" where
  "frontier_run q [] = (q, [])"
| "frontier_run q (op # ops) = (case frontier_step q op of (q1, out) \<Rightarrow>
     (case frontier_run q1 ops of (q2, outs) \<Rightarrow> (q2, (case out of None \<Rightarrow> outs | Some n \<Rightarrow> n # outs))))"

text \<open>The nodes the frontier admitted, in order.\<close>

fun admitted :: "frontier \<Rightarrow> frontier_op list \<Rightarrow> scrape_node list" where
  "admitted q [] = []"
| "admitted q (op # ops) =
     (case op of
        Enqueue_Node n \<Rightarrow> (case enqueue_node q n of Inr (_, True) \<Rightarrow> [n] | _ \<Rightarrow> [])
      | Dequeue_Node \<Rightarrow> []) @ admitted (fst (frontier_step q op)) ops"

lemma encoded_node_bytes_pos: "encoded_node_bytes n = Inr b \<Longrightarrow> 0 \<le> b"
  by (auto simp: encoded_node_bytes_def bindR_Inr_iff)

lemma node_size_eq: "encoded_node_bytes n = Inr b \<Longrightarrow> node_size n = b"
  by (simp add: node_size_def)

lemma enqueue_node_ok:
  "enqueue_node q n = Inr (q', b) \<Longrightarrow> frontier_ok q \<Longrightarrow>
    frontier_ok q' \<and> fr_maximum_bytes q' = fr_maximum_bytes q \<and> fr_nodes q' = fr_nodes q @ (if b then [n] else [])"
  by (auto simp: enqueue_node_def bindR_Inr_iff frontier_ok_def node_size_eq split: if_split_asm)

lemma dequeue_node_ok:
  "dequeue_node q = Inr (q', n) \<Longrightarrow> frontier_ok q \<Longrightarrow>
    frontier_ok q' \<and> fr_maximum_bytes q' = fr_maximum_bytes q \<and> fr_nodes q = n # fr_nodes q'"
  using encoded_node_bytes_pos[of n]
  by (fastforce simp: dequeue_node_def bindR_Inr_iff frontier_ok_def node_size_eq split: list.split_asm)

lemma frontier_step_ok:
  assumes "frontier_ok q" "frontier_step q op = (q', out)"
  shows "frontier_ok q' \<and> fr_maximum_bytes q' = fr_maximum_bytes q \<and>
    (case out of None \<Rightarrow> [] | Some n \<Rightarrow> [n]) @ fr_nodes q' = fr_nodes q @ admitted q [op]"
proof (cases op)
  case (Enqueue_Node n)
  show ?thesis
  proof (cases "enqueue_node q n")
    case (Inr r)
    then show ?thesis using enqueue_node_ok[of q n "fst r" "snd r"] assms Enqueue_Node
      by (cases r) (auto simp: frontier_step_def split: bool.splits)
  qed (use assms Enqueue_Node in \<open>auto simp: frontier_step_def\<close>)
next
  case Dequeue_Node
  show ?thesis
  proof (cases "dequeue_node q")
    case (Inr r)
    then show ?thesis using dequeue_node_ok[of q "fst r" "snd r"] assms Dequeue_Node
      by (cases r) (auto simp: frontier_step_def)
  qed (use assms Dequeue_Node in \<open>auto simp: frontier_step_def\<close>)
qed

lemma frontier_ok_new: "0 \<le> m \<Longrightarrow> frontier_ok (new_frontier m)"
  by (simp add: frontier_ok_def new_frontier_def)

lemma frontier_run_ok:
  "frontier_ok q \<Longrightarrow> frontier_run q ops = (q', outs) \<Longrightarrow>
    frontier_ok q' \<and> fr_maximum_bytes q' = fr_maximum_bytes q \<and> outs @ fr_nodes q' = fr_nodes q @ admitted q ops"
proof (induction ops arbitrary: q outs)
  case (Cons op ops)
  obtain q1 out where st: "frontier_step q op = (q1, out)" by fastforce
  obtain outs1 where r: "frontier_run q1 ops = (q', outs1)" "outs = (case out of None \<Rightarrow> outs1 | Some n \<Rightarrow> n # outs1)"
    using Cons.prems(2) st by (cases "frontier_run q1 ops") auto
  have a: "admitted q (op # ops) = admitted q [op] @ admitted q1 ops" by (simp add: st)
  from frontier_step_ok[OF Cons.prems(1) st] have s: "frontier_ok q1" "fr_maximum_bytes q1 = fr_maximum_bytes q"
    "(case out of None \<Rightarrow> [] | Some n \<Rightarrow> [n]) @ fr_nodes q1 = fr_nodes q @ admitted q [op]" by auto
  from Cons.IH[OF s(1) r(1)] have i: "frontier_ok q'" "fr_maximum_bytes q' = fr_maximum_bytes q1"
    "outs1 @ fr_nodes q' = fr_nodes q1 @ admitted q1 ops" by auto
  have "outs @ fr_nodes q' = (case out of None \<Rightarrow> [] | Some n \<Rightarrow> [n]) @ outs1 @ fr_nodes q'"
    by (simp add: r(2) split: option.split)
  also have "\<dots> = fr_nodes q @ admitted q (op # ops)" unfolding i(3) a using s(3) by (metis append_assoc)
  finally show ?case using i s by simp
qed auto

text \<open>
  C35: the frontier is a first-in first-out queue within its byte budget: over any sequence
  of calls the nodes handed out followed by those still queued are exactly the nodes it
  admitted, in order, and the bytes it counts are those of the queued nodes and never
  exceed the maximum.
\<close>

theorem frontier_is_bounded_fifo:
  assumes "0 \<le> maximum" "frontier_run (new_frontier maximum) ops = (q, outs)"
  shows "outs @ fr_nodes q = admitted (new_frontier maximum) ops \<and>
    fr_encoded_bytes q = sum_list (map node_size (fr_nodes q)) \<and> fr_encoded_bytes q \<le> maximum"
  using frontier_run_ok[OF frontier_ok_new[OF assms(1)] assms(2)]
  by (auto simp: frontier_ok_def) (simp_all add: new_frontier_def)

definition example_node :: scrape_node where
  "example_node = \<lparr>sn_node_id = ''n'', sn_logical_key = JNull, sn_task_kind_id = ''page'', sn_capability = ''list'',
     sn_input = JObj [(''q'', JStr ''x'')], sn_root_ordinal = 0, sn_seed_ordinal = None, sn_depth = 0,
     sn_output_ordinal = 0, sn_seen_input_digests = [], sn_pages_started_in_chain = 0\<rparr>"

theorem frontier_is_bounded_fifo_witness:
  "\<exists>q outs. frontier_run (new_frontier 300) [Enqueue_Node example_node, Enqueue_Node example_node, Dequeue_Node] = (q, outs) \<and>
    outs @ fr_nodes q = admitted (new_frontier 300) [Enqueue_Node example_node, Enqueue_Node example_node, Dequeue_Node]"
  using frontier_is_bounded_fifo[of 300] by (meson old.prod.exhaust zero_le_numeral)

section \<open>Durable nodes\<close>

text \<open>The state the operations share: the frontier, the spool, the journal, the run.\<close>

record durable_state =
  ds_frontier :: frontier
  ds_spool :: string
  ds_journal :: file_state
  ds_execution :: execution_state

record durable_limits =
  dl_run_id :: string
  dl_max_spool_bytes :: int
  dl_max_journal_bytes :: int

text \<open>\<open>input.append\<close>: the ordinary append of the run.\<close>

definition append_event :: "hash \<Rightarrow> durable_limits \<Rightarrow> journal_event \<Rightarrow> durable_state \<Rightarrow> durable_state \<times> (exn + bool)" where
  "append_event sha l ev d =
     (case run_append sha (dl_run_id l) (dl_max_journal_bytes l) ev (ds_journal d, ds_execution d) of
        ((f, s), r) \<Rightarrow> (d\<lparr>ds_journal := f, ds_execution := s\<rparr>, r))"

text \<open>
  The node is written to the spool, then the event that names it is appended: \<open>Inr False\<close>
  when the spool budget or the journal budget is exhausted.
\<close>

definition persist_node_event ::
  "hash \<Rightarrow> durable_limits \<Rightarrow> scrape_node \<Rightarrow> (blob_ref \<Rightarrow> exn + journal_event) \<Rightarrow> durable_state \<Rightarrow>
    durable_state \<times> (exn + bool)" where
  "persist_node_event sha l n mk d =
     (case append_data_blob sha (ds_spool d) (scrape_node_value n) (dl_max_spool_bytes l) of
        Inl (DataSpoolError Spool_Budget_Exhausted _) \<Rightarrow> (d, Inr False)
      | Inl e \<Rightarrow> (d, Inl e)
      | Inr (spool, r) \<Rightarrow>
          (case mk r of
             Inl e \<Rightarrow> (d\<lparr>ds_spool := spool\<rparr>, Inl e)
           | Inr ev \<Rightarrow> append_event sha l ev (d\<lparr>ds_spool := spool\<rparr>)))"

definition enqueued_event :: "hash \<Rightarrow> scrape_node \<Rightarrow> blob_ref \<Rightarrow> exn + journal_event" where
  "enqueued_event sha n r = bindR (canonical_json_digest sha (sn_logical_key n)) (\<lambda>digest.
     Inr (Node_Enqueued \<lparr>en_node_id = sn_node_id n, en_logical_key_digest = digest, en_node_state = r,
       en_task_kind_id = sn_task_kind_id n, en_root_ordinal = sn_root_ordinal n,
       en_seed_ordinal = sn_seed_ordinal n, en_depth = sn_depth n, en_output_ordinal = sn_output_ordinal n\<rparr>))"

definition enqueue_durable_node :: "hash \<Rightarrow> durable_limits \<Rightarrow> scrape_node \<Rightarrow> durable_state \<Rightarrow> durable_state \<times> (exn + bool)" where
  "enqueue_durable_node sha l n d =
     (case can_enqueue_node (ds_frontier d) n of
        Inl e \<Rightarrow> (d, Inl e)
      | Inr False \<Rightarrow> (d, Inr False)
      | Inr True \<Rightarrow>
          (case persist_node_event sha l n (enqueued_event sha n) d of
             (d1, Inr True) \<Rightarrow>
               (case enqueue_node (ds_frontier d1) n of
                  Inl e \<Rightarrow> (d1, Inl e)
                | Inr (q, b) \<Rightarrow> (d1\<lparr>ds_frontier := q\<rparr>, Inr b))
           | other \<Rightarrow> other))"

definition persist_durable_node_progress ::
  "hash \<Rightarrow> durable_limits \<Rightarrow> scrape_node \<Rightarrow> durable_state \<Rightarrow> durable_state \<times> (exn + bool)" where
  "persist_durable_node_progress sha l n d =
     persist_node_event sha l n (\<lambda>r. Inr (Node_Progressed (sn_node_id n) r)) d"

text \<open>The node round-trips through the spool.\<close>

definition node_wf :: "scrape_node \<Rightarrow> bool" where
  "node_wf n \<longleftrightarrow> json_wf (sn_logical_key n) \<and> json_wf (sn_input n) \<and> canon (sn_logical_key n) = sn_logical_key n \<and>
     canon (sn_input n) = sn_input n \<and> count_ok (sn_depth n) \<and> count_ok (sn_output_ordinal n) \<and>
     count_ok (sn_pages_started_in_chain n) \<and> count_ok (sn_root_ordinal n) \<and>
     (case sn_seed_ordinal n of None \<Rightarrow> True | Some i \<Rightarrow> count_ok i)"

definition node_depth_ok :: "scrape_node \<Rightarrow> bool" where
  "node_depth_ok n \<longleftrightarrow> assert_json_value 11 (sn_logical_key n) = Inr () \<and> assert_json_value 11 (sn_input n) = Inr ()"

lemma map_canon_str [simp]: "map canon (map JStr xs) = map JStr xs"
  by simp

lemma canon_node: "node_wf n \<Longrightarrow> canon (scrape_node_value n) = scrape_node_value n"
  by (simp add: scrape_node_value_def node_wf_def canon_sorted comp_def del: canon.simps(2))

lemma node_json_wf: "node_wf n \<Longrightarrow> json_wf (scrape_node_value n)"
proof -
  assume n: "node_wf n"
  then have "json_wf (option_json num_json (sn_seed_ordinal n))"
    by (intro option_json_wf(1)) (auto simp: node_wf_def count_ok_def split: option.splits)
  then show ?thesis using n by (simp add: scrape_node_value_def node_wf_def count_wf list_all_iff)
qed

lemma depth_strings: "d < m \<Longrightarrow> assert_json_value_at m d (JArr (map JStr xs)) = Inr ()"
  by (induction xs) (auto simp: bindR_Inr_iff ensureR_def)

lemma assert_json_value_at_Suc: "assert_json_value_at (Suc m) (Suc d) v = assert_json_value_at m d v"
proof (induction v arbitrary: d rule: json.induct)
  case (JArr xs)
  have "mapR (assert_json_value_at (Suc m) (Suc (Suc d))) xs = mapR (assert_json_value_at m (Suc d)) xs"
    by (rule mapR_cong) (use JArr in auto)
  then show ?case by simp
next
  case (JObj kvs)
  have "mapR (\<lambda>kv. assert_json_value_at (Suc m) (Suc (Suc d)) (snd kv)) kvs =
      mapR (\<lambda>kv. assert_json_value_at m (Suc d) (snd kv)) kvs"
    by (rule mapR_cong) (use JObj in \<open>auto simp: snds.simps\<close>)
  then show ?case by simp
qed simp_all

lemma node_depth:
  assumes "node_depth_ok n" shows "assert_json_value 12 (scrape_node_value n) = Inr ()"
proof -
  have "assert_json_value_at (Suc 11) (Suc 0) v = Inr ()" if "assert_json_value 11 v = Inr ()" for v
    using that by (simp only: assert_json_value_at_Suc assert_json_value_def)
  then have "assert_json_value_at 12 (Suc 0) (sn_input n) = Inr ()" "assert_json_value_at 12 (Suc 0) (sn_logical_key n) = Inr ()"
    using assms by (simp_all add: node_depth_ok_def eval_nat_numeral)
  then show ?thesis
    by (simp add: assert_json_value_def scrape_node_value_def depth_strings del: assert_json_value_at.simps(2))
qed

lemma run_append_True:
  assumes "run_append sha rid mb ev (f, s) = ((f1, s1), Inr True)"
  obtains fr where "append_journal_frame sha f (next_body rid s ev) mb (Some (maximum_journal_frames s))
      journal_emergency_byte_reserve = (f1, Inr fr)" "s1 = advance_cursor fr s"
  using assms by (auto simp: run_append_def split: prod.splits sum.splits if_split_asm)

text \<open>A run that says an event is recorded has it as the last frame of its journal.\<close>

lemma run_append_recorded:
  assumes "sha_ok sha" "run_append sha rid mb ev (f, s) = ((f1, s1), Inr True)"
  shows "\<exists>frames bytes fr. f1 = Some bytes \<and> read_journal sha (Some rid) bytes = Inr (frames @ [fr], None) \<and>
    fb_event (jf_body fr) = ev"
proof -
  from run_append_True[OF assms(2)] obtain fr where a: "append_journal_frame sha f (next_body rid s ev) mb
      (Some (maximum_journal_frames s)) journal_emergency_byte_reserve = (f1, Inr fr)" by blast
  from append_Inr[OF this] obtain f0 frames enc where r:
    "recover_journal_file sha (Some rid) f = (f0, Inr frames)"
    "frame_to_append sha frames (length (file_bytes f0)) (next_body rid s ev) mb
      (Some (maximum_journal_frames s)) journal_emergency_byte_reserve = Inr (enc, fr)"
    "f1 = Some (file_bytes f0 @ enc)" by (auto simp: next_body_def)
  have "fb_run_id (next_body rid s ev) = rid" by (simp add: next_body_def)
  with appended_frame_reads(1)[OF assms(1) _ r(2), of f] r(1)
  have "read_journal sha (Some rid) (file_bytes f0 @ enc) = Inr (frames @ [fr], None)" by (simp add: read_journal_def)
  moreover have "fb_event (jf_body fr) = ev"
    using frame_to_append_Inr(2)[OF r(2)] by (simp add: frame_at_def next_body_def)
  ultimately show ?thesis using r(3) by blast
qed

lemma persist_node_event_True:
  assumes "persist_node_event sha l n mk d = (d1, Inr True)"
  obtains spool r ev f s where
    "append_data_blob sha (ds_spool d) (scrape_node_value n) (dl_max_spool_bytes l) = Inr (spool, r)" "mk r = Inr ev"
    "run_append sha (dl_run_id l) (dl_max_journal_bytes l) ev (ds_journal d, ds_execution d) = ((f, s), Inr True)"
    "d1 = d\<lparr>ds_spool := spool, ds_journal := f, ds_execution := s\<rparr>"
  using assms by (auto simp: persist_node_event_def append_event_def
    split: sum.splits exn.splits spool_code.splits prod.splits)


section \<open>Concrete nodes\<close>

definition listing_node :: scrape_node where
  "listing_node = \<lparr>sn_node_id = ''node_v1_'' @ replicate 32 CHR ''0'',
     sn_logical_key = JObj [(''kind'', JStr ''root''), (''root_ordinal'', JNum (NInt 0)), (''seed_ordinal'', JNull)],
     sn_task_kind_id = ''page'', sn_capability = ''list'', sn_input = JObj [(''q'', JStr ''x'')],
     sn_root_ordinal = 0, sn_seed_ordinal = None, sn_depth = 0, sn_output_ordinal = 0,
     sn_seen_input_digests = [zero_sha []], sn_pages_started_in_chain = 0\<rparr>"

lemma listing_node_text: "case canonical_json (scrape_node_value listing_node) of Inr t \<Rightarrow> length t = 364 | Inl _ \<Rightarrow> False"
  by code_simp

definition listing_event :: journal_event where
  "listing_event = Node_Enqueued \<lparr>en_node_id = sn_node_id listing_node, en_logical_key_digest = zero_sha [],
     en_node_state = \<lparr>br_offset = 0, br_length = 364, br_sha256 = zero_sha []\<rparr>, en_task_kind_id = ''page'',
     en_root_ordinal = 0, en_seed_ordinal = None, en_depth = 0, en_output_ordinal = 0\<rparr>"

lemma listing_frame_text: "case canonical_json (frame_json (next_body example_run (idle_state 6) listing_event)) of
    Inr t \<Rightarrow> length t < 900 | Inl _ \<Rightarrow> False"
  by code_simp

lemma listing_event_parses: "parse_journal_frame_body zero_sha (frame_json (next_body example_run (idle_state 6) listing_event)) =
    Inr (next_body example_run (idle_state 6) listing_event)"
  by (simp add: next_body_def idle_state_def frame_json_def parse_journal_frame_body_def object_read parts_json
    parse_journal_event_def read_record_kind_def event_parsers listing_event_def parse_nullable_with_def
    option_json_def example_run_def is_prefixed_hex_def max_safe_integer_def list_all_iff is_lower_hex_def
    is_digit_def num_json_def listing_node_def blob_ok_def is_sha256_digest_def zero_sha_def is_stable_identifier_def
    is_lower_def is_lower_alnum_def)

definition listing_limits :: durable_limits where
  "listing_limits = \<lparr>dl_run_id = example_run, dl_max_spool_bytes = 1000, dl_max_journal_bytes = 400000\<rparr>"

definition listing_state :: durable_state where
  "listing_state = \<lparr>ds_frontier = new_frontier 1000, ds_spool = [], ds_journal = None, ds_execution = idle_state 6\<rparr>"

lemma listing_appended:
  "\<exists>f s. run_append zero_sha example_run 400000 listing_event (None, idle_state 6) = ((f, s), Inr True)"
proof -
  let ?b = "next_body example_run (idle_state 6) listing_event"
  obtain t where t: "canonical_json (frame_json ?b) = Inr t" "length t < 900"
    using listing_frame_text by (cases "canonical_json (frame_json ?b)") auto
  have "encode_journal_frame zero_sha ?b = Inr (be32 (length t) @ t @ unhex (zero_sha t))"
    using t listing_event_parses by (simp add: encode_journal_frame_def max_frame_body_bytes_def)
  moreover have "length (unhex (zero_sha t)) = 32" using sha_hex[OF zero_sha_ok] by simp
  moreover have "fb_sequence ?b = 1" "fb_previous ?b = None" "file_bytes None = []" "fb_run_id ?b = example_run"
    by (simp_all add: next_body_def idle_state_def file_bytes_def)
  moreover have "has_ordinary_journal_capacity (idle_state 6) 1" "maximum_journal_frames (idle_state 6) = 6"
    by (simp_all add: has_ordinary_journal_capacity_def idle_state_def journal_emergency_frame_reserve_def
      safe_int_def max_safe_integer_def)
  ultimately show ?thesis using t(2) listing_event_parses
    by (simp add: run_append_def append_journal_frame_def recover_journal_file_def frame_to_append_def
      last_frame_def safe_int_def max_safe_integer_def journal_budget_defs)
qed

lemma listing_enqueued: "\<exists>d. enqueue_durable_node zero_sha listing_limits listing_node listing_state = (d, Inr True)"
proof -
  obtain t where t: "canonical_json (scrape_node_value listing_node) = Inr t" "length t = 364"
    using listing_node_text by (cases "canonical_json (scrape_node_value listing_node)") auto
  have key: "canonical_json_digest zero_sha (sn_logical_key listing_node) = Inr (zero_sha [])"
    using canonical_json_total[of "sn_logical_key listing_node"]
    by (auto simp: canonical_json_digest_def zero_sha_def listing_node_def assert_json_value_def)
  have ev: "enqueued_event zero_sha listing_node \<lparr>br_offset = 0, br_length = 364, br_sha256 = zero_sha t\<rparr> = Inr listing_event"
    using key by (simp add: enqueued_event_def listing_event_def listing_node_def zero_sha_def)
  obtain f s where r: "run_append zero_sha example_run 400000 listing_event (None, idle_state 6) = ((f, s), Inr True)"
    using listing_appended by blast
  show ?thesis using t r ev
    by (simp add: enqueue_durable_node_def can_enqueue_node_def encoded_node_bytes_def listing_state_def
      new_frontier_def persist_node_event_def append_data_blob_def listing_limits_def max_safe_integer_def
      append_event_def enqueue_node_def)
qed


section \<open>The deepest input\<close>

text \<open>Twelve arrays around a thirteenth: as deep as a value of the contracts may be.\<close>

definition deepest_input :: json where
  "deepest_input = ((\<lambda>v. JArr [v]) ^^ 12) (JArr [])"

definition deepest_schema :: json_schema where
  "deepest_schema = ((\<lambda>s. S_Array False s None None None) ^^ 13) (S_Null None)"

definition deepest_node :: scrape_node where
  "deepest_node = listing_node\<lparr>sn_input := deepest_input\<rparr>"

text \<open>
  The spool accepts a node it cannot give back: an input of the greatest depth the
  contracts allow (twelve, as \<open>validateJsonSchema\<close> checks) is appended, since
  \<open>appendDataBlob\<close> checks no depth, but inside the node it sits one level deeper than
  \<open>readDataBlob\<close> parses, so every later recovery of the run fails.
\<close>

theorem deepest_input_is_not_recoverable:
  assumes "sha_ok sha"
  shows "validate_json_schema deepest_schema (sn_input deepest_node) = Inr deepest_input \<and>
    (\<exists>spool r. append_data_blob sha [] (scrape_node_value deepest_node) 1000 = Inr (spool, r) \<and>
      read_data_blob sha spool r = Inl depth_exceeded)"
proof -
  have v: "validate_json_schema deepest_schema deepest_input = Inr deepest_input" by code_simp
  have "case canonical_json (scrape_node_value deepest_node) of
      Inr t \<Rightarrow> length t < 400 \<and> parse_text regex_space 12 t = Inl depth_exceeded | Inl _ \<Rightarrow> False" by code_simp
  then obtain t where t: "canonical_json (scrape_node_value deepest_node) = Inr t" "length t < 400"
    "parse_text regex_space 12 t = Inl depth_exceeded"
    by (cases "canonical_json (scrape_node_value deepest_node)") auto
  have a: "append_data_blob sha [] (scrape_node_value deepest_node) 1000 =
      Inr (t, \<lparr>br_offset = 0, br_length = int (length t), br_sha256 = sha t\<rparr>)"
    using t by (simp add: append_data_blob_def max_safe_integer_def)
  have "blob_ok \<lparr>br_offset = 0, br_length = int (length t), br_sha256 = sha t\<rparr>"
    using t(2) assms by (simp add: blob_ok_def max_safe_integer_def sha_ok_def)
  then have "parse_blob_ref (blob_json \<lparr>br_offset = 0, br_length = int (length t), br_sha256 = sha t\<rparr>) =
      Inr \<lparr>br_offset = 0, br_length = int (length t), br_sha256 = sha t\<rparr>"
    by (simp add: parse_blob_ref_json)
  then have "read_data_blob sha t \<lparr>br_offset = 0, br_length = int (length t), br_sha256 = sha t\<rparr> = Inl depth_exceeded"
    using t(3) by (simp add: read_data_blob_def blob_slice_def parse_strict_json_def)
  then show ?thesis using v a by (auto simp: deepest_node_def)
qed

theorem deepest_input_is_not_recoverable_witness:
  "\<exists>spool r. append_data_blob zero_sha [] (scrape_node_value deepest_node) 1000 = Inr (spool, r) \<and>
      read_data_blob zero_sha spool r = Inl depth_exceeded"
  using deepest_input_is_not_recoverable[OF zero_sha_ok] by blast

end
