(* ===== verification/Recovery.thy ===== *)
theory Recovery
  imports Frontier
begin

text \<open>
  Recovery of a run from its journal and its data spool
  (\<open>src/src/consumer/scrape/recovery.ts\<close>): the journal is folded frame by frame into the
  state of every node, the items buffered and committed, the output finalisation and the
  eligibility to resume; any frame that does not follow from the ones before is an error.

  A JavaScript \<open>Map\<close> is an association list in insertion order. The mutable node objects
  are values of the map that an event replaces.
\<close>

section \<open>State\<close>

datatype node_state = Node_Pending | Node_Attempting | Node_Observed | Node_State_Completed | Node_State_Skipped

record recovery_node =
  rn_node :: scrape_node
  rn_state :: node_state
  rn_task_completed :: bool

record buffered_position =
  bp_node_id :: string
  bp_identity_digest :: string
  bp_logical_order :: logical_order

record sink_commit =
  sc_through :: int
  sc_byte_offset :: int
  sc_prefix_digest :: string

record recovery_state =
  rs_nodes :: "(string \<times> recovery_node) list"
  rs_references :: "blob_ref list"
  rs_buffered :: "(string \<times> buffered_position) list"
  rs_committed :: "string list"
  rs_summary :: run_summary
  rs_item_sequence :: int
  rs_last_order :: "logical_order option"
  rs_ordinals :: "int list"
  rs_sink :: "sink_commit option"
  rs_output :: "(prepared_output \<times> bool) option"
  rs_terminal :: bool
  rs_cancelled :: bool
  rs_epoch :: int

datatype resume_refusal = Already_Terminal | Run_Cancelled | Not_Interrupted | Unknown_Attempt

datatype resume_eligibility = Resume_Allowed "string list" | Resume_Refused resume_refusal

record recovered_run =
  rr_run_id :: string
  rr_last_sequence :: int
  rr_last_frame_digest :: "string option"
  rr_last_execution_epoch :: int
  rr_nodes :: "(scrape_node \<times> node_state) list"
  rr_terminal :: bool
  rr_interrupted :: bool
  rr_cancellation_requested :: bool
  rr_committed_item_count :: int
  rr_summary :: run_summary
  rr_last_sink_commit :: "sink_commit option"
  rr_output_finalization :: "(prepared_output \<times> bool) option"
  rr_resume :: resume_eligibility

definition reject :: "String.literal \<Rightarrow> exn + 'a" where
  "reject m = Inl (RunRecoveryError m)"

definition require :: "bool \<Rightarrow> String.literal \<Rightarrow> exn + 'a \<Rightarrow> exn + 'a" where
  "require b m k = ensureR b (RunRecoveryError m) k"

lemma require_Inr_iff [res_elims]: "require b m k = Inr y \<longleftrightarrow> b \<and> k = Inr y"
  by (simp add: require_def ensureR_Inr_iff)

lemma reject_Inr [simp]: "reject m \<noteq> Inr x"
  by (simp add: reject_def)

section \<open>Durable nodes\<close>

definition parse_input_digests :: "json \<Rightarrow> exn + string list" where
  "parse_input_digests v = (case v of
     JArr xs \<Rightarrow>
       ensureR (xs \<noteq> [] \<and> length xs \<le> 1000)
         (PublicContractError (STR ''must contain one to 1,000 input digests''))
        (bindR (mapR parse_sha256_digest xs) (\<lambda>ds.
          ensureR (distinct ds) (PublicContractError (STR ''must not contain duplicate input digests''))
            (Inr ds)))
   | _ \<Rightarrow> Inl (PublicContractError (STR ''must contain one to 1,000 input digests'')))"

definition parse_durable_node :: "hash \<Rightarrow> string \<Rightarrow> json \<Rightarrow> exn + scrape_node" where
  "parse_durable_node sha run_id v =
     bindR (parse_exact_record [''node_id'', ''logical_key'', ''task_kind_id'', ''capability'', ''input'',
       ''root_ordinal'', ''seed_ordinal'', ''depth'', ''output_ordinal'', ''seen_input_digests'',
       ''pages_started_in_chain''] v) (\<lambda>r.
     bindR (parse_run_node_id (fld r ''node_id'')) (\<lambda>node_id.
     bindR (assert_json_value 12 (fld r ''logical_key'')) (\<lambda>_.
     bindR (create_run_node_id sha run_id (fld r ''logical_key'')) (\<lambda>derived.
     require (derived = node_id) (STR ''node id does not match its logical key'')
     (bindR (assert_json_value 12 (fld r ''input'')) (\<lambda>_.
      bindR (parse_stable_contract_id (fld r ''task_kind_id'')) (\<lambda>task.
      bindR (parse_capability_id (fld r ''capability'')) (\<lambda>cap.
      bindR (parse_count (fld r ''root_ordinal'')) (\<lambda>ro.
      bindR (parse_nullable_with parse_count (fld r ''seed_ordinal'')) (\<lambda>so.
      bindR (parse_integer 0 3 (fld r ''depth'')) (\<lambda>d.
      bindR (parse_count (fld r ''output_ordinal'')) (\<lambda>oo.
      bindR (parse_input_digests (fld r ''seen_input_digests'')) (\<lambda>seen.
      bindR (parse_integer 0 1000 (fld r ''pages_started_in_chain'')) (\<lambda>pages.
        Inr \<lparr>sn_node_id = node_id, sn_logical_key = fld r ''logical_key'', sn_task_kind_id = task,
          sn_capability = cap, sn_input = fld r ''input'', sn_root_ordinal = ro, sn_seed_ordinal = so,
          sn_depth = d, sn_output_ordinal = oo, sn_seen_input_digests = seen,
          sn_pages_started_in_chain = pages\<rparr>))))))))))))))"

definition fresh_node :: "scrape_node \<Rightarrow> recovery_node" where
  "fresh_node n = \<lparr>rn_node = n, rn_state = Node_Pending, rn_task_completed = False\<rparr>"

definition put_node :: "string \<Rightarrow> recovery_node \<Rightarrow> recovery_state \<Rightarrow> recovery_state" where
  "put_node i n st = st\<lparr>rs_nodes := AList.update i n (rs_nodes st)\<rparr>"

definition add_reference :: "blob_ref \<Rightarrow> recovery_state \<Rightarrow> recovery_state" where
  "add_reference r st = st\<lparr>rs_references := rs_references st @ [r]\<rparr>"

definition add_node :: "scrape_node \<Rightarrow> recovery_state \<Rightarrow> recovery_state" where
  "add_node n st = put_node (sn_node_id n) (fresh_node n)
     (st\<lparr>rs_ordinals := set_add (sn_output_ordinal n) (rs_ordinals st)\<rparr>)"

text \<open>\<open>recoverInitialNodes\<close>: one initial node, at its index.\<close>

definition recover_initial_node :: "hash \<Rightarrow> string \<Rightarrow> string \<Rightarrow> recovery_state \<Rightarrow> nat \<times> blob_ref \<Rightarrow> exn + recovery_state" where
  "recover_initial_node sha run_id spool st = (\<lambda>(index, reference).
     bindR (read_data_blob sha spool reference) (\<lambda>v.
     bindR (parse_durable_node sha run_id v) (\<lambda>n.
     require (sn_depth n = 0 \<and> sn_output_ordinal n = int index) (STR ''initial node has an invalid position'')
     (bindR (parse_exact_record [''kind'', ''root_ordinal'', ''seed_ordinal''] (sn_logical_key n)) (\<lambda>key.
      require (fld key ''kind'' = JStr ''root'' \<and> fld key ''root_ordinal'' = num_json (sn_root_ordinal n) \<and>
          fld key ''seed_ordinal'' = option_json num_json (sn_seed_ordinal n))
        (STR ''initial node does not match its root logical key'')
      (require (\<not> has_key (rs_nodes st) (sn_node_id n) \<and> sn_output_ordinal n \<notin> set (rs_ordinals st))
        (STR ''initial node repeats a durable identity'')
        (Inr (add_node n (add_reference reference st)))))))))"

definition recover_initial_nodes :: "hash \<Rightarrow> string \<Rightarrow> string \<Rightarrow> blob_ref list option \<Rightarrow> recovery_state \<Rightarrow> exn + recovery_state" where
  "recover_initial_nodes sha run_id spool refs st = (case refs of
     None \<Rightarrow> Inr st
   | Some rs \<Rightarrow> foldR (recover_initial_node sha run_id spool) st (zip [0..<length rs] rs))"

definition recover_enqueued_node :: "hash \<Rightarrow> string \<Rightarrow> string \<Rightarrow> enqueued_node \<Rightarrow> recovery_state \<Rightarrow> exn + recovery_state" where
  "recover_enqueued_node sha run_id spool e st =
     require (\<not> has_key (rs_nodes st) (en_node_id e)) (STR ''node is enqueued more than once'')
     (require (en_output_ordinal e \<notin> set (rs_ordinals st)) (STR ''node output ordinal is enqueued more than once'')
     (bindR (read_data_blob sha spool (en_node_state e)) (\<lambda>v.
      bindR (parse_durable_node sha run_id v) (\<lambda>n.
      bindR (canonical_json_digest sha (sn_logical_key n)) (\<lambda>key_digest.
      require (sn_node_id n = en_node_id e \<and> key_digest = en_logical_key_digest e \<and>
          sn_task_kind_id n = en_task_kind_id e \<and> sn_root_ordinal n = en_root_ordinal e \<and>
          sn_seed_ordinal n = en_seed_ordinal e \<and> sn_depth n = en_depth e \<and>
          sn_output_ordinal n = en_output_ordinal e)
        (STR ''node event does not match its durable node state'')
        (Inr (add_node n (add_reference (en_node_state e) st))))))))"

section \<open>Items\<close>

definition accountable :: "recovery_node option \<Rightarrow> bool" where
  "accountable m = (case m of None \<Rightarrow> False | Some n \<Rightarrow> rn_state n = Node_Observed \<and> rn_task_completed n)"

definition recover_buffered_item ::
  "string \<Rightarrow> string \<Rightarrow> blob_ref \<Rightarrow> logical_order \<Rightarrow> recovery_state \<Rightarrow> exn + recovery_state" where
  "recover_buffered_item node digest data pos st = (case map_of (rs_nodes st) node of
     None \<Rightarrow> reject (STR ''item buffer has no observed attempt'')
   | Some n \<Rightarrow>
       require (rn_state n = Node_Observed) (STR ''item buffer has no observed attempt'')
       (bindR (item_logical_order_key pos) (\<lambda>key.
        require (\<not> has_key (rs_buffered st) key) (STR ''item buffer repeats a logical item position'')
        (require (node_ordinal pos = sn_output_ordinal (rn_node n))
          (STR ''item buffer does not match its node output ordinal'')
          (Inr (add_reference data (st\<lparr>rs_buffered := AList.update key
            \<lparr>bp_node_id = node, bp_identity_digest = digest, bp_logical_order = pos\<rparr> (rs_buffered st)\<rparr>)))))))"

definition matches_buffer :: "buffered_position option \<Rightarrow> string \<Rightarrow> string \<Rightarrow> bool" where
  "matches_buffer m node digest = (case m of None \<Rightarrow> False
     | Some b \<Rightarrow> bp_node_id b = node \<and> bp_identity_digest b = digest)"

definition recover_committed_item ::
  "string \<Rightarrow> string \<Rightarrow> logical_order \<Rightarrow> int \<Rightarrow> recovery_state \<Rightarrow> exn + recovery_state" where
  "recover_committed_item node digest pos seq st =
     require (accountable (map_of (rs_nodes st) node)) (STR ''item commit has no completed observed attempt'')
     (bindR (item_logical_order_key pos) (\<lambda>key.
      require (matches_buffer (map_of (rs_buffered st) key) node digest)
        (STR ''item commit has no matching node buffer'')
      (require (digest \<notin> set (rs_committed st)) (STR ''item identity is committed more than once'')
      (require (seq = rs_item_sequence st + 1) (STR ''item sequence is not contiguous'')
      (require (case rs_last_order st of None \<Rightarrow> True | Some l \<Rightarrow> compare_item_logical_order l pos < 0)
        (STR ''item commits are not in logical order'')
        (Inr (st\<lparr>rs_committed := set_add digest (rs_committed st),
          rs_buffered := AList.delete key (rs_buffered st),
          rs_summary := (rs_summary st)\<lparr>items_emitted := items_emitted (rs_summary st) + 1\<rparr>,
          rs_last_order := Some pos, rs_item_sequence := seq\<rparr>)))))))"

definition recover_duplicate_item :: "string \<Rightarrow> string \<Rightarrow> logical_order \<Rightarrow> recovery_state \<Rightarrow> exn + recovery_state" where
  "recover_duplicate_item node digest pos st =
     require (accountable (map_of (rs_nodes st) node)) (STR ''item duplicate has no completed observed attempt'')
     (bindR (item_logical_order_key pos) (\<lambda>key.
      require (matches_buffer (map_of (rs_buffered st) key) node digest)
        (STR ''item duplicate has no matching node buffer'')
      (require (digest \<in> set (rs_committed st)) (STR ''item duplicate has no prior committed identity'')
        (Inr (st\<lparr>rs_buffered := AList.delete key (rs_buffered st),
          rs_summary := (rs_summary st)\<lparr>items_duplicate := items_duplicate (rs_summary st) + 1\<rparr>\<rparr>)))))"

section \<open>Progress of a node\<close>

definition recover_progressed_node :: "hash \<Rightarrow> string \<Rightarrow> string \<Rightarrow> string \<Rightarrow> blob_ref \<Rightarrow> recovery_state \<Rightarrow> exn + recovery_state" where
  "recover_progressed_node sha run_id spool node reference st = (case map_of (rs_nodes st) node of
     None \<Rightarrow> reject (STR ''node progress has no completed observed attempt'')
   | Some old \<Rightarrow>
       require (accountable (Some old)) (STR ''node progress has no completed observed attempt'')
       (bindR (read_data_blob sha spool reference) (\<lambda>v.
        bindR (parse_durable_node sha run_id v) (\<lambda>n.
        bindR (canonical_json (sn_logical_key n)) (\<lambda>k1.
        bindR (canonical_json (sn_logical_key (rn_node old))) (\<lambda>k2.
        require (sn_node_id n = node \<and> k1 = k2 \<and> sn_output_ordinal n = sn_output_ordinal (rn_node old))
          (STR ''node progress does not match its durable node'')
          (Inr (put_node node (fresh_node n) (add_reference reference st)))))))))"

definition recover_replay_authorization :: "string \<Rightarrow> string \<Rightarrow> int \<Rightarrow> recovery_state \<Rightarrow> exn + recovery_state" where
  "recover_replay_authorization node task epoch st =
     require (1 \<le> epoch) (STR ''node replay authorization must occur in a resumed epoch'')
     (case map_of (rs_nodes st) node of
        None \<Rightarrow> reject (STR ''node replay authorization precedes its enqueue'')
      | Some n \<Rightarrow>
          require (task = sn_task_kind_id (rn_node n)) (STR ''node replay authorization has a mismatched task kind'')
          (require (rn_state n = Node_Attempting \<or> rn_state n = Node_Observed)
            (STR ''node replay authorization has no unresolved attempt'')
            (Inr (put_node node (n\<lparr>rn_state := Node_Pending, rn_task_completed := False\<rparr>) st))))"

definition advance_sink_commit :: "int \<Rightarrow> int \<Rightarrow> string \<Rightarrow> recovery_state \<Rightarrow> exn + recovery_state" where
  "advance_sink_commit through byte_offset prefix st =
     require (through \<le> rs_item_sequence st) (STR ''sink commit does not reference a committed item'')
     (require (case rs_sink st of None \<Rightarrow> True | Some l \<Rightarrow> sc_through l < through \<and> sc_byte_offset l < byte_offset)
       (STR ''sink commits are not strictly advancing'')
       (Inr (st\<lparr>rs_sink := Some \<lparr>sc_through = through, sc_byte_offset = byte_offset,
          sc_prefix_digest = prefix\<rparr>\<rparr>)))"

text \<open>
  The lifecycle events of a node: \<open>attempt_intent\<close>, \<open>attempt_observed\<close>,
  \<open>task_completed\<close>, \<open>node_completed\<close> and \<open>task_skipped\<close>, on the node they name.
\<close>

definition advance_node :: "journal_event \<Rightarrow> recovery_node \<Rightarrow> run_summary \<Rightarrow> exn + recovery_node \<times> run_summary" where
  "advance_node ev n s = (case ev of
     Attempt_Intent _ task \<Rightarrow>
       require (task = sn_task_kind_id (rn_node n)) (STR ''node attempt intent has a mismatched task kind'')
       (require (rn_state n = Node_Pending) (STR ''node attempt intent has an invalid prior state'')
         (Inr (n\<lparr>rn_state := Node_Attempting, rn_task_completed := False\<rparr>, s)))
   | Attempt_Observed _ task _ attempts \<Rightarrow>
       require (task = sn_task_kind_id (rn_node n)) (STR ''node observation has a mismatched task kind'')
       (require (rn_state n = Node_Attempting) (STR ''node observation has no preceding attempt intent'')
         (Inr (n\<lparr>rn_state := Node_Observed, rn_task_completed := False\<rparr>,
           s\<lparr>target_requests := target_requests s + attempts\<rparr>)))
   | Task_Completed _ task \<Rightarrow>
       require (task = sn_task_kind_id (rn_node n)) (STR ''node task completion has a mismatched task kind'')
       (require (rn_state n = Node_Observed \<and> \<not> rn_task_completed n)
         (STR ''node task completion has an invalid observed attempt'')
         (Inr (n\<lparr>rn_task_completed := True\<rparr>, s\<lparr>tasks_completed := tasks_completed s + 1\<rparr>)))
   | Node_Completed _ \<Rightarrow>
       require (accountable (Some n)) (STR ''node completion has no completed observed attempt'')
         (Inr (n\<lparr>rn_state := Node_State_Completed\<rparr>, s))
   | Task_Skipped _ task _ \<Rightarrow>
       require (task = sn_task_kind_id (rn_node n)) (STR ''node skip has a mismatched task kind'')
       (require (rn_state n \<noteq> Node_State_Completed \<and> rn_state n \<noteq> Node_State_Skipped)
         (STR ''node skip has an invalid prior state'')
         (Inr (n\<lparr>rn_state := Node_State_Skipped\<rparr>, s\<lparr>tasks_failed := tasks_failed s + 1\<rparr>)))
   | _ \<Rightarrow> Inr (n, s))"

definition recover_lifecycle :: "string \<Rightarrow> journal_event \<Rightarrow> recovery_state \<Rightarrow> exn + recovery_state" where
  "recover_lifecycle node ev st = (case map_of (rs_nodes st) node of
     None \<Rightarrow> reject (STR ''node lifecycle event precedes its enqueue'')
   | Some n \<Rightarrow> bindR (advance_node ev n (rs_summary st)) (\<lambda>(n', s).
       Inr (put_node node n' (st\<lparr>rs_summary := s\<rparr>))))"

section \<open>Frames\<close>

definition advance_execution_epoch :: "frame_body \<Rightarrow> int \<Rightarrow> exn + int" where
  "advance_execution_epoch body current = (case fb_event body of
     State_Changed (State_Running e) \<Rightarrow>
       require (e = fb_execution_epoch body \<and> fb_execution_epoch body = current + 1)
         (STR ''running state does not begin the next execution epoch'') (Inr (fb_execution_epoch body))
   | _ \<Rightarrow> require (fb_execution_epoch body = current) (STR ''journal frame has an invalid execution epoch'')
       (Inr current))"

definition advance_output_finalization ::
  "hash \<Rightarrow> journal_event \<Rightarrow> (prepared_output \<times> bool) option \<Rightarrow> exn + (prepared_output \<times> bool) option" where
  "advance_output_finalization sha ev current = (case ev of
     Output_Prepared p \<Rightarrow>
       require (current = None) (STR ''journal contains more than one output preparation'')
       (require (case td_output (po_descriptor p) of
            Output_File path _ _ \<Rightarrow> po_path_digest p = sha path | _ \<Rightarrow> False)
         (STR ''output preparation does not bind its declared file output'') (Inr (Some (p, False))))
   | Output_Committed content bytes digest \<Rightarrow>
       (case current of
          Some (p, False) \<Rightarrow>
            require (content = po_content_digest p \<and> bytes = po_byte_length p \<and> digest = po_descriptor_digest p)
              (STR ''output commit does not match its preparation'') (Inr (Some (p, True)))
        | _ \<Rightarrow> reject (STR ''output commit has no unmatched output preparation''))
   | Terminal d digest \<Rightarrow>
       (case current of
          None \<Rightarrow> require (case td_output d of Output_File _ _ _ \<Rightarrow> False | _ \<Rightarrow> True)
            (STR ''file terminal result has no output preparation'') (Inr None)
        | Some (p, committed) \<Rightarrow> require (committed \<and> digest = po_descriptor_digest p)
            (STR ''terminal result does not complete its prepared output'') (Inr current))
   | _ \<Rightarrow> Inr current)"

text \<open>The dispatch of the loop on the kind of an event that is neither terminal nor a cancellation.\<close>

definition recover_event :: "hash \<Rightarrow> string \<Rightarrow> string \<Rightarrow> nat \<Rightarrow> frame_body \<Rightarrow> recovery_state \<Rightarrow> exn + recovery_state" where
  "recover_event sha run_id spool index body st = (case fb_event body of
     Run_Created _ _ \<Rightarrow> require (index = 0) (STR ''journal contains more than one run creation'') (Inr st)
   | Node_Enqueued e \<Rightarrow> recover_enqueued_node sha run_id spool e st
   | Item_Buffered node digest data pos \<Rightarrow> recover_buffered_item node digest data pos st
   | Item_Committed node digest pos seq \<Rightarrow> recover_committed_item node digest pos seq st
   | Item_Duplicate node digest pos \<Rightarrow> recover_duplicate_item node digest pos st
   | Sink_Committed through off prefix \<Rightarrow> advance_sink_commit through off prefix st
   | Node_Progressed node reference \<Rightarrow> recover_progressed_node sha run_id spool node reference st
   | Node_Replay_Authorized node task \<Rightarrow> recover_replay_authorization node task (fb_execution_epoch body) st
   | Attempt_Intent node _ \<Rightarrow> recover_lifecycle node (fb_event body) st
   | Attempt_Observed node _ _ _ \<Rightarrow> recover_lifecycle node (fb_event body) st
   | Task_Completed node _ \<Rightarrow> recover_lifecycle node (fb_event body) st
   | Node_Completed node \<Rightarrow> recover_lifecycle node (fb_event body) st
   | Task_Skipped node _ _ \<Rightarrow> recover_lifecycle node (fb_event body) st
   | _ \<Rightarrow> Inr st)"

definition recover_frame :: "hash \<Rightarrow> string \<Rightarrow> string \<Rightarrow> recovery_state \<Rightarrow> nat \<times> frame_body \<Rightarrow> exn + recovery_state" where
  "recover_frame sha run_id spool st = (\<lambda>(index, body).
     bindR (advance_execution_epoch body (rs_epoch st)) (\<lambda>epoch.
     bindR (advance_output_finalization sha (fb_event body) (rs_output st)) (\<lambda>out.
     require (\<not> rs_terminal st) (STR ''journal contains work after its terminal event'')
     (let st1 = st\<lparr>rs_epoch := epoch, rs_output := out\<rparr> in
      case fb_event body of
        Terminal _ _ \<Rightarrow> Inr (st1\<lparr>rs_terminal := True\<rparr>)
      | Cancel_Requested _ \<Rightarrow>
          require (\<not> rs_cancelled st) (STR ''journal contains more than one cancellation request'')
            (Inr (st1\<lparr>rs_cancelled := True\<rparr>))
      | _ \<Rightarrow> recover_event sha run_id spool index body st1))))"

section \<open>The run\<close>

fun journal_ends_interrupted :: "journal_event list \<Rightarrow> bool" where
  "journal_ends_interrupted [] = False"
| "journal_ends_interrupted (ev # evs) = (case ev of
     Interrupted _ \<Rightarrow> True
   | State_Changed _ \<Rightarrow> False
   | _ \<Rightarrow> journal_ends_interrupted evs)"

definition derive_resume_eligibility :: "bool \<Rightarrow> bool \<Rightarrow> bool \<Rightarrow> bool \<Rightarrow> (scrape_node \<times> node_state) list \<Rightarrow> resume_eligibility" where
  "derive_resume_eligibility term cancelled interrupted unknown nodes =
     (if term then Resume_Refused Already_Terminal
      else if cancelled then Resume_Refused Run_Cancelled
      else if \<not> interrupted then Resume_Refused Not_Interrupted
      else if unknown then Resume_Refused Unknown_Attempt
      else Resume_Allowed (map (\<lambda>(n, _). sn_node_id n) (List.filter (\<lambda>(_, s). s = Node_Pending) nodes)))"

text \<open>\<open>validateSpoolPrefix\<close>: the references tile a prefix of the spool; what follows is cut off.\<close>

definition check_reference :: "hash \<Rightarrow> string \<Rightarrow> int \<Rightarrow> blob_ref \<Rightarrow> exn + int" where
  "check_reference sha spool expected r =
     require (br_offset r = expected) (STR ''journal blob references do not form a contiguous spool prefix'')
     (bindR (read_data_blob sha spool r) (\<lambda>_. Inr (expected + br_length r)))"

definition validate_spool_prefix :: "hash \<Rightarrow> string \<Rightarrow> blob_ref list \<Rightarrow> exn + string" where
  "validate_spool_prefix sha spool refs =
     bindR (foldR (check_reference sha spool) 0 refs) (\<lambda>expected.
       require (expected \<le> int (length spool)) (STR ''data spool is shorter than its accepted journal prefix'')
         (Inr (take (nat expected) spool)))"

definition initial_recovery_state :: recovery_state where
  "initial_recovery_state = \<lparr>rs_nodes = [], rs_references = [], rs_buffered = [], rs_committed = [],
     rs_summary = zero_summary, rs_item_sequence = 0, rs_last_order = None, rs_ordinals = [],
     rs_sink = None, rs_output = None, rs_terminal = False, rs_cancelled = False, rs_epoch = 0\<rparr>"

definition recover_frames :: "hash \<Rightarrow> string \<Rightarrow> string \<Rightarrow> frame_body list \<Rightarrow> exn + recovery_state" where
  "recover_frames sha run_id spool bodies = (case bodies of
     [] \<Rightarrow> reject (STR ''journal is missing its epoch-zero run creation event'')
   | first # _ \<Rightarrow> (case fb_event first of
       Run_Created _ refs \<Rightarrow>
         require (fb_execution_epoch first = 0) (STR ''journal is missing its epoch-zero run creation event'')
         (bindR (recover_initial_nodes sha run_id spool refs initial_recovery_state) (\<lambda>st.
           foldR (recover_frame sha run_id spool) st (zip [0..<length bodies] bodies)))
     | _ \<Rightarrow> reject (STR ''journal is missing its epoch-zero run creation event'')))"

definition unresolved_attempt :: "node_state \<Rightarrow> bool" where
  "unresolved_attempt s \<longleftrightarrow> s = Node_Attempting \<or> s = Node_Observed"

definition recovered_nodes :: "recovery_state \<Rightarrow> (scrape_node \<times> node_state) list" where
  "recovered_nodes st = map (\<lambda>(_, n). (rn_node n, rn_state n)) (rs_nodes st)"

definition recovered_run_of :: "string \<Rightarrow> journal_frame list \<Rightarrow> recovery_state \<Rightarrow> recovered_run" where
  "recovered_run_of run_id frames st =
     (let interrupted = \<not> rs_terminal st \<and> journal_ends_interrupted (rev (map (\<lambda>f. fb_event (jf_body f)) frames)) in
      \<lparr>rr_run_id = run_id,
       rr_last_sequence = (case last_frame frames of None \<Rightarrow> 0 | Some f \<Rightarrow> fb_sequence (jf_body f)),
       rr_last_frame_digest = map_option jf_digest (last_frame frames),
       rr_last_execution_epoch = rs_epoch st, rr_nodes = recovered_nodes st, rr_terminal = rs_terminal st,
       rr_interrupted = interrupted, rr_cancellation_requested = rs_cancelled st,
       rr_committed_item_count = int (length (rs_committed st)), rr_summary = rs_summary st,
       rr_last_sink_commit = rs_sink st, rr_output_finalization = rs_output st,
       rr_resume = derive_resume_eligibility (rs_terminal st) (rs_cancelled st) interrupted
         (list_ex (\<lambda>(_, n). unresolved_attempt (rn_state n)) (rs_nodes st)) (recovered_nodes st)\<rparr>)"

text \<open>The \<open>catch\<close> of \<open>recoverRunState\<close>.\<close>

fun as_recovery_error :: "exn \<Rightarrow> exn" where
  "as_recovery_error (RunRecoveryError m) = RunRecoveryError m"
| "as_recovery_error e = (if is_contract_error e then RunRecoveryError (contract_message e) else e)"

definition recover_run_state :: "hash \<Rightarrow> string \<Rightarrow> file_state \<Rightarrow> string \<Rightarrow> (file_state \<times> string) \<times> (exn + recovered_run)" where
  "recover_run_state sha run_id f spool =
     (case recover_journal_file sha (Some run_id) f of
        (f1, Inl e) \<Rightarrow> ((f1, spool), Inl (as_recovery_error e))
      | (f1, Inr frames) \<Rightarrow>
          (case recover_frames sha run_id spool (map jf_body frames) of
             Inl e \<Rightarrow> ((f1, spool), Inl (as_recovery_error e))
           | Inr st \<Rightarrow>
               (case validate_spool_prefix sha spool (rs_references st) of
                  Inl e \<Rightarrow> ((f1, spool), Inl (as_recovery_error e))
                | Inr spool1 \<Rightarrow> ((f1, spool1), Inr (recovered_run_of run_id frames st)))))"

end
