(* ===== verification/Recovery_Proofs.thy ===== *)
theory Recovery_Proofs
  imports Recovery
begin

text \<open>
  What a recovered journal says about the run: items are committed once, in order and only
  after they were buffered; the counters are those of the events; nothing follows the
  terminal event; every node went through the states of an attempt; the spool is exactly the
  blobs the journal refers to.
\<close>

section \<open>One frame\<close>

lemmas recover_ops = recover_enqueued_node_def recover_buffered_item_def recover_committed_item_def
  recover_duplicate_item_def recover_progressed_node_def recover_replay_authorization_def
  advance_sink_commit_def recover_lifecycle_def add_node_def put_node_def add_reference_def

lemma recover_event_keeps:
  assumes "recover_event sha rid spool i b st = Inr st'"
  shows "rs_epoch st' = rs_epoch st \<and> rs_output st' = rs_output st \<and> rs_terminal st' = rs_terminal st \<and>
    rs_cancelled st' = rs_cancelled st"
  using assms by (cases "fb_event b")
    (auto simp: recover_event_def recover_ops res_elims split: option.split_asm prod.split_asm)

lemma recover_frame_Inr:
  assumes "recover_frame sha rid spool st (i, b) = Inr st'"
  shows "\<not> rs_terminal st" "advance_execution_epoch b (rs_epoch st) = Inr (rs_epoch st')"
    "advance_output_finalization sha (fb_event b) (rs_output st) = Inr (rs_output st')"
    "case fb_event b of
       Terminal _ _ \<Rightarrow> st' = st\<lparr>rs_epoch := rs_epoch st', rs_output := rs_output st', rs_terminal := True\<rparr>
     | Cancel_Requested _ \<Rightarrow> \<not> rs_cancelled st \<and>
         st' = st\<lparr>rs_epoch := rs_epoch st', rs_output := rs_output st', rs_cancelled := True\<rparr>
     | _ \<Rightarrow> recover_event sha rid spool i b (st\<lparr>rs_epoch := rs_epoch st', rs_output := rs_output st'\<rparr>) = Inr st'"
proof -
  from assms obtain e out where e: "advance_execution_epoch b (rs_epoch st) = Inr e"
    "advance_output_finalization sha (fb_event b) (rs_output st) = Inr out" "\<not> rs_terminal st"
    "(case fb_event b of
        Terminal _ _ \<Rightarrow> Inr (st\<lparr>rs_epoch := e, rs_output := out, rs_terminal := True\<rparr>)
      | Cancel_Requested _ \<Rightarrow>
          require (\<not> rs_cancelled st) (STR ''journal contains more than one cancellation request'')
            (Inr (st\<lparr>rs_epoch := e, rs_output := out, rs_cancelled := True\<rparr>))
      | _ \<Rightarrow> recover_event sha rid spool i b (st\<lparr>rs_epoch := e, rs_output := out\<rparr>)) = Inr st'"
    by (auto simp: recover_frame_def Let_def res_elims)
  have k: "rs_epoch st' = e \<and> rs_output st' = out"
    using e(4) by (cases "fb_event b") (auto simp: res_elims dest!: recover_event_keeps)
  show "\<not> rs_terminal st" "advance_execution_epoch b (rs_epoch st) = Inr (rs_epoch st')"
    "advance_output_finalization sha (fb_event b) (rs_output st) = Inr (rs_output st')"
    using e k by auto
  show "case fb_event b of
       Terminal _ _ \<Rightarrow> st' = st\<lparr>rs_epoch := rs_epoch st', rs_output := rs_output st', rs_terminal := True\<rparr>
     | Cancel_Requested _ \<Rightarrow> \<not> rs_cancelled st \<and>
         st' = st\<lparr>rs_epoch := rs_epoch st', rs_output := rs_output st', rs_cancelled := True\<rparr>
     | _ \<Rightarrow> recover_event sha rid spool i b (st\<lparr>rs_epoch := rs_epoch st', rs_output := rs_output st'\<rparr>) = Inr st'"
    using e(4) k by (cases "fb_event b") (auto simp: res_elims)
qed

definition is_committed :: "journal_event \<Rightarrow> bool" where
  "is_committed ev = (case ev of Item_Committed _ _ _ _ \<Rightarrow> True | _ \<Rightarrow> False)"
definition is_duplicate :: "journal_event \<Rightarrow> bool" where
  "is_duplicate ev = (case ev of Item_Duplicate _ _ _ \<Rightarrow> True | _ \<Rightarrow> False)"
definition is_task_completed :: "journal_event \<Rightarrow> bool" where
  "is_task_completed ev = (case ev of Task_Completed _ _ \<Rightarrow> True | _ \<Rightarrow> False)"
definition is_skipped :: "journal_event \<Rightarrow> bool" where
  "is_skipped ev = (case ev of Task_Skipped _ _ _ \<Rightarrow> True | _ \<Rightarrow> False)"
definition is_terminal :: "journal_event \<Rightarrow> bool" where
  "is_terminal ev = (case ev of Terminal _ _ \<Rightarrow> True | _ \<Rightarrow> False)"
definition is_cancel :: "journal_event \<Rightarrow> bool" where
  "is_cancel ev = (case ev of Cancel_Requested _ \<Rightarrow> True | _ \<Rightarrow> False)"
definition is_running :: "journal_event \<Rightarrow> bool" where
  "is_running ev = (case ev of State_Changed (State_Running _) \<Rightarrow> True | _ \<Rightarrow> False)"
definition observed_attempts :: "journal_event \<Rightarrow> int" where
  "observed_attempts ev = (case ev of Attempt_Observed _ _ _ a \<Rightarrow> a | _ \<Rightarrow> 0)"

lemmas event_kinds = is_committed_def is_duplicate_def is_task_completed_def is_skipped_def is_terminal_def
  is_cancel_def is_running_def observed_attempts_def

text \<open>A frame ends or cancels the run, or its event acts on the nodes and items.\<close>

lemma recover_frame_cases:
  assumes "recover_frame sha rid spool st (i, b) = Inr st'"
  obtains (stop) e out tt cc where "is_terminal (fb_event b) \<or> is_cancel (fb_event b)"
      "st' = st\<lparr>rs_epoch := e, rs_output := out, rs_terminal := tt, rs_cancelled := cc\<rparr>"
  | (event) e out where "\<not> is_terminal (fb_event b)" "\<not> is_cancel (fb_event b)"
      "recover_event sha rid spool i b (st\<lparr>rs_epoch := e, rs_output := out\<rparr>) = Inr st'"
proof -
  define e where "e = rs_epoch st'"
  define out where "out = rs_output st'"
  note g = recover_frame_Inr(4)[OF assms, folded e_def out_def]
  have kinds: "is_terminal ev \<longleftrightarrow> (\<exists>d g. ev = Terminal d g)" "is_cancel ev \<longleftrightarrow> (\<exists>k. ev = Cancel_Requested k)" for ev
    by (cases ev; simp add: event_kinds)+
  consider (t) d k where "fb_event b = Terminal d k" | (c) k where "fb_event b = Cancel_Requested k"
    | (o) "\<not> is_terminal (fb_event b)" "\<not> is_cancel (fb_event b)"
    unfolding kinds by blast
  then show thesis
  proof cases
    case t
    then show thesis using g by (intro stop[of "rs_cancelled st" True out e]) (simp_all add: kinds)
  next
    case c
    then show thesis using g by (intro stop[of True "rs_terminal st" out e]) (simp_all add: kinds)
  next
    case o
    then have "recover_event sha rid spool i b (st\<lparr>rs_epoch := e, rs_output := out\<rparr>) = Inr st'"
      using g by (cases "fb_event b") (simp_all add: event_kinds)
    with o event show thesis by blast
  qed
qed

lemma recover_event_items:
  assumes "recover_event sha rid spool i b st = Inr st'"
  shows "case fb_event b of
      Item_Committed n d p q \<Rightarrow> d \<notin> set (rs_committed st) \<and> q = rs_item_sequence st + 1 \<and>
        (case rs_last_order st of None \<Rightarrow> True | Some l \<Rightarrow> order_less l p) \<and>
        rs_committed st' = rs_committed st @ [d] \<and> rs_item_sequence st' = q \<and> rs_last_order st' = Some p \<and>
        (\<exists>key. item_logical_order_key p = Inr key \<and> matches_buffer (map_of (rs_buffered st) key) n d \<and>
          rs_buffered st' = AList.delete key (rs_buffered st)) \<and> accountable (map_of (rs_nodes st) n)
    | Item_Buffered n d data p \<Rightarrow> (\<exists>key. item_logical_order_key p = Inr key \<and> \<not> has_key (rs_buffered st) key \<and>
        rs_buffered st' = AList.update key \<lparr>bp_node_id = n, bp_identity_digest = d, bp_logical_order = p\<rparr>
          (rs_buffered st)) \<and> rs_committed st' = rs_committed st \<and>
        rs_item_sequence st' = rs_item_sequence st \<and> rs_last_order st' = rs_last_order st
    | _ \<Rightarrow> (rs_buffered st' = rs_buffered st \<or> (\<exists>key. rs_buffered st' = AList.delete key (rs_buffered st))) \<and>
        rs_committed st' = rs_committed st \<and>
        rs_item_sequence st' = rs_item_sequence st \<and> rs_last_order st' = rs_last_order st"
  using assms by (cases "fb_event b")
    (auto simp: recover_event_def recover_ops res_elims set_add_def compare_item_logical_order_less
      split: option.split_asm prod.split_asm option.split)

lemma recover_event_summary:
  assumes "recover_event sha rid spool i b st = Inr st'"
  shows "rs_summary st' = (case fb_event b of
      Item_Committed _ _ _ _ \<Rightarrow> (rs_summary st)\<lparr>items_emitted := items_emitted (rs_summary st) + 1\<rparr>
    | Item_Duplicate _ _ _ \<Rightarrow> (rs_summary st)\<lparr>items_duplicate := items_duplicate (rs_summary st) + 1\<rparr>
    | Task_Completed _ _ \<Rightarrow> (rs_summary st)\<lparr>tasks_completed := tasks_completed (rs_summary st) + 1\<rparr>
    | Task_Skipped _ _ _ \<Rightarrow> (rs_summary st)\<lparr>tasks_failed := tasks_failed (rs_summary st) + 1\<rparr>
    | Attempt_Observed _ _ _ a \<Rightarrow> (rs_summary st)\<lparr>target_requests := target_requests (rs_summary st) + a\<rparr>
    | _ \<Rightarrow> rs_summary st)"
  using assms by (cases "fb_event b")
    (auto simp: recover_event_def recover_ops advance_node_def res_elims
      split: option.split_asm prod.split_asm)

text \<open>The state before the first frame: the initial nodes, nothing else.\<close>

definition keyed :: "(string \<times> recovery_node) list \<Rightarrow> bool" where
  "keyed ns \<longleftrightarrow> distinct (map fst ns) \<and> (\<forall>(i, n) \<in> set ns. sn_node_id (rn_node n) = i)"

definition before_frames :: "recovery_state \<Rightarrow> bool" where
  "before_frames st \<longleftrightarrow> rs_buffered st = [] \<and> rs_committed st = [] \<and> rs_summary st = zero_summary \<and>
     rs_item_sequence st = 0 \<and> rs_last_order st = None \<and> rs_sink st = None \<and> rs_output st = None \<and>
     \<not> rs_terminal st \<and> \<not> rs_cancelled st \<and> rs_epoch st = 0 \<and> list_all (\<lambda>(i, n). n = fresh_node (rn_node n)) (rs_nodes st) \<and> keyed (rs_nodes st)"

lemma keyed_update:
  assumes "keyed ns" "sn_node_id (rn_node n) = i"
  shows "keyed (AList.update i n ns)"
proof -
  have "set (AList.update i n ns) \<subseteq> insert (i, n) (set ns)" by (induction ns) auto
  then show ?thesis using assms by (auto simp: keyed_def distinct_update)
qed

lemma rn_node_fresh [simp]: "rn_node (fresh_node n) = n"
  by (simp add: fresh_node_def)

lemma fresh_update:
  "list_all (\<lambda>(i, n). n = fresh_node (rn_node n)) ns \<Longrightarrow>
    list_all (\<lambda>(i, n). n = fresh_node (rn_node n)) (AList.update k (fresh_node x) ns)"
  by (induction ns) (auto simp: fresh_node_def)

lemma initial_node_before:
  "recover_initial_node sha rid spool st x = Inr st' \<Longrightarrow> before_frames st \<Longrightarrow> before_frames st'"
  by (cases x) (auto simp: recover_initial_node_def res_elims before_frames_def add_node_def put_node_def
    add_reference_def fresh_update intro!: keyed_update)

lemma initial_nodes_before:
  assumes "recover_initial_nodes sha rid spool refs initial_recovery_state = Inr st"
  shows "before_frames st"
proof -
  have "foldR (recover_initial_node sha rid spool) s xs = Inr st \<Longrightarrow> before_frames s \<Longrightarrow> before_frames st" for s xs
    by (induction xs arbitrary: s) (auto simp: bindR_Inr_iff dest: initial_node_before)
  moreover have "before_frames initial_recovery_state"
    by (simp add: before_frames_def initial_recovery_state_def keyed_def)
  ultimately show ?thesis using assms by (auto simp: recover_initial_nodes_def split: option.splits)
qed

text \<open>Induction over the frames of a journal.\<close>

lemma fold_frames_induct:
  assumes "foldR (recover_frame sha rid spool) s0 (zip [0..<length bodies] bodies) = Inr st"
    and "P [] s0"
    and "\<And>bs s b s'. P bs s \<Longrightarrow> recover_frame sha rid spool s (length bs, b) = Inr s' \<Longrightarrow> P (bs @ [b]) s'"
  shows "P bodies st"
  using assms(1)
proof (induction bodies arbitrary: st rule: rev_induct)
  case Nil
  then show ?case using assms(2) by simp
next
  case (snoc b bs)
  then show ?case using assms(3) by (auto simp: foldR_snoc)
qed

lemma recover_frames_start:
  assumes "recover_frames sha rid spool bodies = Inr st"
  obtains s0 where "before_frames s0" "foldR (recover_frame sha rid spool) s0 (zip [0..<length bodies] bodies) = Inr st"
proof -
  from assms obtain first rest where b: "bodies = first # rest" by (cases bodies) (auto simp: recover_frames_def)
  from assms b obtain d refs s0 where "recover_initial_nodes sha rid spool refs initial_recovery_state = Inr s0"
    "foldR (recover_frame sha rid spool) s0 (zip [0..<length bodies] bodies) = Inr st"
    by (auto simp: recover_frames_def res_elims simp del: upt_Suc split: journal_event.splits)
  with initial_nodes_before that show ?thesis by blast
qed

lemma recover_frames_induct:
  assumes "recover_frames sha rid spool bodies = Inr st"
    and "\<And>s. before_frames s \<Longrightarrow> P [] s"
    and "\<And>bs s b s'. P bs s \<Longrightarrow> recover_frame sha rid spool s (length bs, b) = Inr s' \<Longrightarrow> P (bs @ [b]) s'"
  shows "P bodies st"
proof -
  from recover_frames_start[OF assms(1)] obtain s0 where s: "before_frames s0"
    "foldR (recover_frame sha rid spool) s0 (zip [0..<length bodies] bodies) = Inr st" .
  show ?thesis by (rule fold_frames_induct[OF s(2)]) (use assms s in blast)+
qed

section \<open>Items\<close>

definition commit_of :: "frame_body \<Rightarrow> (string \<times> string \<times> logical_order \<times> int) list" where
  "commit_of b = (case fb_event b of Item_Committed n d p q \<Rightarrow> [(n, d, p, q)] | _ \<Rightarrow> [])"

definition commits :: "frame_body list \<Rightarrow> (string \<times> string \<times> logical_order \<times> int) list" where
  "commits bs = concat (map commit_of bs)"

definition buffers_before :: "frame_body list \<Rightarrow> string \<Rightarrow> string \<Rightarrow> string \<Rightarrow> bool" where
  "buffers_before bs key n d \<longleftrightarrow> (\<exists>b \<in> set bs. \<exists>data p. fb_event b = Item_Buffered n d data p \<and>
     item_logical_order_key p = Inr key)"

definition items_follow :: "frame_body list \<Rightarrow> recovery_state \<Rightarrow> bool" where
  "items_follow bs st \<longleftrightarrow> rs_committed st = map (\<lambda>(n, d, p, q). d) (commits bs) \<and> distinct (rs_committed st) \<and>
     rs_item_sequence st = int (length (commits bs)) \<and>
     map (\<lambda>(n, d, p, q). q) (commits bs) = map (\<lambda>k. int k + 1) [0..<length (commits bs)] \<and>
     sorted_wrt order_less (map (\<lambda>(n, d, p, q). p) (commits bs)) \<and>
     rs_last_order st = (if commits bs = [] then None else Some (last (map (\<lambda>(n, d, p, q). p) (commits bs)))) \<and>
     (\<forall>key e. map_of (rs_buffered st) key = Some e \<longrightarrow> buffers_before bs key (bp_node_id e) (bp_identity_digest e)) \<and>
     (\<forall>xs b ys n d p q. bs = xs @ b # ys \<longrightarrow> fb_event b = Item_Committed n d p q \<longrightarrow>
       (\<exists>key. item_logical_order_key p = Inr key \<and> buffers_before xs key n d))"

lemma buffers_before_mono: "buffers_before bs k n d \<Longrightarrow> buffers_before (bs @ cs) k n d"
  by (auto simp: buffers_before_def)

lemma sorted_wrt_snoc_last:
  assumes "sorted_wrt order_less ps" "ps \<noteq> [] \<longrightarrow> order_less (last ps) p"
  shows "sorted_wrt order_less (ps @ [p])"
proof -
  have "order_less x p" if "x \<in> set ps" for x
  proof -
    from that have ne: "ps \<noteq> []" by auto
    with that assms(1) have "x = last ps \<or> order_less x (last ps)"
      by (cases ps rule: rev_cases) (auto simp: sorted_wrt_append)
    then show ?thesis using assms(2) ne order_less_trans by blast
  qed
  then show ?thesis using assms(1) by (auto simp: sorted_wrt_append)
qed

lemma split_snoc: "bs @ [b] = xs @ c # ys \<Longrightarrow> (ys = [] \<and> xs = bs \<and> c = b) \<or> (\<exists>zs. ys = zs @ [b] \<and> bs = xs @ c # zs)"
  by (cases ys rule: rev_cases) auto

lemma recover_frame_items:
  assumes "recover_frame sha rid spool st (i, b) = Inr st'"
  shows "case fb_event b of
      Item_Committed n d p q \<Rightarrow> d \<notin> set (rs_committed st) \<and> q = rs_item_sequence st + 1 \<and>
        (case rs_last_order st of None \<Rightarrow> True | Some l \<Rightarrow> order_less l p) \<and>
        rs_committed st' = rs_committed st @ [d] \<and> rs_item_sequence st' = q \<and> rs_last_order st' = Some p \<and>
        (\<exists>key. item_logical_order_key p = Inr key \<and> matches_buffer (map_of (rs_buffered st) key) n d \<and>
          rs_buffered st' = AList.delete key (rs_buffered st)) \<and> accountable (map_of (rs_nodes st) n)
    | Item_Buffered n d data p \<Rightarrow> (\<exists>key. item_logical_order_key p = Inr key \<and> \<not> has_key (rs_buffered st) key \<and>
        rs_buffered st' = AList.update key \<lparr>bp_node_id = n, bp_identity_digest = d, bp_logical_order = p\<rparr>
          (rs_buffered st)) \<and> rs_committed st' = rs_committed st \<and>
        rs_item_sequence st' = rs_item_sequence st \<and> rs_last_order st' = rs_last_order st
    | _ \<Rightarrow> (rs_buffered st' = rs_buffered st \<or> (\<exists>key. rs_buffered st' = AList.delete key (rs_buffered st))) \<and>
        rs_committed st' = rs_committed st \<and>
        rs_item_sequence st' = rs_item_sequence st \<and> rs_last_order st' = rs_last_order st"
  using assms
proof (cases rule: recover_frame_cases)
  case stop
  then show ?thesis by (auto simp: event_kinds split: journal_event.splits)
next
  case (event e out)
  let ?s = "st\<lparr>rs_epoch := e, rs_output := out\<rparr>"
  have same: "rs_buffered ?s = rs_buffered st" "rs_committed ?s = rs_committed st" "rs_nodes ?s = rs_nodes st"
    "rs_item_sequence ?s = rs_item_sequence st" "rs_last_order ?s = rs_last_order st" by simp_all
  from recover_event_items[OF event(3), unfolded same] show ?thesis .
qed

lemma items_follow_step:
  assumes inv: "items_follow bs st" and rec: "recover_frame sha rid spool st (length bs, b) = Inr st'"
  shows "items_follow (bs @ [b]) st'"
proof -
  note eff = recover_frame_items[OF rec]
  note inv = inv[unfolded items_follow_def]
  show ?thesis
  proof (cases "\<exists>n d p q. fb_event b = Item_Committed n d p q")
    case True
    then obtain n d p q where b: "fb_event b = Item_Committed n d p q" by blast
    with eff obtain key where e: "d \<notin> set (rs_committed st)" "q = rs_item_sequence st + 1"
      "case rs_last_order st of None \<Rightarrow> True | Some l \<Rightarrow> order_less l p" "rs_committed st' = rs_committed st @ [d]"
      "rs_item_sequence st' = q" "rs_last_order st' = Some p" "item_logical_order_key p = Inr key"
      "matches_buffer (map_of (rs_buffered st) key) n d" "rs_buffered st' = AList.delete key (rs_buffered st)"
      by auto
    have c: "commits (bs @ [b]) = commits bs @ [(n, d, p, q)]" by (simp add: commits_def commit_of_def b)
    have buf: "buffers_before bs key n d" using e(8) inv by (auto simp: matches_buffer_def split: option.splits)
    have ord: "sorted_wrt order_less (map (\<lambda>(n, d, p, q). p) (commits bs) @ [p])"
      by (rule sorted_wrt_snoc_last) (use inv e(3) in auto)
    have pre: "\<exists>key. item_logical_order_key p' = Inr key \<and> buffers_before xs key n' d'"
      if "bs @ [b] = xs @ b' # ys" "fb_event b' = Item_Committed n' d' p' q'" for xs b' ys n' d' p' q'
      using split_snoc[OF that(1)] that(2) b buf e(7) inv by auto
    show ?thesis unfolding items_follow_def c
      using inv e ord pre buffers_before_mono[of bs] by auto
  next
    case False
    then have c: "commits (bs @ [b]) = commits bs"
      by (auto simp: commits_def commit_of_def split: journal_event.splits)
    have same: "rs_committed st' = rs_committed st" "rs_item_sequence st' = rs_item_sequence st"
      "rs_last_order st' = rs_last_order st"
      using eff False by (auto split: journal_event.splits)
    have buf: "buffers_before (bs @ [b]) key (bp_node_id e) (bp_identity_digest e)"
      if m: "map_of (rs_buffered st') key = Some e" for key e
    proof (cases "\<exists>n d data p. fb_event b = Item_Buffered n d data p")
      case True
      then obtain n d data p k where b: "fb_event b = Item_Buffered n d data p" "item_logical_order_key p = Inr k"
        "rs_buffered st' = AList.update k \<lparr>bp_node_id = n, bp_identity_digest = d, bp_logical_order = p\<rparr> (rs_buffered st)"
        using eff by auto
      show ?thesis
      proof (cases "key = k")
        case True
        then show ?thesis using m b by (auto simp: buffers_before_def)
      next
        case False
        then have "map_of (rs_buffered st) key = Some e" using m b(3) by simp
        then show ?thesis using inv buffers_before_mono by blast
      qed
    next
      case not_buffer: False
      have "rs_buffered st' = rs_buffered st \<or> (\<exists>k. rs_buffered st' = AList.delete k (rs_buffered st))"
        using eff False not_buffer by (auto split: journal_event.splits)
      then have "map_of (rs_buffered st) key = Some e" using m by (auto split: if_split_asm)
      then show ?thesis using inv buffers_before_mono by blast
    qed
    have pre: "\<exists>key. item_logical_order_key p' = Inr key \<and> buffers_before xs key n' d'"
      if "bs @ [b] = xs @ b' # ys" "fb_event b' = Item_Committed n' d' p' q'" for xs b' ys n' d' p' q'
      using split_snoc[OF that(1)] that(2) False inv by auto
    show ?thesis unfolding items_follow_def c same using inv buf pre by blast
  qed
qed

lemma items_follow_all:
  assumes "recover_frames sha rid spool bodies = Inr st"
  shows "items_follow bodies st"
  by (rule recover_frames_induct[OF assms], simp add: items_follow_def before_frames_def commits_def,
    rule items_follow_step)

text \<open>
  C30: items are committed exactly once and in order: in a journal that recovers, the commit
  events carry the sequence numbers 1, 2, 3 and so on, different identities and strictly
  ascending logical positions, each was buffered before by the same node with the same
  identity at the same position, and the recovered set of committed identities is that of
  these events.
\<close>

theorem commits_once_in_order:
  assumes "recover_frames sha run_id spool bodies = Inr st"
  shows "rs_committed st = map (\<lambda>(n, d, p, q). d) (commits bodies) \<and> distinct (rs_committed st) \<and>
    map (\<lambda>(n, d, p, q). q) (commits bodies) = map (\<lambda>k. int k + 1) [0..<length (commits bodies)] \<and>
    sorted_wrt order_less (map (\<lambda>(n, d, p, q). p) (commits bodies)) \<and>
    (\<forall>xs b ys n d p q. bodies = xs @ b # ys \<longrightarrow> fb_event b = Item_Committed n d p q \<longrightarrow>
       (\<exists>key. item_logical_order_key p = Inr key \<and> buffers_before xs key n d))"
  using items_follow_all[OF assms] unfolding items_follow_def by blast

section \<open>Counters\<close>

definition events_where :: "(journal_event \<Rightarrow> bool) \<Rightarrow> frame_body list \<Rightarrow> nat" where
  "events_where P bs = length (List.filter (\<lambda>b. P (fb_event b)) bs)"

lemma events_where_snoc [simp]:
  "events_where P [] = 0" "events_where P (bs @ [b]) = events_where P bs + (if P (fb_event b) then 1 else 0)"
  by (simp_all add: events_where_def)

definition tally :: "frame_body list \<Rightarrow> run_summary" where
  "tally bs = \<lparr>items_emitted = int (events_where is_committed bs), items_duplicate = int (events_where is_duplicate bs),
     tasks_completed = int (events_where is_task_completed bs), tasks_failed = int (events_where is_skipped bs),
     target_requests = sum_list (map (\<lambda>b. observed_attempts (fb_event b)) bs)\<rparr>"

lemma recover_frame_summary:
  assumes "recover_frame sha rid spool st (i, b) = Inr st'" "rs_summary st = tally bs"
  shows "rs_summary st' = tally (bs @ [b])"
  using assms(1)
proof (cases rule: recover_frame_cases)
  case stop
  then show ?thesis using assms(2) by (auto simp: tally_def event_kinds split: journal_event.splits)
next
  case (event e out)
  from recover_event_summary[OF event(3)] show ?thesis
    using assms(2) by (simp add: tally_def event_kinds split: journal_event.split)
qed

text \<open>Order of events: the terminal event is last, a cancellation is unique, epochs count up.\<close>

lemma recover_frame_flags:
  assumes "recover_frame sha rid spool st (i, b) = Inr st'"
  shows "\<not> rs_terminal st" "rs_terminal st' = is_terminal (fb_event b)"
    "rs_cancelled st' = (rs_cancelled st \<or> is_cancel (fb_event b))" "is_cancel (fb_event b) \<Longrightarrow> \<not> rs_cancelled st"
    "rs_epoch st' = rs_epoch st + (if is_running (fb_event b) then 1 else 0)" "fb_execution_epoch b = rs_epoch st'"
proof -
  note f = recover_frame_Inr[OF assms]
  show t: "\<not> rs_terminal st" by (rule f(1))
  define e where "e = rs_epoch st'"
  define out where "out = rs_output st'"
  note g = f(4)[folded e_def out_def]
  have "rs_terminal st' = is_terminal (fb_event b) \<and> rs_cancelled st' = (rs_cancelled st \<or> is_cancel (fb_event b))"
  proof (cases "is_terminal (fb_event b) \<or> is_cancel (fb_event b)")
    case True
    then show ?thesis using g t by (auto simp: event_kinds split: journal_event.splits)
  next
    case False
    then have "recover_event sha rid spool i b (st\<lparr>rs_epoch := e, rs_output := out\<rparr>) = Inr st'" using g
      by (auto simp: event_kinds split: journal_event.splits)
    from recover_event_keeps[OF this] show ?thesis using False t by auto
  qed
  then show "rs_terminal st' = is_terminal (fb_event b)"
    "rs_cancelled st' = (rs_cancelled st \<or> is_cancel (fb_event b))" by blast+
  show "\<not> rs_cancelled st" if "is_cancel (fb_event b)"
    using f(4) that by (auto simp: event_kinds split: journal_event.splits)
  show "rs_epoch st' = rs_epoch st + (if is_running (fb_event b) then 1 else 0)" "fb_execution_epoch b = rs_epoch st'"
    using f(2) by (auto simp: advance_execution_epoch_def event_kinds res_elims split: journal_event.splits journal_state.splits)
qed

definition events_counted :: "frame_body list \<Rightarrow> recovery_state \<Rightarrow> bool" where
  "events_counted bs st \<longleftrightarrow> rs_summary st = tally bs \<and>
     rs_terminal st = (0 < events_where is_terminal bs) \<and> events_where is_terminal (butlast bs) = 0 \<and>
     rs_cancelled st = (0 < events_where is_cancel bs) \<and> events_where is_cancel bs \<le> 1 \<and>
     rs_epoch st = int (events_where is_running bs) \<and>
     (\<forall>k < length bs. fb_execution_epoch (bs ! k) = int (events_where is_running (take (Suc k) bs)))"

lemma events_counted_step:
  assumes "events_counted bs st" "recover_frame sha rid spool st (length bs, b) = Inr st'"
  shows "events_counted (bs @ [b]) st'"
proof -
  note f = recover_frame_flags[OF assms(2)]
  have "fb_execution_epoch ((bs @ [b]) ! k) = int (events_where is_running (take (Suc k) (bs @ [b])))"
    if "k < Suc (length bs)" for k
    using that assms(1) f(5,6) by (cases "k = length bs") (auto simp: events_counted_def nth_append)
  then show ?thesis
    using assms(1) f recover_frame_summary[OF assms(2)] by (auto simp: events_counted_def)
qed

lemma events_counted_all:
  assumes "recover_frames sha rid spool bodies = Inr st"
  shows "events_counted bodies st"
  by (rule recover_frames_induct[OF assms],
    simp add: events_counted_def before_frames_def tally_def zero_summary_def events_where_def, rule events_counted_step)

text \<open>
  The recovered counters are those of the journal's events: items, duplicates, completed
  and skipped tasks and target requests; the terminal event, if any, is the last one; a run
  is cancelled at most once; and every frame carries the number of times the run had begun
  to run.
\<close>

theorem recovered_counters_match_events:
  assumes "recover_frames sha run_id spool bodies = Inr st"
  shows "rs_summary st = tally bodies \<and> rs_terminal st = (0 < events_where is_terminal bodies) \<and>
    events_where is_terminal (butlast bodies) = 0 \<and>
    rs_cancelled st = (0 < events_where is_cancel bodies) \<and> events_where is_cancel bodies \<le> 1 \<and>
    rs_epoch st = int (events_where is_running bodies) \<and>
    (\<forall>k < length bodies. fb_execution_epoch (bodies ! k) = int (events_where is_running (take (Suc k) bodies)))"
  using events_counted_all[OF assms] unfolding events_counted_def .

section \<open>The output file\<close>

text \<open>What the events say about the output: prepared, then committed as prepared.\<close>

definition output_follows :: "frame_body list \<Rightarrow> recovery_state \<Rightarrow> bool" where
  "output_follows bs st \<longleftrightarrow> (\<forall>p c. rs_output st = Some (p, c) \<longrightarrow>
     (\<exists>xs ys. map fb_event bs = xs @ Output_Prepared p # ys \<and>
        (c \<longrightarrow> Output_Committed (po_content_digest p) (po_byte_length p) (po_descriptor_digest p) \<in> set ys)))"

lemma advance_output_Inr:
  assumes "advance_output_finalization sha ev out = Inr out'"
  shows "out' = out \<and> (\<forall>p. ev \<noteq> Output_Prepared p) \<or>
    (\<exists>p. ev = Output_Prepared p \<and> out = None \<and> out' = Some (p, False)) \<or>
    (\<exists>p. ev = Output_Committed (po_content_digest p) (po_byte_length p) (po_descriptor_digest p) \<and>
      out = Some (p, False) \<and> out' = Some (p, True))"
  using assms by (cases ev) (auto simp: advance_output_finalization_def res_elims split: option.split_asm prod.split_asm bool.split_asm)

lemma output_follows_step:
  assumes "output_follows bs st" "recover_frame sha rid spool st (length bs, b) = Inr st'"
  shows "output_follows (bs @ [b]) st'"
  unfolding output_follows_def
proof (intro allI impI)
  fix p c assume o: "rs_output st' = Some (p, c)"
  from advance_output_Inr[OF recover_frame_Inr(3)[OF assms(2)]]
  consider (same) "rs_output st' = rs_output st"
    | (prep) q where "fb_event b = Output_Prepared q" "rs_output st' = Some (q, False)"
    | (comm) q where "fb_event b = Output_Committed (po_content_digest q) (po_byte_length q) (po_descriptor_digest q)"
      "rs_output st = Some (q, False)" "rs_output st' = Some (q, True)" by blast
  then show "\<exists>xs ys. map fb_event (bs @ [b]) = xs @ Output_Prepared p # ys \<and>
      (c \<longrightarrow> Output_Committed (po_content_digest p) (po_byte_length p) (po_descriptor_digest p) \<in> set ys)"
  proof cases
    case same
    with o assms(1) obtain xs ys where x: "map fb_event bs = xs @ Output_Prepared p # ys"
      "c \<longrightarrow> Output_Committed (po_content_digest p) (po_byte_length p) (po_descriptor_digest p) \<in> set ys"
      unfolding output_follows_def by metis
    then show ?thesis by (intro exI[of _ xs] exI[of _ "ys @ [fb_event b]"]) auto
  next
    case prep
    then show ?thesis using o by (intro exI[of _ "map fb_event bs"] exI[of _ "[]"]) auto
  next
    case comm
    with assms(1) obtain xs ys where "map fb_event bs = xs @ Output_Prepared q # ys"
      unfolding output_follows_def by metis
    then show ?thesis using o comm by (intro exI[of _ xs] exI[of _ "ys @ [fb_event b]"]) auto
  qed
qed

lemma output_follows_all: "recover_frames sha rid spool bodies = Inr st \<Longrightarrow> output_follows bodies st"
  by (erule recover_frames_induct, simp add: output_follows_def before_frames_def, erule (1) output_follows_step)

lemma recover_frames_butlast:
  assumes "recover_frames sha rid spool (bs @ [b]) = Inr st" "bs \<noteq> []"
  obtains s where "recover_frames sha rid spool bs = Inr s" "recover_frame sha rid spool s (length bs, b) = Inr st"
proof -
  from assms(2) obtain first rest where bs: "bs = first # rest" by (cases bs) auto
  have "zip [0..<length (bs @ [b])] (bs @ [b]) = zip [0..<length bs] bs @ [(length bs, b)]" by simp
  with assms(1) that show ?thesis unfolding recover_frames_def bs
    by (auto simp: res_elims foldR_snoc simp del: upt_Suc split: journal_event.splits)
qed

lemma recover_frames_prefix:
  "recover_frames sha rid spool (bs @ cs) = Inr st \<Longrightarrow> bs \<noteq> [] \<Longrightarrow> \<exists>s. recover_frames sha rid spool bs = Inr s"
proof (induction cs arbitrary: st rule: rev_induct)
  case (snoc c cs)
  then show ?case using recover_frames_butlast[of sha rid spool "bs @ cs" c st] by (metis append_assoc append_is_Nil_conv)
qed auto

text \<open>The terminal event is the last one, so the events before it recover on their own.\<close>

lemma terminal_is_last:
  assumes "recover_frames sha rid spool bodies = Inr st" "b \<in> set bodies" "is_terminal (fb_event b)"
  obtains bs s where "bodies = bs @ [b]" "recover_frames sha rid spool bs = Inr s"
    "recover_frame sha rid spool s (length bs, b) = Inr st"
proof -
  have c: "events_counted bodies st" by (rule events_counted_all[OF assms(1)])
  from assms(2) obtain bs l where bl: "bodies = bs @ [l]" by (cases bodies rule: rev_cases) auto
  have "b \<notin> set bs"
    using c assms(3) bl by (auto simp: events_counted_def events_where_def filter_empty_conv)
  then have l: "l = b" using assms(2) bl by auto
  have "bs \<noteq> []" using assms(1,3) bl l by (auto simp: recover_frames_def event_kinds split: journal_event.splits)
  then show ?thesis using recover_frames_butlast assms(1) that bl l by metis
qed

text \<open>
  A run that ends with a result in a file wrote that file as announced: its journal
  prepared the output, naming the digest of the path and of the terminal descriptor, then
  committed the same content, and the terminal event carries the prepared descriptor digest.
\<close>

theorem file_result_was_prepared:
  assumes "recover_frames sha run_id spool bodies = Inr st" and "b \<in> set bodies"
    and "fb_event b = Terminal d digest" and "td_output d = Output_File path fmt partial"
  shows "\<exists>p xs ys. map fb_event bodies = xs @ Output_Prepared p # ys @ [Terminal d digest] \<and>
    Output_Committed (po_content_digest p) (po_byte_length p) (po_descriptor_digest p) \<in> set ys \<and>
    digest = po_descriptor_digest p"
proof -
  have "is_terminal (fb_event b)" by (simp add: is_terminal_def assms(3))
  from terminal_is_last[OF assms(1,2) this] obtain bs s where s: "bodies = bs @ [b]"
    "recover_frames sha run_id spool bs = Inr s" "recover_frame sha run_id spool s (length bs, b) = Inr st" .
  from recover_frame_Inr(3)[OF s(3)] assms(3,4) obtain p where p: "rs_output s = Some (p, True)" "digest = po_descriptor_digest p"
    by (auto simp: advance_output_finalization_def res_elims split: option.split_asm prod.split_asm)
  from output_follows_all[OF s(2)] p(1) obtain xs ys where "map fb_event bs = xs @ Output_Prepared p # ys"
    "Output_Committed (po_content_digest p) (po_byte_length p) (po_descriptor_digest p) \<in> set ys"
    unfolding output_follows_def by metis
  then show ?thesis using s(1) assms(3) p(2)
    by (intro exI[of _ p] exI[of _ xs] exI[of _ ys]) simp
qed

end
