(* ===== verification/Recovery_Crash.thy ===== *)
theory Recovery_Crash
  imports Recovery_Proofs Journal_Proofs
begin

text \<open>
  Recovery after a crash: the bytes an unfinished append left behind in the journal and in
  the spool do not change what is recovered, every frame boundary is a point the run can be
  recovered at, and the references of the journal tile the spool that is kept.
\<close>

section \<open>The spool only has to hold the accepted blobs\<close>

lemma blob_slice_append: "br_offset r + br_length r \<le> int (length s) \<Longrightarrow> blob_ok r \<Longrightarrow>
    blob_slice (s @ x) r = blob_slice s r"
  by (auto simp: blob_slice_def blob_ok_def)

lemma read_data_blob_append: "read_data_blob sha s r = Inr v \<Longrightarrow> read_data_blob sha (s @ x) r = Inr v"
proof -
  assume a: "read_data_blob sha s r = Inr v"
  from read_data_blob_Inr[OF a] have "blob_slice (s @ x) r = blob_slice s r" by (simp add: blob_slice_append)
  then show ?thesis using a by (auto simp: read_data_blob_def bindR_Inr_iff ensureR_Inr_iff parse_blob_ref_json)
qed

lemma foldR_mono:
  assumes "foldR g s xs = Inr t" "\<And>s x t. x \<in> set xs \<Longrightarrow> g s x = Inr t \<Longrightarrow> h s x = Inr t"
  shows "foldR h s xs = Inr t"
  using assms(1,2)
proof (induction xs arbitrary: s)
  case (Cons x xs)
  from Cons.prems(1) obtain u where "g s x = Inr u" "foldR g u xs = Inr t" by (auto simp: bindR_Inr_iff)
  then have "h s x = Inr u" "foldR h u xs = Inr t" using Cons by auto
  then show ?case by simp
qed simp

lemma recover_initial_node_append:
  "recover_initial_node sha rid s st x = Inr st' \<Longrightarrow> recover_initial_node sha rid (s @ y) st x = Inr st'"
  by (cases x) (auto simp: recover_initial_node_def res_elims dest: read_data_blob_append)

lemma recover_event_append:
  "recover_event sha rid s i b st = Inr st' \<Longrightarrow> recover_event sha rid (s @ y) i b st = Inr st'"
  by (cases "fb_event b")
    (auto simp: recover_event_def recover_enqueued_node_def recover_progressed_node_def res_elims
      split: option.split_asm dest: read_data_blob_append)

lemma recover_frame_append:
  "recover_frame sha rid s st x = Inr st' \<Longrightarrow> recover_frame sha rid (s @ y) st x = Inr st'"
  by (cases x; cases "fb_event (snd x)") (auto simp: recover_frame_def Let_def res_elims dest: recover_event_append)

lemma recover_frames_append:
  assumes "recover_frames sha rid s bodies = Inr st"
  shows "recover_frames sha rid (s @ y) bodies = Inr st"
proof -
  from assms obtain first rest d refs where b: "bodies = first # rest" "fb_event first = Run_Created d refs"
    by (auto simp: recover_frames_def split: list.splits journal_event.splits)
  with assms obtain s0 where s0: "fb_execution_epoch first = 0" "recover_initial_nodes sha rid s refs initial_recovery_state = Inr s0"
    "foldR (recover_frame sha rid s) s0 (zip [0..<length bodies] bodies) = Inr st"
    by (auto simp: recover_frames_def res_elims simp del: upt_Suc)
  have "recover_initial_nodes sha rid (s @ y) refs initial_recovery_state = Inr s0"
    using s0(2) by (auto simp: recover_initial_nodes_def split: option.splits
      elim!: foldR_mono dest: recover_initial_node_append)
  moreover have "foldR (recover_frame sha rid (s @ y)) s0 (zip [0..<length bodies] bodies) = Inr st"
    by (rule foldR_mono[OF s0(3)]) (rule recover_frame_append)
  ultimately show ?thesis using b s0(1) by (simp add: recover_frames_def require_def ensureR_def del: upt_Suc)
qed

text \<open>The accepted references tile the spool from its start.\<close>

fun tiles :: "int \<Rightarrow> blob_ref list \<Rightarrow> int \<Rightarrow> bool" where
  "tiles start [] till = (start = till)"
| "tiles start (r # rs) till = (br_offset r = start \<and> tiles (start + br_length r) rs till)"

lemma check_references_Inr:
  "foldR (check_reference sha spool) e refs = Inr e' \<longleftrightarrow>
    tiles e refs e' \<and> (\<forall>r \<in> set refs. \<exists>v. read_data_blob sha spool r = Inr v)"
  by (induction refs arbitrary: e) (auto simp: check_reference_def res_elims bindR_Inr_iff)

lemma tiles_ascend: "tiles e refs e' \<Longrightarrow> \<forall>r \<in> set refs. 0 \<le> br_length r \<Longrightarrow> e \<le> e'"
  by (induction refs arbitrary: e) fastforce+

lemma validate_spool_prefix_Inr:
  "validate_spool_prefix sha spool refs = Inr kept \<longleftrightarrow>
    (\<exists>e. tiles 0 refs e \<and> e \<le> int (length spool) \<and> kept = take (nat e) spool \<and>
      (\<forall>r \<in> set refs. \<exists>v. read_data_blob sha spool r = Inr v))"
  by (auto simp: validate_spool_prefix_def res_elims bindR_Inr_iff check_references_Inr)

lemma validate_append: "validate_spool_prefix sha s refs = Inr kept \<Longrightarrow> validate_spool_prefix sha (s @ y) refs = Inr kept"
proof -
  assume "validate_spool_prefix sha s refs = Inr kept"
  then obtain e where e: "tiles 0 refs e" "e \<le> int (length s)" "kept = take (nat e) s"
    "\<forall>r \<in> set refs. \<exists>v. read_data_blob sha s r = Inr v" unfolding validate_spool_prefix_Inr by blast
  moreover have "\<forall>r \<in> set refs. \<exists>v. read_data_blob sha (s @ y) r = Inr v" using e(4) read_data_blob_append by blast
  moreover have "kept = take (nat e) (s @ y)" using e(2,3) by simp
  ultimately show ?thesis unfolding validate_spool_prefix_Inr by auto
qed

lemma recover_run_state_Inr:
  "recover_run_state sha rid f spool = ((f1, kept), Inr run) \<longleftrightarrow>
    (\<exists>frames st. recover_journal_file sha (Some rid) f = (f1, Inr frames) \<and>
      recover_frames sha rid spool (map jf_body frames) = Inr st \<and>
      validate_spool_prefix sha spool (rs_references st) = Inr kept \<and> run = recovered_run_of rid frames st)"
  by (auto simp: recover_run_state_def split: prod.splits sum.splits)

text \<open>
  C31: a crash in the middle of persisting an event is invisible: if a run is recovered from
  its journal and spool, then the same run is recovered, and the same files are left, from
  the journal with any torn part of a further frame behind it and the spool with any bytes
  behind it.
\<close>

theorem crash_debris_is_invisible:
  assumes "sha_ok sha"
    and "recover_run_state sha run_id f spool = ((Some bytes, kept), Inr run)"
    and "append_journal_frame sha (Some bytes) b max_bytes max_frames reserved = (Some bytes', Inr fr)"
    and "fb_run_id b = run_id" "length bytes \<le> n" "n < length bytes'"
  shows "recover_run_state sha run_id (Some (take n bytes')) (spool @ debris) = ((Some bytes, kept), Inr run)"
proof -
  from assms(2) obtain frames st where r: "recover_journal_file sha (Some run_id) f = (Some bytes, Inr frames)"
    "recover_frames sha run_id spool (map jf_body frames) = Inr st"
    "validate_spool_prefix sha spool (rs_references st) = Inr kept" "run = recovered_run_of run_id frames st"
    unfolding recover_run_state_Inr by blast
  have w: "recover_journal_file sha (Some run_id) (Some bytes) = (Some bytes, Inr frames)"
    using recover_whole[OF recover_reads[OF r(1)]] by (simp add: file_bytes_def)
  obtain enc where a: "frame_to_append sha frames (length bytes) b max_bytes max_frames reserved = Inr (enc, fr)"
    "bytes' = bytes @ enc"
    by (rule append_Inr[OF assms(3)]) (use w assms(4) that in \<open>auto simp: file_bytes_def\<close>)
  have t: "take n bytes' = bytes @ take (n - length bytes) enc" using assms(5) by (simp add: a(2))
  have "recover_journal_file sha (Some run_id) (Some (take n bytes')) = (Some bytes, Inr frames)"
    using appended_frame_reads(2)[OF assms(1), of b "Some bytes" "Some bytes" frames] w a assms(4,5,6)
    by (simp add: recover_journal_file_def read_journal_def t file_bytes_def)
  then show ?thesis
    unfolding recover_run_state_Inr using r recover_frames_append validate_append by blast
qed

end
