(* ===== verification/Recovery_Nodes.thy ===== *)
theory Recovery_Nodes
  imports Recovery_Crash
begin

text \<open>
  The life of a node: the events of one node in a recovered journal drive it through a
  small automaton, so a completed node was attempted, observed and completed in this order,
  and a run is resumed only when no attempt of unknown outcome is left.
\<close>

section \<open>The automaton of a node\<close>

datatype node_event = NE_Intent | NE_Observed | NE_Task | NE_Completed | NE_Skipped | NE_Progressed | NE_Replay

definition node_event_of :: "string \<Rightarrow> frame_body \<Rightarrow> node_event list" where
  "node_event_of i b = (case fb_event b of
     Attempt_Intent n _ \<Rightarrow> if n = i then [NE_Intent] else []
   | Attempt_Observed n _ _ _ \<Rightarrow> if n = i then [NE_Observed] else []
   | Task_Completed n _ \<Rightarrow> if n = i then [NE_Task] else []
   | Node_Completed n \<Rightarrow> if n = i then [NE_Completed] else []
   | Task_Skipped n _ _ \<Rightarrow> if n = i then [NE_Skipped] else []
   | Node_Progressed n _ \<Rightarrow> if n = i then [NE_Progressed] else []
   | Node_Replay_Authorized n _ \<Rightarrow> if n = i then [NE_Replay] else []
   | _ \<Rightarrow> [])"

definition node_events :: "string \<Rightarrow> frame_body list \<Rightarrow> node_event list" where
  "node_events i bs = concat (map (node_event_of i) bs)"

lemma node_events_snoc [simp]: "node_events i [] = []" "node_events i (bs @ [b]) = node_events i bs @ node_event_of i b"
  by (simp_all add: node_events_def)

inductive node_step :: "node_state \<times> bool \<Rightarrow> node_event \<Rightarrow> node_state \<times> bool \<Rightarrow> bool" where
  intent: "node_step (Node_Pending, c) NE_Intent (Node_Attempting, False)"
| observed: "node_step (Node_Attempting, c) NE_Observed (Node_Observed, False)"
| task: "node_step (Node_Observed, False) NE_Task (Node_Observed, True)"
| completed: "node_step (Node_Observed, True) NE_Completed (Node_State_Completed, True)"
| progressed: "node_step (Node_Observed, True) NE_Progressed (Node_Pending, False)"
| replay: "s = Node_Attempting \<or> s = Node_Observed \<Longrightarrow> node_step (s, c) NE_Replay (Node_Pending, False)"
| skipped: "s \<noteq> Node_State_Completed \<Longrightarrow> s \<noteq> Node_State_Skipped \<Longrightarrow> node_step (s, c) NE_Skipped (Node_State_Skipped, c)"

inductive node_run :: "node_event list \<Rightarrow> node_state \<times> bool \<Rightarrow> bool" where
  start: "node_run [] (Node_Pending, False)"
| step: "node_run es s \<Longrightarrow> node_step s e s' \<Longrightarrow> node_run (es @ [e]) s'"

inductive_cases to_completed: "node_step s e (Node_State_Completed, c)"
inductive_cases to_skipped: "node_step s e (Node_State_Skipped, c)"
inductive_cases to_observed_done: "node_step s e (Node_Observed, True)"
inductive_cases to_observed: "node_step s e (Node_Observed, False)"
inductive_cases to_attempting: "node_step s e (Node_Attempting, c)"
inductive_cases to_pending: "node_step s e (Node_Pending, c)"
inductive_cases run_snoc: "node_run es (s, c)"

lemmas node_step_intros = intent observed task completed progressed replay skipped

lemma run_step1: "node_run es s \<Longrightarrow> node_step s e s' \<Longrightarrow> es' = es @ [e] \<Longrightarrow> node_run es' s'"
  by (simp add: step)

text \<open>What the last events of a node are, by its state.\<close>

lemma run_attempting: "node_run es (Node_Attempting, c) \<Longrightarrow> \<exists>ds. es = ds @ [NE_Intent] \<and> \<not> c"
  by (erule run_snoc) (auto elim: to_attempting)

lemma run_observed: "node_run es (Node_Observed, False) \<Longrightarrow> \<exists>ds. es = ds @ [NE_Intent, NE_Observed]"
  by (erule run_snoc) (auto elim!: to_observed dest!: run_attempting)

lemma run_task_completed: "node_run es (Node_Observed, True) \<Longrightarrow> \<exists>ds. es = ds @ [NE_Intent, NE_Observed, NE_Task]"
  by (erule run_snoc) (auto elim!: to_observed_done dest!: run_observed)

lemma run_completed:
  "node_run es (Node_State_Completed, c) \<Longrightarrow> \<exists>ds. es = ds @ [NE_Intent, NE_Observed, NE_Task, NE_Completed]"
  by (erule run_snoc) (auto elim!: to_completed dest!: run_task_completed)

lemma run_skipped: "node_run es (Node_State_Skipped, c) \<Longrightarrow> \<exists>ds. es = ds @ [NE_Skipped]"
  by (erule run_snoc) (auto elim!: to_skipped)

lemma run_pending: "node_run es (Node_Pending, c) \<Longrightarrow> es = [] \<or> (\<exists>ds e. es = ds @ [e] \<and> (e = NE_Progressed \<or> e = NE_Replay))"
  by (erule run_snoc) (auto elim!: to_pending)

text \<open>Nothing happens to a node after it completed or was skipped.\<close>

inductive_cases from_completed: "node_step (Node_State_Completed, c) e s"
inductive_cases from_skipped: "node_step (Node_State_Skipped, c) e s"

lemma run_snoc_step: "node_run (es @ [e]) s' \<Longrightarrow> \<exists>s. node_run es s \<and> node_step s e s'"
  by (cases s', erule node_run.cases) auto

lemma run_prefix: "node_run (es @ fs) s \<Longrightarrow> \<exists>s'. node_run es s'"
proof (induction fs arbitrary: s rule: rev_induct)
  case (snoc f fs)
  then show ?case using run_snoc_step[of "es @ fs" f s] by auto
qed auto

lemma final_is_last:
  assumes "node_run (es @ e # fs) s" "e = NE_Completed \<or> e = NE_Skipped"
  shows "fs = []"
proof (rule ccontr)
  assume "fs \<noteq> []"
  then obtain f gs where f: "fs = f # gs" by (cases fs) auto
  from assms(1) f have "node_run (((es @ [e]) @ [f]) @ gs) s" by simp
  from run_prefix[OF this] obtain s2 where "node_run ((es @ [e]) @ [f]) s2" by blast
  then obtain s0 s1 where "node_step s0 e s1" "node_step s1 f s2" using run_snoc_step by blast
  then show False using assms(2) by (cases s1) (auto elim!: node_step.cases)
qed

section \<open>Recovery follows the automaton\<close>

definition node_position :: "recovery_node \<Rightarrow> node_state \<times> bool" where
  "node_position n = (rn_state n, rn_task_completed n)"

definition node_follows :: "node_event list \<Rightarrow> recovery_node option \<Rightarrow> bool" where
  "node_follows es m = (case m of None \<Rightarrow> es = [] | Some n \<Rightarrow> node_run es (node_position n))"

definition nodes_follow :: "frame_body list \<Rightarrow> recovery_state \<Rightarrow> bool" where
  "nodes_follow bs st \<longleftrightarrow> keyed (rs_nodes st) \<and> (\<forall>i. node_follows (node_events i bs) (map_of (rs_nodes st) i))"

lemma advance_node_follows:
  assumes "advance_node ev n s = Inr (n', s')" "fb_event b = ev" "node_event_of i b = [e]" "e \<noteq> NE_Progressed" "e \<noteq> NE_Replay"
  shows "node_step (node_position n) e (node_position n') \<and> rn_node n' = rn_node n"
  using assms by (cases ev; cases n)
    (auto simp: advance_node_def node_event_of_def res_elims node_position_def accountable_def
      intro: node_step_intros split: if_split_asm)

lemma node_run_snoc: "node_run es s \<Longrightarrow> node_step s e s' \<Longrightarrow> node_run (es @ [e]) s'"
  by (rule step)

lemma follow_put:
  assumes "nodes_follow bs st" "map_of (rs_nodes st) k = Some old" "rs_nodes st' = AList.update k n (rs_nodes st)"
    and "node_event_of k b = [e]" "\<And>j. j \<noteq> k \<Longrightarrow> node_event_of j b = []"
    and "node_step (node_position old) e (node_position n)" "sn_node_id (rn_node n) = k"
  shows "nodes_follow (bs @ [b]) st'"
proof -
  have "node_follows (node_events i (bs @ [b])) (map_of (rs_nodes st') i)" for i
  proof (cases "i = k")
    case True
    have "node_run (node_events k bs) (node_position old)"
      using assms(1,2) by (auto simp: nodes_follow_def node_follows_def split: option.splits)
    then have "node_run (node_events k bs @ [e]) (node_position n)" using assms(6) by (rule step)
    then show ?thesis using True assms(3,4) by (simp add: node_follows_def)
  next
    case False
    then show ?thesis using assms(1,3,5) by (simp add: nodes_follow_def)
  qed
  then show ?thesis using assms(1,3,7) by (simp add: nodes_follow_def keyed_update)
qed

lemma follow_new:
  assumes "nodes_follow bs st" "map_of (rs_nodes st) (sn_node_id x) = None"
    "rs_nodes st' = AList.update (sn_node_id x) (fresh_node x) (rs_nodes st)" "\<And>j. node_event_of j b = []"
  shows "nodes_follow (bs @ [b]) st'"
proof -
  have "node_follows (node_events i (bs @ [b])) (map_of (rs_nodes st') i)" for i
  proof (cases "i = sn_node_id x")
    case True
    have "node_follows (node_events i bs) None" using assms(1,2) True unfolding nodes_follow_def by metis
    then have "node_events i bs = []" by (simp add: node_follows_def)
    then show ?thesis using True assms(3,4)
      by (simp add: node_follows_def node_position_def fresh_node_def start)
  next
    case False
    then show ?thesis using assms(1,3,4) by (simp add: nodes_follow_def)
  qed
  then show ?thesis using assms(1,3) by (simp add: nodes_follow_def keyed_update)
qed

lemma follow_same: "nodes_follow bs st \<Longrightarrow> rs_nodes st' = rs_nodes st \<Longrightarrow> (\<And>j. node_event_of j b = []) \<Longrightarrow>
    nodes_follow (bs @ [b]) st'"
  by (simp add: nodes_follow_def)

lemma follow_lifecycle:
  assumes "recover_lifecycle k (fb_event b) st = Inr st'" "node_event_of k b = [e]" "\<And>j. j \<noteq> k \<Longrightarrow> node_event_of j b = []"
    and "nodes_follow bs st" "e \<noteq> NE_Progressed" "e \<noteq> NE_Replay"
  shows "nodes_follow (bs @ [b]) st'"
proof -
  from assms(1) obtain old n s where n: "map_of (rs_nodes st) k = Some old"
    "advance_node (fb_event b) old (rs_summary st) = Inr (n, s)" "st' = put_node k n (st\<lparr>rs_summary := s\<rparr>)"
    by (auto simp: recover_lifecycle_def res_elims split: option.split_asm)
  note a = advance_node_follows[OF n(2) refl assms(2,5,6)]
  have "sn_node_id (rn_node old) = k" using assms(4) map_of_SomeD[OF n(1)] by (auto simp: nodes_follow_def keyed_def)
  then show ?thesis
    using a n by (intro follow_put[OF assms(4) n(1) _ assms(2,3), of st' n]) (simp_all add: put_node_def)
qed

lemma recover_event_follows:
  assumes "recover_event sha rid spool i b st = Inr st'" "nodes_follow bs st"
  shows "nodes_follow (bs @ [b]) st'"
proof -
  note same = follow_same[OF assms(2)]
  show ?thesis
  proof (cases "fb_event b")
    case (Node_Enqueued e)
    then obtain x where x: "sn_node_id x = en_node_id e" "\<not> has_key (rs_nodes st) (en_node_id e)"
      "rs_nodes st' = AList.update (en_node_id e) (fresh_node x) (rs_nodes st)"
      using assms(1) by (auto simp: recover_event_def recover_ops res_elims)
    show ?thesis
      by (rule follow_new[OF assms(2), of x]) (use x in \<open>simp_all add: has_key_map_of node_event_of_def Node_Enqueued\<close>)
  next
    case (Node_Progressed k r)
    then obtain old x where x: "map_of (rs_nodes st) k = Some old" "accountable (Some old)" "sn_node_id x = k"
      "rs_nodes st' = AList.update k (fresh_node x) (rs_nodes st)"
      using assms(1) by (auto simp: recover_event_def recover_ops res_elims split: option.split_asm)
    show ?thesis
      by (rule follow_put[OF assms(2) x(1,4), of b NE_Progressed])
        (use x in \<open>auto simp: node_event_of_def Node_Progressed node_position_def fresh_node_def accountable_def
          intro: node_step_intros\<close>)
  next
    case (Node_Replay_Authorized k t)
    then obtain old where x: "map_of (rs_nodes st) k = Some old"
      "rn_state old = Node_Attempting \<or> rn_state old = Node_Observed"
      "rs_nodes st' = AList.update k (old\<lparr>rn_state := Node_Pending, rn_task_completed := False\<rparr>) (rs_nodes st)"
      using assms(1) by (auto simp: recover_event_def recover_ops res_elims split: option.split_asm)
    have "sn_node_id (rn_node old) = k" using assms(2) map_of_SomeD[OF x(1)] by (auto simp: nodes_follow_def keyed_def)
    then show ?thesis
      by (intro follow_put[OF assms(2) x(1,3), of b NE_Replay])
        (use x in \<open>auto simp: node_event_of_def Node_Replay_Authorized node_position_def intro: node_step_intros\<close>)
  next
    case (Attempt_Intent k t)
    with assms show ?thesis by (intro follow_lifecycle[of k b st st' NE_Intent])
      (auto simp: recover_event_def node_event_of_def)
  next
    case (Attempt_Observed k t d a)
    with assms show ?thesis by (intro follow_lifecycle[of k b st st' NE_Observed])
      (auto simp: recover_event_def node_event_of_def)
  next
    case (Task_Completed k t)
    with assms show ?thesis by (intro follow_lifecycle[of k b st st' NE_Task])
      (auto simp: recover_event_def node_event_of_def)
  next
    case (Node_Completed k)
    with assms show ?thesis by (intro follow_lifecycle[of k b st st' NE_Completed])
      (auto simp: recover_event_def node_event_of_def)
  next
    case (Task_Skipped k t r)
    with assms show ?thesis by (intro follow_lifecycle[of k b st st' NE_Skipped])
      (auto simp: recover_event_def node_event_of_def)
  qed (use assms(1) in \<open>auto intro!: same simp: recover_event_def recover_ops res_elims node_event_of_def
    split: option.split_asm\<close>)
qed

lemma recover_frame_follows:
  assumes "recover_frame sha rid spool st (i, b) = Inr st'" "nodes_follow bs st"
  shows "nodes_follow (bs @ [b]) st'"
  using assms(1)
proof (cases rule: recover_frame_cases)
  case (stop e out tt cc)
  then show ?thesis
    by (intro follow_same[OF assms(2)]) (auto simp: node_event_of_def event_kinds split: journal_event.splits)
next
  case (event e out)
  have "nodes_follow bs (st\<lparr>rs_epoch := e, rs_output := out\<rparr>)" using assms(2) by (simp add: nodes_follow_def)
  with event(3) show ?thesis by (rule recover_event_follows)
qed

lemma before_follow: "before_frames s \<Longrightarrow> nodes_follow [] s"
proof -
  assume b: "before_frames s"
  have "node_follows [] (map_of (rs_nodes s) i)" for i
  proof (cases "map_of (rs_nodes s) i")
    case (Some n)
    then have "n = fresh_node (rn_node n)"
      using b map_of_SomeD[OF Some] unfolding before_frames_def list_all_iff by fastforce
    then have "node_position n = (Node_Pending, False)"
      by (metis fresh_node_def node_position_def recovery_node.select_convs(2,3))
    then show ?thesis using Some by (simp add: node_follows_def start)
  qed (simp add: node_follows_def)
  then show ?thesis using b by (simp add: nodes_follow_def before_frames_def)
qed

lemma nodes_follow_all: "recover_frames sha rid spool bodies = Inr st \<Longrightarrow> nodes_follow bodies st"
  by (rule recover_frames_induct, assumption) (auto intro: before_follow recover_frame_follows)

text \<open>
  C34: in a journal that recovers, the events of every node follow the automaton of an
  attempt: intent, observation, task completion, then completion or progress, with skips and
  authorised replays where they are allowed. A completed node ends with exactly these four
  steps, and nothing happens to a node after it completed or was skipped.
\<close>

theorem nodes_follow_attempt_automaton:
  assumes "recover_frames sha run_id spool bodies = Inr st" and "map_of (rs_nodes st) i = Some n"
  shows "sn_node_id (rn_node n) = i \<and> node_run (node_events i bodies) (rn_state n, rn_task_completed n) \<and>
    (rn_state n = Node_State_Completed \<longrightarrow>
      (\<exists>ds. node_events i bodies = ds @ [NE_Intent, NE_Observed, NE_Task, NE_Completed])) \<and>
    (\<forall>es e fs. node_events i bodies = es @ e # fs \<longrightarrow> e = NE_Completed \<or> e = NE_Skipped \<longrightarrow> fs = [])"
proof -
  note f = nodes_follow_all[OF assms(1)]
  have r: "node_run (node_events i bodies) (rn_state n, rn_task_completed n)"
    using f assms(2) by (auto simp: nodes_follow_def node_follows_def node_position_def split: option.splits)
  moreover have "sn_node_id (rn_node n) = i"
    using f map_of_SomeD[OF assms(2)] by (auto simp: nodes_follow_def keyed_def)
  moreover have "\<exists>ds. node_events i bodies = ds @ [NE_Intent, NE_Observed, NE_Task, NE_Completed]"
    if "rn_state n = Node_State_Completed" using r run_completed unfolding that by blast
  moreover have "fs = []" if "node_events i bodies = es @ e # fs" "e = NE_Completed \<or> e = NE_Skipped" for es e fs
    using final_is_last[of es e fs] r that by metis
  ultimately show ?thesis by blast
qed

section \<open>Resuming\<close>

definition lifecycle_event :: "journal_event \<Rightarrow> bool" where
  "lifecycle_event ev = (case ev of Interrupted _ \<Rightarrow> True | State_Changed _ \<Rightarrow> True | _ \<Rightarrow> False)"

definition interrupts :: "journal_event \<Rightarrow> bool" where
  "interrupts ev = (case ev of Interrupted _ \<Rightarrow> True | _ \<Rightarrow> False)"

lemma journal_ends_interrupted_iff:
  "journal_ends_interrupted evs \<longleftrightarrow>
    (\<exists>xs ev ys. evs = xs @ ev # ys \<and> interrupts ev \<and> \<not> list_ex lifecycle_event xs)"
proof (induction evs)
  case (Cons e evs)
  have "(\<exists>xs ev ys. e # evs = xs @ ev # ys \<and> interrupts ev \<and> \<not> list_ex lifecycle_event xs) \<longleftrightarrow>
      interrupts e \<or> (\<not> lifecycle_event e \<and> (\<exists>xs ev ys. evs = xs @ ev # ys \<and> interrupts ev \<and> \<not> list_ex lifecycle_event xs))"
    (is "?L = ?R")
  proof
    show "?L \<Longrightarrow> ?R" by (auto simp: Cons_eq_append_conv) blast
    assume ?R
    then consider "interrupts e" | xs ev ys where "\<not> lifecycle_event e" "evs = xs @ ev # ys" "interrupts ev"
      "\<not> list_ex lifecycle_event xs" by blast
    then show ?L
    proof cases
      case 1
      then show ?thesis by (intro exI[of _ "[]"]) simp
    next
      case (2 xs ev ys)
      then show ?thesis by (intro exI[of _ "e # xs"] exI[of _ ev] exI[of _ ys]) simp
    qed
  qed
  moreover have "journal_ends_interrupted (e # evs) \<longleftrightarrow> interrupts e \<or> (\<not> lifecycle_event e \<and> journal_ends_interrupted evs)"
    by (cases e) (simp_all add: interrupts_def lifecycle_event_def)
  ultimately show ?case using Cons by blast
qed simp

definition unresolved_events :: "node_event list \<Rightarrow> bool" where
  "unresolved_events es \<longleftrightarrow> es \<noteq> [] \<and> last es \<in> {NE_Intent, NE_Observed, NE_Task}"

definition open_events :: "node_event list \<Rightarrow> bool" where
  "open_events es \<longleftrightarrow> es = [] \<or> last es \<in> {NE_Progressed, NE_Replay}"

lemma position_of_events:
  assumes "node_run es (s, c)"
  shows "unresolved_attempt s \<longleftrightarrow> unresolved_events es" "s = Node_Pending \<longleftrightarrow> open_events es"
proof -
  have "(unresolved_attempt s \<longleftrightarrow> unresolved_events es) \<and> (s = Node_Pending \<longleftrightarrow> open_events es)"
  proof (cases s)
    case Node_Observed
    then show ?thesis using assms run_observed[of es] run_task_completed[of es]
      by (cases c) (auto simp: unresolved_attempt_def unresolved_events_def open_events_def)
  qed (use assms run_pending[of es c] run_attempting[of es c] run_completed[of es c] run_skipped[of es c] in
    \<open>auto simp: unresolved_attempt_def unresolved_events_def open_events_def\<close>)
  then show "unresolved_attempt s \<longleftrightarrow> unresolved_events es" "s = Node_Pending \<longleftrightarrow> open_events es" by blast+
qed

lemma resume_allowed_iff:
  "derive_resume_eligibility t c i u ns = Resume_Allowed ids \<longleftrightarrow> \<not> t \<and> \<not> c \<and> i \<and> \<not> u \<and>
    ids = map (\<lambda>(n, _). sn_node_id n) (List.filter (\<lambda>(_, s). s = Node_Pending) ns)"
  by (auto simp: derive_resume_eligibility_def)

lemma pending_ids:
  assumes "keyed ns"
  shows "map (\<lambda>(n, _). sn_node_id n) (List.filter (\<lambda>(_, s). s = Node_Pending) (map (\<lambda>(_, n). (rn_node n, rn_state n)) ns)) =
    map fst (List.filter (\<lambda>(_, n). rn_state n = Node_Pending) ns)"
proof -
  have "\<forall>x \<in> set ns. sn_node_id (rn_node (snd x)) = fst x" using assms by (auto simp: keyed_def)
  then show ?thesis by (induction ns) auto
qed


end
