(* ===== verification/Recovery_Enqueue.thy ===== *)
theory Recovery_Enqueue
  imports Recovery_Crash
begin

text \<open>
  The writer and the reader of a node fit: what \<open>enqueueDurableNode\<close> leaves in the journal
  and the spool for a node made by \<open>createScrapeNode\<close> is what recovery turns back into
  that node, waiting for its first attempt.
\<close>

section \<open>Reading a node back\<close>

definition node_ids_ok :: "hash \<Rightarrow> string \<Rightarrow> scrape_node \<Rightarrow> bool" where
  "node_ids_ok sha rid n \<longleftrightarrow> create_run_node_id sha rid (sn_logical_key n) = Inr (sn_node_id n) \<and>
     is_prefixed_hex ''node_v1_'' (sn_node_id n) \<and> is_stable_identifier (sn_task_kind_id n) \<and>
     is_stable_identifier (sn_capability n) \<and> sn_depth n \<le> 3 \<and> sn_pages_started_in_chain n \<le> 1000 \<and>
     sn_seen_input_digests n \<noteq> [] \<and> length (sn_seen_input_digests n) \<le> 1000 \<and>
     distinct (sn_seen_input_digests n) \<and> list_all is_sha256_digest (sn_seen_input_digests n)"

lemma assert_depth_mono:
  "assert_json_value_at m d v = Inr () \<Longrightarrow> m \<le> m' \<Longrightarrow> d' \<le> d \<Longrightarrow> assert_json_value_at m' d' v = Inr ()"
proof (induction v arbitrary: d d' rule: json.induct)
  case (JArr xs)
  then have "\<forall>x \<in> set xs. assert_json_value_at m' (Suc d') x = Inr ()"
    by (auto simp: ensureR_Inr_iff bindR_Inr_iff mapR_unit)
  moreover have "d' \<le> m'" using JArr.prems by (auto simp: ensureR_Inr_iff)
  ultimately show ?case by (simp add: ensureR_Inr_iff bindR_Inr_iff mapR_unit_iff[of _ _ True, simplified])
next
  case (JObj kvs)
  then have "\<forall>x \<in> set kvs. assert_json_value_at m' (Suc d') (snd x) = Inr ()"
    by (fastforce simp: ensureR_Inr_iff bindR_Inr_iff mapR_unit snds.simps)
  moreover have "d' \<le> m'" using JObj.prems by (auto simp: ensureR_Inr_iff)
  ultimately show ?case by (simp add: ensureR_Inr_iff bindR_Inr_iff mapR_unit_iff[of _ _ True, simplified])
qed (auto simp: ensureR_Inr_iff)

lemma parse_digest_list: "list_all is_sha256_digest ds \<Longrightarrow> mapR parse_sha256_digest (map JStr ds) = Inr ds"
  by (induction ds) (auto simp: bindR_Inr_iff parse_sha256_digest_Inr)

lemma parse_input_digests_list:
  "list_all is_sha256_digest ds \<Longrightarrow> ds \<noteq> [] \<Longrightarrow> length ds \<le> 1000 \<Longrightarrow> distinct ds \<Longrightarrow>
    parse_input_digests (JArr (map JStr ds)) = Inr ds"
  by (simp add: parse_input_digests_def parse_digest_list ensureR_def)

lemma parse_durable_node_value:
  assumes "node_wf n" "node_depth_ok n" "node_ids_ok sha rid n"
  shows "parse_durable_node sha rid (scrape_node_value n) = Inr n"
proof -
  have d: "assert_json_value 12 (sn_logical_key n) = Inr ()" "assert_json_value 12 (sn_input n) = Inr ()"
    using assms(2) assert_depth_mono[of 11 0 _ 12 0] by (simp_all add: node_depth_ok_def assert_json_value_def)
  have "parse_input_digests (JArr (map JStr (sn_seen_input_digests n))) = Inr (sn_seen_input_digests n)"
    using assms(3) by (simp add: node_ids_ok_def parse_input_digests_list)
  moreover have "parse_nullable_with parse_count (option_json num_json (sn_seed_ordinal n)) = Inr (sn_seed_ordinal n)"
    using assms(1) by (simp add: node_wf_def count_ok_def parse_nullable_num split: option.splits)
  ultimately show ?thesis
    using assms d by (cases n)
      (simp add: parse_durable_node_def scrape_node_value_def object_read res_elims node_ids_ok_def node_wf_def
        count_ok_def parse_integer_num_json)
qed

section \<open>A node of \<open>createScrapeNode\<close>\<close>

lemma created_node_ids:
  assumes "sha_ok sha" "create_scrape_node sha rid key ordinal seed = Inr n"
    and "is_stable_identifier (ns_task_kind_id seed)" "is_stable_identifier (ns_capability seed)" "ns_depth seed \<le> 3"
  shows "node_ids_ok sha rid n"
proof -
  from assms(2) obtain i g t where n: "create_run_node_id sha rid key = Inr i" "g = sha t"
    "n = \<lparr>sn_node_id = i, sn_logical_key = key, sn_task_kind_id = ns_task_kind_id seed,
      sn_capability = ns_capability seed, sn_input = ns_input seed, sn_root_ordinal = ns_root_ordinal seed,
      sn_seed_ordinal = ns_seed_ordinal seed, sn_depth = ns_depth seed, sn_output_ordinal = ordinal,
      sn_seen_input_digests = [g], sn_pages_started_in_chain = 0\<rparr>"
    by (auto simp: create_scrape_node_def canonical_json_digest_def bindR_Inr_iff)
  have h: "length (sha x) = 64 \<and> list_all is_lower_hex (sha x)" for x
    using assms(1) by (simp add: sha_ok_def is_sha256_digest_def)
  from n(1) obtain x where "i = ''node_v1_'' @ take 32 (sha x)" by (auto simp: create_run_node_id_def bindR_Inr_iff)
  then have "is_prefixed_hex ''node_v1_'' i"
    using h[of x] by (auto simp: is_prefixed_hex_def list_all_iff dest: in_set_takeD)
  then show ?thesis using n assms by (simp add: node_ids_ok_def sha_ok_def)
qed


end
