(* ===== verification/Recovery_Examples.thy ===== *)
theory Recovery_Examples
  imports Recovery_Nodes Recovery_Enqueue
begin

text \<open>
  Concrete journals and spools that recover: a run that took one node from its attempt to
  its completion with one item and wrote a file, and a run that was interrupted before its
  first attempt.
\<close>

definition at_epoch :: "int \<Rightarrow> journal_event \<Rightarrow> frame_body" where
  "at_epoch e ev = \<lparr>fb_run_id = example_run, fb_sequence = 1, fb_execution_epoch = e, fb_previous = None, fb_event = ev\<rparr>"

definition listing_id :: string where
  "listing_id = sn_node_id listing_node"

definition example_position :: logical_order where
  "example_position = \<lparr>node_ordinal = 0, page_ordinal = 0, item_ordinal = 0\<rparr>"

definition example_data :: blob_ref where
  "example_data = \<lparr>br_offset = 364, br_length = 2, br_sha256 = zero_sha []\<rparr>"

definition example_spool :: string where
  "example_spool = (case canonical_json (scrape_node_value listing_node) of Inr t \<Rightarrow> t | Inl _ \<Rightarrow> [])"

definition example_result :: terminal_descriptor where
  "example_result = \<lparr>td_result_kind = Scrape_Outcome, td_stop = Source_Exhausted, td_summary = zero_summary,
     td_output = Output_File ''out.json'' Format_Json False\<rparr>"

definition example_output :: prepared_output where
  "example_output = \<lparr>po_path_digest = zero_sha [], po_content_digest = zero_sha [], po_byte_length = 4,
     po_descriptor = example_result, po_descriptor_digest = zero_sha []\<rparr>"

definition attempt_bodies :: "frame_body list" where
  "attempt_bodies = [at_epoch 0 (Run_Created (zero_sha []) None), at_epoch 1 (State_Changed (State_Running 1)),
     at_epoch 1 listing_event, at_epoch 1 (Attempt_Intent listing_id ''page''),
     at_epoch 1 (Attempt_Observed listing_id ''page'' Observed_Outcome 1),
     at_epoch 1 (Item_Buffered listing_id (zero_sha []) example_data example_position),
     at_epoch 1 (Task_Completed listing_id ''page''),
     at_epoch 1 (Item_Committed listing_id (zero_sha []) example_position 1),
     at_epoch 1 (Node_Completed listing_id), at_epoch 1 (Output_Prepared example_output),
     at_epoch 1 (Output_Committed (zero_sha []) 4 (zero_sha [])), at_epoch 1 (Terminal example_result (zero_sha []))]"

text \<open>The node is read from the spool and parses; its logical key has a digest.\<close>

definition listing_ref :: blob_ref where
  "listing_ref = \<lparr>br_offset = 0, br_length = 364, br_sha256 = zero_sha []\<rparr>"

lemma listing_ok: "node_wf listing_node" "node_depth_ok listing_node" "node_ids_ok zero_sha example_run listing_node"
proof -
  have "create_run_node_id zero_sha example_run (sn_logical_key listing_node) = Inr (sn_node_id listing_node)"
    using canonical_json_total[of "sn_logical_key listing_node"]
    by (auto simp: create_run_node_id_def zero_sha_def listing_node_def assert_json_value_def)
  moreover have "is_stable_identifier ''page''" "is_stable_identifier ''list''" by code_simp+
  moreover have "is_sha256_digest (zero_sha [])" using zero_sha_ok by (simp add: sha_ok_def)
  ultimately show "node_ids_ok zero_sha example_run listing_node"
    by (simp add: node_ids_ok_def listing_node_def is_prefixed_hex_def list_all_iff is_lower_hex_def is_digit_def)
qed (simp_all add: node_wf_def node_depth_ok_def listing_node_def count_ok_def max_safe_integer_def assert_json_value_def)

lemma listing_blob: "append_data_blob zero_sha [] (scrape_node_value listing_node) 1000 = Inr (example_spool, listing_ref)"
  using listing_node_text
  by (auto simp: append_data_blob_def example_spool_def listing_ref_def max_safe_integer_def zero_sha_def ensureR_def split: sum.splits)

lemma listing_reads: "read_data_blob zero_sha example_spool listing_ref = Inr (scrape_node_value listing_node)"
  using read_appended_blob[OF zero_sha_ok node_json_wf[OF listing_ok(1)] node_depth[OF listing_ok(2)] listing_blob, of "[]"]
    canon_node[OF listing_ok(1)] by simp

lemma listing_parses: "parse_durable_node zero_sha example_run (scrape_node_value listing_node) = Inr listing_node"
  by (rule parse_durable_node_value[OF listing_ok])

lemma listing_key: "canonical_json_digest zero_sha (sn_logical_key listing_node) = Inr (zero_sha [])"
  using canonical_json_total[of "sn_logical_key listing_node"]
  by (auto simp: canonical_json_digest_def zero_sha_def listing_node_def assert_json_value_def)

lemma listing_recovers:
  "recover_event zero_sha example_run example_spool i (at_epoch e listing_event) st =
    require (\<not> has_key (rs_nodes st) listing_id) (STR ''node is enqueued more than once'')
     (require (0 \<notin> set (rs_ordinals st)) (STR ''node output ordinal is enqueued more than once'')
       (Inr (add_node listing_node (add_reference listing_ref st))))"
  using listing_reads listing_parses listing_key
  by (simp add: recover_event_def at_epoch_def listing_event_def recover_enqueued_node_def listing_ref_def[symmetric]
    listing_id_def require_def ensureR_def) (simp add: listing_node_def)

lemma at_epoch [simp]: "fb_event (at_epoch e ev) = ev" "fb_execution_epoch (at_epoch e ev) = e"
  by (simp_all add: at_epoch_def)

text \<open>The state of the example after each frame: what changes is the node, the item and the output.\<close>

definition attempt_state :: "node_state \<Rightarrow> bool \<Rightarrow> run_summary \<Rightarrow> recovery_state" where
  "attempt_state s c k = \<lparr>rs_nodes = [(listing_id, \<lparr>rn_node = listing_node, rn_state = s, rn_task_completed = c\<rparr>)],
     rs_references = [listing_ref], rs_buffered = [], rs_committed = [], rs_summary = k,
     rs_item_sequence = 0, rs_last_order = None, rs_ordinals = [0], rs_sink = None, rs_output = None,
     rs_terminal = False, rs_cancelled = False, rs_epoch = 1\<rparr>"

lemmas example_steps = recover_frame_def advance_execution_epoch_def advance_output_finalization_def require_def
  ensureR_def Let_def recover_event_def recover_ops advance_node_def accountable_def matches_buffer_def

lemma listing_task: "sn_task_kind_id listing_node = ''page''" "sn_output_ordinal listing_node = 0"
  by (simp_all add: listing_node_def)

abbreviation rec :: "recovery_state \<Rightarrow> nat \<times> frame_body \<Rightarrow> exn + recovery_state" where
  "rec \<equiv> recover_frame zero_sha example_run example_spool"

lemma attempt_enqueue: "rec (initial_recovery_state\<lparr>rs_epoch := 1\<rparr>) (2, at_epoch 1 listing_event) =
    Inr (attempt_state Node_Pending False zero_summary)"
proof -
  let ?s = "initial_recovery_state\<lparr>rs_epoch := 1\<rparr>"
  have "?s\<lparr>rs_epoch := 1, rs_output := None\<rparr> = ?s" by (simp add: initial_recovery_state_def)
  then have "rec ?s (2, at_epoch 1 listing_event) = recover_event zero_sha example_run example_spool 2 (at_epoch 1 listing_event) ?s"
    by (simp add: recover_frame_def advance_execution_epoch_def advance_output_finalization_def require_def ensureR_def
      listing_event_def initial_recovery_state_def)
  also have "\<dots> = Inr (attempt_state Node_Pending False zero_summary)"
    unfolding listing_recovers
    by (simp add: initial_recovery_state_def attempt_state_def add_node_def add_reference_def put_node_def set_add_def
      require_def ensureR_def has_key_def fresh_node_def listing_task) (simp add: listing_id_def)
  finally show ?thesis .
qed

abbreviation observed_summary :: run_summary where
  "observed_summary \<equiv> zero_summary\<lparr>target_requests := 1\<rparr>"

lemma attempt_opening:
  "rec initial_recovery_state (0, at_epoch 0 (Run_Created (zero_sha []) None)) = Inr initial_recovery_state"
  "rec initial_recovery_state (Suc 0, at_epoch 1 (State_Changed (State_Running 1))) =
     Inr (initial_recovery_state\<lparr>rs_epoch := 1\<rparr>)"
  by (simp_all add: example_steps initial_recovery_state_def)

lemma attempt_middle:
  "rec (attempt_state Node_Pending False zero_summary) (i, at_epoch 1 (Attempt_Intent listing_id ''page'')) =
     Inr (attempt_state Node_Attempting False zero_summary)"
  "rec (attempt_state Node_Attempting False zero_summary) (i, at_epoch 1 (Attempt_Observed listing_id ''page'' Observed_Outcome 1)) =
     Inr (attempt_state Node_Observed False observed_summary)"
  by (simp_all add: example_steps attempt_state_def listing_task zero_summary_def)

definition buffered_state :: "bool \<Rightarrow> run_summary \<Rightarrow> recovery_state" where
  "buffered_state c k = (attempt_state Node_Observed c k)\<lparr>rs_references := [listing_ref, example_data],
     rs_buffered := [(case item_logical_order_key example_position of Inr t \<Rightarrow> t | Inl _ \<Rightarrow> [],
       \<lparr>bp_node_id = listing_id, bp_identity_digest = zero_sha [], bp_logical_order = example_position\<rparr>)]\<rparr>"

lemma example_order: "\<exists>t. item_logical_order_key example_position = Inr t"
proof -
  have "case item_logical_order_key example_position of Inr t \<Rightarrow> True | Inl _ \<Rightarrow> False" by code_simp
  then show ?thesis by (auto split: sum.splits)
qed

definition committed_state :: "node_state \<Rightarrow> recovery_state" where
  "committed_state s = (attempt_state s True (observed_summary\<lparr>tasks_completed := 1, items_emitted := 1\<rparr>))
     \<lparr>rs_references := [listing_ref, example_data], rs_committed := [zero_sha []], rs_item_sequence := 1,
      rs_last_order := Some example_position\<rparr>"

lemma attempt_items:
  "rec (attempt_state Node_Observed False observed_summary)
     (i, at_epoch 1 (Item_Buffered listing_id (zero_sha []) example_data example_position)) =
     Inr (buffered_state False observed_summary)"
  "rec (buffered_state False observed_summary) (i, at_epoch 1 (Task_Completed listing_id ''page'')) =
     Inr (buffered_state True (observed_summary\<lparr>tasks_completed := 1\<rparr>))"
  "rec (buffered_state True (observed_summary\<lparr>tasks_completed := 1\<rparr>))
     (i, at_epoch 1 (Item_Committed listing_id (zero_sha []) example_position 1)) = Inr (committed_state Node_Observed)"
  "rec (committed_state Node_Observed) (i, at_epoch 1 (Node_Completed listing_id)) = Inr (committed_state Node_State_Completed)"
  using example_order
  by (auto simp: example_steps attempt_state_def buffered_state_def committed_state_def listing_task zero_summary_def
    example_position_def has_key_def set_add_def)

definition output_state :: "bool \<Rightarrow> bool \<Rightarrow> recovery_state" where
  "output_state c t = (committed_state Node_State_Completed)\<lparr>rs_output := Some (example_output, c), rs_terminal := t\<rparr>"

lemma attempt_ending:
  "rec (committed_state Node_State_Completed) (i, at_epoch 1 (Output_Prepared example_output)) = Inr (output_state False False)"
  "rec (output_state False False) (i, at_epoch 1 (Output_Committed (zero_sha []) 4 (zero_sha []))) = Inr (output_state True False)"
  "rec (output_state True False) (i, at_epoch 1 (Terminal example_result (zero_sha []))) = Inr (output_state True True)"
  by (simp_all add: example_steps output_state_def committed_state_def attempt_state_def example_output_def
    example_result_def zero_sha_def)

lemma attempt_bodies_recover:
  "recover_frames zero_sha example_run example_spool attempt_bodies = Inr (output_state True True)"
  using attempt_enqueue
  by (simp add: recover_frames_def attempt_bodies_def recover_initial_nodes_def require_def ensureR_def upt_rec
    attempt_opening attempt_middle attempt_items attempt_ending eval_nat_numeral)

lemma attempt_recovers:
  obtains st n where "recover_frames zero_sha example_run example_spool attempt_bodies = Inr st"
    "rs_committed st = [zero_sha []]" "map_of (rs_nodes st) listing_id = Some n" "rn_state n = Node_State_Completed"
    "rs_terminal st"
proof -
  show ?thesis
    by (rule that[OF attempt_bodies_recover, of "\<lparr>rn_node = listing_node, rn_state = Node_State_Completed, rn_task_completed = True\<rparr>"])
      (simp_all add: output_state_def committed_state_def attempt_state_def)
qed

theorem commits_once_in_order_witness:
  "\<exists>st. recover_frames zero_sha example_run example_spool attempt_bodies = Inr st \<and>
    rs_committed st = [zero_sha []] \<and>
    map (\<lambda>(n, d, p, q). q) (commits attempt_bodies) = map (\<lambda>k. int k + 1) [0..<length (commits attempt_bodies)]"
proof -
  obtain st where st: "recover_frames zero_sha example_run example_spool attempt_bodies = Inr st"
    "rs_committed st = [zero_sha []]" using attempt_recovers by metis
  then show ?thesis using commits_once_in_order[OF st(1)] by blast
qed

theorem recovered_counters_match_events_witness:
  "\<exists>st. recover_frames zero_sha example_run example_spool attempt_bodies = Inr st \<and> rs_summary st = tally attempt_bodies \<and>
    rs_terminal st"
proof -
  obtain st where st: "recover_frames zero_sha example_run example_spool attempt_bodies = Inr st" "rs_terminal st"
    using attempt_recovers by metis
  then show ?thesis using recovered_counters_match_events[OF st(1)] by blast
qed

theorem file_result_was_prepared_witness:
  "\<exists>p xs ys. map fb_event attempt_bodies = xs @ Output_Prepared p # ys @ [Terminal example_result (zero_sha [])]"
proof -
  obtain st where st: "recover_frames zero_sha example_run example_spool attempt_bodies = Inr st"
    using attempt_recovers by metis
  have "at_epoch 1 (Terminal example_result (zero_sha [])) \<in> set attempt_bodies" by (simp add: attempt_bodies_def)
  moreover have "fb_event (at_epoch 1 (Terminal example_result (zero_sha []))) = Terminal example_result (zero_sha [])"
    "td_output example_result = Output_File ''out.json'' Format_Json False"
    by (simp_all add: at_epoch_def example_result_def)
  ultimately show ?thesis using file_result_was_prepared[OF st] by metis
qed

theorem nodes_follow_attempt_automaton_witness:
  "\<exists>ds. node_events listing_id attempt_bodies = ds @ [NE_Intent, NE_Observed, NE_Task, NE_Completed]"
proof -
  obtain st n where st: "recover_frames zero_sha example_run example_spool attempt_bodies = Inr st"
    "map_of (rs_nodes st) listing_id = Some n" "rn_state n = Node_State_Completed" using attempt_recovers by metis
  then show ?thesis using nodes_follow_attempt_automaton[OF st(1,2)] by blast
qed

section \<open>An interrupted run\<close>

definition created_event :: journal_event where
  "created_event = Run_Created (zero_sha []) (Some [\<lparr>br_offset = 0, br_length = 364, br_sha256 = zero_sha []\<rparr>])"

definition interrupted_body :: frame_body where
  "interrupted_body = (at_epoch 0 (Interrupted Daemon_Crash))\<lparr>fb_sequence := 2, fb_previous := Some (zero_sha [])\<rparr>"

lemma interrupted_texts:
  "case canonical_json (frame_json (at_epoch 0 created_event)) of Inr t \<Rightarrow> length t < 900 | Inl _ \<Rightarrow> False"
  "case canonical_json (frame_json interrupted_body) of Inr t \<Rightarrow> length t < 900 | Inl _ \<Rightarrow> False"
  by code_simp+

lemma interrupted_parse:
  "parse_journal_frame_body zero_sha (frame_json (at_epoch 0 created_event)) = Inr (at_epoch 0 created_event)"
  "parse_journal_frame_body zero_sha (frame_json interrupted_body) = Inr interrupted_body"
  using parse_names(6)[of Daemon_Crash]
  by (simp_all add: has_key_def at_epoch_def created_event_def interrupted_body_def frame_json_def parse_journal_frame_body_def
    object_read parts_json parse_journal_event_def read_record_kind_def event_parsers parse_nullable_with_def
    option_json_def example_run_def is_prefixed_hex_def max_safe_integer_def list_all_iff is_lower_hex_def
    is_digit_def num_json_def blob_ok_def is_sha256_digest_def zero_sha_def)

lemma example_append_frame:
  assumes "recover_journal_file zero_sha (Some example_run) f = (f, Inr frames)" "length (file_bytes f) < 2000"
    and "parse_journal_frame_body zero_sha (frame_json b) = Inr b"
    and "case canonical_json (frame_json b) of Inr t \<Rightarrow> length t < 900 | Inl _ \<Rightarrow> False"
    and "fb_run_id b = example_run" "fb_sequence b = int (length frames) + 1"
    and "fb_previous b = map_option jf_digest (last_frame frames)" "length frames < 5"
  obtains bytes fr where "append_journal_frame zero_sha f b 9000 (Some 10) 0 = (Some bytes, Inr fr)"
    "jf_body fr = b" "jf_digest fr = zero_sha []" "length (file_bytes f) + 36 \<le> length bytes" "length bytes < length (file_bytes f) + 1000"
    "recover_journal_file zero_sha (Some example_run) (Some bytes) = (Some bytes, Inr (frames @ [fr]))"
proof -
  from assms(4) obtain t where t: "canonical_json (frame_json b) = Inr t" "length t < 900"
    by (cases "canonical_json (frame_json b)") auto
  have enc: "encode_journal_frame zero_sha b = Inr (be32 (length t) @ t @ unhex (zero_sha t))"
    using t assms(3) by (simp add: encode_journal_frame_def max_frame_body_bytes_def)
  have u: "length (unhex (zero_sha t)) = 32" using sha_hex[OF zero_sha_ok] by simp
  have s: "fb_sequence b = (case last_frame frames of None \<Rightarrow> 0 | Some p \<Rightarrow> fb_sequence (jf_body p)) + 1"
    using last_frame_sequence(1)[OF read_frames_chain[OF recover_reads[OF assms(1)]]] assms(6) by simp
  from assms t enc u s obtain fr where fr: "frame_to_append zero_sha frames (length (file_bytes f)) b 9000 (Some 10) 0 =
      Inr (be32 (length t) @ t @ unhex (zero_sha t), fr)" "jf_body fr = b" "jf_digest fr = zero_sha []"
    by (auto simp: frame_to_append_def safe_int_def max_safe_integer_def zero_sha_def)
  have r: "recover_journal_file zero_sha (Some (fb_run_id b)) f = (f, Inr frames)" using assms(1,5) by simp
  have "read_frames zero_sha (Some example_run) 0 1 None (file_bytes f @ be32 (length t) @ t @ unhex (zero_sha t)) =
      Inr (frames @ [fr], None)"
    using appended_frame_reads(1)[OF zero_sha_ok r fr(1)] assms(5) by simp
  from recover_whole[OF this] show ?thesis
    using that[of "file_bytes f @ be32 (length t) @ t @ unhex (zero_sha t)" fr] fr u t(2) r assms(5)
    by (simp add: append_journal_frame_def)
qed

lemma created_journal:
  obtains bytes fr where "recover_journal_file zero_sha (Some example_run) (Some bytes) = (Some bytes, Inr [fr])"
    "jf_body fr = at_epoch 0 created_event" "jf_digest fr = zero_sha []" "length bytes < 1000"
proof -
  have "recover_journal_file zero_sha (Some example_run) None = (None, Inr [])" by (simp add: recover_journal_file_def)
  from example_append_frame[OF this _ interrupted_parse(1) interrupted_texts(1)] that show ?thesis
    by (auto simp: file_bytes_def at_epoch_def last_frame_def)
qed

lemma created_frames:
  assumes "jf_body fr = at_epoch 0 created_event"
  shows "recover_frames zero_sha example_run example_spool (map jf_body [fr]) =
    Inr (attempt_state Node_Pending False zero_summary\<lparr>rs_epoch := 0\<rparr>)"
proof -
  have key: "parse_exact_record [''kind'', ''root_ordinal'', ''seed_ordinal''] (sn_logical_key listing_node) =
      Inr [(''kind'', JStr ''root''), (''root_ordinal'', JNum (NInt 0)), (''seed_ordinal'', JNull)]"
    by (simp add: listing_node_def parse_exact_record_obj)
  have "sn_depth listing_node = 0" "sn_root_ordinal listing_node = 0" "sn_seed_ordinal listing_node = None"
    by (simp_all add: listing_node_def)
  then show ?thesis using assms listing_reads listing_parses key
    by (simp add: recover_frames_def created_event_def recover_initial_nodes_def recover_initial_node_def
      listing_ref_def[symmetric] fld_def num_json_def option_json_def listing_task example_steps
      initial_recovery_state_def attempt_state_def set_add_def has_key_def fresh_node_def listing_id_def)
qed

lemma created_spool:
  "validate_spool_prefix zero_sha example_spool (rs_references (attempt_state Node_Pending False zero_summary\<lparr>rs_epoch := 0\<rparr>)) =
    Inr example_spool"
proof -
  have "length example_spool = 364" using append_data_blob_Inr[OF listing_blob] by (auto simp: listing_ref_def)
  then show ?thesis using listing_reads by (auto simp: validate_spool_prefix_Inr attempt_state_def listing_ref_def)
qed

lemma created_run:
  obtains bytes fr where "recover_journal_file zero_sha (Some example_run) (Some bytes) = (Some bytes, Inr [fr])"
    "jf_body fr = at_epoch 0 created_event" "jf_digest fr = zero_sha []" "length bytes < 1000"
    "recover_run_state zero_sha example_run (Some bytes) example_spool =
      ((Some bytes, example_spool), Inr (recovered_run_of example_run [fr] (attempt_state Node_Pending False zero_summary\<lparr>rs_epoch := 0\<rparr>)))"
proof -
  obtain bytes fr where j: "recover_journal_file zero_sha (Some example_run) (Some bytes) = (Some bytes, Inr [fr])"
    "jf_body fr = at_epoch 0 created_event" "jf_digest fr = zero_sha []" "length bytes < 1000" by (rule created_journal)
  show ?thesis using that[OF j] j(1) created_frames[OF j(2)] created_spool recover_run_state_Inr by blast
qed

theorem crash_debris_is_invisible_witness:
  "\<exists>bytes kept run torn. recover_run_state zero_sha example_run (Some bytes) example_spool = ((Some bytes, kept), Inr run) \<and>
    length bytes < length torn \<and>
    recover_run_state zero_sha example_run (Some torn) (example_spool @ ''x'') = ((Some bytes, kept), Inr run)"
proof -
  obtain bytes fr run where c: "recover_journal_file zero_sha (Some example_run) (Some bytes) = (Some bytes, Inr [fr])"
    "jf_digest fr = zero_sha []" "length bytes < 1000"
    "recover_run_state zero_sha example_run (Some bytes) example_spool = ((Some bytes, example_spool), Inr run)"
    using created_run by metis
  obtain bytes' fr' where a: "append_journal_frame zero_sha (Some bytes) interrupted_body 9000 (Some 10) 0 = (Some bytes', Inr fr')"
    "Suc (length bytes) < length bytes'"
    by (rule example_append_frame[OF c(1) _ interrupted_parse(2) interrupted_texts(2)])
      (use c in \<open>auto simp: interrupted_body_def at_epoch_def last_frame_def file_bytes_def\<close>)
  have "fb_run_id interrupted_body = example_run" by (simp add: interrupted_body_def at_epoch_def)
  then show ?thesis
    using crash_debris_is_invisible[OF zero_sha_ok c(4) a(1), of "Suc (length bytes)" "''x''"] c(4) a(2)
    by (intro exI[of _ bytes] exI[of _ example_spool] exI[of _ run] exI[of _ "take (Suc (length bytes)) bytes'"]) auto
qed



end
