(* ===== verification/Workload_Queue.thy ===== *)
theory Workload_Queue
  imports Klura_Prelude
begin

text \<open>
  The queues of one origin and their round robin: \<open>enqueue\<close>, \<open>dequeueRoundRobin\<close>,
  \<open>removeQueued\<close>, \<open>removeWorkload\<close>, \<open>queuedAdmissions\<close> and \<open>queuedCount\<close> of
  \<open>src/src/execution/origin-scheduler.ts\<close>.

  A queued admission is the pair of its workload and a number that identifies it (the
  object the code keeps, compared by identity). The abstract view of the three fields is
  the list of waiting workloads in the order they are served, \<open>service_order\<close>. The
  interface \<open>request_queue\<close> is what admission relies on; it is interpreted on the code.
\<close>

section \<open>The interface\<close>

fun take_many :: "('q \<Rightarrow> 'r option \<times> 'q) \<Rightarrow> nat \<Rightarrow> 'q \<Rightarrow> 'r list \<times> 'q" where
  "take_many nxt 0 q = ([], q)"
| "take_many nxt (Suc n) q =
     (case nxt q of
        (None, q') \<Rightarrow> ([], q')
      | (Some r, q') \<Rightarrow> (case take_many nxt n q' of (rs, q'') \<Rightarrow> (r # rs, q'')))"

locale request_queue =
  fixes inv :: "'q \<Rightarrow> bool"
    and pending :: "'q \<Rightarrow> 'r multiset"
    and valid :: "'r \<Rightarrow> bool"
    and put :: "'r \<Rightarrow> 'q \<Rightarrow> 'q"
    and take_next :: "'q \<Rightarrow> 'r option \<times> 'q"
    and drop_one :: "'r \<Rightarrow> 'q \<Rightarrow> 'q"
  assumes put_law: "inv q \<Longrightarrow> valid r \<Longrightarrow> inv (put r q) \<and> pending (put r q) = add_mset r (pending q)"
    and take_empty: "inv q \<Longrightarrow> pending q = {#} \<Longrightarrow> take_next q = (None, q)"
    and take_some: "inv q \<Longrightarrow> pending q \<noteq> {#} \<Longrightarrow>
      \<exists>r q'. take_next q = (Some r, q') \<and> inv q' \<and> pending q = add_mset r (pending q')"
    and drop_law: "inv q \<Longrightarrow> inv (drop_one r q) \<and> pending (drop_one r q) = pending q - {#r#}"
begin

text \<open>Taking loses nothing, invents nothing, and stops only on an empty queue.\<close>

lemma take_many_conserves:
  "inv q \<Longrightarrow> take_many take_next n q = (rs, q') \<Longrightarrow>
    inv q' \<and> pending q = mset rs + pending q' \<and> length rs = min n (size (pending q))"
proof (induction n arbitrary: q rs q')
  case (Suc n)
  show ?case
  proof (cases "pending q = {#}")
    case True
    then have "take_next q = (None, q)" using Suc.prems(1) take_empty by blast
    then have "rs = []" "q' = q" using Suc.prems(2) by simp_all
    then show ?thesis using Suc.prems(1) True by simp
  next
    case False
    from take_some[OF Suc.prems(1) this] obtain r q1 where
      q1: "take_next q = (Some r, q1)" "inv q1" "pending q = add_mset r (pending q1)" by blast
    obtain ss q2 where m: "take_many take_next n q1 = (ss, q2)" by fastforce
    then have r: "rs = r # ss" "q' = q2" using Suc.prems(2) q1(1) by simp_all
    from Suc.IH[OF q1(2) m] have i: "inv q2" "pending q1 = mset ss + pending q2"
      and l: "length ss = min n (size (pending q1))" by blast+
    have "length rs = min (Suc n) (size (pending q))"
      by (simp only: r q1(3) length_Cons size_add_mset l min_Suc_Suc)
    then show ?thesis using i by (simp add: r q1(3))
  qed
qed simp

lemma drop_many:
  "inv q \<Longrightarrow> inv (fold drop_one rs q) \<and> pending (fold drop_one rs q) = pending q - mset rs"
proof (induction rs arbitrary: q)
  case (Cons r rs)
  then show ?case using drop_law[of q r] by simp
qed simp

end

section \<open>The code\<close>

record workload_queues =
  queues :: "(string \<times> nat list) list"
  workload_order :: "string list"
  next_workload_index :: nat

definition empty_queues :: workload_queues where
  "empty_queues = \<lparr>queues = [], workload_order = [], next_workload_index = 0\<rparr>"

type_synonym admission = "string \<times> nat"

definition queued_admissions :: "workload_queues \<Rightarrow> admission list" where
  "queued_admissions q = concat (map (\<lambda>(w, ids). map (Pair w) ids) (queues q))"

definition queued_count :: "workload_queues \<Rightarrow> nat" where
  "queued_count q = sum_list (map (\<lambda>(w, ids). length ids) (queues q))"

text \<open>\<open>indexOf\<close> and \<open>splice(index, 1)\<close>.\<close>

fun index_of :: "'a \<Rightarrow> 'a list \<Rightarrow> nat option" where
  "index_of x [] = None"
| "index_of x (y # ys) = (if x = y then Some 0 else map_option Suc (index_of x ys))"

definition splice_one :: "nat \<Rightarrow> 'a list \<Rightarrow> 'a list" where
  "splice_one i xs = take i xs @ drop (Suc i) xs"

definition enqueue :: "admission \<Rightarrow> workload_queues \<Rightarrow> workload_queues" where
  "enqueue r q = (case map_of (queues q) (fst r) of
     None \<Rightarrow> q\<lparr>queues := AList.update (fst r) [snd r] (queues q),
              workload_order := workload_order q @ [fst r]\<rparr>
   | Some ids \<Rightarrow> q\<lparr>queues := AList.update (fst r) (ids @ [snd r]) (queues q)\<rparr>)"

definition remove_workload :: "string \<Rightarrow> workload_queues \<Rightarrow> workload_queues" where
  "remove_workload w q =
     (let q1 = q\<lparr>queues := AList.delete w (queues q)\<rparr> in
      case index_of w (workload_order q1) of
        None \<Rightarrow> q1
      | Some i \<Rightarrow>
          (let order = splice_one i (workload_order q1); n = next_workload_index q1 in
           if order = [] then q1\<lparr>workload_order := order, next_workload_index := 0\<rparr>
           else
             (let n1 = (if i < n then n - 1 else n);
                  n2 = (if n1 \<ge> length order then 0 else n1) in
              q1\<lparr>workload_order := order, next_workload_index := n2\<rparr>)))"

definition remove_queued :: "admission \<Rightarrow> workload_queues \<Rightarrow> workload_queues" where
  "remove_queued r q = (case map_of (queues q) (fst r) of
     None \<Rightarrow> q
   | Some ids \<Rightarrow>
       (case index_of (snd r) ids of
          None \<Rightarrow> q
        | Some i \<Rightarrow>
            (let ids' = splice_one i ids; q1 = q\<lparr>queues := AList.update (fst r) ids' (queues q)\<rparr> in
             if ids' = [] then remove_workload (fst r) q1 else q1)))"

lemma index_of_None: "index_of x xs = None \<longleftrightarrow> x \<notin> set xs"
  by (induction xs) auto

lemma index_of_append: "x \<notin> set xs \<Longrightarrow> index_of x (xs @ x # ys) = Some (length xs)"
  by (induction xs) auto

lemma splice_one_append [simp]: "splice_one (length xs) (xs @ y # ys) = xs @ ys"
  by (simp add: splice_one_def)

lemma index_of_split: "index_of x xs = Some i \<Longrightarrow> \<exists>us vs. xs = us @ x # vs \<and> length us = i \<and> x \<notin> set us"
proof (induction xs arbitrary: i)
  case (Cons y ys)
  show ?case
  proof (cases "x = y")
    case True
    with Cons.prems show ?thesis by (intro exI[of _ "[]"] exI[of _ ys]) auto
  next
    case False
    with Cons.prems obtain j where j: "index_of x ys = Some j" "i = Suc j" by auto
    from Cons.IH[OF j(1)] obtain us vs where "ys = us @ x # vs" "length us = j" "x \<notin> set us" by blast
    then show ?thesis using j(2) False by (intro exI[of _ "y # us"] exI[of _ vs]) auto
  qed
qed simp

lemma remove_workload_shorter:
  assumes "w \<in> set (workload_order q)"
  shows "length (workload_order (remove_workload w q)) < length (workload_order q)"
proof -
  obtain i where i: "index_of w (workload_order q) = Some i" using assms index_of_None by fastforce
  from index_of_split[OF this] have "length (splice_one i (workload_order q)) < length (workload_order q)"
    by (auto simp: splice_one_def)
  then show ?thesis using i by (auto simp: remove_workload_def Let_def)
qed

text \<open>
  The loop drops a workload without admissions and tries the next one; the invariant
  below never lets it meet one. An empty workload id ends it, as in the code.
\<close>

function dequeue_round_robin :: "workload_queues \<Rightarrow> admission option \<times> workload_queues" where
  "dequeue_round_robin q =
     (if workload_order q = [] then (None, q)
      else
        (let index = next_workload_index q mod length (workload_order q);
             w = workload_order q ! index in
         if w = [] then (None, q)
         else
           (let q1 = q\<lparr>next_workload_index := (index + 1) mod length (workload_order q)\<rparr> in
            case map_of (queues q1) w of
              Some (x # ids) \<Rightarrow>
                (let q2 = q1\<lparr>queues := AList.update w ids (queues q1)\<rparr> in
                 (Some (w, x), if ids = [] then remove_workload w q2 else q2))
            | _ \<Rightarrow> dequeue_round_robin (remove_workload w q1))))"
  by pat_completeness auto
termination
proof (relation "measure (\<lambda>q. length (workload_order q))", goal_cases)
  case (2 q i w q1)
  then have "w \<in> set (workload_order q1)" by simp
  with 2 show ?case using remove_workload_shorter[of w q1] by simp
next
  case (3 q i w q1)
  then have "w \<in> set (workload_order q1)" by simp
  with 3 show ?case using remove_workload_shorter[of w q1] by simp
qed simp_all

declare dequeue_round_robin.simps [simp del]

section \<open>The order of service\<close>

definition queues_ok :: "workload_queues \<Rightarrow> bool" where
  "queues_ok q \<longleftrightarrow> workload_order q = map fst (queues q) \<and> distinct (map fst (queues q)) \<and>
     (\<forall>(w, ids) \<in> set (queues q). w \<noteq> [] \<and> ids \<noteq> []) \<and>
     (next_workload_index q < length (queues q) \<or> queues q = [] \<and> next_workload_index q = 0)"

definition service_order :: "workload_queues \<Rightarrow> (string \<times> nat list) list" where
  "service_order q = drop (next_workload_index q) (queues q) @ take (next_workload_index q) (queues q)"

definition pending_requests :: "workload_queues \<Rightarrow> admission multiset" where
  "pending_requests q = mset (queued_admissions q)"

text \<open>The abstract round robin: serve the first workload, then move it to the back.\<close>

fun rotate_served :: "(string \<times> nat list) list \<Rightarrow> admission option \<times> (string \<times> nat list) list" where
  "rotate_served ((w, x # ids) # rest) = (Some (w, x), if ids = [] then rest else rest @ [(w, ids)])"
| "rotate_served xs = (None, xs)"

definition mset_of_queues :: "(string \<times> nat list) list \<Rightarrow> admission multiset" where
  "mset_of_queues qs = mset (concat (map (\<lambda>(w, ids). map (Pair w) ids) qs))"

lemma mset_of_queues_simps [simp]:
  "mset_of_queues [] = {#}"
  "mset_of_queues ((w, ids) # qs) = mset (map (Pair w) ids) + mset_of_queues qs"
  "mset_of_queues (qs @ rs) = mset_of_queues qs + mset_of_queues rs"
  by (simp_all add: mset_of_queues_def)

lemma mset_of_queues_absent: "w \<notin> fst ` set qs \<Longrightarrow> (w, x) \<notin># mset_of_queues qs"
  by (induction qs) auto

lemma pending_requests_queues: "pending_requests q = mset_of_queues (queues q)"
  by (simp add: pending_requests_def queued_admissions_def mset_of_queues_def)

lemma pending_service_order: "pending_requests q = mset_of_queues (service_order q)"
proof -
  have "mset_of_queues (queues q) =
      mset_of_queues (take (next_workload_index q) (queues q)) +
      mset_of_queues (drop (next_workload_index q) (queues q))"
    by (metis append_take_drop_id mset_of_queues_simps(3))
  then show ?thesis by (simp add: pending_requests_queues service_order_def add.commute)
qed

lemma size_pending: "size (pending_requests q) = queued_count q"
  by (simp add: pending_requests_def queued_admissions_def queued_count_def length_concat comp_def
      case_prod_unfold)

lemma update_middle:
  "w \<notin> set (map fst as) \<Longrightarrow> AList.update w y (as @ (w, z) # bs) = as @ (w, y) # bs"
  by (induction as) auto

lemma delete_middle:
  "w \<notin> set (map fst as) \<Longrightarrow> w \<notin> set (map fst bs) \<Longrightarrow> AList.delete w (as @ (w, z) # bs) = as @ bs"
  by (induction as) (auto simp: delete_id)

lemma map_of_middle: "w \<notin> set (map fst as) \<Longrightarrow> map_of (as @ (w, z) # bs) w = Some z"
  by (simp add: map_add_def map_of_eq_None_iff[THEN iffD2] split: option.split)

text \<open>A state that satisfies the invariant, split at the workload served next.\<close>

lemma queues_ok_split:
  assumes "queues_ok q" "queues q \<noteq> []"
  obtains as w x ids bs where "queues q = as @ (w, x # ids) # bs" "next_workload_index q = length as"
    "workload_order q = map fst as @ w # map fst bs" "w \<noteq> []" "distinct (map fst as @ w # map fst bs)"
    "service_order q = (w, x # ids) # bs @ as"
proof -
  let ?n = "next_workload_index q"
  have n: "?n < length (queues q)" using assms by (auto simp: queues_ok_def)
  obtain w ids0 where wi: "queues q ! ?n = (w, ids0)" by (cases "queues q ! ?n")
  have split: "queues q = take ?n (queues q) @ (w, ids0) # drop (Suc ?n) (queues q)"
    using id_take_nth_drop[OF n] wi by simp
  have "(w, ids0) \<in> set (queues q)" using nth_mem[OF n] wi by simp
  then have "w \<noteq> []" "ids0 \<noteq> []" using assms(1) by (auto simp: queues_ok_def)
  then obtain x ids where ids: "ids0 = x # ids" by (cases ids0) auto
  have m: "map fst (queues q) = map fst (take ?n (queues q)) @ w # map fst (drop (Suc ?n) (queues q))"
    by (subst split) simp
  have o: "workload_order q = map fst (take ?n (queues q)) @ w # map fst (drop (Suc ?n) (queues q))"
    using assms(1) unfolding queues_ok_def m[symmetric] by blast
  have d: "distinct (map fst (take ?n (queues q)) @ w # map fst (drop (Suc ?n) (queues q)))"
    using assms(1) unfolding queues_ok_def m[symmetric] by blast
  have "drop ?n (queues q) = (w, x # ids) # drop (Suc ?n) (queues q)"
    using n wi ids by (metis Cons_nth_drop_Suc)
  then have "service_order q = (w, x # ids) # drop (Suc ?n) (queues q) @ take ?n (queues q)"
    by (simp add: service_order_def)
  then show thesis using that[of "take ?n (queues q)" w x ids "drop (Suc ?n) (queues q)"]
      split ids o d \<open>w \<noteq> []\<close> n by simp
qed

lemma queues_ok_empty: "queues_ok q \<Longrightarrow> queues q = [] \<longleftrightarrow> workload_order q = []"
  by (auto simp: queues_ok_def)

lemma remove_workload_middle:
  assumes "queues q = as @ (w, ids) # bs" "workload_order q = map fst as @ w # map fst bs"
    "distinct (map fst as @ w # map fst bs)"
  shows "remove_workload w q =
    \<lparr>queues = as @ bs, workload_order = map fst (as @ bs),
     next_workload_index =
       (if as @ bs = [] then 0
        else let n = (if length as < next_workload_index q then next_workload_index q - 1
               else next_workload_index q)
          in if length (as @ bs) \<le> n then 0 else n)\<rparr>"
proof -
  have i: "index_of w (workload_order q) = Some (length as)"
    using assms index_of_append[of w "map fst as" "map fst bs"] by auto
  have o: "splice_one (length as) (workload_order q) = map fst (as @ bs)"
    using assms(2) splice_one_append[of "map fst as" w "map fst bs"] by simp
  have d: "AList.delete w (queues q) = as @ bs" using assms by (simp add: delete_middle)
  show ?thesis using i o d by (auto simp: remove_workload_def Let_def)
qed

lemma dequeue_service_order:
  assumes ok: "queues_ok q"
  shows "case dequeue_round_robin q of (r, q') \<Rightarrow>
    rotate_served (service_order q) = (r, service_order q') \<and> queues_ok q'"
proof (cases "queues q = []")
  case True
  with ok have "dequeue_round_robin q = (None, q)" "service_order q = []"
    by (simp_all add: dequeue_round_robin.simps[of q] queues_ok_def service_order_def)
  then show ?thesis using ok by simp
next
  case False
  from queues_ok_split[OF ok False] obtain as w x ids bs where
    q: "queues q = as @ (w, x # ids) # bs" "next_workload_index q = length as"
    "workload_order q = map fst as @ w # map fst bs" "w \<noteq> []" "distinct (map fst as @ w # map fst bs)"
    "service_order q = (w, x # ids) # bs @ as" .
  have ne: "\<forall>(w, ids) \<in> set (as @ bs). w \<noteq> [] \<and> ids \<noteq> []" using ok q(1) by (auto simp: queues_ok_def)
  have w: "w \<notin> set (map fst as)" using q(5) by simp
  have ix: "length as mod length (workload_order q) = length as"
    "workload_order q ! length as = w" "workload_order q \<noteq> []"
    using q(3) by (simp_all add: nth_append)
  define nx where "nx = (length as + 1) mod length (workload_order q)"
  have nx: "nx = (if bs = [] then 0 else length as + 1)" using q(3) by (simp add: nx_def)
  define q2 where "q2 = q\<lparr>next_workload_index := nx, queues := as @ (w, ids) # bs\<rparr>"
  have deq: "dequeue_round_robin q = (Some (w, x), if ids = [] then remove_workload w q2 else q2)"
  proof -
    have "map_of (queues q) w = Some (x # ids)" "AList.update w ids (queues q) = as @ (w, ids) # bs"
      by (simp_all only: q(1) map_of_middle[OF w] update_middle[OF w])
    then show ?thesis
      using ix q(2,4) by (subst dequeue_round_robin.simps, cases "ids = []")
        (simp_all add: Let_def q2_def nx_def)
  qed
  show ?thesis
  proof (cases "ids = []")
    case False
    then have "service_order q2 = bs @ as @ [(w, ids)]"
      by (cases bs) (simp_all add: service_order_def q2_def nx)
    moreover have "queues_ok q2"
      using False ne q by (auto simp: queues_ok_def q2_def nx)
    ultimately show ?thesis using False deq q(6) by simp
  next
    case True
    have r: "remove_workload w q2 = \<lparr>queues = as @ bs, workload_order = map fst (as @ bs),
      next_workload_index = (if bs = [] then 0 else length as)\<rparr>"
      using remove_workload_middle[of q2 as w ids bs] q(3,5) by (auto simp: q2_def nx Let_def)
    have "service_order (remove_workload w q2) = bs @ as"
      unfolding r by (cases bs) (simp_all add: service_order_def)
    moreover have "queues_ok (remove_workload w q2)"
      unfolding r using ne q(5) by (auto simp: queues_ok_def)
    ultimately show ?thesis using True deq q(6) by simp
  qed
qed

lemma filter_other: "w \<notin> fst ` set xs \<Longrightarrow> filter (\<lambda>(v, _). v \<noteq> w) xs = xs"
  by (induction xs) auto

lemma remove_workload_service_order:
  assumes ok: "queues q = as @ (w, ids) # bs" "workload_order q = map fst as @ w # map fst bs"
    "distinct (map fst as @ w # map fst bs)" "\<forall>(w, ids) \<in> set (as @ bs). w \<noteq> [] \<and> ids \<noteq> []"
    "next_workload_index q < length (queues q)"
  shows "queues_ok (remove_workload w q) \<and>
    service_order (remove_workload w q) = filter (\<lambda>(v, _). v \<noteq> w) (service_order q)"
proof
  let ?n = "next_workload_index q"
  note r = remove_workload_middle[OF ok(1,2,3)]
  have f: "filter (\<lambda>(v, _). v \<noteq> w) as = as" "filter (\<lambda>(v, _). v \<noteq> w) bs = bs"
    using ok(3) by (simp_all add: filter_other)
  show "queues_ok (remove_workload w q)"
    unfolding r using ok(3,4,5) by (auto simp: queues_ok_def Let_def ok(1))
  have ft: "filter (\<lambda>(v, _). v \<noteq> w) (take k xs) = take k xs" "filter (\<lambda>(v, _). v \<noteq> w) (drop k xs) = drop k xs"
    if "xs = as \<or> xs = bs" for k xs
  proof -
    have "w \<notin> fst ` set xs" using ok(3) that by auto
    then have "w \<notin> fst ` set (take k xs)" "w \<notin> fst ` set (drop k xs)"
      using set_take_subset[of k xs] set_drop_subset[of k xs] by blast+
    then show "filter (\<lambda>(v, _). v \<noteq> w) (take k xs) = take k xs"
      "filter (\<lambda>(v, _). v \<noteq> w) (drop k xs) = drop k xs" by (simp_all add: filter_other)
  qed
  consider "length as < ?n" | "?n = length as" | "?n < length as" by linarith
  then show "service_order (remove_workload w q) = filter (\<lambda>(v, _). v \<noteq> w) (service_order q)"
  proof cases
    case 1
    then obtain k where k: "?n = Suc (length as + k)" by (auto dest: less_imp_Suc_add)
    then show ?thesis unfolding r using ok(5) f ft
      by (auto simp: service_order_def ok(1) Let_def)
  next
    case 2
    then show ?thesis unfolding r using f
      by (cases bs) (auto simp: service_order_def ok(1) Let_def)
  next
    case 3
    then show ?thesis unfolding r using f ft
      by (auto simp: service_order_def ok(1) Let_def)
  qed
qed

lemma find_workload:
  assumes "queues_ok q" "map_of (queues q) w = Some ids"
  obtains as bs where "queues q = as @ (w, ids) # bs" "workload_order q = map fst as @ w # map fst bs"
    "distinct (map fst as @ w # map fst bs)" "\<forall>(w, ids) \<in> set (as @ bs). w \<noteq> [] \<and> ids \<noteq> []"
    "next_workload_index q < length (queues q)"
proof -
  from assms(2) obtain as bs where s: "queues q = as @ (w, ids) # bs"
    by (meson map_of_SomeD split_list)
  show thesis by (rule that[of as bs]) (use assms(1) s in \<open>auto simp: queues_ok_def\<close>)
qed

lemma splice_mset: "index_of x xs = Some i \<Longrightarrow> mset (splice_one i xs) = mset xs - {#x#}"
  by (auto simp: splice_one_def dest!: index_of_split)

lemma remove_queued_law:
  assumes ok: "queues_ok q"
  shows "queues_ok (remove_queued r q) \<and> pending_requests (remove_queued r q) = pending_requests q - {#r#}"
proof -
  obtain w x where r: "r = (w, x)" by (cases r)
  show ?thesis
  proof (cases "map_of (queues q) w")
    case None
    then have "w \<notin> fst ` set (queues q)" by (simp add: map_of_eq_None_iff)
    then have "r \<notin># pending_requests q" by (simp add: r pending_requests_queues mset_of_queues_absent)
    then show ?thesis using None ok by (simp add: remove_queued_def r diff_single_trivial)
  next
    case (Some ids)
    from find_workload[OF ok Some] obtain as bs where
      q: "queues q = as @ (w, ids) # bs" "workload_order q = map fst as @ w # map fst bs"
        "distinct (map fst as @ w # map fst bs)" "\<forall>(w, ids) \<in> set (as @ bs). w \<noteq> [] \<and> ids \<noteq> []"
        "next_workload_index q < length (queues q)" .
    have w: "w \<notin> set (map fst as)" using q(3) by simp
    have others: "(w, x) \<notin># mset_of_queues as" "(w, x) \<notin># mset_of_queues bs"
      using q(3) by (simp_all add: mset_of_queues_absent)
    show ?thesis
    proof (cases "index_of x ids")
      case None
      then have "x \<notin> set ids" by (simp add: index_of_None)
      then have "r \<notin># pending_requests q" using others by (auto simp: r pending_requests_queues q(1))
      then show ?thesis using Some None ok by (simp add: remove_queued_def r diff_single_trivial)
    next
      case i: (Some i)
      define ids' where "ids' = splice_one i ids"
      define q1 where "q1 = q\<lparr>queues := as @ (w, ids') # bs\<rparr>"
      have x: "x \<in># mset ids" using i index_of_None[of x ids] by fastforce
      have m: "mset ids' = mset ids - {#x#}" using splice_mset[OF i] by (simp add: ids'_def)
      have mm: "mset (map (Pair w) ids) = add_mset (w, x) (mset (map (Pair w) ids'))"
        using x m by (simp add: image_mset_add_mset[symmetric] del: image_mset_add_mset)
      have up: "AList.update w ids' (queues q) = as @ (w, ids') # bs"
        by (simp only: q(1) update_middle[OF w])
      have rq: "remove_queued r q = (if ids' = [] then remove_workload w q1 else q1)"
        using Some i up by (cases "ids' = []") (simp_all add: remove_queued_def r q1_def Let_def flip: ids'_def)
      have p: "pending_requests q = add_mset r (mset (map (Pair w) ids') + mset_of_queues (as @ bs))"
        using mm by (simp add: pending_requests_queues q(1) r)
      show ?thesis
      proof (cases "ids' = []")
        case True
        have "queues_ok (remove_workload w q1)"
          using remove_workload_service_order[of q1 as w ids' bs] q by (simp add: q1_def)
        moreover have "pending_requests (remove_workload w q1) = mset_of_queues (as @ bs)"
          using remove_workload_middle[of q1 as w ids' bs] q by (simp add: q1_def pending_requests_queues)
        ultimately show ?thesis using rq True p by simp
      next
        case False
        have "queues_ok q1" using False q ok by (auto simp: q1_def queues_ok_def)
        then show ?thesis using rq False p by (simp add: q1_def pending_requests_queues)
      qed
    qed
  qed
qed

lemma enqueue_law:
  assumes ok: "queues_ok q" and v: "fst r \<noteq> []"
  shows "queues_ok (enqueue r q) \<and> pending_requests (enqueue r q) = add_mset r (pending_requests q)"
proof (cases "map_of (queues q) (fst r)")
  case None
  then have "fst r \<notin> fst ` set (queues q)" by (simp add: map_of_eq_None_iff)
  then show ?thesis using None ok v
    by (auto simp: enqueue_def keys_update_absent queues_ok_def pending_requests_queues)
next
  case (Some ids)
  from find_workload[OF ok Some] obtain as bs where
    q: "queues q = as @ (fst r, ids) # bs" "workload_order q = map fst as @ fst r # map fst bs"
      "distinct (map fst as @ fst r # map fst bs)" "\<forall>(w, ids) \<in> set (as @ bs). w \<noteq> [] \<and> ids \<noteq> []"
      "next_workload_index q < length (queues q)" .
  have up: "AList.update (fst r) (ids @ [snd r]) (queues q) = as @ (fst r, ids @ [snd r]) # bs"
    using q(3) by (simp only: q(1)) (rule update_middle, simp)
  have "enqueue r q = q\<lparr>queues := as @ (fst r, ids @ [snd r]) # bs\<rparr>"
    using Some up by (simp add: enqueue_def)
  then show ?thesis using ok q v by (auto simp: queues_ok_def pending_requests_queues)
qed

lemma rotate_served_mset:
  "rotate_served s = (r, s') \<Longrightarrow> (case r of None \<Rightarrow> s' = s | Some a \<Rightarrow> mset_of_queues s = add_mset a (mset_of_queues s'))"
  by (cases s rule: rotate_served.cases) auto

lemma dequeue_law:
  assumes ok: "queues_ok q" and ne: "pending_requests q \<noteq> {#}"
  shows "\<exists>r q'. dequeue_round_robin q = (Some r, q') \<and> queues_ok q' \<and>
    pending_requests q = add_mset r (pending_requests q')"
proof -
  obtain r q' where d: "dequeue_round_robin q = (r, q')" by fastforce
  from dequeue_service_order[OF ok] d have s: "rotate_served (service_order q) = (r, service_order q')"
    "queues_ok q'" by simp_all
  have "queues q \<noteq> []" using ne by (auto simp: pending_requests_queues)
  from queues_ok_split[OF ok this] have "\<exists>w x ids rest. service_order q = (w, x # ids) # rest" by metis
  then have "r \<noteq> None" using s(1) by auto
  then obtain a where a: "r = Some a" by auto
  show ?thesis using d s a rotate_served_mset[OF s(1)] by (auto simp: pending_service_order)
qed

lemma dequeue_empty:
  assumes "queues_ok q" "pending_requests q = {#}"
  shows "dequeue_round_robin q = (None, q)"
proof -
  have "queues q = []" using assms
    by (cases "queues q") (auto simp: queues_ok_def pending_requests_queues)
  with assms(1) show ?thesis by (subst dequeue_round_robin.simps) (simp add: queues_ok_def)
qed

interpretation origin_queue: request_queue queues_ok pending_requests "\<lambda>r. fst r \<noteq> []" enqueue
  dequeue_round_robin remove_queued
  by unfold_locales (use enqueue_law dequeue_empty dequeue_law remove_queued_law in blast)+

section \<open>Fairness\<close>

text \<open>
  C36: the scheduler's dequeue is a round robin: on the fields of the code it does exactly
  what serving the first workload of the service order and moving it to the back does, it
  keeps the representation invariant, and cancelling a request takes just that request
  out, whatever the position of the cursor.
\<close>

theorem dequeue_refines_round_robin:
  assumes "queues_ok q" "dequeue_round_robin q = (r, q')"
  shows "rotate_served (service_order q) = (r, service_order q') \<and> queues_ok q' \<and>
    queues_ok (remove_queued a q) \<and>
    pending_requests (remove_queued a q) = pending_requests q - {#a#}"
  using dequeue_service_order[OF assms(1)] assms(2) origin_queue.drop_law[OF assms(1)] by simp

theorem dequeue_refines_round_robin_witness:
  "\<exists>q'. dequeue_round_robin (enqueue (''b'', 2) (enqueue (''a'', 1) empty_queues)) = (Some (''a'', 1), q') \<and>
     service_order q' = [(''b'', [2])]"
proof -
  let ?q = "enqueue (''b'', 2) (enqueue (''a'', 1) empty_queues)"
  have q: "?q = \<lparr>queues = [(''a'', [1]), (''b'', [2])], workload_order = [''a'', ''b''], next_workload_index = 0\<rparr>"
    by (simp add: enqueue_def empty_queues_def)
  have ok: "queues_ok ?q" unfolding q by (simp add: queues_ok_def)
  obtain r q' where d: "dequeue_round_robin ?q = (r, q')" by fastforce
  from dequeue_refines_round_robin[OF ok d] have "rotate_served (service_order ?q) = (r, service_order q')" by blast
  moreover have "service_order ?q = [(''a'', [1]), (''b'', [2])]" unfolding q by (simp add: service_order_def)
  ultimately show ?thesis using d by auto
qed

lemma take_many_round:
  assumes "queues_ok q" "n \<le> length (service_order q)"
  shows "map fst (fst (take_many dequeue_round_robin n q)) = map fst (take n (service_order q))"
proof -
  have "queues_ok q \<Longrightarrow> service_order q = xs @ ys \<Longrightarrow> length xs = n \<Longrightarrow>
      map fst (fst (take_many dequeue_round_robin n q)) = map fst xs" for xs ys
  proof (induction n arbitrary: q xs ys)
    case (Suc n)
    from Suc.prems(3) obtain w ids zs where xs: "xs = (w, ids) # zs" "length zs = n" by (cases xs) auto
    have "queues q \<noteq> []" using Suc.prems(2) xs by (auto simp: service_order_def)
    from queues_ok_split[OF Suc.prems(1) this] obtain x ids' where "ids = x # ids'"
      using Suc.prems(2) xs by (metis append_Cons list.inject prod.inject)
    moreover obtain r q' where d: "dequeue_round_robin q = (r, q')" by fastforce
    moreover have "rotate_served (service_order q) = (r, service_order q')" "queues_ok q'"
      using dequeue_service_order[OF Suc.prems(1)] d by simp_all
    ultimately have r: "r = Some (w, x)"
      and "service_order q' = zs @ ys @ (if ids' = [] then [] else [(w, ids')])"
      using Suc.prems(2) xs by (auto split: if_splits)
    then obtain zs' where "service_order q' = zs @ (ys @ zs')" by blast
    from Suc.IH[OF \<open>queues_ok q'\<close> this xs(2)] show ?case
      using d r xs by (auto split: prod.splits)
  qed simp
  from this[of "take n (service_order q)" "drop n (service_order q)"] assms show ?thesis by simp
qed

text \<open>
  C37: fairness without arrivals: as many dequeues as there are waiting workloads serve
  every workload exactly once, in the order of service, and every request taken was queued.
\<close>

theorem each_workload_served_once:
  assumes "queues_ok q"
    and "take_many dequeue_round_robin (length (queues q)) q = (rs, q')"
  shows "map fst rs = map fst (service_order q) \<and> distinct (map fst rs) \<and>
    set (map fst rs) = set (workload_order q) \<and> pending_requests q = mset rs + pending_requests q'"
proof -
  have l: "length (service_order q) = length (queues q)" by (simp add: service_order_def)
  have m: "map fst rs = map fst (service_order q)"
    using take_many_round[OF assms(1), of "length (queues q)"] assms(2) l by simp
  have "mset (service_order q) = mset (queues q)"
    unfolding service_order_def by (metis append_take_drop_id mset_append union_commute)
  then have ms: "mset (map fst (service_order q)) = mset (map fst (queues q))" by (metis mset_map)
  have "distinct (map fst (queues q))" using assms(1) by (simp add: queues_ok_def)
  then have "distinct (map fst rs)" "set (map fst rs) = set (map fst (queues q))"
    unfolding m using mset_eq_imp_distinct_iff[OF ms] mset_eq_setD[OF ms] by blast+
  then show ?thesis
    using m assms(1) origin_queue.take_many_conserves[OF assms] by (simp add: queues_ok_def)
qed

theorem each_workload_served_once_witness:
  "map fst (fst (take_many dequeue_round_robin 2
     \<lparr>queues = [(''a'', [1, 3]), (''b'', [2])], workload_order = [''a'', ''b''], next_workload_index = 1\<rparr>)) =
     [''b'', ''a'']"
proof -
  let ?q = "\<lparr>queues = [(''a'', [1, 3]), (''b'', [2])], workload_order = [''a'', ''b''], next_workload_index = 1\<rparr>"
  obtain rs q' where t: "take_many dequeue_round_robin (length (queues ?q)) ?q = (rs, q')" by fastforce
  have "queues_ok ?q" by (simp add: queues_ok_def)
  from each_workload_served_once[OF this t] have "map fst rs = map fst (service_order ?q)" by blast
  then show ?thesis using t by (simp add: service_order_def numeral_2_eq_2)
qed

text \<open>
  A workload that queues one request at a time is appended behind the cursor each time, so
  that with three such workloads the cursor never comes back to a workload before them.
\<close>

definition backlog :: "nat list \<Rightarrow> string \<Rightarrow> nat \<Rightarrow> string \<Rightarrow> nat \<Rightarrow> workload_queues" where
  "backlog ids v i w j = \<lparr>queues = [(''batch'', ids), (v, [i]), (w, [j])],
     workload_order = [''batch'', v, w], next_workload_index = 1\<rparr>"

definition serve_then_requeue :: "workload_queues \<Rightarrow> string \<Rightarrow> nat \<Rightarrow> admission option \<times> workload_queues" where
  "serve_then_requeue q w i =
     (case dequeue_round_robin q of (r, q') \<Rightarrow> (r, enqueue (w, i) q'))"

lemma serve_backlog:
  assumes "distinct [''batch'', u, v, w]" "v \<noteq> []"
  shows "serve_then_requeue (backlog ids v i w j) u k = (Some (v, i), backlog ids w j u k)"
proof -
  have "dequeue_round_robin (backlog ids v i w j) = (Some (v, i),
    \<lparr>queues = [(''batch'', ids), (w, [j])], workload_order = [''batch'', w], next_workload_index = 1\<rparr>)"
    using assms by (subst dequeue_round_robin.simps)
      (auto simp: backlog_def Let_def remove_workload_def splice_one_def)
  then show ?thesis using assms by (auto simp: serve_then_requeue_def enqueue_def backlog_def)
qed

primrec serve_rounds :: "nat \<Rightarrow> nat \<Rightarrow> workload_queues \<Rightarrow> admission list \<times> workload_queues" where
  "serve_rounds 0 i q = ([], q)"
| "serve_rounds (Suc n) i q =
     (case serve_then_requeue q ''z'' i of (a, q1) \<Rightarrow>
      case serve_then_requeue q1 ''x'' (i + 1) of (b, q2) \<Rightarrow>
      case serve_then_requeue q2 ''y'' (i + 2) of (c, q3) \<Rightarrow>
      case serve_rounds n (i + 3) q3 of (rs, q') \<Rightarrow>
        (List.map_filter id [a, b, c] @ rs, q'))"

text \<open>
  Fairness does not survive arrivals: with three workloads that each queue their next
  request after the previous one was admitted, a workload with a backlog in front of them
  is never served, however many requests are: every admission of every round goes to one of
  the three.
\<close>

theorem backlogged_workload_starves:
  "\<exists>rs k l. serve_rounds n i (backlog ids ''x'' a ''y'' b) = (rs, backlog ids ''x'' k ''y'' l) \<and>
     length rs = 3 * n \<and> set (map fst rs) \<subseteq> {''x'', ''y'', ''z''}"
proof (induction n arbitrary: i a b)
  case (Suc n)
  obtain rs k l where "serve_rounds n (i + 3) (backlog ids ''x'' (i + 1) ''y'' (i + 2)) =
      (rs, backlog ids ''x'' k ''y'' l)" "length rs = 3 * n" "set (map fst rs) \<subseteq> {''x'', ''y'', ''z''}"
    using Suc.IH[of "i + 3" "i + 1" "i + 2"] by blast
  then show ?case
    by (intro exI[of _ "[(''x'', a), (''y'', b), (''z'', i)] @ rs"] exI[of _ k] exI[of _ l])
      (simp add: serve_backlog List.map_filter_simps)
qed (simp, blast)

end
