(* ===== verification/Traffic_Policy.thy ===== *)
theory Traffic_Policy
  imports Collection_Predicate
begin

text \<open>
  Per-origin traffic policies (\<open>src/src/public/contracts/traffic-policy.ts\<close>) and how the
  scheduler merges two of them (\<open>mergeConservatively\<close> of
  \<open>src/src/execution/origin-scheduler.ts\<close>).

  The rate is the exact rational of its decimal. Whether a text is a canonical origin is
  decided by the host's URL parser, which the parsers take as the argument \<open>is_origin\<close>.
\<close>

record circuit_breaker_policy =
  transient_failure_threshold :: int
  transient_window_ms :: int
  cooldown_ms :: int

record traffic_policy =
  tp_origin :: string
  max_concurrency :: int
  requests_per_second :: rat
  burst :: int
  min_delay_ms :: int
  max_redirect_hops :: int
  circuit_breaker :: circuit_breaker_policy

fun num_rat :: "jsnum \<Rightarrow> rat" where
  "num_rat (NInt i) = of_int i"
| "num_rat (NDec m k) = of_int m / 10 ^ k"
| "num_rat NNonFinite = 0"

definition parse_https_origin :: "(string \<Rightarrow> bool) \<Rightarrow> json \<Rightarrow> exn + string" where
  "parse_https_origin is_origin v = bindR (parse_string 2048 v) (\<lambda>s.
     ensureR (is_origin s)
       (PublicContractError (STR ''must be a canonical HTTPS origin without credentials or path''))
       (Inr s))"

definition assert_unique :: "string list \<Rightarrow> exn + unit" where
  "assert_unique xs = ensureR (card (set xs) = length xs)
     (PublicContractError (STR ''must not contain duplicates'')) (Inr ())"

definition parse_origins :: "(string \<Rightarrow> bool) \<Rightarrow> bool \<Rightarrow> json \<Rightarrow> exn + string list" where
  "parse_origins is_origin require_one v = (case v of
     JArr xs \<Rightarrow>
       ensureR (length xs \<le> 16) (PublicContractError (STR ''must contain at most 16 origins''))
         (ensureR (\<not> (require_one \<and> xs = []))
           (PublicContractError (STR ''must contain at least one origin''))
           (bindR (mapR (parse_https_origin is_origin) xs) (\<lambda>origins.
             bindR (assert_unique origins) (\<lambda>_. Inr origins))))
   | _ \<Rightarrow> Inl (PublicContractError (STR ''must contain at most 16 origins'')))"

text \<open>\<open>Number.MIN_VALUE\<close> is \<open>5e-324\<close>.\<close>

definition parse_origin_traffic_policy :: "(string \<Rightarrow> bool) \<Rightarrow> json \<Rightarrow> exn + traffic_policy" where
  "parse_origin_traffic_policy is_origin v =
     bindR (parse_exact_record [''origin'', ''max_concurrency'', ''requests_per_second'', ''burst'',
       ''min_delay_ms'', ''max_redirect_hops'', ''circuit_breaker''] v) (\<lambda>r.
     bindR (parse_exact_record [''transient_failure_threshold'', ''transient_window_ms'',
       ''cooldown_ms''] (fld r ''circuit_breaker'')) (\<lambda>c.
     bindR (parse_https_origin is_origin (fld r ''origin'')) (\<lambda>origin.
     bindR (parse_integer 1 4 (fld r ''max_concurrency'')) (\<lambda>mc.
     bindR (parse_finite_number (NDec 5 324) (NInt 5) (fld r ''requests_per_second'')) (\<lambda>rps.
     bindR (parse_integer 1 4 (fld r ''burst'')) (\<lambda>b.
     bindR (parse_integer 0 60000 (fld r ''min_delay_ms'')) (\<lambda>delay.
     bindR (parse_integer 0 5 (fld r ''max_redirect_hops'')) (\<lambda>hops.
     bindR (parse_integer 1 10 (fld c ''transient_failure_threshold'')) (\<lambda>threshold.
     bindR (parse_integer 1000 300000 (fld c ''transient_window_ms'')) (\<lambda>window.
     bindR (parse_integer 1000 900000 (fld c ''cooldown_ms'')) (\<lambda>cooldown.
       Inr \<lparr>tp_origin = origin, max_concurrency = mc, requests_per_second = num_rat rps,
            burst = b, min_delay_ms = delay, max_redirect_hops = hops,
            circuit_breaker = \<lparr>transient_failure_threshold = threshold,
              transient_window_ms = window, cooldown_ms = cooldown\<rparr>\<rparr>)))))))))))"

definition same_entries :: "string list \<Rightarrow> string list \<Rightarrow> bool" where
  "same_entries l r \<longleftrightarrow> length l = length r \<and> list_all (\<lambda>x. x \<in> set r) l"

definition parse_origin_traffic_policies ::
  "(string \<Rightarrow> bool) \<Rightarrow> string list \<Rightarrow> json \<Rightarrow> exn + traffic_policy list" where
  "parse_origin_traffic_policies is_origin permitted v = (case v of
     JArr xs \<Rightarrow>
       ensureR (xs \<noteq> [] \<and> length xs \<le> length permitted)
         (PublicContractError (STR ''must contain exactly one policy for every permitted origin''))
         (bindR (mapR (parse_origin_traffic_policy is_origin) xs) (\<lambda>ps.
           bindR (assert_unique (map tp_origin ps)) (\<lambda>_.
             ensureR (same_entries (map tp_origin ps) permitted)
               (PublicContractError (STR ''must cover every permitted origin exactly once''))
               (Inr ps))))
   | _ \<Rightarrow> Inl (PublicContractError
       (STR ''must contain exactly one policy for every permitted origin'')))"

section \<open>Merging\<close>

definition merge_conservatively :: "traffic_policy \<Rightarrow> traffic_policy \<Rightarrow> exn + traffic_policy" where
  "merge_conservatively l r =
     ensureR (tp_origin l = tp_origin r)
       (PublicContractError (STR ''cannot merge different origins''))
       (Inr \<lparr>tp_origin = tp_origin l,
         max_concurrency = min (max_concurrency l) (max_concurrency r),
         requests_per_second = min (requests_per_second l) (requests_per_second r),
         burst = min (burst l) (burst r),
         min_delay_ms = max (min_delay_ms l) (min_delay_ms r),
         max_redirect_hops = min (max_redirect_hops l) (max_redirect_hops r),
         circuit_breaker =
           \<lparr>transient_failure_threshold = min (transient_failure_threshold (circuit_breaker l))
              (transient_failure_threshold (circuit_breaker r)),
            transient_window_ms = max (transient_window_ms (circuit_breaker l))
              (transient_window_ms (circuit_breaker r)),
            cooldown_ms = max (cooldown_ms (circuit_breaker l)) (cooldown_ms (circuit_breaker r))\<rparr>\<rparr>)"

text \<open>The policies the scheduler can hold: positive limits and rate.\<close>

definition policy_ok :: "traffic_policy \<Rightarrow> bool" where
  "policy_ok p \<longleftrightarrow> 1 \<le> max_concurrency p \<and> 0 < requests_per_second p \<and> 1 \<le> burst p \<and>
     0 \<le> min_delay_ms p \<and> 0 \<le> max_redirect_hops p \<and>
     1 \<le> transient_failure_threshold (circuit_breaker p) \<and>
     0 \<le> transient_window_ms (circuit_breaker p) \<and> 0 \<le> cooldown_ms (circuit_breaker p)"

text \<open>At least as strict in every field.\<close>

definition stricter :: "traffic_policy \<Rightarrow> traffic_policy \<Rightarrow> bool" where
  "stricter p q \<longleftrightarrow> tp_origin p = tp_origin q \<and> max_concurrency p \<le> max_concurrency q \<and>
     requests_per_second p \<le> requests_per_second q \<and> burst p \<le> burst q \<and>
     min_delay_ms q \<le> min_delay_ms p \<and> max_redirect_hops p \<le> max_redirect_hops q \<and>
     transient_failure_threshold (circuit_breaker p) \<le> transient_failure_threshold (circuit_breaker q) \<and>
     transient_window_ms (circuit_breaker q) \<le> transient_window_ms (circuit_breaker p) \<and>
     cooldown_ms (circuit_breaker q) \<le> cooldown_ms (circuit_breaker p)"

lemma merge_policy_ok:
  "merge_conservatively p q = Inr m \<Longrightarrow> policy_ok p \<Longrightarrow> policy_ok q \<Longrightarrow> policy_ok m"
  by (auto simp: merge_conservatively_def policy_ok_def ensureR_Inr_iff min_def max_def)

text \<open>
  C39: merging two policies of one origin gives the least strict policy that is as strict
  as both: the merge never loosens a limit either caller declared, adds nothing beyond
  them, and fails only for different origins.
\<close>

theorem merge_conservatively_greatest_lower_bound:
  "(\<exists>m. merge_conservatively p q = Inr m \<and> stricter m p \<and> stricter m q \<and>
      (\<forall>k. stricter k p \<and> stricter k q \<longrightarrow> stricter k m)) \<longleftrightarrow> tp_origin p = tp_origin q"
  by (auto simp: merge_conservatively_def ensureR_def stricter_def)

theorem merge_conservatively_greatest_lower_bound_witness:
  "\<exists>m. merge_conservatively
      \<lparr>tp_origin = ''o'', max_concurrency = 4, requests_per_second = 5, burst = 1, min_delay_ms = 0,
       max_redirect_hops = 5, circuit_breaker = \<lparr>transient_failure_threshold = 3,
         transient_window_ms = 1000, cooldown_ms = 2000\<rparr>\<rparr>
      \<lparr>tp_origin = ''o'', max_concurrency = 2, requests_per_second = 1, burst = 4, min_delay_ms = 250,
       max_redirect_hops = 0, circuit_breaker = \<lparr>transient_failure_threshold = 5,
         transient_window_ms = 9000, cooldown_ms = 1000\<rparr>\<rparr> = Inr m \<and>
    max_concurrency m \<le> 2 \<and> 250 \<le> min_delay_ms m"
  using merge_conservatively_greatest_lower_bound[of
      "\<lparr>tp_origin = ''o'', max_concurrency = 4, requests_per_second = 5, burst = 1, min_delay_ms = 0,
       max_redirect_hops = 5, circuit_breaker = \<lparr>transient_failure_threshold = 3,
         transient_window_ms = 1000, cooldown_ms = 2000\<rparr>\<rparr>"
      "\<lparr>tp_origin = ''o'', max_concurrency = 2, requests_per_second = 1, burst = 4, min_delay_ms = 250,
       max_redirect_hops = 0, circuit_breaker = \<lparr>transient_failure_threshold = 5,
         transient_window_ms = 9000, cooldown_ms = 1000\<rparr>\<rparr>"]
  by (auto simp: stricter_def)

lemma of_int_scaled_less:
  "(of_int (a * 10 ^ i) :: rat) < of_int (b * 10 ^ j) \<longleftrightarrow> a * 10 ^ i < b * 10 ^ j"
  by (rule of_int_less_iff)

lemma decimal_less:
  "(of_int m / 10 ^ k :: rat) < of_int n / 10 ^ l \<longleftrightarrow> m * 10 ^ l < n * 10 ^ k"
proof -
  have "(of_int m / 10 ^ k :: rat) < of_int n / 10 ^ l \<longleftrightarrow>
      (of_int m :: rat) * 10 ^ l < of_int n * 10 ^ k"
    by (simp add: pos_divide_less_eq pos_less_divide_eq mult.commute mult.left_commute)
  also have "\<dots> \<longleftrightarrow> m * 10 ^ l < n * 10 ^ k"
    using of_int_scaled_less[of m l n k] by simp
  finally show ?thesis .
qed

lemma num_less_rat: "is_finite a \<Longrightarrow> is_finite b \<Longrightarrow> num_less a b \<longleftrightarrow> num_rat a < num_rat b"
proof (cases a; cases b)
  fix i j assume "a = NInt i" "b = NInt j"
  then show ?thesis by simp
next
  fix i m k assume "a = NInt i" "b = NDec m k"
  then show ?thesis using decimal_less[of i 0 m k] by simp
next
  fix i m k assume "a = NDec m k" "b = NInt i"
  then show ?thesis using decimal_less[of m k i 0] by simp
next
  fix m k n l assume "a = NDec m k" "b = NDec n l"
  then show ?thesis using decimal_less[of m k n l] by simp
qed simp_all

lemma parse_integer_accepts: "parse_integer lo hi v = Inr i \<Longrightarrow> lo \<le> i \<and> i \<le> hi \<and> \<bar>i\<bar> \<le> max_safe_integer"
  by (auto simp: parse_integer_def ensureR_Inr_iff split: json.splits jsnum.splits)

lemma parse_finite_number_Inr:
  assumes "parse_finite_number lo hi v = Inr n" "is_finite lo" "is_finite hi"
  shows "is_finite n \<and> num_rat lo \<le> num_rat n \<and> num_rat n \<le> num_rat hi"
  using assms num_less_rat[of n lo] num_less_rat[of hi n]
  by (auto simp: parse_finite_number_def ensureR_Inr_iff split: json.splits)

text \<open>
  A policy that parses satisfies what the scheduler's arithmetic relies on: positive
  concurrency, rate, burst and threshold, non-negative delays, and the contract's upper
  limits.
\<close>

theorem parsed_traffic_policy_ok:
  assumes "parse_origin_traffic_policy is_origin v = Inr p"
  shows "policy_ok p \<and> is_origin (tp_origin p) \<and> max_concurrency p \<le> 4 \<and> burst p \<le> 4 \<and>
    requests_per_second p \<le> 5 \<and> min_delay_ms p \<le> 60000"
proof -
  from assms obtain r origin mc rps b delay hops threshold window cooldown where
    o: "parse_https_origin is_origin (fld r ''origin'') = Inr origin"
    and f: "parse_integer 1 4 (fld r ''max_concurrency'') = Inr mc"
      "parse_finite_number (NDec 5 324) (NInt 5) (fld r ''requests_per_second'') = Inr rps"
      "parse_integer 1 4 (fld r ''burst'') = Inr b"
      "parse_integer 0 60000 (fld r ''min_delay_ms'') = Inr delay"
      "parse_integer 0 5 (fld r ''max_redirect_hops'') = Inr hops"
    and c: "\<exists>c. parse_integer 1 10 (fld c ''transient_failure_threshold'') = Inr threshold"
      "\<exists>c. parse_integer 1000 300000 (fld c ''transient_window_ms'') = Inr window"
      "\<exists>c. parse_integer 1000 900000 (fld c ''cooldown_ms'') = Inr cooldown"
    and p: "p = \<lparr>tp_origin = origin, max_concurrency = mc, requests_per_second = num_rat rps,
            burst = b, min_delay_ms = delay, max_redirect_hops = hops,
            circuit_breaker = \<lparr>transient_failure_threshold = threshold,
              transient_window_ms = window, cooldown_ms = cooldown\<rparr>\<rparr>"
    unfolding parse_origin_traffic_policy_def by (simp add: bindR_Inr_iff) blast
  have "0 < num_rat rps" "num_rat rps \<le> 5"
    using parse_finite_number_Inr[OF f(2)] by (simp_all add: less_le_trans[rotated])
  moreover have "is_origin origin"
    using o by (auto simp: parse_https_origin_def bindR_Inr_iff ensureR_Inr_iff)
  ultimately show ?thesis
    using f c by (auto simp: p policy_ok_def dest!: parse_integer_accepts)
qed

definition example_policy_json :: json where
  "example_policy_json = JObj [(''origin'', JStr ''https://a.example''), (''max_concurrency'', JNum (NInt 2)),
     (''requests_per_second'', JNum (NDec 5 1)), (''burst'', JNum (NInt 1)),
     (''min_delay_ms'', JNum (NInt 100)), (''max_redirect_hops'', JNum (NInt 0)),
     (''circuit_breaker'', JObj [(''transient_failure_threshold'', JNum (NInt 3)),
       (''transient_window_ms'', JNum (NInt 1000)), (''cooldown_ms'', JNum (NInt 5000))])]"

definition example_policy :: traffic_policy where
  "example_policy = \<lparr>tp_origin = ''https://a.example'', max_concurrency = 2,
     requests_per_second = 1 / 2, burst = 1, min_delay_ms = 100, max_redirect_hops = 0,
     circuit_breaker = \<lparr>transient_failure_threshold = 3, transient_window_ms = 1000,
       cooldown_ms = 5000\<rparr>\<rparr>"

lemma parse_example_policy:
  "parse_origin_traffic_policy (\<lambda>s. s = ''https://a.example'') example_policy_json = Inr example_policy"
  by (simp add: parse_origin_traffic_policy_def example_policy_json_def example_policy_def
    parse_exact_record_def as_object_def fld_def parse_https_origin_def parse_string_def
    parse_integer_def parse_finite_number_def max_safe_integer_def)

theorem parsed_traffic_policy_ok_witness: "policy_ok example_policy"
  using parsed_traffic_policy_ok[OF parse_example_policy] by simp

end
