(* ===== verification/Package_Version.thy ===== *)
theory Package_Version
  imports Json_Pointer Json_Roundtrip "HOL-Library.Product_Lexorder"
begin

text \<open>
  Package versions and their order: \<open>parsePackageVersion\<close>, \<open>comparePackageVersions\<close>,
  \<open>parseRuntimeRange\<close> and \<open>runtimeSupportsVersion\<close> of
  \<open>src/src/public/contracts/common.ts\<close>. The order of the code is shown to be the order of
  SemVer 2.0.0, given as the lexicographic order of a key in a linear order, on versions
  whose numbers are integers a double holds exactly; \<open>js_number\<close> is the rounding that
  breaks it beyond.
\<close>

section \<open>Parsing\<close>

text \<open>The SemVer grammar without build metadata: \<open>SEMVER_RE\<close>.\<close>

definition is_version_identifier :: "string \<Rightarrow> bool" where
  "is_version_identifier t \<longleftrightarrow> is_array_index t \<or>
     list_all (\<lambda>c. is_lower_alnum c \<or> is_upper c \<or> c = CHR ''-'') t \<and>
     list_ex (\<lambda>c. \<not> is_digit c) t"

record package_version =
  core :: "string list"
  prerelease :: "string list"

definition split_version :: "string \<Rightarrow> package_version" where
  "split_version s =
     \<lparr>core = split_on CHR ''.'' (takeWhile (\<lambda>c. c \<noteq> CHR ''-'') s),
      prerelease = (case dropWhile (\<lambda>c. c \<noteq> CHR ''-'') s of [] \<Rightarrow> []
        | _ # p \<Rightarrow> split_on CHR ''.'' p)\<rparr>"

definition is_package_version :: "string \<Rightarrow> bool" where
  "is_package_version s \<longleftrightarrow>
     length (core (split_version s)) = 3 \<and> list_all is_array_index (core (split_version s)) \<and>
     list_all is_version_identifier (prerelease (split_version s))"

definition parse_package_version :: "json \<Rightarrow> exn + string" where
  "parse_package_version v = bindR (parse_ascii_string 64 v) (\<lambda>s.
     ensureR (is_package_version s)
       (PublicContractError (STR ''must be canonical SemVer 2.0.0 without build metadata'')) (Inr s))"

section \<open>Comparison\<close>

fun bit_count :: "nat \<Rightarrow> nat" where
  "bit_count n = (if n = 0 then 0 else Suc (bit_count (n div 2)))"

declare bit_count.simps [simp del]

text \<open>\<open>Number(text)\<close> of an integer literal: the nearest double, ties to even.\<close>

definition js_number :: "nat \<Rightarrow> nat" where
  "js_number n =
     (if n < 2 ^ 53 then n
      else let e = bit_count n - 53; q = n div 2 ^ e; r = n mod 2 ^ e; h = 2 ^ (e - 1) in
        if h < r \<or> r = h \<and> odd q then (q + 1) * 2 ^ e else q * 2 ^ e)"

definition is_digits :: "string \<Rightarrow> bool" where
  "is_digits t \<longleftrightarrow> t \<noteq> [] \<and> list_all is_digit t"

definition number_of :: "string \<Rightarrow> nat" where
  "number_of t = js_number (digits_value t)"

text \<open>Two prerelease identifiers that differ.\<close>

definition compare_identifiers :: "string \<Rightarrow> string \<Rightarrow> int" where
  "compare_identifiers a b =
     (if is_digits a \<and> is_digits b then (if number_of a < number_of b then - 1 else 1)
      else if is_digits a \<noteq> is_digits b then (if is_digits a then - 1 else 1)
      else if a < b then - 1 else 1)"

fun compare_prerelease :: "string list \<Rightarrow> string list \<Rightarrow> int" where
  "compare_prerelease (a # as) (b # bs) =
     (if a = b then compare_prerelease as bs else compare_identifiers a b)"
| "compare_prerelease [] [] = 0"
| "compare_prerelease [] (b # bs) = - 1"
| "compare_prerelease (a # as) [] = 1"

fun compare_core :: "string list \<Rightarrow> string list \<Rightarrow> int" where
  "compare_core (a # as) (b # bs) =
     (if number_of a \<noteq> number_of b then (if number_of a < number_of b then - 1 else 1)
      else compare_core as bs)"
| "compare_core _ _ = 0"

definition compare_package_versions :: "string \<Rightarrow> string \<Rightarrow> int" where
  "compare_package_versions l r =
     (let a = split_version l; b = split_version r; c = compare_core (core a) (core b) in
      if c \<noteq> 0 then c
      else if prerelease a = [] \<or> prerelease b = [] then
        (if length (prerelease a) = length (prerelease b) then 0
         else if prerelease a = [] then 1 else - 1)
      else compare_prerelease (prerelease a) (prerelease b))"

record runtime_range =
  minimum_inclusive :: string
  maximum_exclusive :: string

definition parse_runtime_range :: "json \<Rightarrow> exn + runtime_range" where
  "parse_runtime_range v =
     bindR (parse_exact_record [''minimum_inclusive'', ''maximum_exclusive''] v) (\<lambda>r.
     bindR (parse_package_version (fld r ''minimum_inclusive'')) (\<lambda>lo.
     bindR (parse_package_version (fld r ''maximum_exclusive'')) (\<lambda>hi.
     ensureR (compare_package_versions lo hi < 0)
       (PublicContractError (STR ''minimum_inclusive must be lower than maximum_exclusive''))
       (Inr \<lparr>minimum_inclusive = lo, maximum_exclusive = hi\<rparr>))))"

definition runtime_supports_version :: "runtime_range \<Rightarrow> string \<Rightarrow> bool" where
  "runtime_supports_version r v \<longleftrightarrow>
     compare_package_versions (minimum_inclusive r) v \<le> 0 \<and>
     compare_package_versions v (maximum_exclusive r) < 0"

section \<open>The order of SemVer\<close>

datatype version_part = Numeric nat | Textual string

instantiation version_part :: linorder
begin

fun less_version_part :: "version_part \<Rightarrow> version_part \<Rightarrow> bool" where
  "less_version_part (Numeric m) (Numeric n) = (m < n)"
| "less_version_part (Numeric m) (Textual t) = True"
| "less_version_part (Textual s) (Numeric n) = False"
| "less_version_part (Textual s) (Textual t) = (s < t)"

definition less_eq_version_part :: "version_part \<Rightarrow> version_part \<Rightarrow> bool" where
  "less_eq_version_part a b \<longleftrightarrow> a < b \<or> a = b"

instance
proof
  fix a b c :: version_part
  show "(a < b) = (a \<le> b \<and> \<not> b \<le> a)"
    by (cases a; cases b) (auto simp: less_eq_version_part_def)
  show "a \<le> a" by (simp add: less_eq_version_part_def)
  show "a \<le> b \<Longrightarrow> b \<le> c \<Longrightarrow> a \<le> c"
    by (cases a; cases b; cases c) (auto simp: less_eq_version_part_def)
  show "a \<le> b \<Longrightarrow> b \<le> a \<Longrightarrow> a = b"
    by (cases a; cases b) (auto simp: less_eq_version_part_def)
  show "a \<le> b \<or> b \<le> a"
    by (cases a; cases b) (auto simp: less_eq_version_part_def)
qed

end

definition identifier_of :: "string \<Rightarrow> version_part" where
  "identifier_of t = (if is_digits t then Numeric (digits_value t) else Textual t)"

text \<open>A release comes after its prereleases.\<close>

definition version_key :: "string \<Rightarrow> nat list \<times> nat \<times> version_part list" where
  "version_key s =
     (map digits_value (core (split_version s)),
      (if prerelease (split_version s) = [] then 1 else 0),
      map identifier_of (prerelease (split_version s)))"

definition exact_numbers :: "string \<Rightarrow> bool" where
  "exact_numbers s \<longleftrightarrow>
     list_all (\<lambda>t. digits_value t < 2 ^ 53) (core (split_version s)) \<and>
     list_all (\<lambda>t. is_digits t \<longrightarrow> digits_value t < 2 ^ 53) (prerelease (split_version s))"

definition sign_of :: "'a::linorder \<Rightarrow> 'a \<Rightarrow> int" where
  "sign_of a b = (if a < b then - 1 else if a = b then 0 else 1)"

lemma digits_value_Cons_snoc: "digits_value (t @ [c]) = 10 * digits_value t + digit_value c"
  by (simp add: digits_value_append)

lemma is_digit_char: "is_digit c \<Longrightarrow> char_of (48 + digit_value c) = c \<and> digit_value c < 10"
  unfolding is_digit_def digit_value_def by auto

lemma is_digit_nonzero:
  assumes "is_digit c" "c \<noteq> CHR ''0''"
  shows "digit_value c \<noteq> 0"
proof
  assume "digit_value c = 0"
  then have "byte c = byte CHR ''0''" using assms(1) by (simp add: is_digit_def digit_value_def)
  then show False using assms(2) by (simp only: of_char_eq_iff)
qed

lemma digits_value_pos: "list_all is_digit t \<Longrightarrow> t \<noteq> [] \<Longrightarrow> hd t \<noteq> CHR ''0'' \<Longrightarrow> 0 < digits_value t"
proof (induction t rule: rev_induct)
  case (snoc c t)
  show ?case
  proof (cases "t = []")
    case True
    with snoc.prems have "is_digit c" "c \<noteq> CHR ''0''" by simp_all
    then have "digit_value c \<noteq> 0" by (rule is_digit_nonzero)
    with True show ?thesis by simp
  next
    case False
    with snoc show ?thesis by (simp add: digits_value_append)
  qed
qed simp

lemma digits_of_digits_value: "is_array_index t \<Longrightarrow> digits_of (digits_value t) = t"
proof (induction t rule: rev_induct)
  case (snoc c t)
  from snoc.prems have "is_digit c" by (simp add: is_array_index_def)
  then have c: "char_of (48 + digit_value c) = c" "digit_value c < 10"
    using is_digit_char by blast+
  show ?case
  proof (cases "t = []")
    case True
    with c show ?thesis by (simp add: digits_of.simps[of "digit_value c"])
  next
    case False
    with snoc.prems have t: "is_array_index t" "0 < digits_value t"
      by (auto simp: is_array_index_def intro: digits_value_pos)
    with snoc.IH c show ?thesis
      by (subst digits_of.simps) (simp add: digits_value_append)
  qed
qed (simp add: is_array_index_def)

lemma index_value_inj:
  "digits_value a = digits_value b \<Longrightarrow> is_array_index a \<Longrightarrow> is_array_index b \<Longrightarrow> a = b"
  using digits_of_digits_value by metis

lemma is_array_index_digits: "is_array_index t \<Longrightarrow> is_digits t"
  by (simp add: is_array_index_def is_digits_def)

lemma version_identifier_digits: "is_version_identifier t \<Longrightarrow> is_digits t \<Longrightarrow> is_array_index t"
  by (auto simp: is_version_identifier_def is_digits_def list_ex_iff list_all_iff)

lemma identifier_of_inj:
  "is_version_identifier a \<Longrightarrow> is_version_identifier b \<Longrightarrow> identifier_of a = identifier_of b \<longleftrightarrow> a = b"
  unfolding identifier_of_def
  using digits_of_digits_value version_identifier_digits
  by (metis version_part.distinct(1) version_part.inject)

lemma js_number_exact [simp]: "n < 2 ^ 53 \<Longrightarrow> js_number n = n"
  by (simp add: js_number_def)

lemma sign_of_simps [simp]: "sign_of (x # xs) (y # ys) = (if x = y then sign_of xs ys else sign_of x y)"
  "sign_of [] [] = 0" "sign_of [] (y # ys) = - 1" "sign_of (x # xs) [] = 1"
  by (auto simp: sign_of_def)

lemma compare_identifiers_sign:
  assumes "is_version_identifier a" "is_version_identifier b" "a \<noteq> b"
    "is_digits a \<Longrightarrow> digits_value a < 2 ^ 53" "is_digits b \<Longrightarrow> digits_value b < 2 ^ 53"
  shows "compare_identifiers a b = sign_of (identifier_of a) (identifier_of b)"
  using assms identifier_of_inj[of a b]
  by (auto simp: compare_identifiers_def sign_of_def identifier_of_def number_of_def)

definition identifiers_ok :: "string list \<Rightarrow> bool" where
  "identifiers_ok ts \<longleftrightarrow> (\<forall>t \<in> set ts. is_version_identifier t \<and> (is_digits t \<longrightarrow> digits_value t < 2 ^ 53))"

lemma compare_prerelease_sign:
  "identifiers_ok as \<Longrightarrow> identifiers_ok bs \<Longrightarrow>
    compare_prerelease as bs = sign_of (map identifier_of as) (map identifier_of bs)"
  by (induction as bs rule: compare_prerelease.induct)
    (auto simp: identifiers_ok_def identifier_of_inj compare_identifiers_sign)

definition core_ok :: "string list \<Rightarrow> bool" where
  "core_ok ts \<longleftrightarrow> (\<forall>t \<in> set ts. is_array_index t \<and> digits_value t < 2 ^ 53)"

lemma compare_core_sign:
  "core_ok as \<Longrightarrow> core_ok bs \<Longrightarrow> length as = length bs \<Longrightarrow>
    compare_core as bs = sign_of (map digits_value as) (map digits_value bs)"
  by (induction as bs rule: compare_core.induct) (auto simp: core_ok_def number_of_def sign_of_def)

lemma version_parts:
  assumes "is_package_version s" "exact_numbers s"
  shows "core_ok (core (split_version s))" "identifiers_ok (prerelease (split_version s))"
    "length (core (split_version s)) = 3"
  using assms
  by (auto simp: is_package_version_def exact_numbers_def core_ok_def identifiers_ok_def list_all_iff)

lemma compare_is_key_order:
  assumes "is_package_version a" "exact_numbers a" "is_package_version b" "exact_numbers b"
  shows "compare_package_versions a b = sign_of (version_key a) (version_key b)"
proof -
  note A = version_parts[OF assms(1,2)] and B = version_parts[OF assms(3,4)]
  let ?ca = "map digits_value (core (split_version a))" and ?cb = "map digits_value (core (split_version b))"
  let ?pa = "prerelease (split_version a)" and ?pb = "prerelease (split_version b)"
  have c: "compare_core (core (split_version a)) (core (split_version b)) = sign_of ?ca ?cb"
    by (rule compare_core_sign) (use A B in auto)
  have p: "compare_prerelease ?pa ?pb = sign_of (map identifier_of ?pa) (map identifier_of ?pb)"
    by (rule compare_prerelease_sign) (use A B in auto)
  show ?thesis
  proof (cases "?ca = ?cb")
    case True
    then have "sign_of ?ca ?cb = 0" by (simp add: sign_of_def)
    then show ?thesis
      using True c p
      by (cases ?pa; cases ?pb)
        (simp_all add: compare_package_versions_def Let_def version_key_def sign_of_def)
  next
    case False
    then have "sign_of ?ca ?cb \<noteq> 0" "sign_of (version_key a) (version_key b) = sign_of ?ca ?cb"
      by (auto simp: sign_of_def version_key_def)
    then show ?thesis using c by (simp add: compare_package_versions_def Let_def)
  qed
qed

lemma join_split: "join_with [c] (split_on c s) = s"
  by (induction s) (auto simp: join_with_Cons split: list.splits)

lemma prerelease_text_inj:
  assumes "(case x of [] \<Rightarrow> [] | _ # p \<Rightarrow> split_on c p) = (case y of [] \<Rightarrow> [] | _ # p \<Rightarrow> split_on c p)"
    and "x \<noteq> [] \<Longrightarrow> hd x = d" "y \<noteq> [] \<Longrightarrow> hd y = d"
  shows "x = y"
proof (cases x)
  case Nil
  with assms(1) show ?thesis by (cases y) (simp_all add: eq_commute[of "[]"])
next
  case (Cons a p)
  with assms(1) obtain b q where y: "y = b # q" "split_on c p = split_on c q"
    by (cases y) simp_all
  then have "p = q" using join_split by metis
  then show ?thesis using Cons y assms(2,3) by simp
qed

lemma split_version_inj:
  assumes "split_version a = split_version b"
  shows "a = b"
proof -
  let ?t = "takeWhile (\<lambda>c. c \<noteq> CHR ''-'')" and ?d = "dropWhile (\<lambda>c. c \<noteq> CHR ''-'')"
  have "split_on CHR ''.'' (?t a) = split_on CHR ''.'' (?t b)"
    using assms by (simp add: split_version_def)
  then have "?t a = ?t b" using join_split by metis
  moreover have "?d a = ?d b"
    by (rule prerelease_text_inj[where c = "CHR ''.''" and d = "CHR ''-''"])
      (use assms hd_dropWhile[of "\<lambda>c. c \<noteq> CHR ''-''"] in \<open>simp_all add: split_version_def\<close>)
  ultimately show ?thesis by (metis takeWhile_dropWhile_id)
qed

lemma map_inj_on_eq:
  "(\<And>x y. x \<in> set xs \<Longrightarrow> y \<in> set ys \<Longrightarrow> f x = f y \<Longrightarrow> x = y) \<Longrightarrow> map f xs = map f ys \<Longrightarrow> xs = ys"
proof (induction xs arbitrary: ys)
  case (Cons x xs)
  then show ?case by (cases ys) auto
qed simp

lemma version_key_inj:
  assumes "is_package_version a" "is_package_version b" "version_key a = version_key b"
  shows "a = b"
proof (rule split_version_inj)
  have "core (split_version a) = core (split_version b)"
    by (rule map_inj_on_eq[where f = digits_value])
      (use assms in \<open>auto simp: is_package_version_def list_all_iff version_key_def intro: index_value_inj\<close>)
  moreover have "prerelease (split_version a) = prerelease (split_version b)"
    by (rule map_inj_on_eq[where f = identifier_of])
      (use assms identifier_of_inj in \<open>auto simp: is_package_version_def list_all_iff version_key_def\<close>)
  ultimately show "split_version a = split_version b" by simp
qed

text \<open>
  On canonical versions whose numbers a double holds exactly, \<open>comparePackageVersions\<close>
  is a linear order, the one of SemVer 2.0.0: it is the sign of the lexicographic order of
  (numbers, release after prerelease, prerelease identifiers with numbers before texts),
  it is antisymmetric, it is transitive, and it is 0 only for equal texts.
\<close>

theorem compare_package_versions_linear:
  assumes "is_package_version a" "exact_numbers a" "is_package_version b" "exact_numbers b"
    "is_package_version c" "exact_numbers c"
  shows "compare_package_versions a b = sign_of (version_key a) (version_key b) \<and>
    compare_package_versions b a = - compare_package_versions a b \<and>
    (compare_package_versions a b = 0 \<longleftrightarrow> a = b) \<and>
    (compare_package_versions a b \<le> 0 \<and> compare_package_versions b c \<le> 0 \<longrightarrow>
      compare_package_versions a c \<le> 0)"
  using assms version_key_inj[of a b]
  by (simp add: compare_is_key_order) (auto simp: sign_of_def split: if_splits)

lemmas version_defs = is_package_version_def exact_numbers_def split_version_def is_array_index_def
  is_version_identifier_def is_lower_alnum_def is_lower_def is_upper_def is_digit_def digits_value_def
  digit_value_def compare_package_versions_def is_digits_def number_of_def compare_identifiers_def
  js_number_def bit_count.simps

theorem compare_package_versions_linear_witness:
  "compare_package_versions ''1.0.0-alpha.9'' ''1.0.0-alpha.10'' = - 1 \<and>
   compare_package_versions ''1.0.0-alpha.10'' ''1.0.0'' = - 1 \<and>
   compare_package_versions ''1.0.0-alpha.9'' ''1.0.0'' \<le> 0"
proof -
  have v: "is_package_version ''1.0.0-alpha.9'' \<and> exact_numbers ''1.0.0-alpha.9''"
    "is_package_version ''1.0.0-alpha.10'' \<and> exact_numbers ''1.0.0-alpha.10''"
    "is_package_version ''1.0.0'' \<and> exact_numbers ''1.0.0''"
    by (simp_all add: version_defs)
  have c: "compare_package_versions ''1.0.0-alpha.9'' ''1.0.0-alpha.10'' = - 1"
    "compare_package_versions ''1.0.0-alpha.10'' ''1.0.0'' = - 1"
    by (simp_all add: version_defs)
  show ?thesis
    using compare_package_versions_linear[of "''1.0.0-alpha.9''" "''1.0.0-alpha.10''" "''1.0.0''"] v c
    by simp
qed

text \<open>
  Beyond \<open>2 ^ 53\<close> the order of prerelease numbers is not antisymmetric:
  \<open>Number(text)\<close> rounds both to one double, and each version is then reported as the
  greater one.
\<close>

theorem compare_package_versions_rounds:
  "is_package_version ''1.0.0-9007199254740992'' \<and> is_package_version ''1.0.0-9007199254740993'' \<and>
   compare_package_versions ''1.0.0-9007199254740992'' ''1.0.0-9007199254740993'' = 1 \<and>
   compare_package_versions ''1.0.0-9007199254740993'' ''1.0.0-9007199254740992'' = 1"
  by (simp add: version_defs)

end
