(* ===== verification/Origin_Scheduler.thy ===== *)
theory Origin_Scheduler
  imports Workload_Queue Traffic_Policy Package_Version
begin

text \<open>
  The origin scheduler (\<open>OriginSchedulerV1\<close> of \<open>src/src/execution/origin-scheduler.ts\<close>):
  admission of queued requests under a concurrency limit, a token bucket, a minimum delay
  and a circuit breaker, with the persisted breaker state.

  Time is in milliseconds. Each call of the clock is a separate argument: the code reads it
  up to four times in one operation, and \<open>clock\<close> holds the readings in their order. Tokens
  are exact rationals where the code has doubles. The promises the code settles are the
  outcomes an operation returns, in order; \<open>aborted\<close> tells which requests' abort signals
  are set while the operation runs. A pending timer is its due time.
\<close>

section \<open>State\<close>

record origin_entry =
  policy :: traffic_policy
  entry_queues :: workload_queues
  active :: int
  tokens :: rat
  last_refill_at :: int
  next_admission_at :: int
  transient_failures :: "int list"
  circuit_open_until :: int
  timer :: "int option"

record persisted_origin =
  saved_open_until :: int
  saved_failures :: "int list"

record scheduler =
  entries :: "(string \<times> origin_entry) list"
  recovered :: "(string \<times> persisted_origin) list"
  state_file :: "string option"

datatype completion = Success | Transient_Failure | Neutral

datatype outcome = Admitted admission | Refused_Cancelled admission | Refused_Circuit_Open admission

text \<open>The clock readings of one drain: its own, and the two of \<open>scheduleNextAdmission\<close>.\<close>

record clock =
  drain_now :: int
  schedule_now :: int
  wait_now :: int

section \<open>Operations of one entry\<close>

definition refill :: "int \<Rightarrow> origin_entry \<Rightarrow> origin_entry" where
  "refill now e =
     (let elapsed = max 0 (now - last_refill_at e) in
      e\<lparr>last_refill_at := now,
        tokens := min (of_int (burst (policy e)))
          (tokens e + of_int elapsed * requests_per_second (policy e) / 1000)\<rparr>)"

definition drop_cancelled :: "(admission \<Rightarrow> bool) \<Rightarrow> origin_entry \<Rightarrow> origin_entry \<times> outcome list" where
  "drop_cancelled aborted e =
     (let gone = List.filter aborted (queued_admissions (entry_queues e)) in
      (e\<lparr>entry_queues := fold remove_queued gone (entry_queues e)\<rparr>, map Refused_Cancelled gone))"

definition reject_queued_for_open_circuit :: "origin_entry \<Rightarrow> origin_entry \<times> outcome list" where
  "reject_queued_for_open_circuit e =
     (let gone = queued_admissions (entry_queues e) in
      (e\<lparr>entry_queues := fold remove_queued gone (entry_queues e)\<rparr>, map Refused_Circuit_Open gone))"

definition may_admit :: "int \<Rightarrow> origin_entry \<Rightarrow> bool" where
  "may_admit now e \<longleftrightarrow> 0 < queued_count (entry_queues e) \<and> active e < max_concurrency (policy e) \<and>
     1 \<le> tokens e \<and> next_admission_at e \<le> now"

definition admit_one :: "int \<Rightarrow> origin_entry \<Rightarrow> workload_queues \<Rightarrow> origin_entry" where
  "admit_one now e q = e\<lparr>entry_queues := q, active := active e + 1, tokens := tokens e - 1,
     next_admission_at := now + min_delay_ms (policy e)\<rparr>"

text \<open>The \<open>while\<close> loop of \<open>drain\<close>; the first argument is fuel, one more than the queue.\<close>

primrec admit_queued :: "nat \<Rightarrow> int \<Rightarrow> origin_entry \<Rightarrow> origin_entry \<times> outcome list" where
  "admit_queued 0 now e = (e, [])"
| "admit_queued (Suc n) now e =
     (if may_admit now e then
        (case dequeue_round_robin (entry_queues e) of
           (None, q) \<Rightarrow> (e\<lparr>entry_queues := q\<rparr>, [])
         | (Some r, q) \<Rightarrow>
             (case admit_queued n now (admit_one now e q) of (e', out) \<Rightarrow> (e', Admitted r # out)))
      else (e, []))"

definition token_delay :: "origin_entry \<Rightarrow> int" where
  "token_delay e = (if 1 \<le> tokens e then 0
     else \<lceil>(1 - tokens e) * 1000 / requests_per_second (policy e)\<rceil>)"

definition schedule_next_admission :: "clock \<Rightarrow> origin_entry \<Rightarrow> origin_entry" where
  "schedule_next_admission c e =
     (if queued_count (entry_queues e) = 0 \<or> schedule_now c < circuit_open_until e then e
      else
        (let wait = max 0 (max (next_admission_at e - wait_now c) (token_delay e)) in
         if wait = 0 then e else e\<lparr>timer := Some (wait_now c + wait)\<rparr>))"

definition drain :: "clock \<Rightarrow> (admission \<Rightarrow> bool) \<Rightarrow> origin_entry \<Rightarrow> origin_entry \<times> outcome list" where
  "drain c aborted e =
     (case drop_cancelled aborted (refill (drain_now c) e) of (e1, out1) \<Rightarrow>
        if queued_count (entry_queues e1) = 0 then (e1, out1)
        else if drain_now c < circuit_open_until e1 then
          (case reject_queued_for_open_circuit e1 of (e2, out2) \<Rightarrow> (e2, out1 @ out2))
        else
          (case admit_queued (Suc (queued_count (entry_queues e1))) (drain_now c) e1 of (e2, out2) \<Rightarrow>
             (schedule_next_admission c e2, out1 @ out2)))"

definition record_completion :: "int \<Rightarrow> completion \<Rightarrow> origin_entry \<Rightarrow> origin_entry" where
  "record_completion now outc e =
     (let window_start = now - transient_window_ms (circuit_breaker (policy e));
          failures = List.filter (\<lambda>t. t \<ge> window_start) (transient_failures e) in
      if outc = Transient_Failure then
        (let failures' = failures @ [now] in
         if int (length failures') \<ge> transient_failure_threshold (circuit_breaker (policy e)) then
           e\<lparr>transient_failures := [],
             circuit_open_until := now + cooldown_ms (circuit_breaker (policy e))\<rparr>
         else e\<lparr>transient_failures := failures'\<rparr>)
      else e\<lparr>transient_failures := failures\<rparr>)"

section \<open>Operations of the scheduler\<close>

definition parse_workload_id :: "string option \<Rightarrow> exn + string" where
  "parse_workload_id w = (case w of
     None \<Rightarrow> Inr ''foreground''
   | Some s \<Rightarrow> ensureR (s \<noteq> [] \<and> length s \<le> 256)
       (PublicContractError (STR ''must be a non-empty UTF-8 string'')) (Inr s))"

definition merge_into :: "traffic_policy \<Rightarrow> origin_entry \<Rightarrow> exn + origin_entry" where
  "merge_into p e = bindR (merge_conservatively (policy e) p) (\<lambda>m.
     Inr (e\<lparr>policy := m, tokens := min (tokens e) (of_int (burst m))\<rparr>))"

definition new_entry :: "int \<Rightarrow> traffic_policy \<Rightarrow> persisted_origin option \<Rightarrow> origin_entry" where
  "new_entry now p saved =
     (let failures = List.filter (\<lambda>t. t \<ge> now - transient_window_ms (circuit_breaker p))
            (case saved of None \<Rightarrow> [] | Some st \<Rightarrow> saved_failures st);
          open_until = (case saved of None \<Rightarrow> 0 | Some st \<Rightarrow> saved_open_until st) in
      \<lparr>policy = p, entry_queues = empty_queues, active = 0, tokens = of_int (burst p),
       last_refill_at = now, next_admission_at = now, transient_failures = failures,
       circuit_open_until = (if open_until > now then open_until else 0), timer = None\<rparr>)"

definition get_entry :: "int \<Rightarrow> traffic_policy \<Rightarrow> scheduler \<Rightarrow> exn + origin_entry \<times> scheduler" where
  "get_entry now p s = (case map_of (entries s) (tp_origin p) of
     Some e \<Rightarrow> bindR (merge_into p e) (\<lambda>e'.
       Inr (e', s\<lparr>entries := AList.update (tp_origin p) e' (entries s)\<rparr>))
   | None \<Rightarrow>
       (let saved = map_of (recovered s) (tp_origin p); e = new_entry now p saved;
            open_until = (case saved of None \<Rightarrow> 0 | Some st \<Rightarrow> saved_open_until st);
            s1 = (if open_until \<le> now \<and> transient_failures e = []
                  then s\<lparr>recovered := AList.delete (tp_origin p) (recovered s)\<rparr> else s) in
        Inr (e, s1\<lparr>entries := AList.update (tp_origin p) e (entries s1)\<rparr>)))"

definition set_entry :: "string \<Rightarrow> origin_entry \<Rightarrow> scheduler \<Rightarrow> scheduler" where
  "set_entry origin e s = s\<lparr>entries := AList.update origin e (entries s)\<rparr>"

definition acquire ::
  "int \<Rightarrow> clock \<Rightarrow> traffic_policy \<Rightarrow> string option \<Rightarrow> nat \<Rightarrow> bool \<Rightarrow> (admission \<Rightarrow> bool) \<Rightarrow>
    scheduler \<Rightarrow> exn + scheduler \<times> outcome list" where
  "acquire now c p workload rid cancelled aborted s =
     ensureR (\<not> cancelled) OriginCancelled
      (bindR (parse_workload_id workload) (\<lambda>w.
       bindR (get_entry now p s) (\<lambda>(e, s1).
         (case drain c aborted (e\<lparr>entry_queues := enqueue (w, rid) (entry_queues e)\<rparr>) of
            (e', out) \<Rightarrow> Inr (set_entry (tp_origin p) e' s1, out)))))"

text \<open>The abort listener of a queued request.\<close>

definition abort_queued :: "admission \<Rightarrow> origin_entry \<Rightarrow> origin_entry \<times> outcome list" where
  "abort_queued r e = (e\<lparr>entry_queues := remove_queued r (entry_queues e)\<rparr>, [Refused_Cancelled r])"

text \<open>The timer callback.\<close>

definition timer_fired :: "clock \<Rightarrow> (admission \<Rightarrow> bool) \<Rightarrow> origin_entry \<Rightarrow> origin_entry \<times> outcome list" where
  "timer_fired c aborted e = drain c aborted (e\<lparr>timer := None\<rparr>)"

section \<open>Persistence\<close>

definition persisted_states :: "int \<Rightarrow> scheduler \<Rightarrow> (string \<times> persisted_origin) list" where
  "persisted_states now s =
     fold (\<lambda>(origin, e) states.
         if circuit_open_until e > now \<or> transient_failures e \<noteq> []
         then AList.update origin \<lparr>saved_open_until = circuit_open_until e,
           saved_failures = transient_failures e\<rparr> states
         else AList.delete origin states)
       (entries s) (recovered s)"

definition state_json :: "persisted_origin \<Rightarrow> json" where
  "state_json st = JObj
     [(''circuit_open_until'', JNum (NInt (saved_open_until st))),
      (''transient_failures'', JArr (map (\<lambda>t. JNum (NInt t)) (sort (saved_failures st))))]"

text \<open>
  \<open>writePersistedState\<close>: the text it writes. The origins are sorted before they become an
  object, whose keys the canonical text sorts again.
\<close>

definition write_persisted_state :: "(string \<times> persisted_origin) list \<Rightarrow> exn + string" where
  "write_persisted_state states =
     canonical_json (JObj [(''scheduler_state_schema_version'', JNum (NInt 1)),
       (''origins'', JObj (map (\<lambda>(origin, st). (origin, state_json st)) states))])"

definition persist :: "int \<Rightarrow> scheduler \<Rightarrow> exn + scheduler" where
  "persist now s = (case state_file s of
     None \<Rightarrow> Inr s
   | Some _ \<Rightarrow> bindR (write_persisted_state (persisted_states now s)) (\<lambda>t.
       Inr (s\<lparr>state_file := Some t\<rparr>)))"

text \<open>\<open>release\<close> of a permit that has not been released: the clock is read by the completion, by \<open>persist\<close> and by the drain.\<close>

definition release ::
  "int \<Rightarrow> int \<Rightarrow> clock \<Rightarrow> completion \<Rightarrow> string \<Rightarrow> (admission \<Rightarrow> bool) \<Rightarrow> scheduler \<Rightarrow>
    exn + scheduler \<times> outcome list" where
  "release now now2 c outc origin aborted s = (case map_of (entries s) origin of
     None \<Rightarrow> Inl (OtherError (STR ''no entry''))
   | Some e \<Rightarrow>
       (let e1 = record_completion now outc (e\<lparr>active := active e - 1\<rparr>) in
        bindR (persist now2 (set_entry origin e1 s)) (\<lambda>s1.
          (case drain c aborted e1 of (e2, out) \<Rightarrow> Inr (set_entry origin e2 s1, out)))))"

definition parse_http_origin :: "(string \<Rightarrow> bool) \<Rightarrow> json \<Rightarrow> exn + string" where
  "parse_http_origin is_origin v = bindR (parse_string 2048 v) (\<lambda>t.
     ensureR (is_origin t) (PublicContractError (STR ''must be a canonical HTTP(S) origin'')) (Inr t))"

definition ascending :: "int list \<Rightarrow> bool" where
  "ascending ts \<longleftrightarrow> list_all (\<lambda>(x, y). x \<le> y) (zip ts (tl ts))"

definition parse_persisted_origin :: "json \<Rightarrow> exn + persisted_origin" where
  "parse_persisted_origin v =
     bindR (parse_exact_record [''circuit_open_until'', ''transient_failures''] v) (\<lambda>r.
       (case fld r ''transient_failures'' of
          JArr ts \<Rightarrow>
            ensureR (length ts \<le> 10) (PublicContractError (STR ''must contain at most ten timestamps''))
              (bindR (mapR (parse_integer 0 max_safe_integer) ts) (\<lambda>failures.
                ensureR (ascending failures) (PublicContractError (STR ''must be in ascending order''))
                  (bindR (parse_integer 0 max_safe_integer (fld r ''circuit_open_until'')) (\<lambda>u.
                    Inr \<lparr>saved_open_until = u, saved_failures = failures\<rparr>))))
        | _ \<Rightarrow> Inl (PublicContractError (STR ''must contain at most ten timestamps''))))"

definition read_persisted_state ::
  "(string \<Rightarrow> bool) \<Rightarrow> string option \<Rightarrow> exn + (string \<times> persisted_origin) list" where
  "read_persisted_state is_origin file = (case file of
     None \<Rightarrow> Inr []
   | Some bytes \<Rightarrow>
       bindR (parse_strict_json (256 * 1024) 12 bytes) (\<lambda>v.
       bindR (parse_exact_record [''scheduler_state_schema_version'', ''origins''] v) (\<lambda>r.
       ensureR (fld r ''scheduler_state_schema_version'' = JNum (NInt 1))
         (PublicContractError (STR ''must be 1''))
         (bindR (parse_bounded_record 1024 (fld r ''origins'')) (\<lambda>origins.
           mapR (\<lambda>(origin, st).
             bindR (parse_http_origin is_origin (JStr origin)) (\<lambda>_.
             bindR (parse_persisted_origin st) (\<lambda>p. Inr (origin, p)))) origins)))))"

section \<open>Status\<close>

datatype blocker = Blocked_Concurrency | Blocked_Rate | Blocked_Delay | Blocked_Circuit

record origin_status =
  os_origin :: string
  active_requests :: int
  queued_requests :: nat
  queued_workloads :: nat
  os_blocker :: "blocker option"
  next_admission_at_ms :: "int option"
  circuit_open_until_ms :: "int option"

definition entry_status :: "string \<Rightarrow> int \<Rightarrow> origin_entry \<Rightarrow> origin_status option" where
  "entry_status origin now e =
     (let queued = queued_count (entry_queues e); is_open = circuit_open_until e > now in
      if active e = 0 \<and> queued = 0 \<and> \<not> is_open then None
      else
        (let toks = min (of_int (burst (policy e)))
               (tokens e + of_int (max 0 (now - last_refill_at e)) * requests_per_second (policy e) / 1000);
             b = (if is_open then Some Blocked_Circuit
                  else if queued > 0 \<and> active e \<ge> max_concurrency (policy e) then Some Blocked_Concurrency
                  else if queued > 0 \<and> toks < 1 then Some Blocked_Rate
                  else if queued > 0 \<and> next_admission_at e > now then Some Blocked_Delay
                  else None);
             nxt = (case b of
                Some Blocked_Circuit \<Rightarrow> Some (circuit_open_until e)
              | Some Blocked_Rate \<Rightarrow> Some (now + \<lceil>(1 - toks) * 1000 / requests_per_second (policy e)\<rceil>)
              | Some Blocked_Delay \<Rightarrow> Some (next_admission_at e)
              | _ \<Rightarrow> None) in
         Some \<lparr>os_origin = origin, active_requests = active e, queued_requests = queued,
           queued_workloads = length (queues (entry_queues e)), os_blocker = b,
           next_admission_at_ms = nxt,
           circuit_open_until_ms = (if is_open then Some (circuit_open_until e) else None)\<rparr>))"

definition recovered_status :: "string \<Rightarrow> int \<Rightarrow> persisted_origin option \<Rightarrow> origin_status option" where
  "recovered_status origin now saved = (case saved of
     None \<Rightarrow> None
   | Some st \<Rightarrow>
       if saved_open_until st \<le> now then None
       else Some \<lparr>os_origin = origin, active_requests = 0, queued_requests = 0, queued_workloads = 0,
         os_blocker = Some Blocked_Circuit, next_admission_at_ms = Some (saved_open_until st),
         circuit_open_until_ms = Some (saved_open_until st)\<rparr>)"

text \<open>\<open>snapshot\<close>; \<open>collate\<close> is the host's locale collation key.\<close>

definition snapshot :: "(string \<Rightarrow> string) \<Rightarrow> int \<Rightarrow> scheduler \<Rightarrow> origin_status list" where
  "snapshot collate now s =
     (let origins = map fst (entries s) @
            List.filter (\<lambda>origin. origin \<notin> set (map fst (entries s))) (map fst (recovered s)) in
      sort_key (\<lambda>st. collate (os_origin st))
        (List.map_filter (\<lambda>origin. case map_of (entries s) origin of
            None \<Rightarrow> recovered_status origin now (map_of (recovered s) origin)
          | Some e \<Rightarrow> entry_status origin now e) origins))"

end
