(* ===== verification/Scheduler_Proofs.thy ===== *)
theory Scheduler_Proofs
  imports Origin_Scheduler
begin

text \<open>
  What the origin scheduler guarantees: the invariant of an entry, the analysis of one
  \<open>drain\<close>, the step relation of an entry with its permits and its invariant, the token
  bucket bound over any run, the progress of waiting requests and the wake-up it can lose,
  and the round trip of the persisted state.
\<close>

section \<open>One drain\<close>

definition entry_ok :: "origin_entry \<Rightarrow> bool" where
  "entry_ok e \<longleftrightarrow> policy_ok (policy e) \<and> queues_ok (entry_queues e) \<and> 0 \<le> active e \<and>
     0 \<le> tokens e \<and> tokens e \<le> of_int (burst (policy e))"

abbreviation waiting :: "origin_entry \<Rightarrow> admission multiset" where
  "waiting e \<equiv> pending_requests (entry_queues e)"

fun outcome_request :: "outcome \<Rightarrow> admission" where
  "outcome_request (Admitted r) = r"
| "outcome_request (Refused_Cancelled r) = r"
| "outcome_request (Refused_Circuit_Open r) = r"

fun is_admitted :: "outcome \<Rightarrow> bool" where
  "is_admitted (Admitted r) = True"
| "is_admitted _ = False"

definition admissions :: "outcome list \<Rightarrow> admission list" where
  "admissions out = map outcome_request (List.filter is_admitted out)"

lemma admissions_simps [simp]:
  "admissions [] = []"
  "admissions (a @ b) = admissions a @ admissions b"
  "admissions (map Admitted rs) = rs"
  "admissions (map Refused_Cancelled rs) = []"
  "admissions (map Refused_Circuit_Open rs) = []"
  by (simp_all add: admissions_def comp_def)

lemma outcome_request_map [simp]:
  "map outcome_request (map Admitted rs) = rs"
  "map outcome_request (map Refused_Cancelled rs) = rs"
  "map outcome_request (map Refused_Circuit_Open rs) = rs"
  by (simp_all add: comp_def)

lemma refill_ok:
  assumes "entry_ok e"
  shows "entry_ok (refill now e)"
proof -
  have "0 < requests_per_second (policy e)" "1 \<le> burst (policy e)"
    using assms by (simp_all add: entry_ok_def policy_ok_def)
  then have "0 \<le> of_int (max 0 (now - last_refill_at e)) * requests_per_second (policy e) / (1000 :: rat)"
    by simp
  then show ?thesis using assms \<open>1 \<le> burst (policy e)\<close>
    by (auto simp: entry_ok_def refill_def Let_def min_def)
qed

lemma admit_queued_spec:
  "entry_ok e \<Longrightarrow> queued_count (entry_queues e) < n \<Longrightarrow> admit_queued n now e = (e', out) \<Longrightarrow>
    \<exists>rs q. out = map Admitted rs \<and> entry_ok e' \<and> \<not> may_admit now e' \<and>
      waiting e = mset rs + pending_requests q \<and>
      e' = e\<lparr>entry_queues := q, active := active e + int (length rs),
        tokens := tokens e - of_nat (length rs),
        next_admission_at := (if rs = [] then next_admission_at e else now + min_delay_ms (policy e))\<rparr> \<and>
      (rs \<noteq> [] \<longrightarrow> next_admission_at e \<le> now \<and> active e' \<le> max_concurrency (policy e)) \<and>
      (1 < length rs \<longrightarrow> min_delay_ms (policy e) = 0)"
proof (induction n arbitrary: e e' out)
  case (Suc n)
  show ?case
  proof (cases "may_admit now e")
    case False
    with Suc.prems show ?thesis
      by (intro exI[of _ "[]"] exI[of _ "entry_queues e"]) simp
  next
    case True
    have q: "queues_ok (entry_queues e)" using Suc.prems(1) by (simp add: entry_ok_def)
    have "waiting e \<noteq> {#}" using True size_pending[of "entry_queues e"] by (auto simp: may_admit_def)
    from origin_queue.take_some[OF q this] obtain r q1 where
      d: "dequeue_round_robin (entry_queues e) = (Some r, q1)" "queues_ok q1"
        "waiting e = add_mset r (pending_requests q1)" by blast
    define e1 where "e1 = admit_one now e q1"
    have ok1: "entry_ok e1"
      using Suc.prems(1) True d(2) by (auto simp: e1_def admit_one_def entry_ok_def may_admit_def)
    have c1: "queued_count (entry_queues e1) < n"
      using Suc.prems(2) d(3) size_pending[of "entry_queues e"] size_pending[of q1]
      by (simp add: e1_def admit_one_def)
    obtain e2 out2 where a: "admit_queued n now e1 = (e2, out2)" by fastforce
    with Suc.prems(3) True d(1) have r: "e' = e2" "out = Admitted r # out2" by (simp_all add: e1_def)
    from Suc.IH[OF ok1 c1 a] obtain rs q where s: "out2 = map Admitted rs" "entry_ok e2"
      "\<not> may_admit now e2" "waiting e1 = mset rs + pending_requests q"
      "e2 = e1\<lparr>entry_queues := q, active := active e1 + int (length rs),
        tokens := tokens e1 - of_nat (length rs),
        next_admission_at := (if rs = [] then next_admission_at e1 else now + min_delay_ms (policy e1))\<rparr>"
      "rs \<noteq> [] \<Longrightarrow> next_admission_at e1 \<le> now \<and> active e2 \<le> max_concurrency (policy e1)"
      by blast
    have delay: "rs \<noteq> [] \<Longrightarrow> min_delay_ms (policy e) = 0"
      using s(6) Suc.prems(1) by (auto simp: e1_def admit_one_def entry_ok_def policy_ok_def)
    show ?thesis
    proof (intro exI[of _ "r # rs"] exI[of _ q] conjI)
      show "out = map Admitted (r # rs)" using r s(1) by simp
      show "entry_ok e'" "\<not> may_admit now e'" using r s by simp_all
      show "waiting e = mset (r # rs) + pending_requests q"
        using d(3) s(4) by (simp add: e1_def admit_one_def)
      show "e' = e\<lparr>entry_queues := q, active := active e + int (length (r # rs)),
        tokens := tokens e - of_nat (length (r # rs)),
        next_admission_at := (if r # rs = [] then next_admission_at e else now + min_delay_ms (policy e))\<rparr>"
        unfolding r s(5) by (simp add: e1_def admit_one_def)
      show "r # rs \<noteq> [] \<longrightarrow> next_admission_at e \<le> now \<and> active e' \<le> max_concurrency (policy e)"
        using True s(5,6) r by (cases "rs = []") (auto simp: may_admit_def e1_def admit_one_def)
      show "1 < length (r # rs) \<longrightarrow> min_delay_ms (policy e) = 0" using delay by auto
    qed
  qed
qed simp

lemma mset_filter_split: "mset xs = mset (filter P xs) + mset (filter (\<lambda>x. \<not> P x) xs)"
  using multiset_partition[of "mset xs" P] by (simp add: mset_filter)

lemma drop_cancelled_spec:
  assumes "entry_ok e" "drop_cancelled aborted e = (e', out)"
  shows "\<exists>rs q. out = map Refused_Cancelled rs \<and> e' = e\<lparr>entry_queues := q\<rparr> \<and> queues_ok q \<and>
    waiting e = mset rs + pending_requests q \<and> (\<forall>r \<in># pending_requests q. \<not> aborted r)"
proof -
  let ?q = "entry_queues e" and ?rs = "filter aborted (queued_admissions (entry_queues e))"
  let ?left = "filter (\<lambda>r. \<not> aborted r) (queued_admissions ?q)"
  have q: "queues_ok ?q" using assms(1) by (simp add: entry_ok_def)
  have m: "waiting e = mset ?rs + mset ?left"
    unfolding pending_requests_def by (rule mset_filter_split)
  have "pending_requests (fold remove_queued ?rs ?q) = waiting e - mset ?rs"
    using origin_queue.drop_many[OF q] by blast
  also have "\<dots> = mset ?left" unfolding m by (rule add_diff_cancel_left')
  finally have l: "pending_requests (fold remove_queued ?rs ?q) = mset ?left" .
  show ?thesis
  proof (intro exI conjI)
    show "out = map Refused_Cancelled ?rs" "e' = e\<lparr>entry_queues := fold remove_queued ?rs ?q\<rparr>"
      using assms(2) by (simp_all add: drop_cancelled_def Let_def)
    show "queues_ok (fold remove_queued ?rs ?q)" using origin_queue.drop_many[OF q] by blast
    show "waiting e = mset ?rs + pending_requests (fold remove_queued ?rs ?q)" using m l by simp
    show "\<forall>r \<in># pending_requests (fold remove_queued ?rs ?q). \<not> aborted r" by (simp add: l)
  qed
qed

lemma reject_queued_spec:
  assumes "entry_ok e" "reject_queued_for_open_circuit e = (e', out)"
  shows "\<exists>rs q. out = map Refused_Circuit_Open rs \<and> e' = e\<lparr>entry_queues := q\<rparr> \<and> queues_ok q \<and>
    waiting e = mset rs + pending_requests q \<and> pending_requests q = {#}"
proof -
  let ?q = "entry_queues e" and ?rs = "queued_admissions (entry_queues e)"
  have q: "queues_ok ?q" using assms(1) by (simp add: entry_ok_def)
  have l: "pending_requests (fold remove_queued ?rs ?q) = {#}"
    using origin_queue.drop_many[OF q, of ?rs] by (simp add: pending_requests_def)
  show ?thesis
  proof (intro exI conjI)
    show "out = map Refused_Circuit_Open ?rs" "e' = e\<lparr>entry_queues := fold remove_queued ?rs ?q\<rparr>"
      using assms(2) by (simp_all add: reject_queued_for_open_circuit_def Let_def)
    show "queues_ok (fold remove_queued ?rs ?q)" using origin_queue.drop_many[OF q] by blast
    show "waiting e = mset ?rs + pending_requests (fold remove_queued ?rs ?q)"
      unfolding l by (simp add: pending_requests_def)
  qed (rule l)
qed

lemma schedule_fields [simp]:
  "policy (schedule_next_admission c e) = policy e"
  "entry_queues (schedule_next_admission c e) = entry_queues e"
  "active (schedule_next_admission c e) = active e"
  "tokens (schedule_next_admission c e) = tokens e"
  "last_refill_at (schedule_next_admission c e) = last_refill_at e"
  "next_admission_at (schedule_next_admission c e) = next_admission_at e"
  "transient_failures (schedule_next_admission c e) = transient_failures e"
  "circuit_open_until (schedule_next_admission c e) = circuit_open_until e"
  by (simp_all add: schedule_next_admission_def Let_def)

lemma entry_ok_schedule [simp]: "entry_ok (schedule_next_admission c e) = entry_ok e"
  by (simp add: entry_ok_def)

lemma refill_fields [simp]:
  "policy (refill now e) = policy e" "entry_queues (refill now e) = entry_queues e"
  "active (refill now e) = active e" "last_refill_at (refill now e) = now"
  "next_admission_at (refill now e) = next_admission_at e"
  "transient_failures (refill now e) = transient_failures e"
  "circuit_open_until (refill now e) = circuit_open_until e" "timer (refill now e) = timer e"
  by (simp_all add: refill_def Let_def)

text \<open>What one drain did, in terms of its outcomes.\<close>

definition drain_result :: "clock \<Rightarrow> (admission \<Rightarrow> bool) \<Rightarrow> origin_entry \<Rightarrow> origin_entry \<Rightarrow> outcome list \<Rightarrow> bool" where
  "drain_result c aborted e e' out \<longleftrightarrow>
     entry_ok e' \<and> policy e' = policy e \<and> last_refill_at e' = drain_now c \<and>
     circuit_open_until e' = circuit_open_until e \<and> transient_failures e' = transient_failures e \<and>
     waiting e = mset (map outcome_request out) + waiting e' \<and>
     active e' = active e + int (length (admissions out)) \<and>
     tokens e' = tokens (refill (drain_now c) e) - of_nat (length (admissions out)) \<and>
     (\<forall>r \<in># waiting e'. \<not> aborted r) \<and>
     (admissions out = [] \<longrightarrow> next_admission_at e' = next_admission_at e) \<and>
     (admissions out \<noteq> [] \<longrightarrow> next_admission_at e \<le> drain_now c \<and>
        next_admission_at e' = drain_now c + min_delay_ms (policy e) \<and>
        active e' \<le> max_concurrency (policy e) \<and> circuit_open_until e \<le> drain_now c) \<and>
     (1 < length (admissions out) \<longrightarrow> min_delay_ms (policy e) = 0) \<and>
     (drain_now c < circuit_open_until e \<longrightarrow> waiting e' = {#})"

lemma drain_spec:
  assumes "entry_ok e" "drain c aborted e = (e', out)"
  shows "drain_result c aborted e e' out \<and>
    (waiting e' = {#} \<or> (\<exists>e2. e' = schedule_next_admission c e2 \<and> \<not> may_admit (drain_now c) e2 \<and>
       circuit_open_until e2 \<le> drain_now c))"
proof -
  let ?er = "refill (drain_now c) e"
  obtain e1 out1 where d1: "drop_cancelled aborted ?er = (e1, out1)" by fastforce
  from drop_cancelled_spec[OF refill_ok[OF assms(1)] d1] obtain rs q where
    s1: "out1 = map Refused_Cancelled rs" "e1 = ?er\<lparr>entry_queues := q\<rparr>" "queues_ok q"
      "waiting e = mset rs + pending_requests q" "\<forall>r \<in># pending_requests q. \<not> aborted r"
    by auto
  have ok1: "entry_ok e1" using refill_ok[OF assms(1), of "drain_now c"] s1(2,3) by (simp add: entry_ok_def)
  have cnt: "queued_count (entry_queues e1) = 0 \<longleftrightarrow> pending_requests q = {#}"
    using size_pending[of q] s1(2) by (metis origin_entry.select_convs(2) origin_entry.surjective
      origin_entry.update_convs(2) size_eq_0_iff_empty)
  consider (empty) "pending_requests q = {#}" | (broken) "pending_requests q \<noteq> {#}" "drain_now c < circuit_open_until e1"
    | (go) "pending_requests q \<noteq> {#}" "\<not> drain_now c < circuit_open_until e1" by blast
  then show ?thesis
  proof cases
    case empty
    then have "e' = e1" "out = out1" using assms(2) d1 cnt by (simp_all add: drain_def)
    then show ?thesis using ok1 s1 empty by (simp add: drain_result_def comp_def)
  next
    case broken
    obtain e2 out2 where d2: "reject_queued_for_open_circuit e1 = (e2, out2)" by fastforce
    from reject_queued_spec[OF ok1 d2] obtain rs2 q2 where
      s2: "out2 = map Refused_Circuit_Open rs2" "e2 = e1\<lparr>entry_queues := q2\<rparr>" "queues_ok q2"
        "waiting e1 = mset rs2 + pending_requests q2" "pending_requests q2 = {#}" by auto
    have "e' = e2" "out = out1 @ out2" using assms(2) d1 d2 cnt broken by (simp_all add: drain_def)
    then show ?thesis using ok1 s1 s2 broken
      by (simp add: drain_result_def comp_def entry_ok_def)
  next
    case go
    obtain e2 out2 where d2: "admit_queued (Suc (queued_count (entry_queues e1))) (drain_now c) e1 = (e2, out2)"
      by fastforce
    from admit_queued_spec[OF ok1 _ d2] obtain rs2 q2 where
      s2: "out2 = map Admitted rs2" "entry_ok e2" "\<not> may_admit (drain_now c) e2"
        "waiting e1 = mset rs2 + pending_requests q2"
        "e2 = e1\<lparr>entry_queues := q2, active := active e1 + int (length rs2),
          tokens := tokens e1 - of_nat (length rs2),
          next_admission_at := (if rs2 = [] then next_admission_at e1
            else drain_now c + min_delay_ms (policy e1))\<rparr>"
        "rs2 \<noteq> [] \<Longrightarrow> next_admission_at e1 \<le> drain_now c \<and> active e2 \<le> max_concurrency (policy e1)"
        "1 < length rs2 \<Longrightarrow> min_delay_ms (policy e1) = 0"
      by auto
    have r: "e' = schedule_next_admission c e2" "out = out1 @ out2"
      using assms(2) d1 d2 cnt go by (simp_all add: drain_def)
    have sub: "\<forall>r \<in># pending_requests q2. \<not> aborted r"
      using s1(5) s2(4) s1(2) by auto
    have f: "policy e2 = policy e" "circuit_open_until e2 = circuit_open_until e"
      "transient_failures e2 = transient_failures e" "last_refill_at e2 = drain_now c"
      "active e2 = active e + int (length rs2)" "tokens e2 = tokens ?er - of_nat (length rs2)"
      "waiting e2 = pending_requests q2" "waiting e1 = pending_requests q"
      "next_admission_at e1 = next_admission_at e" "policy e1 = policy e"
      "next_admission_at e2 = (if rs2 = [] then next_admission_at e else drain_now c + min_delay_ms (policy e))"
      "circuit_open_until e1 = circuit_open_until e"
      using s1(2) s2(5) by simp_all
    have "drain_result c aborted e e' out"
      unfolding drain_result_def r schedule_fields entry_ok_schedule f
      using s1 s2(1,2,4,6,7) f sub go by (auto simp: comp_def)
    then show ?thesis using r(1) s2(3) go(2) f by (auto simp: not_less)
  qed
qed

section \<open>Runs\<close>

text \<open>
  An entry with the permits it has issued and not seen released, and what has become of
  every request. A step is what the host can run without interruption: a request arrives
  (\<open>acquire\<close>), a queued request is aborted, a permit is released, the timer fires. The
  label is the clock reading of the drain with the requests it admitted.
\<close>

record machine =
  m_entry :: origin_entry
  m_permits :: "admission multiset"
  m_arrived :: "admission multiset"
  m_settled :: "admission multiset"

definition refusals :: "outcome list \<Rightarrow> admission list" where
  "refusals out = map outcome_request (filter (\<lambda>x. \<not> is_admitted x) out)"

definition settle :: "outcome list \<Rightarrow> origin_entry \<Rightarrow> machine \<Rightarrow> machine" where
  "settle out e m = m\<lparr>m_entry := e, m_permits := m_permits m + mset (admissions out),
     m_settled := m_settled m + mset (refusals out)\<rparr>"

inductive machine_step :: "machine \<Rightarrow> int \<times> admission list \<Rightarrow> machine \<Rightarrow> bool" where
  arrives: "policy_ok p \<Longrightarrow> merge_into p (m_entry m) = Inr e \<Longrightarrow> fst r \<noteq> [] \<Longrightarrow>
    drain c aborted (e\<lparr>entry_queues := enqueue r (entry_queues e)\<rparr>) = (e', out) \<Longrightarrow>
    machine_step m (drain_now c, admissions out)
      (settle out e' (m\<lparr>m_arrived := add_mset r (m_arrived m)\<rparr>))"
| aborts: "r \<in># waiting (m_entry m) \<Longrightarrow> abort_queued r (m_entry m) = (e', out) \<Longrightarrow>
    machine_step m (last_refill_at (m_entry m), admissions out) (settle out e' m)"
| releases: "r \<in># m_permits m \<Longrightarrow>
    drain c aborted (record_completion now outc ((m_entry m)\<lparr>active := active (m_entry m) - 1\<rparr>)) = (e', out) \<Longrightarrow>
    machine_step m (drain_now c, admissions out)
      (settle out e' (m\<lparr>m_permits := m_permits m - {#r#}, m_settled := add_mset r (m_settled m)\<rparr>))"
| fires: "timer (m_entry m) \<noteq> None \<Longrightarrow> timer_fired c aborted (m_entry m) = (e', out) \<Longrightarrow>
    machine_step m (drain_now c, admissions out) (settle out e' m)"

inductive_cases machine_stepE: "machine_step m l m'"

inductive machine_run :: "machine \<Rightarrow> (int \<times> admission list) list \<Rightarrow> machine \<Rightarrow> bool" where
  start: "machine_run m [] m"
| later: "machine_run m tr m1 \<Longrightarrow> machine_step m1 l m2 \<Longrightarrow> machine_run m (tr @ [l]) m2"

definition machine_ok :: "machine \<Rightarrow> bool" where
  "machine_ok m \<longleftrightarrow> entry_ok (m_entry m) \<and> active (m_entry m) = int (size (m_permits m)) \<and>
     m_arrived m = waiting (m_entry m) + m_permits m + m_settled m"

lemma outcomes_split: "mset (map outcome_request out) = mset (admissions out) + mset (refusals out)"
  unfolding admissions_def refusals_def
  using mset_filter_split[of out is_admitted] by (metis image_mset_union mset_map)

lemma drain_result_counts:
  "drain_result c aborted e e' out \<Longrightarrow> entry_ok e' \<and> active e' = active e + int (length (admissions out)) \<and>
    waiting e = mset (admissions out) + mset (refusals out) + waiting e'"
  by (simp add: drain_result_def outcomes_split[symmetric] del: mset_map)

text \<open>The entry a step drains, before the drain.\<close>

definition softer :: "origin_entry \<Rightarrow> origin_entry \<Rightarrow> bool" where
  "softer e e1 \<longleftrightarrow> stricter (policy e1) (policy e) \<and> tokens e1 \<le> tokens e \<and>
     last_refill_at e1 = last_refill_at e \<and> next_admission_at e1 = next_admission_at e"

lemma merge_into_ok:
  assumes "entry_ok e" "policy_ok p" "merge_into p e = Inr e1"
  shows "entry_ok e1 \<and> softer e e1 \<and> active e1 = active e \<and> entry_queues e1 = entry_queues e"
proof -
  from assms(3) obtain m where m: "merge_conservatively (policy e) p = Inr m"
    "e1 = e\<lparr>policy := m, tokens := min (tokens e) (of_int (burst m))\<rparr>"
    by (auto simp: merge_into_def bindR_Inr_iff)
  have "policy_ok m" using merge_policy_ok[OF m(1)] assms(1,2) by (simp add: entry_ok_def)
  moreover have "stricter m (policy e)"
    using m(1) by (auto simp: merge_conservatively_def ensureR_Inr_iff stricter_def)
  ultimately show ?thesis using m(2) assms(1) by (auto simp: entry_ok_def policy_ok_def softer_def)
qed

lemma record_completion_fields [simp]:
  "policy (record_completion now k e) = policy e" "entry_queues (record_completion now k e) = entry_queues e"
  "active (record_completion now k e) = active e" "tokens (record_completion now k e) = tokens e"
  "last_refill_at (record_completion now k e) = last_refill_at e"
  "next_admission_at (record_completion now k e) = next_admission_at e"
  by (simp_all add: record_completion_def Let_def)

lemma entry_ok_record [simp]: "entry_ok (record_completion now k e) = entry_ok e"
  by (simp add: entry_ok_def)

lemma stricter_refl [simp]: "stricter p p"
  by (simp add: stricter_def)

lemma stricter_trans: "stricter p q \<Longrightarrow> stricter q r \<Longrightarrow> stricter p r"
  by (auto simp: stricter_def)

text \<open>Every step is a drain of an entry at least as strict, or admits nothing.\<close>

lemma machine_step_drains:
  assumes "machine_step m l m'" "machine_ok m"
  shows "machine_ok m' \<and> active (m_entry m') \<le> max (active (m_entry m)) (max_concurrency (policy (m_entry m'))) \<and>
    (\<exists>e1 c aborted out. softer (m_entry m) e1 \<and> entry_ok e1 \<and> policy (m_entry m') = policy e1 \<and> fst l = drain_now c \<and>
        snd l = admissions out \<and> drain_result c aborted e1 (m_entry m') out \<or>
      softer (m_entry m) (m_entry m') \<and> snd l = [] \<and> fst l = last_refill_at (m_entry m) \<and>
        tokens (m_entry m') = tokens (m_entry m))"
  using assms(1)
proof (rule machine_stepE, goal_cases arrives aborts releases fires)
  case (arrives p e r c aborted e' out)
  let ?e1 = "e\<lparr>entry_queues := enqueue r (entry_queues e)\<rparr>"
  have e: "entry_ok e" "softer (m_entry m) e" "active e = active (m_entry m)"
    "entry_queues e = entry_queues (m_entry m)"
    using merge_into_ok[OF _ arrives(3,4)] assms(2) by (auto simp: machine_ok_def)
  have q: "queues_ok (enqueue r (entry_queues e)) \<and>
      pending_requests (enqueue r (entry_queues e)) = add_mset r (waiting e)"
    using e(1) arrives(5) by (intro origin_queue.put_law) (simp_all add: entry_ok_def)
  have ok1: "entry_ok ?e1" and soft: "softer (m_entry m) ?e1"
    using e q by (simp_all add: entry_ok_def softer_def)
  have d: "drain_result c aborted ?e1 e' out" using drain_spec[OF ok1 arrives(6)] by blast
  then have "machine_ok m'"
    using assms(2) q e drain_result_counts[OF d]
    by (simp add: arrives(2) machine_ok_def settle_def)
  moreover have "active e' \<le> max (active (m_entry m)) (max_concurrency (policy e'))"
    using d e(3) by (cases "admissions out = []") (auto simp: drain_result_def)
  moreover have "policy e' = policy ?e1" using d by (simp add: drain_result_def)
  ultimately show ?thesis using d ok1 soft arrives(1,2) by (auto simp: settle_def)
next
  case (aborts r e' out)
  have e: "e' = (m_entry m)\<lparr>entry_queues := remove_queued r (entry_queues (m_entry m))\<rparr>"
    "out = [Refused_Cancelled r]" using aborts(4) by (simp_all add: abort_queued_def)
  have "queues_ok (entry_queues (m_entry m))" using assms(2) by (simp add: machine_ok_def entry_ok_def)
  note q = origin_queue.drop_law[OF this, of r]
  have "machine_ok m'"
    using assms(2) q aborts(3) by (auto simp: aborts(2) e machine_ok_def settle_def entry_ok_def refusals_def admissions_def)
  moreover have "softer (m_entry m) e'" by (simp add: e softer_def)
  ultimately show ?thesis using aborts(1,2) e by (auto simp: settle_def admissions_def)
next
  case (releases r c aborted now k e' out)
  let ?e0 = "(m_entry m)\<lparr>active := active (m_entry m) - 1\<rparr>"
  have pos: "0 < size (m_permits m)" using releases(3) by (metis empty_iff gr0I set_mset_empty size_eq_0_iff_empty)
  have ok1: "entry_ok (record_completion now k ?e0)"
    using assms(2) pos by (simp add: machine_ok_def entry_ok_def)
  have d: "drain_result c aborted (record_completion now k ?e0) e' out"
    using drain_spec[OF ok1 releases(4)] by blast
  have sz: "int (size (m_permits m - {#r#})) = int (size (m_permits m)) - 1"
    using releases(3) pos by (simp add: size_Diff_singleton)
  have "m_permits m = add_mset r (m_permits m - {#r#})" using releases(3) by simp
  then have "machine_ok m'"
    using assms(2) sz drain_result_counts[OF d] by (simp add: releases(2) machine_ok_def settle_def)
  moreover have "active e' \<le> max (active (m_entry m)) (max_concurrency (policy e'))"
    using d by (cases "admissions out = []") (auto simp: drain_result_def)
  moreover have "softer (m_entry m) (record_completion now k ?e0)" by (simp add: softer_def)
  moreover have "policy e' = policy (record_completion now k ?e0)" using d by (simp add: drain_result_def)
  ultimately show ?thesis using d ok1 releases(1,2) by (auto simp: settle_def)
next
  case (fires c aborted e' out)
  let ?e0 = "(m_entry m)\<lparr>timer := None\<rparr>"
  have ok1: "entry_ok ?e0" using assms(2) by (simp add: machine_ok_def entry_ok_def)
  have d: "drain_result c aborted ?e0 e' out"
    using drain_spec[OF ok1, of c aborted e' out] fires by (simp add: timer_fired_def)
  then have "machine_ok m'"
    using assms(2) drain_result_counts[OF d] by (simp add: fires(2) machine_ok_def settle_def)
  moreover have "active e' \<le> max (active (m_entry m)) (max_concurrency (policy e'))"
    using d by (cases "admissions out = []") (auto simp: drain_result_def)
  moreover have "softer (m_entry m) ?e0" "policy e' = policy ?e0" using d by (simp_all add: softer_def drain_result_def)
  ultimately show ?thesis using d ok1 fires(1,2) by (auto simp: settle_def)
qed

lemma machine_run_invariant:
  assumes "machine_run m tr m'" "machine_ok m"
  shows "machine_ok m' \<and> stricter (policy (m_entry m')) (policy (m_entry m)) \<and>
    active (m_entry m') \<le> max (active (m_entry m)) (max_concurrency (policy (m_entry m)))"
  using assms
proof (induction rule: machine_run.induct)
  case (later m tr m1 l m2)
  then have IH: "machine_ok m1" "stricter (policy (m_entry m1)) (policy (m_entry m))"
    "active (m_entry m1) \<le> max (active (m_entry m)) (max_concurrency (policy (m_entry m)))" by auto
  from machine_step_drains[OF later.hyps(2) IH(1)] have s: "machine_ok m2"
    "active (m_entry m2) \<le> max (active (m_entry m1)) (max_concurrency (policy (m_entry m2)))"
    "stricter (policy (m_entry m2)) (policy (m_entry m1))"
    by (auto simp: softer_def)
  have "stricter (policy (m_entry m2)) (policy (m_entry m))" using s(3) IH(2) by (rule stricter_trans)
  moreover from this have "max_concurrency (policy (m_entry m2)) \<le> max_concurrency (policy (m_entry m))"
    by (simp add: stricter_def)
  ultimately show ?case using s IH(3) by auto
qed auto

text \<open>A fresh entry, as \<open>getEntry\<close> makes it.\<close>

definition fresh_machine :: "int \<Rightarrow> traffic_policy \<Rightarrow> persisted_origin option \<Rightarrow> machine" where
  "fresh_machine now p saved = \<lparr>m_entry = new_entry now p saved, m_permits = {#}, m_arrived = {#}, m_settled = {#}\<rparr>"

lemma fresh_machine_ok: "policy_ok p \<Longrightarrow> machine_ok (fresh_machine now p saved)"
  by (simp add: machine_ok_def fresh_machine_def new_entry_def Let_def entry_ok_def queues_ok_def
    empty_queues_def pending_requests_def queued_admissions_def policy_ok_def)


text \<open>A run in which the clock never goes backwards.\<close>

inductive timed_run :: "machine \<Rightarrow> (int \<times> admission list) list \<Rightarrow> machine \<Rightarrow> bool" where
  timed_start: "timed_run m [] m"
| timed_later: "timed_run m tr m1 \<Longrightarrow> machine_step m1 l m2 \<Longrightarrow> last_refill_at (m_entry m1) \<le> fst l \<Longrightarrow>
    timed_run m (tr @ [l]) m2"

definition admitted_count :: "(int \<times> admission list) list \<Rightarrow> nat" where
  "admitted_count tr = sum_list (map (\<lambda>l. length (snd l)) tr)"

lemma refill_tokens:
  assumes "softer e e1" "last_refill_at e \<le> now"
  shows "tokens (refill now e1) \<le>
    tokens e + of_int (now - last_refill_at e) * requests_per_second (policy e1) / 1000"
  using assms by (simp add: refill_def Let_def softer_def min_def)

lemma machine_step_tokens:
  assumes "machine_step m l m'" "machine_ok m" "last_refill_at (m_entry m) \<le> fst l"
    "stricter (policy (m_entry m)) p"
  shows "tokens (m_entry m') + of_nat (length (snd l)) \<le> tokens (m_entry m) +
      of_int (last_refill_at (m_entry m') - last_refill_at (m_entry m)) * requests_per_second p / 1000 \<and>
    last_refill_at (m_entry m) \<le> last_refill_at (m_entry m')"
  using machine_step_drains[OF assms(1,2)]
proof (elim conjE exE disjE, goal_cases)
  case (1 e1 c aborted out)
  let ?d = "of_int (drain_now c - last_refill_at (m_entry m)) :: rat"
  have t: "tokens (m_entry m') = tokens (refill (drain_now c) e1) - of_nat (length (snd l))"
    "last_refill_at (m_entry m') = drain_now c"
    using 1 by (simp_all add: drain_result_def)
  have "0 \<le> ?d" using assms(3) 1 by simp
  moreover have "requests_per_second (policy e1) \<le> requests_per_second p"
    using 1 assms(4) by (auto simp: softer_def stricter_def)
  ultimately have "?d * requests_per_second (policy e1) / 1000 \<le> ?d * requests_per_second p / 1000"
    by (simp add: mult_left_mono divide_right_mono)
  moreover have "tokens (refill (drain_now c) e1) \<le> tokens (m_entry m) + ?d * requests_per_second (policy e1) / 1000"
    by (rule refill_tokens) (use 1 assms(3) in auto)
  ultimately show ?case using t assms(3) 1 by auto
next
  case 2
  then show ?case by (simp add: softer_def)
qed

lemma timed_run_is_run: "timed_run m tr m' \<Longrightarrow> machine_run m tr m'"
  by (induction rule: timed_run.induct) (auto intro: machine_run.intros)

lemma timed_run_tokens:
  assumes "timed_run m tr m'" "machine_ok m"
  shows "tokens (m_entry m') + of_nat (admitted_count tr) \<le> tokens (m_entry m) +
      of_int (last_refill_at (m_entry m') - last_refill_at (m_entry m)) *
        requests_per_second (policy (m_entry m)) / 1000"
  using assms
proof (induction rule: timed_run.induct)
  case (timed_later m tr m1 l m2)
  have inv: "machine_ok m1" "stricter (policy (m_entry m1)) (policy (m_entry m))"
    using machine_run_invariant[OF timed_run_is_run[OF timed_later.hyps(1)] timed_later.prems] by auto
  from machine_step_tokens[OF timed_later.hyps(2) inv(1) timed_later.hyps(3) inv(2)] timed_later.IH
    timed_later.prems
  show ?case by (simp add: admitted_count_def algebra_simps diff_divide_distrib add_divide_distrib)
qed (simp add: admitted_count_def)


definition admission_times :: "(int \<times> admission list) list \<Rightarrow> int list" where
  "admission_times tr = concat (map (\<lambda>l. replicate (length (snd l)) (fst l)) tr)"

lemma sorted_wrt_replicate: "n \<le> 1 \<or> P x x \<Longrightarrow> sorted_wrt P (replicate n x)"
  by (induction n) (auto simp: set_replicate_conv_if)

lemma machine_step_paced:
  assumes "machine_step m l m'" "machine_ok m" "stricter (policy (m_entry m)) p"
  shows "(snd l \<noteq> [] \<longrightarrow> next_admission_at (m_entry m) \<le> fst l \<and>
      fst l + min_delay_ms p \<le> next_admission_at (m_entry m')) \<and>
    (snd l = [] \<longrightarrow> next_admission_at (m_entry m') = next_admission_at (m_entry m)) \<and>
    (1 < length (snd l) \<longrightarrow> min_delay_ms p \<le> 0)"
  using machine_step_drains[OF assms(1,2)]
proof (elim conjE exE disjE, goal_cases)
  case (1 e1 c aborted out)
  have "min_delay_ms p \<le> min_delay_ms (policy e1)"
    using 1 assms(3) by (auto simp: softer_def stricter_def)
  then show ?case using 1 by (auto simp: drain_result_def softer_def)
next
  case 2
  then show ?case by (simp add: softer_def)
qed

lemma run_paced:
  assumes "machine_run m tr m'" "machine_ok m"
  shows "sorted_wrt (\<lambda>s t. s + min_delay_ms (policy (m_entry m)) \<le> t) (admission_times tr) \<and>
    (\<forall>t \<in> set (admission_times tr). t + min_delay_ms (policy (m_entry m)) \<le> next_admission_at (m_entry m'))"
  using assms
proof (induction rule: machine_run.induct)
  case (later m tr m1 l m2)
  let ?p = "policy (m_entry m)"
  have inv: "machine_ok m1" "stricter (policy (m_entry m1)) ?p"
    using machine_run_invariant[OF later.hyps(1) later.prems] by auto
  note st = machine_step_paced[OF later.hyps(2) inv]
  have IH: "sorted_wrt (\<lambda>s t. s + min_delay_ms ?p \<le> t) (admission_times tr)"
    "\<forall>t \<in> set (admission_times tr). t + min_delay_ms ?p \<le> next_admission_at (m_entry m1)"
    using later.IH[OF later.prems] by auto
  have at: "admission_times (tr @ [l]) = admission_times tr @ replicate (length (snd l)) (fst l)"
    by (simp add: admission_times_def)
  have delay: "0 \<le> min_delay_ms ?p" using later.prems by (simp add: machine_ok_def entry_ok_def policy_ok_def)
  show ?case
  proof (cases "snd l = []")
    case True
    then show ?thesis using IH st by (simp add: at)
  next
    case False
    then have st': "next_admission_at (m_entry m1) \<le> fst l"
      "fst l + min_delay_ms ?p \<le> next_admission_at (m_entry m2)" using st by auto
    have rep: "sorted_wrt (\<lambda>s t. s + min_delay_ms ?p \<le> t) (replicate (length (snd l)) (fst l))"
      by (rule sorted_wrt_replicate) (use st in linarith)
    show ?thesis unfolding at sorted_wrt_append
      using IH st' rep delay by (force simp: set_replicate_conv_if)
  qed
qed (simp add: admission_times_def)

text \<open>
  The minimum delay holds between any two admissions of a run, in whatever drains they
  happen and whether or not the clock goes backwards: a later admission is at least the
  policy's delay after an earlier one.
\<close>

theorem admissions_respect_min_delay:
  assumes "machine_run m tr m'" "machine_ok m"
  shows "sorted_wrt (\<lambda>s t. s + min_delay_ms (policy (m_entry m)) \<le> t) (admission_times tr)"
  using run_paced[OF assms] by blast

section \<open>Progress\<close>

lemma token_delay_pos: "entry_ok e \<Longrightarrow> tokens e < 1 \<Longrightarrow> 0 < token_delay e"
proof -
  assume "entry_ok e" "tokens e < 1"
  then have "0 < (1 - tokens e) * 1000 / requests_per_second (policy e)"
    by (simp add: entry_ok_def policy_ok_def)
  then show ?thesis using \<open>tokens e < 1\<close> by (simp add: token_delay_def)
qed


definition early_entry :: origin_entry where
  "early_entry = \<lparr>policy = example_policy, entry_queues = enqueue (''run'', 2) empty_queues, active = 0,
     tokens = 1, last_refill_at = 0, next_admission_at = 100, transient_failures = [],
     circuit_open_until = 0, timer = Some 100\<rparr>"

text \<open>
  The drain reads the clock again to set the timer, and a wake-up is lost when the
  admission time falls between the two readings: the timer fires one millisecond early, the
  loop admits nothing, the wait computed afterwards is zero, and the request is left with no
  active request and no timer.
\<close>

theorem drain_can_lose_the_wakeup:
  "entry_ok early_entry \<and>
   (case timer_fired \<lparr>drain_now = 99, schedule_now = 99, wait_now = 100\<rparr> (\<lambda>_. False) early_entry of
      (e', out) \<Rightarrow> out = [] \<and> waiting e' = {#(''run'', 2)#} \<and> active e' = 0 \<and> timer e' = None \<and>
        circuit_open_until e' \<le> 99)"
  by (simp add: early_entry_def entry_ok_def policy_ok_def example_policy_def queues_ok_def enqueue_def
    empty_queues_def timer_fired_def drain_def drop_cancelled_def refill_def queued_admissions_def
    queued_count_def may_admit_def schedule_next_admission_def token_delay_def pending_requests_def Let_def)

section \<open>The circuit breaker\<close>

text \<open>
  The specification keeps every failure since the breaker last opened and counts those in
  the window; the code keeps a pruned list.
\<close>

definition count_completion :: "circuit_breaker_policy \<Rightarrow> int \<times> completion \<Rightarrow> int list \<times> int \<Rightarrow> int list \<times> int" where
  "count_completion b l s = (case (l, s) of ((now, k), (failures, open_until)) \<Rightarrow>
     if k = Transient_Failure then
       (if transient_failure_threshold b \<le>
            int (length (List.filter (\<lambda>t. now - transient_window_ms b \<le> t) (failures @ [now])))
        then ([], now + cooldown_ms b) else (failures @ [now], open_until))
     else (failures, open_until))"

definition complete_all :: "(int \<times> completion) list \<Rightarrow> origin_entry \<Rightarrow> origin_entry" where
  "complete_all ls e = fold (\<lambda>(now, k). record_completion now k) ls e"

lemma record_completion_count:
  assumes "circuit_breaker (policy e) = b" "0 \<le> transient_window_ms b"
    and "filter (\<lambda>t. now - transient_window_ms b \<le> t) (transient_failures e) =
      filter (\<lambda>t. now - transient_window_ms b \<le> t) failures" "circuit_open_until e = u"
    and "count_completion b (now, k) (failures, u) = (failures', u')"
  shows "circuit_open_until (record_completion now k e) = u' \<and>
    (\<forall>later \<ge> now. filter (\<lambda>t. later - transient_window_ms b \<le> t) (transient_failures (record_completion now k e)) =
      filter (\<lambda>t. later - transient_window_ms b \<le> t) failures')"
proof -
  let ?in = "\<lambda>n t. n - transient_window_ms b \<le> t"
  have f: "filter (?in later) (filter (?in now) xs) = filter (?in later) xs" if "now \<le> later" for later and xs :: "int list"
    using that by (auto simp: filter_filter intro!: filter_cong)
  have g: "filter (?in later) (filter (?in now) (transient_failures e)) = filter (?in later) failures"
    if "now \<le> later" for later
    using assms(3) f[OF that] by metis
  show ?thesis
    using assms(1,2,3,4,5) g
    by (auto simp: record_completion_def count_completion_def Let_def split: if_splits)
qed

text \<open>
  The circuit breaker is a sliding window: for completions in the order of time, the
  breaker's open time is the one of the specification that remembers every failure since it
  last opened, although the code forgets failures as they leave the window.
\<close>

theorem circuit_breaker_is_sliding_window:
  assumes "sorted (map fst ls)" "transient_failures e = []"
    and "0 \<le> transient_window_ms (circuit_breaker (policy e))"
  shows "circuit_open_until (complete_all ls e) =
    snd (fold (count_completion (circuit_breaker (policy e))) ls ([], circuit_open_until e))"
proof -
  let ?b = "circuit_breaker (policy e)" and ?w = "transient_window_ms (circuit_breaker (policy e))"
  have "circuit_breaker (policy e') = ?b \<Longrightarrow> sorted (map fst ls) \<Longrightarrow> circuit_open_until e' = u \<Longrightarrow>
    (\<forall>l \<in> set ls. filter (\<lambda>t. fst l - ?w \<le> t) (transient_failures e') = filter (\<lambda>t. fst l - ?w \<le> t) fs) \<Longrightarrow>
    circuit_open_until (complete_all ls e') = snd (fold (count_completion ?b) ls (fs, u))" for e' fs u
  proof (induction ls arbitrary: e' fs u)
    case (Cons l ls)
    obtain now k where l: "l = (now, k)" by (cases l)
    obtain fs' u' where c: "count_completion ?b (now, k) (fs, u) = (fs', u')" by fastforce
    have r: "circuit_open_until (record_completion now k e') = u' \<and>
      (\<forall>later \<ge> now. filter (\<lambda>t. later - ?w \<le> t) (transient_failures (record_completion now k e')) =
        filter (\<lambda>t. later - ?w \<le> t) fs')"
      by (rule record_completion_count) (use Cons.prems c assms(3) l in auto)
    have "circuit_open_until (complete_all ls (record_completion now k e')) =
        snd (fold (count_completion ?b) ls (fs', u'))"
      by (rule Cons.IH) (use Cons.prems r l in auto)
    then show ?case using l c by (simp add: complete_all_def)
  qed (simp add: complete_all_def)
  from this[OF refl assms(1) refl, of "[]"] assms(2) show ?thesis by simp
qed

section \<open>Witnesses\<close>

definition example_machine :: machine where
  "example_machine = fresh_machine 0 example_policy None"

lemmas scheduler_eval = example_machine_def fresh_machine_def new_entry_def merge_into_def
  merge_conservatively_def example_policy_def drain_def drop_cancelled_def refill_def
  queued_admissions_def queued_count_def may_admit_def schedule_next_admission_def token_delay_def
  enqueue_def empty_queues_def dequeue_round_robin.simps remove_workload_def splice_one_def
  admit_one_def pending_requests_def Let_def

lemma example_policy_ok: "policy_ok example_policy"
  by (simp add: example_policy_def policy_ok_def)

lemma example_machine_ok: "machine_ok example_machine"
  unfolding example_machine_def by (rule fresh_machine_ok) (rule example_policy_ok)

lemma example_step: "\<exists>m. machine_step example_machine (0, [(''run'', 1)]) m"
proof -
  obtain e where e: "merge_into example_policy (m_entry example_machine) = Inr e"
    "e = m_entry example_machine"
    by (simp add: scheduler_eval)
  let ?c = "\<lparr>drain_now = 0, schedule_now = 0, wait_now = 0\<rparr>"
  obtain e' out where d: "drain ?c (\<lambda>_. False) (e\<lparr>entry_queues := enqueue (''run'', 1) (entry_queues e)\<rparr>) = (e', out)"
    by fastforce
  then have "out = [Admitted (''run'', 1)]"
    unfolding e(2) by (simp add: scheduler_eval)
  then have "admissions out = [(''run'', 1)]" by (simp add: admissions_def)
  then show ?thesis
    using arrives[OF example_policy_ok e(1) _ d] by (auto intro!: exI)
qed

lemma example_run: "\<exists>m. timed_run example_machine [(0, [(''run'', 1)])] m"
proof -
  obtain m where m: "machine_step example_machine (0, [(''run'', 1)]) m" using example_step by blast
  have "last_refill_at (m_entry example_machine) \<le> fst (0 :: int, [(''run'', 1 :: nat)])"
    by (simp add: scheduler_eval)
  from timed_later[OF timed_start m this] show ?thesis by auto
qed



theorem admissions_respect_min_delay_witness:
  "\<exists>m. machine_run example_machine [(0, [(''run'', 1)])] m \<and>
    sorted_wrt (\<lambda>s t. s + 100 \<le> t) (admission_times [(0, [(''run'', 1)])])"
proof -
  obtain m where m: "machine_run example_machine [(0, [(''run'', 1)])] m"
    using example_run timed_run_is_run by blast
  from admissions_respect_min_delay[OF m example_machine_ok] m show ?thesis
    by (auto simp: example_machine_def fresh_machine_def new_entry_def example_policy_def Let_def)
qed


theorem circuit_breaker_is_sliding_window_witness:
  "circuit_open_until (complete_all [(0, Transient_Failure), (900, Transient_Failure), (1000, Transient_Failure)]
     (m_entry example_machine)) = 6000"
proof -
  let ?ls = "[(0 :: int, Transient_Failure), (900, Transient_Failure), (1000, Transient_Failure)]"
  have "sorted (map fst ?ls)" "transient_failures (m_entry example_machine) = []"
    "0 \<le> transient_window_ms (circuit_breaker (policy (m_entry example_machine)))"
    by (simp_all add: scheduler_eval)
  from circuit_breaker_is_sliding_window[OF this] show ?thesis
    by (simp add: count_completion_def scheduler_eval)
qed

section \<open>Persistence\<close>

definition persistable :: "(string \<Rightarrow> bool) \<Rightarrow> (string \<times> persisted_origin) list \<Rightarrow> bool" where
  "persistable is_origin states \<longleftrightarrow> length states \<le> 1024 \<and> distinct (map fst states) \<and>
     (\<forall>(origin, st) \<in> set states. is_origin origin \<and> length origin \<le> 2048 \<and>
        length (saved_failures st) \<le> 10 \<and> 0 \<le> saved_open_until st \<and> saved_open_until st \<le> max_safe_integer \<and>
        (\<forall>t \<in> set (saved_failures st). 0 \<le> t \<and> t \<le> max_safe_integer))"

definition sorted_failures :: "persisted_origin \<Rightarrow> persisted_origin" where
  "sorted_failures st = st\<lparr>saved_failures := sort (saved_failures st)\<rparr>"

lemma ascending_sort: "ascending (sort ts)"
proof -
  have "sorted ts \<Longrightarrow> ascending ts" for ts :: "int list"
    by (induction ts rule: induct_list012) (auto simp: ascending_def)
  then show ?thesis by simp
qed

lemma parse_integers: "\<forall>t \<in> set ts. 0 \<le> t \<and> t \<le> max_safe_integer \<Longrightarrow>
    mapR (parse_integer 0 max_safe_integer) (map (\<lambda>t. JNum (NInt t)) ts) = Inr ts"
  by (induction ts) (simp_all add: parse_integer_def)

lemma parse_state_json:
  assumes "length (saved_failures st) \<le> 10" "0 \<le> saved_open_until st" "saved_open_until st \<le> max_safe_integer"
    "\<forall>t \<in> set (saved_failures st). 0 \<le> t \<and> t \<le> max_safe_integer"
  shows "parse_persisted_origin (state_json st) = Inr (sorted_failures st)"
  using assms parse_integers[of "sort (saved_failures st)"] ascending_sort[of "saved_failures st"]
  by (simp add: parse_persisted_origin_def state_json_def parse_exact_record_def as_object_def fld_def
    parse_integer_def sorted_failures_def)

lemma canon_state_json: "canon (state_json st) = state_json st"
  by (simp add: state_json_def comp_def)

lemma max_safe_bound: "0 \<le> t \<Longrightarrow> t \<le> max_safe_integer \<Longrightarrow> \<bar>t\<bar> < 2 ^ 1024 - 2 ^ 970"
  by (simp add: max_safe_integer_def)

definition states_json :: "(string \<times> persisted_origin) list \<Rightarrow> json" where
  "states_json states = JObj [(''scheduler_state_schema_version'', JNum (NInt 1)),
     (''origins'', JObj (map (\<lambda>(origin, st). (origin, state_json st)) states))]"

lemma state_json_wf:
  assumes "0 \<le> saved_open_until st" "saved_open_until st \<le> max_safe_integer"
    "\<forall>t \<in> set (saved_failures st). 0 \<le> t \<and> t \<le> max_safe_integer"
  shows "json_wf (state_json st)"
proof -
  have "num_wf (NInt (saved_open_until st))" using max_safe_bound assms(1,2) by simp
  moreover have "\<forall>t \<in> set (saved_failures st). num_wf (NInt t)" using max_safe_bound assms(3) by simp
  ultimately show ?thesis by (simp add: state_json_def list_all_iff del: num_wf.simps)
qed

lemma states_json_wf:
  assumes "persistable is_origin states"
  shows "json_wf (states_json states)"
proof -
  have "\<forall>x \<in> set states. json_wf (state_json (snd x))"
    using assms by (auto simp: persistable_def intro!: state_json_wf)
  moreover have "num_wf (NInt 1)" by simp
  moreover have "distinct (map fst states)" using assms by (simp add: persistable_def)
  ultimately show ?thesis
    by (auto simp: states_json_def list_all_iff comp_def case_prod_unfold simp del: num_wf.simps)
qed

lemma states_json_depth: "assert_json_value 12 (states_json states) = Inr ()"
proof -
  have ints: "mapR (assert_json_value_at 12 4) (map (\<lambda>t. JNum (NInt t)) ts) = Inr (map (\<lambda>_. ()) ts)" for ts
    by (induction ts) (simp_all add: eval_nat_numeral)
  have st: "assert_json_value_at 12 2 (state_json st) = Inr ()" for st
    using ints by (simp add: state_json_def eval_nat_numeral)
  have "mapR (\<lambda>kv. assert_json_value_at 12 2 (snd kv)) (map (\<lambda>(origin, st). (origin, state_json st)) states) =
      Inr (map (\<lambda>_. ()) states)"
    by (induction states) (auto simp: st)
  then show ?thesis by (simp add: states_json_def assert_json_value_def eval_nat_numeral)
qed

lemma mapR_Inr_map: "(\<And>x. x \<in> set xs \<Longrightarrow> f x = Inr (g x)) \<Longrightarrow> mapR f xs = Inr (map g xs)"
  by (rule mapR_total)

text \<open>
  What \<open>persist\<close> writes, the next start of the scheduler reads back: the same origins,
  each with its open time and its failures in ascending order, for states the file format
  can hold.
\<close>

theorem persisted_state_round_trip:
  assumes "persistable is_origin states" "write_persisted_state states = Inr t" "length t \<le> 256 * 1024"
  shows "read_persisted_state is_origin (Some t) =
    Inr (map (\<lambda>(origin, st). (origin, sorted_failures st)) (sort_key fst states))"
proof -
  have w: "canonical_json (states_json states) = Inr t"
    using assms(2) by (simp add: write_persisted_state_def states_json_def)
  let ?os = "map (\<lambda>(origin, st). (origin, state_json st)) (sort_key fst states)"
  have so: "sort_key fst (map (\<lambda>(origin, st). (origin, state_json st)) states) = ?os"
    using sort_key_map_snd[of state_json states] by (simp add: case_prod_unfold)
  have c: "canon (states_json states) = JObj [(''origins'', JObj ?os), (''scheduler_state_schema_version'', JNum (NInt 1))]"
    by (simp add: states_json_def comp_def case_prod_unfold canon_state_json so[unfolded case_prod_unfold])
  have p: "parse_strict_json (256 * 1024) 12 t = Inr (canon (states_json states))"
    by (rule parse_canonical[OF states_json_wf[OF assms(1)] w states_json_depth assms(3)])
  have each: "mapR (\<lambda>(origin, st). bindR (parse_http_origin is_origin (JStr origin)) (\<lambda>_.
        bindR (parse_persisted_origin st) (\<lambda>p. Inr (origin, p)))) ?os =
      Inr (map (\<lambda>(origin, st). (origin, sorted_failures st)) (sort_key fst states))"
    unfolding mapR_map
    by (rule mapR_total) (use assms(1) in \<open>fastforce simp: persistable_def parse_http_origin_def
      parse_string_def parse_state_json\<close>)
  have "length ?os \<le> 1024" using assms(1) by (simp add: persistable_def)
  then show ?thesis
    using p c each
    by (simp add: read_persisted_state_def parse_exact_record_def as_object_def fld_def parse_bounded_record_def)
qed

theorem persisted_state_round_trip_witness:
  "\<exists>t. write_persisted_state [(''o'', \<lparr>saved_open_until = 10, saved_failures = [3, 1]\<rparr>)] = Inr t \<and>
     read_persisted_state (\<lambda>s. s = ''o'') (Some t) =
       Inr [(''o'', \<lparr>saved_open_until = 10, saved_failures = [1, 3]\<rparr>)]"
proof -
  let ?st = "[(''o'', \<lparr>saved_open_until = 10, saved_failures = [3, 1]\<rparr>)]"
  let ?t = "''{'' @ json_quote ''origins'' @ '':{'' @ json_quote ''o'' @ '':{'' @ json_quote ''circuit_open_until'' @
    '':10,'' @ json_quote ''transient_failures'' @ '':[1,3]}},'' @
    json_quote ''scheduler_state_schema_version'' @ '':1}''"
  have w: "write_persisted_state ?st = Inr ?t" by code_simp
  have "persistable (\<lambda>s. s = ''o'') ?st" by (simp add: persistable_def max_safe_integer_def)
  moreover have "length ?t \<le> 256 * 1024" by (simp add: json_quote_def escape_char_def)
  ultimately show ?thesis
    using persisted_state_round_trip[OF _ w] w by (intro exI[of _ ?t]) (simp add: sorted_failures_def)
qed

end
