(* ===== verification/Scrape_Policy.thy ===== *)
theory Scrape_Policy
  imports Run_State Json_Schema
begin

text \<open>
  The signed budgets of a scrape run and how a caller may lower them
  (\<open>src/src/public/contracts/scrape-policy.ts\<close> and \<open>consumer-bounds.ts\<close>), with the retry
  policy of a call (\<open>parseCallRetryPolicy\<close> of \<open>outcome.ts\<close>).

  A caller's limits are a JavaScript object: its entries in order. The value of a limit is a
  number that \<open>parseInteger\<close> has accepted, kept as the integer it is.
\<close>

section \<open>Retry policy of a call\<close>

datatype retry_class = Retry_Rate_Limited | Retry_Transport_Failure | Retry_Upstream_Unavailable

definition retry_class_name :: "retry_class \<Rightarrow> string" where
  "retry_class_name c = (case c of
     Retry_Rate_Limited \<Rightarrow> ''rate_limited''
   | Retry_Transport_Failure \<Rightarrow> ''transport_failure''
   | Retry_Upstream_Unavailable \<Rightarrow> ''upstream_unavailable'')"

definition retry_classes :: "retry_class list" where
  "retry_classes = [Retry_Rate_Limited, Retry_Transport_Failure, Retry_Upstream_Unavailable]"

record retry_policy =
  rt_max_retries :: int
  rt_on :: "retry_class list"
  rt_base_delay_ms :: int
  rt_max_delay_ms :: int
  rt_jitter_ratio :: jsnum
  rt_honor_structural_retry_after :: bool

definition parse_bool :: "json \<Rightarrow> exn + bool" where
  "parse_bool v = (case v of JBool b \<Rightarrow> Inr b | _ \<Rightarrow> contract_error (STR ''must be a boolean''))"

definition parse_retry_class :: "json \<Rightarrow> exn + retry_class" where
  "parse_retry_class v = (case List.find (\<lambda>c. v = JStr (retry_class_name c)) retry_classes of
     Some c \<Rightarrow> Inr c | None \<Rightarrow> contract_error (STR ''must be a supported retry class''))"

fun parse_retry_on :: "retry_class list \<Rightarrow> json list \<Rightarrow> exn + retry_class list" where
  "parse_retry_on acc [] = Inr acc"
| "parse_retry_on acc (v # vs) = bindR (parse_retry_class v) (\<lambda>c.
     ensureR (c \<notin> set acc) (PublicContractError (STR ''must not contain duplicates''))
       (parse_retry_on (acc @ [c]) vs))"

definition parse_jitter_ratio :: "json \<Rightarrow> exn + jsnum" where
  "parse_jitter_ratio v = (case v of
     JNum n \<Rightarrow> ensureR (is_finite n \<and> \<not> num_less n (NInt 0) \<and> \<not> num_less (NDec 25 2) n)
       (PublicContractError (STR ''must be a finite number from 0 to 0.25'')) (Inr n)
   | _ \<Rightarrow> contract_error (STR ''must be a finite number from 0 to 0.25''))"

definition parse_call_retry_policy :: "json \<Rightarrow> exn + retry_policy" where
  "parse_call_retry_policy v =
     bindR (parse_exact_record [''max_retries'', ''on'', ''base_delay_ms'', ''max_delay_ms'',
       ''jitter_ratio'', ''honor_structural_retry_after''] v) (\<lambda>r.
     bindR (parse_integer 0 2 (fld r ''max_retries'')) (\<lambda>retries.
     bindR (parse_list_max (length retry_classes) (STR ''must be an array of retry classes'') (fld r ''on'')) (\<lambda>raw.
     bindR (parse_retry_on [] raw) (\<lambda>on.
     ensureR (map retry_class_name on = sort (map retry_class_name on))
       (PublicContractError (STR ''must be in canonical lexical order''))
     (ensureR ((retries = 0) = (on = [])) (PublicContractError (STR ''max_retries:0 iff on is empty''))
     (bindR (parse_integer 100 30000 (fld r ''base_delay_ms'')) (\<lambda>base.
     bindR (parse_integer base 60000 (fld r ''max_delay_ms'')) (\<lambda>maximum.
     bindR (parse_jitter_ratio (fld r ''jitter_ratio'')) (\<lambda>jitter.
     bindR (parse_bool (fld r ''honor_structural_retry_after'')) (\<lambda>honor.
       Inr \<lparr>rt_max_retries = retries, rt_on = on, rt_base_delay_ms = base, rt_max_delay_ms = maximum,
         rt_jitter_ratio = jitter, rt_honor_structural_retry_after = honor\<rparr>))))))))))"

section \<open>The policy of a run\<close>

record durable_bounds =
  db_max_frontier_bytes :: int
  db_max_data_spool_bytes :: int
  db_max_journal_bytes :: int
  db_max_journal_frames :: int
  db_max_reorder_buffer_bytes :: int
  db_max_local_state_bytes :: int

record run_policy =
  rp_max_concurrency :: int
  rp_per_request_timeout_ms :: int
  rp_total_timeout_ms :: int
  rp_max_requests :: int
  rp_max_tasks :: int
  rp_max_pages :: int
  rp_max_items :: int
  rp_max_encoded_item_bytes :: int
  rp_max_output_bytes :: int
  rp_retry :: retry_policy
  rp_durable :: durable_bounds

definition max_item_limit :: int where "max_item_limit = 1000000"

definition parse_durable_bounds :: "json \<Rightarrow> exn + durable_bounds" where
  "parse_durable_bounds v =
     bindR (parse_exact_record [''max_frontier_bytes'', ''max_data_spool_bytes'', ''max_journal_bytes'',
       ''max_journal_frames'', ''max_reorder_buffer_bytes'', ''max_local_state_bytes''] v) (\<lambda>r.
     bindR (parse_integer 1 268435456 (fld r ''max_frontier_bytes'')) (\<lambda>frontier_bytes.
     bindR (parse_integer 1 2147483648 (fld r ''max_data_spool_bytes'')) (\<lambda>spool.
     bindR (parse_integer 393432 268435456 (fld r ''max_journal_bytes'')) (\<lambda>journal.
     bindR (parse_integer 6 10000000 (fld r ''max_journal_frames'')) (\<lambda>frames.
     bindR (parse_integer 1 67108864 (fld r ''max_reorder_buffer_bytes'')) (\<lambda>reorder.
     bindR (parse_integer 1 4294967296 (fld r ''max_local_state_bytes'')) (\<lambda>local.
       Inr \<lparr>db_max_frontier_bytes = frontier_bytes, db_max_data_spool_bytes = spool,
         db_max_journal_bytes = journal, db_max_journal_frames = frames,
         db_max_reorder_buffer_bytes = reorder, db_max_local_state_bytes = local\<rparr>)))))))"

definition parse_scrape_run_policy :: "json \<Rightarrow> exn + run_policy" where
  "parse_scrape_run_policy v =
     bindR (parse_exact_record [''max_concurrency'', ''per_request_timeout_ms'', ''total_timeout_ms'',
       ''max_requests'', ''max_tasks'', ''max_pages'', ''max_items'', ''max_encoded_item_bytes'',
       ''max_output_bytes'', ''retry'', ''durable''] v) (\<lambda>r.
     bindR (parse_integer 1000 60000 (fld r ''per_request_timeout_ms'')) (\<lambda>per_request.
     bindR (parse_integer 1000 3600000 (fld r ''total_timeout_ms'')) (\<lambda>total.
     ensureR (per_request \<le> total)
       (PublicContractError (STR ''total_timeout_ms must cover one request timeout''))
     (bindR (parse_integer 1 32 (fld r ''max_concurrency'')) (\<lambda>concurrency.
     bindR (parse_integer 1 1000 (fld r ''max_requests'')) (\<lambda>requests.
     bindR (parse_integer 1 1000 (fld r ''max_tasks'')) (\<lambda>tasks.
     bindR (parse_integer 1 1000 (fld r ''max_pages'')) (\<lambda>pages.
     bindR (parse_integer 1 max_item_limit (fld r ''max_items'')) (\<lambda>items.
     bindR (parse_integer 1 16384 (fld r ''max_encoded_item_bytes'')) (\<lambda>item_bytes.
     bindR (parse_integer 1 2147483648 (fld r ''max_output_bytes'')) (\<lambda>out_bytes.
     bindR (parse_call_retry_policy (fld r ''retry'')) (\<lambda>retry.
     bindR (parse_durable_bounds (fld r ''durable'')) (\<lambda>durable.
       Inr \<lparr>rp_max_concurrency = concurrency, rp_per_request_timeout_ms = per_request,
         rp_total_timeout_ms = total, rp_max_requests = requests, rp_max_tasks = tasks, rp_max_pages = pages,
         rp_max_items = items, rp_max_encoded_item_bytes = item_bytes, rp_max_output_bytes = out_bytes,
         rp_retry = retry, rp_durable = durable\<rparr>)))))))))))))"

definition parse_collection_run_policy :: "json \<Rightarrow> exn + run_policy" where
  "parse_collection_run_policy v = bindR (parse_scrape_run_policy v) (\<lambda>p.
     ensureR (minimum_journal_frames (rp_max_tasks p) (rp_max_items p) \<le> db_max_journal_frames (rp_durable p))
       (PublicContractError (STR ''the run would exhaust its journal before reaching its own ceilings''))
     (ensureR (minimum_journal_bytes (rp_max_tasks p) (rp_max_items p) \<le> db_max_journal_bytes (rp_durable p))
       (PublicContractError (STR ''the run would exhaust its journal before reaching its own ceilings'')) (Inr p)))"

section \<open>Declared limits\<close>

datatype scrape_limit = Fixed_Limit string int | Caller_Limit string int int

definition limit_id :: "scrape_limit \<Rightarrow> string" where
  "limit_id l = (case l of Fixed_Limit i _ \<Rightarrow> i | Caller_Limit i _ _ \<Rightarrow> i)"

text \<open>The value a limit has when the caller does not set it, and the most it can be.\<close>

definition limit_default :: "scrape_limit \<Rightarrow> int" where
  "limit_default l = (case l of Fixed_Limit _ n \<Rightarrow> n | Caller_Limit _ d _ \<Rightarrow> d)"

definition limit_ceiling :: "scrape_limit \<Rightarrow> int" where
  "limit_ceiling l = (case l of Fixed_Limit _ n \<Rightarrow> n | Caller_Limit _ _ m \<Rightarrow> m)"

definition parse_limit_id :: "json \<Rightarrow> exn + string" where
  "parse_limit_id v = bindR (parse_stable_contract_id v) (\<lambda>i.
     ensureR (i \<notin> {''caller_max_items'', ''caller_max_pages''})
       (PublicContractError (STR ''is reserved by the runtime'')) (Inr i))"

definition parse_scrape_limit :: "json \<Rightarrow> exn + scrape_limit" where
  "parse_scrape_limit v = bindR (as_object v) (\<lambda>raw.
     if field raw ''kind'' = Some (JStr ''fixed'') then
       bindR (parse_exact_record [''id'', ''kind'', ''value''] v) (\<lambda>r.
       bindR (parse_limit_id (fld r ''id'')) (\<lambda>i.
       bindR (parse_integer 1 max_item_limit (fld r ''value'')) (\<lambda>n. Inr (Fixed_Limit i n))))
     else if field raw ''kind'' = Some (JStr ''caller'') then
       bindR (parse_exact_record [''id'', ''kind'', ''default'', ''maximum''] v) (\<lambda>r.
       bindR (parse_integer 1 max_item_limit (fld r ''default'')) (\<lambda>d.
       bindR (parse_integer d max_item_limit (fld r ''maximum'')) (\<lambda>m.
       bindR (parse_limit_id (fld r ''id'')) (\<lambda>i. Inr (Caller_Limit i d m)))))
     else contract_error (STR ''must be fixed or caller''))"

section \<open>The caller's bounds\<close>

record caller_bounds =
  cb_max_items :: "int option"
  cb_max_pages :: "int option"
  cb_max_requests :: "int option"
  cb_timeout_ms :: "int option"
  cb_max_concurrency :: "int option"
  cb_limits :: "(string \<times> int) list option"

definition caller_bound_keys :: "string list" where
  "caller_bound_keys = [''max_items'', ''max_pages'', ''max_requests'', ''timeout_ms'', ''max_concurrency'']"

definition parse_optional_positive_integer :: "json option \<Rightarrow> exn + int option" where
  "parse_optional_positive_integer v = (case v of
     None \<Rightarrow> Inr None
   | Some x \<Rightarrow> bindR (parse_integer 1 3600000 x) (\<lambda>n. Inr (Some n)))"

definition parse_scrape_caller_limit_map :: "json \<Rightarrow> exn + (string \<times> int) list" where
  "parse_scrape_caller_limit_map v = bindR (as_object v) (\<lambda>r.
     ensureR (length r \<le> 64) (PublicContractError (STR ''must contain at most 64 entries''))
       (mapR (\<lambda>(i, x). bindR (parse_stable_contract_id (JStr i)) (\<lambda>_.
          bindR (parse_integer 1 1000000 x) (\<lambda>n. Inr (i, n)))) r))"

definition parse_scrape_caller_bounds :: "json \<Rightarrow> exn + caller_bounds" where
  "parse_scrape_caller_bounds v = bindR (as_object v) (\<lambda>r.
     ensureR (list_all (\<lambda>k. k \<in> set (caller_bound_keys @ [''limits''])) (map fst r))
       (PublicContractError (STR ''is not allowed''))
     (bindR (parse_optional_positive_integer (field r ''max_items'')) (\<lambda>items.
     bindR (parse_optional_positive_integer (field r ''max_pages'')) (\<lambda>pages.
     bindR (parse_optional_positive_integer (field r ''max_requests'')) (\<lambda>requests.
     bindR (parse_optional_positive_integer (field r ''timeout_ms'')) (\<lambda>timeout.
     bindR (parse_optional_positive_integer (field r ''max_concurrency'')) (\<lambda>concurrency.
     bindR (case field r ''limits'' of None \<Rightarrow> Inr None
            | Some l \<Rightarrow> bindR (parse_scrape_caller_limit_map l) (\<lambda>m. Inr (Some m))) (\<lambda>limits.
       Inr \<lparr>cb_max_items = items, cb_max_pages = pages, cb_max_requests = requests, cb_timeout_ms = timeout,
         cb_max_concurrency = concurrency, cb_limits = limits\<rparr>))))))))"

definition lower_bound :: "int option \<Rightarrow> int \<Rightarrow> exn + int" where
  "lower_bound requested maximum = (case requested of
     None \<Rightarrow> Inr maximum
   | Some n \<Rightarrow> parse_integer 1 maximum (JNum (NInt n)))"

section \<open>Effective bounds\<close>

record effective_bounds =
  eb_policy :: run_policy
  eb_named_limits :: "(string \<times> int) list"

definition index_limits :: "scrape_limit list \<Rightarrow> exn + (string \<times> scrape_limit) list" where
  "index_limits ls = foldR (\<lambda>m l.
     ensureR (\<not> has_key m (limit_id l)) (PublicContractError (STR ''must not contain duplicate limit ids''))
       (Inr (AList.update (limit_id l) l m))) [] ls"

definition apply_caller_limit ::
  "(string \<times> scrape_limit) list \<Rightarrow> (string \<times> int) list \<Rightarrow> string \<times> int \<Rightarrow> exn + (string \<times> int) list" where
  "apply_caller_limit limits named = (\<lambda>(i, requested). case map_of limits i of
     None \<Rightarrow> contract_error (STR ''does not name a declared limit'')
   | Some (Fixed_Limit _ _) \<Rightarrow> contract_error (STR ''cannot override a fixed limit'')
   | Some (Caller_Limit j _ m) \<Rightarrow>
       bindR (parse_integer 1 m (JNum (NInt requested))) (\<lambda>n. Inr (AList.update j n named)))"

definition resolve_effective_run_bounds ::
  "run_policy \<Rightarrow> scrape_limit list \<Rightarrow> json \<Rightarrow> exn + effective_bounds" where
  "resolve_effective_run_bounds p declared v =
     bindR (parse_scrape_caller_bounds v) (\<lambda>opts.
     bindR (index_limits declared) (\<lambda>limits.
     bindR (foldR (apply_caller_limit limits)
        (foldl (\<lambda>m l. AList.update (limit_id l) (limit_default l) m) [] declared)
        (case cb_limits opts of None \<Rightarrow> [] | Some m \<Rightarrow> m)) (\<lambda>named.
     bindR (lower_bound (cb_max_concurrency opts) (rp_max_concurrency p)) (\<lambda>concurrency.
     bindR (lower_bound (cb_max_items opts) (rp_max_items p)) (\<lambda>items.
     bindR (lower_bound (cb_max_pages opts) (rp_max_pages p)) (\<lambda>pages.
     bindR (lower_bound (cb_max_requests opts) (rp_max_requests p)) (\<lambda>requests.
     bindR (lower_bound (cb_timeout_ms opts) (rp_total_timeout_ms p)) (\<lambda>timeout.
       Inr \<lparr>eb_policy = p\<lparr>rp_max_concurrency := concurrency, rp_max_items := items, rp_max_pages := pages,
             rp_max_requests := requests, rp_total_timeout_ms := timeout\<rparr>,
         eb_named_limits = named\<rparr>))))))))"

section \<open>What a caller can do\<close>

declare parse_integer_Inr [res_elims]

text \<open>
  A policy under which a run can move: every ceiling is positive, and the journal holds the
  frames and bytes of the task and item ceilings.
\<close>

definition run_policy_ok :: "run_policy \<Rightarrow> bool" where
  "run_policy_ok p \<longleftrightarrow> 1 \<le> rp_max_concurrency p \<and> 1 \<le> rp_max_requests p \<and> 1 \<le> rp_max_tasks p \<and>
     1 \<le> rp_max_pages p \<and> 1 \<le> rp_max_items p \<and> 1000 \<le> rp_per_request_timeout_ms p \<and>
     1 \<le> rp_total_timeout_ms p \<and>
     minimum_journal_frames (rp_max_tasks p) (rp_max_items p) \<le> db_max_journal_frames (rp_durable p) \<and>
     minimum_journal_bytes (rp_max_tasks p) (rp_max_items p) \<le> db_max_journal_bytes (rp_durable p)"

lemma parse_collection_run_policy_ok: "parse_collection_run_policy v = Inr p \<Longrightarrow> run_policy_ok p"
  unfolding parse_collection_run_policy_def parse_scrape_run_policy_def
  by (auto simp: run_policy_ok_def parse_integer_Inr ensureR_Inr_iff elim!: bindRE)

lemma lower_bound_le: "lower_bound requested m = Inr n \<Longrightarrow> n \<le> m \<and> (1 \<le> m \<longrightarrow> 1 \<le> n) \<and>
    (requested = None \<longrightarrow> n = m) \<and> (\<forall>k. requested = Some k \<longrightarrow> n = k)"
  by (auto simp: lower_bound_def parse_integer_Inr split: option.splits)

lemma index_limits_lookup:
  assumes "index_limits ls = Inr m"
  shows "distinct (map limit_id ls) \<and> (\<forall>i l. map_of m i = Some l \<longleftrightarrow> l \<in> set ls \<and> limit_id l = i)"
proof -
  have "distinct (map limit_id ls) \<and> (\<forall>i l. map_of m i = Some l \<longleftrightarrow> l \<in> set ls \<and> limit_id l = i)"
    using assms unfolding index_limits_def
  proof (rule foldR_prefix_invariant)
    fix ys u x v
    assume IH: "distinct (map limit_id ys) \<and> (\<forall>i l. map_of u i = Some l \<longleftrightarrow> l \<in> set ys \<and> limit_id l = i)"
      and step: "ensureR (\<not> has_key u (limit_id x)) (PublicContractError STR ''must not contain duplicate limit ids'')
        (Inr (AList.update (limit_id x) x u)) = Inr v"
    from step have v: "v = AList.update (limit_id x) x u" and new: "map_of u (limit_id x) = None"
      by (simp_all add: ensureR_Inr_iff has_key_map_of)
    have fresh: "limit_id x \<notin> limit_id ` set ys" using IH new by (metis imageE option.distinct(1))
    then show "distinct (map limit_id (ys @ [x])) \<and>
        (\<forall>i l. map_of v i = Some l \<longleftrightarrow> l \<in> set (ys @ [x]) \<and> limit_id l = i)"
      using IH v new fresh by auto (metis imageI)+
  qed simp
  then show ?thesis .
qed

definition named_limits_ok :: "scrape_limit list \<Rightarrow> (string \<times> int) list \<Rightarrow> bool" where
  "named_limits_ok declared named \<longleftrightarrow> dom (map_of named) = limit_id ` set declared \<and>
     (\<forall>l \<in> set declared. \<exists>n. map_of named (limit_id l) = Some n \<and> n \<le> limit_ceiling l \<and>
        (case l of Fixed_Limit _ k \<Rightarrow> n = k | Caller_Limit _ _ _ \<Rightarrow> True))"

lemma default_limits_ok:
  assumes "distinct (map limit_id ls)" "\<forall>l \<in> set ls. limit_default l \<le> limit_ceiling l"
  shows "named_limits_ok ls (foldl (\<lambda>m l. AList.update (limit_id l) (limit_default l) m) [] ls)"
  using assms
proof (induction ls rule: rev_induct)
  case (snoc l ls)
  then have "named_limits_ok ls (foldl (\<lambda>m l. AList.update (limit_id l) (limit_default l) m) [] ls)"
    and "limit_id l \<notin> limit_id ` set ls" by auto
  then show ?case using snoc.prems(2)
    by (auto simp: named_limits_ok_def limit_default_def split: scrape_limit.splits) (metis image_eqI)+
qed (simp add: named_limits_ok_def)

lemma apply_caller_limit_ok:
  assumes "apply_caller_limit limits named (i, k) = Inr named'" "named_limits_ok declared named"
    and "distinct (map limit_id declared)"
    and "\<And>i l. map_of limits i = Some l \<longleftrightarrow> l \<in> set declared \<and> limit_id l = i"
  shows "named_limits_ok declared named'"
proof -
  obtain j d m where l: "map_of limits i = Some (Caller_Limit j d m)" "k \<le> m"
    and n: "named' = AList.update j k named"
    using assms(1) by (auto simp: apply_caller_limit_def contract_error_def parse_integer_Inr
      split: option.splits scrape_limit.splits elim!: bindRE)
  have here: "Caller_Limit j d m \<in> set declared" using assms(4) l(1) by blast
  have only: "l = Caller_Limit j d m" if "l \<in> set declared" "limit_id l = j" for l
    using that here assms(3) by (metis distinct_map inj_onD limit_id_def scrape_limit.simps(6))
  show ?thesis unfolding named_limits_ok_def
  proof (intro conjI ballI)
    show "dom (map_of named') = limit_id ` set declared"
      using assms(2) here by (force simp: n named_limits_ok_def limit_id_def)
    fix l assume "l \<in> set declared"
    then show "\<exists>x. map_of named' (limit_id l) = Some x \<and> x \<le> limit_ceiling l \<and>
        (case l of Fixed_Limit _ k \<Rightarrow> x = k | Caller_Limit _ _ _ \<Rightarrow> True)"
      using assms(2) only[of l] l(2) by (cases "limit_id l = j") (auto simp: n named_limits_ok_def limit_ceiling_def)
  qed
qed

lemma apply_caller_limits_ok:
  assumes "foldR (apply_caller_limit limits) named ks = Inr named'" "named_limits_ok declared named"
    and "distinct (map limit_id declared)"
    and "\<And>i l. map_of limits i = Some l \<longleftrightarrow> l \<in> set declared \<and> limit_id l = i"
  shows "named_limits_ok declared named'"
  using assms(1,2)
proof (induction ks arbitrary: named)
  case (Cons k ks)
  then obtain m where "apply_caller_limit limits named (fst k, snd k) = Inr m" "foldR (apply_caller_limit limits) m ks = Inr named'"
    by (auto elim: bindRE)
  then show ?case using Cons apply_caller_limit_ok[OF _ Cons.prems(2) assms(3,4)] by blast
qed simp

lemma parse_scrape_limit_ordered: "parse_scrape_limit v = Inr l \<Longrightarrow> limit_default l \<le> limit_ceiling l"
  by (auto simp: parse_scrape_limit_def parse_integer_Inr limit_default_def limit_ceiling_def contract_error_def
    split: if_splits elim!: bindRE)

lemma resolve_cases:
  assumes "resolve_effective_run_bounds p declared v = Inr eb"
  obtains opts :: caller_bounds and limits named a b c d e where
    "index_limits declared = Inr limits"
    "foldR (apply_caller_limit limits)
        (foldl (\<lambda>m l. AList.update (limit_id l) (limit_default l) m) [] declared)
        (case cb_limits opts of None \<Rightarrow> [] | Some m \<Rightarrow> m) = Inr named"
    "lower_bound (cb_max_concurrency opts) (rp_max_concurrency p) = Inr a"
    "lower_bound (cb_max_items opts) (rp_max_items p) = Inr b"
    "lower_bound (cb_max_pages opts) (rp_max_pages p) = Inr c"
    "lower_bound (cb_max_requests opts) (rp_max_requests p) = Inr d"
    "lower_bound (cb_timeout_ms opts) (rp_total_timeout_ms p) = Inr e"
    "eb = \<lparr>eb_policy = p\<lparr>rp_max_concurrency := a, rp_max_items := b, rp_max_pages := c,
      rp_max_requests := d, rp_total_timeout_ms := e\<rparr>, eb_named_limits = named\<rparr>"
  using assms unfolding resolve_effective_run_bounds_def
  by (elim bindRE) (rule that, assumption+, simp only: sum.inject)


definition example_run_policy :: run_policy where
  "example_run_policy = \<lparr>rp_max_concurrency = 2, rp_per_request_timeout_ms = 1000, rp_total_timeout_ms = 60000,
     rp_max_requests = 10, rp_max_tasks = 4, rp_max_pages = 4, rp_max_items = 8, rp_max_encoded_item_bytes = 512,
     rp_max_output_bytes = 4096,
     rp_retry = \<lparr>rt_max_retries = 0, rt_on = [], rt_base_delay_ms = 100, rt_max_delay_ms = 100,
       rt_jitter_ratio = NInt 0, rt_honor_structural_retry_after = False\<rparr>,
     rp_durable = \<lparr>db_max_frontier_bytes = 4096, db_max_data_spool_bytes = 65536, db_max_journal_bytes = 400000,
       db_max_journal_frames = 100, db_max_reorder_buffer_bytes = 65536, db_max_local_state_bytes = 4096\<rparr>\<rparr>"

lemma example_run_policy_ok: "run_policy_ok example_run_policy"
  by (simp add: run_policy_ok_def example_run_policy_def minimum_journal_frames_def minimum_journal_bytes_def
    journal_budget_defs journal_frames_fixed_def journal_frames_per_task_def journal_frames_per_item_def
    journal_ordinary_frame_bytes_def)

definition example_caller_bounds :: json where
  "example_caller_bounds = JObj [(''max_items'', JNum (NInt 3)), (''limits'', JObj [(''pages'', JNum (NInt 2))])]"


end
