(* ===== verification/Attempt_Order.thy ===== *)
theory Attempt_Order
  imports Scrape_Policy
begin

text \<open>
  The order in which the task chains of one dispatch batch commit
  (\<open>src/src/consumer/scrape/attempt-order.ts\<close>). A chain allocates an ordinal, waits for its
  turn before it commits anything, and releases the turn when it ends. Ordinals are
  granted one at a time, in order. A waiter is the ordinal it waits for: settling its
  promise is an output of the operation that does it.
\<close>

section \<open>Budgets of a batch\<close>

text \<open>The fields of \<open>PublicReadCapabilityV1\<close> the run engine reads.\<close>

record read_capability =
  rc_id :: string
  rc_input_schema :: json_schema
  rc_max_encoded_outcome_bytes :: int
  rc_max_target_requests_per_call :: int
  rc_safe_read :: "bool list"

definition result_envelope_bytes :: int where "result_envelope_bytes = 1024"

definition maximum_buffered_result_bytes :: "read_capability \<Rightarrow> int" where
  "maximum_buffered_result_bytes c = rc_max_encoded_outcome_bytes c + result_envelope_bytes"

definition maximum_buffered_page_bytes :: "run_policy \<Rightarrow> read_capability \<Rightarrow> int" where
  "maximum_buffered_page_bytes p c = max (maximum_buffered_result_bytes c) (rp_max_output_bytes p)"

text \<open>
  \<open>Math.max\<close> of no argument is \<open>-Infinity\<close>, and \<open>floor (x / -Infinity)\<close> is \<open>-0\<close> or \<open>0\<close>: without
  a capability no attempt may wait.
\<close>

definition resolve_bounded_attempt_concurrency :: "run_policy \<Rightarrow> read_capability list \<Rightarrow> int" where
  "resolve_bounded_attempt_concurrency p cs =
     (let waiting = (case cs of [] \<Rightarrow> 0
        | c # rest \<Rightarrow> db_max_reorder_buffer_bytes (rp_durable p) div
            foldl max (maximum_buffered_page_bytes p c) (map (maximum_buffered_page_bytes p) rest))
      in min (rp_max_concurrency p) (waiting + 1))"

section \<open>Turns\<close>

record attempt_order =
  ao_next_allocated :: int
  ao_next_commit :: int
  ao_aborted :: bool
  ao_abort_reason :: "exn option"
  ao_waiters :: "int list"

definition new_attempt_order :: attempt_order where
  "new_attempt_order = \<lparr>ao_next_allocated = 0, ao_next_commit = 0, ao_aborted = False,
     ao_abort_reason = None, ao_waiters = []\<rparr>"

text \<open>What a call of \<open>waitForTurn\<close> gives: a settled promise, or one settled later.\<close>

datatype turn = Turn_Granted | Turn_Pending | Turn_Rejected exn

text \<open>What an operation does to the promises of other chains.\<close>

datatype settlement = Resolve_Waiter int | Reject_Waiter int exn

definition allocate_ordinal :: "attempt_order \<Rightarrow> attempt_order \<times> int" where
  "allocate_ordinal a = (a\<lparr>ao_next_allocated := ao_next_allocated a + 1\<rparr>, ao_next_allocated a)"

definition next_ordinal :: "attempt_order \<Rightarrow> int" where
  "next_ordinal a = ao_next_allocated a"

definition assert_allocated :: "int \<Rightarrow> attempt_order \<Rightarrow> exn + unit" where
  "assert_allocated n a = ensureR (\<bar>n\<bar> \<le> max_safe_integer \<and> 0 \<le> n \<and> n < ao_next_allocated a)
     (AttemptOrderError (STR ''attempt ordinal was not allocated'')) (Inr ())"

definition attempt_aborted :: exn where
  "attempt_aborted = AttemptOrderError (STR ''attempt execution aborted'')"

definition wait_for_turn :: "int \<Rightarrow> attempt_order \<Rightarrow> exn + attempt_order \<times> turn" where
  "wait_for_turn n a = bindR (assert_allocated n a) (\<lambda>_.
     if ao_aborted a then
       Inr (a, Turn_Rejected (case ao_abort_reason a of Some e \<Rightarrow> e | None \<Rightarrow> attempt_aborted))
     else if n = ao_next_commit a then Inr (a, Turn_Granted)
     else if n \<in> set (ao_waiters a) then
       Inl (AttemptOrderError (STR ''one attempt ordinal has more than one waiter''))
     else Inr (a\<lparr>ao_waiters := ao_waiters a @ [n]\<rparr>, Turn_Pending))"

text \<open>The reason is \<open>None\<close> when what was thrown is no \<open>Error\<close>.\<close>

definition abort_order :: "exn option \<Rightarrow> attempt_order \<Rightarrow> attempt_order \<times> settlement list" where
  "abort_order reason a =
     (if ao_aborted a then (a, [])
      else let e = (case reason of Some e \<Rightarrow> e | None \<Rightarrow> attempt_aborted) in
        (a\<lparr>ao_aborted := True, ao_abort_reason := Some e, ao_waiters := []\<rparr>,
         map (\<lambda>n. Reject_Waiter n e) (ao_waiters a)))"

definition release_turn :: "int \<Rightarrow> attempt_order \<Rightarrow> exn + attempt_order \<times> settlement list" where
  "release_turn n a = bindR (assert_allocated n a) (\<lambda>_.
     ensureR (n = ao_next_commit a)
       (AttemptOrderError (STR ''attempt ordinal is not the current commit turn''))
       (let a1 = a\<lparr>ao_next_commit := ao_next_commit a + 1\<rparr>; k = ao_next_commit a1 in
        if ao_aborted a1 then Inr (a1, [])
        else if k \<in> set (ao_waiters a1) then
          Inr (a1\<lparr>ao_waiters := removeAll k (ao_waiters a1)\<rparr>, [Resolve_Waiter k])
        else Inr (a1, [])))"

text \<open>\<open>releaseOwnedAttemptTurn\<close>.\<close>

definition release_owned_attempt_turn ::
  "int option \<Rightarrow> bool \<Rightarrow> attempt_order \<Rightarrow> exn + attempt_order \<times> settlement list" where
  "release_owned_attempt_turn ordinal owns a =
     (case ordinal of
        Some n \<Rightarrow> if owns then release_turn n a else Inr (a, [])
      | None \<Rightarrow> Inr (a, []))"

section \<open>The protocol of the chains\<close>

text \<open>
  The chains of a batch over one order: a chain allocates, then waits once, then, when it
  has been granted the turn, releases it; an unclassified error aborts. A chain may also
  stop after it has allocated and never wait: then it holds its ordinal and nothing more.
\<close>

record turn_world =
  tw_order :: attempt_order
  tw_granted :: "int list"
  tw_released :: "int list"
  tw_rejected :: "int list"

definition new_turn_world :: turn_world where
  "new_turn_world = \<lparr>tw_order = new_attempt_order, tw_granted = [], tw_released = [], tw_rejected = []\<rparr>"

definition settle :: "settlement list \<Rightarrow> turn_world \<Rightarrow> turn_world" where
  "settle ss w = w\<lparr>tw_granted := tw_granted w @ concat (map (\<lambda>s. case s of Resolve_Waiter n \<Rightarrow> [n] | _ \<Rightarrow> []) ss),
     tw_rejected := tw_rejected w @ concat (map (\<lambda>s. case s of Reject_Waiter n _ \<Rightarrow> [n] | _ \<Rightarrow> []) ss)\<rparr>"

inductive turn_step :: "turn_world \<Rightarrow> turn_world \<Rightarrow> bool" where
  turn_allocate: "turn_step w (w\<lparr>tw_order := fst (allocate_ordinal (tw_order w))\<rparr>)"
| turn_wait_granted: "wait_for_turn n (tw_order w) = Inr (a, Turn_Granted) \<Longrightarrow> n \<notin> set (tw_granted w) \<Longrightarrow>
    turn_step w (w\<lparr>tw_order := a, tw_granted := tw_granted w @ [n]\<rparr>)"
| turn_wait_pending: "wait_for_turn n (tw_order w) = Inr (a, Turn_Pending) \<Longrightarrow> n \<notin> set (tw_granted w) \<Longrightarrow>
    turn_step w (w\<lparr>tw_order := a\<rparr>)"
| turn_wait_rejected: "wait_for_turn n (tw_order w) = Inr (a, Turn_Rejected e) \<Longrightarrow>
    turn_step w (w\<lparr>tw_order := a, tw_rejected := tw_rejected w @ [n]\<rparr>)"
| turn_release: "n \<in> set (tw_granted w) \<Longrightarrow> n \<notin> set (tw_released w) \<Longrightarrow>
    release_turn n (tw_order w) = Inr (a, ss) \<Longrightarrow>
    turn_step w (settle ss (w\<lparr>tw_order := a, tw_released := tw_released w @ [n]\<rparr>))"
| turn_abort: "abort_order reason (tw_order w) = (a, ss) \<Longrightarrow> turn_step w (settle ss (w\<lparr>tw_order := a\<rparr>))"

text \<open>
  The invariant: the released turns are the ordinals below the next commit, the granted
  ones are those and possibly the next one, and every waiter is allocated and later. In
  particular the ordinal whose turn it is never waits: no wake-up is lost.
\<close>

definition turns_ok :: "turn_world \<Rightarrow> bool" where
  "turns_ok w \<longleftrightarrow> (let a = tw_order w in
     0 \<le> ao_next_commit a \<and> ao_next_commit a \<le> ao_next_allocated a \<and>
     tw_released w = map int [0..<nat (ao_next_commit a)] \<and>
     (tw_granted w = tw_released w \<or>
      tw_granted w = tw_released w @ [ao_next_commit a] \<and> ao_next_commit a < ao_next_allocated a) \<and>
     (\<forall>n \<in> set (ao_waiters a). ao_next_commit a < n \<and> n < ao_next_allocated a) \<and>
     (ao_aborted a \<longrightarrow> ao_waiters a = []))"

lemma released_snoc: "0 \<le> k \<Longrightarrow> map int [0..<nat (k + 1)] = map int [0..<nat k] @ [k]"
  by (simp add: nat_add_distrib)

lemma wait_for_turn_cases:
  assumes "wait_for_turn n a = Inr (a', t)"
  obtains "0 \<le> n" "n < ao_next_allocated a" "ao_aborted a" "a' = a"
    "t = Turn_Rejected (case ao_abort_reason a of Some e \<Rightarrow> e | None \<Rightarrow> attempt_aborted)"
  | "n = ao_next_commit a" "n < ao_next_allocated a" "\<not> ao_aborted a" "a' = a" "t = Turn_Granted"
  | "0 \<le> n" "n < ao_next_allocated a" "\<not> ao_aborted a" "n \<noteq> ao_next_commit a" "n \<notin> set (ao_waiters a)"
    "a' = a\<lparr>ao_waiters := ao_waiters a @ [n]\<rparr>" "t = Turn_Pending"
  using assms unfolding wait_for_turn_def assert_allocated_def
  by (auto simp: ensureR_Inr_iff split: if_splits elim!: bindRE)

lemma release_turn_cases:
  assumes "release_turn n a = Inr (a', ss)"
  obtains "n = ao_next_commit a" "n < ao_next_allocated a" "0 \<le> n"
    "\<not> ao_aborted a" "n + 1 \<in> set (ao_waiters a)" "ss = [Resolve_Waiter (n + 1)]"
    "a' = a\<lparr>ao_next_commit := n + 1, ao_waiters := removeAll (n + 1) (ao_waiters a)\<rparr>"
  | "n = ao_next_commit a" "n < ao_next_allocated a" "0 \<le> n"
    "ao_aborted a \<or> n + 1 \<notin> set (ao_waiters a)" "ss = []" "a' = a\<lparr>ao_next_commit := n + 1\<rparr>"
  using assms unfolding release_turn_def assert_allocated_def
  by (auto simp: ensureR_Inr_iff Let_def split: if_splits elim!: bindRE)

lemma granted_wait:
  assumes "turns_ok w" "\<not> ao_aborted (tw_order w)" "n = ao_next_commit (tw_order w)"
    "n < ao_next_allocated (tw_order w)" "n \<notin> set (tw_granted w)"
  shows "turns_ok (w\<lparr>tw_granted := tw_granted w @ [n]\<rparr>)"
  using assms by (auto simp: turns_ok_def Let_def)

lemma turn_step_ok: "turn_step w w' \<Longrightarrow> turns_ok w \<Longrightarrow> turns_ok w'"
proof (induction rule: turn_step.induct)
  case (turn_allocate w)
  then show ?case by (fastforce simp: turns_ok_def Let_def allocate_ordinal_def)
next
  case (turn_wait_granted n w a)
  from turn_wait_granted.hyps(1) have "n = ao_next_commit (tw_order w)" "n < ao_next_allocated (tw_order w)"
    "\<not> ao_aborted (tw_order w)" "a = tw_order w" by (auto elim: wait_for_turn_cases)
  then show ?case using granted_wait[OF turn_wait_granted.prems, of n] turn_wait_granted.hyps(2) by simp
next
  case (turn_wait_pending n w a)
  then have n: "0 \<le> n" "n < ao_next_allocated (tw_order w)" "\<not> ao_aborted (tw_order w)"
    "n \<noteq> ao_next_commit (tw_order w)" "a = tw_order w\<lparr>ao_waiters := ao_waiters (tw_order w) @ [n]\<rparr>"
    by (auto elim: wait_for_turn_cases)
  have rel: "tw_released w = map int [0..<nat (ao_next_commit (tw_order w))]"
    "tw_granted w = tw_released w \<or> tw_granted w = tw_released w @ [ao_next_commit (tw_order w)]"
    using turn_wait_pending.prems by (auto simp: turns_ok_def Let_def)
  have "\<not> n < ao_next_commit (tw_order w)"
  proof
    assume "n < ao_next_commit (tw_order w)"
    then have "n \<in> set (tw_released w)" using n(1) rel(1) by (auto intro!: image_eqI[of _ _ "nat n"])
    then show False using rel(2) turn_wait_pending.hyps(2) by auto
  qed
  then show ?case using turn_wait_pending.prems n by (auto simp: turns_ok_def Let_def)
next
  case (turn_wait_rejected n w a e)
  then have "a = tw_order w" by (auto elim: wait_for_turn_cases)
  then show ?case using turn_wait_rejected.prems by (simp add: turns_ok_def)
next
  case (turn_release n w a ss)
  let ?o = "tw_order w"
  have ok: "0 \<le> ao_next_commit ?o" "tw_released w = map int [0..<nat (ao_next_commit ?o)]"
    "tw_granted w = tw_released w \<or> tw_granted w = tw_released w @ [ao_next_commit ?o]"
    "\<forall>k \<in> set (ao_waiters ?o). ao_next_commit ?o < k \<and> k < ao_next_allocated ?o"
    "ao_aborted ?o \<longrightarrow> ao_waiters ?o = []"
    using turn_release.prems by (auto simp: turns_ok_def Let_def)
  have g: "tw_granted w = tw_released w @ [ao_next_commit ?o]"
    using ok(3) turn_release.hyps(1,2) by auto
  from turn_release.hyps(3) show ?case
  proof (cases rule: release_turn_cases)
    case 1
    then have "n + 1 < ao_next_allocated ?o" using ok(4) by blast
    then show ?thesis using 1 ok g released_snoc[OF ok(1)]
      by (auto simp: turns_ok_def Let_def settle_def)
  next
    case 2
    have "n + 1 < k" if "k \<in> set (ao_waiters ?o)" for k
    proof -
      have "n + 1 \<noteq> k" using 2(4) ok(5) that by auto
      then show ?thesis using ok(4) that 2(1) by fastforce
    qed
    then show ?thesis using 2 ok g released_snoc[OF ok(1)] by (auto simp: turns_ok_def Let_def settle_def)
  qed
next
  case (turn_abort reason w a ss)
  then show ?case
    by (auto simp: abort_order_def turns_ok_def Let_def settle_def comp_def split: if_splits)
qed

lemma new_turn_world_ok: "turns_ok new_turn_world"
  by (simp add: turns_ok_def new_turn_world_def new_attempt_order_def)

interpretation turns: transition_system "\<lambda>w. w = new_turn_world" turn_step turns_ok
  by unfold_locales (auto intro: new_turn_world_ok turn_step_ok)

lemma granted_are_initial_ordinals:
  assumes "turns_ok w" shows "tw_granted w = map int [0..<length (tw_granted w)]"
proof -
  have *: "0 \<le> ao_next_commit (tw_order w)" "tw_released w = map int [0..<nat (ao_next_commit (tw_order w))]"
    "tw_granted w = tw_released w \<or> tw_granted w = tw_released w @ [ao_next_commit (tw_order w)]"
    using assms by (auto simp: turns_ok_def Let_def)
  from *(3) show ?thesis
  proof
    assume "tw_granted w = tw_released w @ [ao_next_commit (tw_order w)]"
    then show ?thesis using *(1,2) released_snoc[OF *(1)] by (simp add: nat_add_distrib)
  qed (use *(2) in simp)
qed


text \<open>
  An ordinal whose chain ends without waiting for its turn blocks every later one: as long
  as nobody has been granted ordinal \<open>k\<close>, nobody has been granted an ordinal above it.
\<close>

lemma unwaited_ordinal_blocks:
  assumes "turns_ok w" "0 \<le> k" "k \<notin> set (tw_granted w)" "n \<in> set (tw_granted w)"
  shows "n < k"
proof -
  have g: "set (tw_granted w) = int ` {0..<length (tw_granted w)}"
    using granted_are_initial_ordinals[OF assms(1)] by (metis set_map set_upt)
  then obtain i where i: "n = int i" "i < length (tw_granted w)" using assms(4) by auto
  have "int (nat k) \<notin> int ` {0..<length (tw_granted w)}" using assms(2,3) g by simp
  then have "\<not> nat k < length (tw_granted w)" by (metis atLeastLessThan_iff image_eqI le0)
  then show ?thesis using i by linarith
qed

definition two_chains :: turn_world where
  "two_chains = new_turn_world\<lparr>tw_order := fst (allocate_ordinal (fst (allocate_ordinal new_attempt_order)))\<rparr>"

lemma two_chains_reached: "turn_step\<^sup>*\<^sup>* new_turn_world two_chains"
proof -
  have "turn_step new_turn_world (new_turn_world\<lparr>tw_order := fst (allocate_ordinal new_attempt_order)\<rparr>)"
    using turn_allocate[of new_turn_world] by (simp add: new_turn_world_def)
  moreover have "turn_step (new_turn_world\<lparr>tw_order := fst (allocate_ordinal new_attempt_order)\<rparr>) two_chains"
    using turn_allocate[of "new_turn_world\<lparr>tw_order := fst (allocate_ordinal new_attempt_order)\<rparr>"]
    by (simp add: two_chains_def)
  ultimately show ?thesis by (meson rtranclp.rtrancl_into_rtrancl rtranclp.rtrancl_refl)
qed


end
