(* ===== verification/Semantic_Stop.thy ===== *)
theory Semantic_Stop
  imports Json_Schema
begin

text \<open>
  Semantic cutoffs: the contract of a date cutoff with its comparators
  (\<open>src/src/public/contracts/semantic-stop.ts\<close>) and the tracker that applies the active
  cutoffs to the items of a run (\<open>src/src/consumer/scrape/semantic-stops.ts\<close>).

  A comparable value is a \<open>bigint\<close> or a \<open>number\<close>; a number is a safe integer here. The
  functions \<open>daysInMonth\<close> and \<open>isLeapYear\<close> of \<open>semantic-stop.ts\<close> repeat those of \<open>common.ts\<close>.
\<close>

section \<open>Cutoff contracts\<close>

datatype integer_unit = Unit_Plain | Unit_Seconds | Unit_Milliseconds

datatype semantic_comparator = Cmp_Iso_Date | Cmp_Rfc3339_Instant | Cmp_Integer integer_unit

datatype stop_direction = Ascending | Descending

record semantic_stop =
  ss_id :: string
  ss_bound_arg_pointer :: string
  ss_item_value_pointer :: string
  ss_comparator :: semantic_comparator
  ss_direction :: stop_direction
  ss_inclusive :: bool
  ss_ordering_assertion_id :: string

definition parse_comparator :: "json \<Rightarrow> exn + semantic_comparator" where
  "parse_comparator v = bindR (as_object v) (\<lambda>raw.
     if field raw ''kind'' = Some (JStr ''iso_date'') then
       bindR (parse_exact_record [''kind'', ''format'', ''timezone''] v) (\<lambda>r.
         ensureR (fld r ''format'' = JStr ''YYYY-MM-DD'' \<and> fld r ''timezone'' = JStr ''UTC'')
           (PublicContractError (STR ''must use the UTC YYYY-MM-DD comparator'')) (Inr Cmp_Iso_Date))
     else if field raw ''kind'' = Some (JStr ''rfc3339_instant'') then
       bindR (parse_exact_record [''kind'', ''require_explicit_offset''] v) (\<lambda>r.
         ensureR (fld r ''require_explicit_offset'' = JBool True)
           (PublicContractError (STR ''must be true'')) (Inr Cmp_Rfc3339_Instant))
     else if field raw ''kind'' = Some (JStr ''integer'') then
       bindR (parse_exact_record [''kind'', ''unit''] v) (\<lambda>r.
         if fld r ''unit'' = JStr ''plain'' then Inr (Cmp_Integer Unit_Plain)
         else if fld r ''unit'' = JStr ''unix_seconds'' then Inr (Cmp_Integer Unit_Seconds)
         else if fld r ''unit'' = JStr ''unix_milliseconds'' then Inr (Cmp_Integer Unit_Milliseconds)
         else contract_error (STR ''is invalid''))
     else contract_error (STR ''is invalid''))"

definition parse_direction :: "json \<Rightarrow> exn + stop_direction" where
  "parse_direction v =
     (if v = JStr ''ascending'' then Inr Ascending
      else if v = JStr ''descending'' then Inr Descending
      else contract_error (STR ''must be ascending or descending''))"

definition parse_semantic_stop :: "json \<Rightarrow> exn + semantic_stop" where
  "parse_semantic_stop v =
     bindR (parse_exact_record [''id'', ''kind'', ''bound_arg_pointer'', ''item_value_pointer'', ''comparator'',
       ''order'', ''inclusive'', ''ordering_assertion_id'', ''invalid_item_value''] v) (\<lambda>r.
     ensureR (fld r ''kind'' = JStr ''date_cutoff'') (PublicContractError (STR ''must be date_cutoff''))
     (bindR (parse_direction (fld r ''order'')) (\<lambda>direction.
     bindR (case fld r ''inclusive'' of JBool b \<Rightarrow> Inr b | _ \<Rightarrow> contract_error (STR ''must be a boolean'')) (\<lambda>inclusive.
     ensureR (fld r ''invalid_item_value'' = JStr ''item_invalid'') (PublicContractError (STR ''must be item_invalid''))
     (bindR (parse_stable_contract_id (fld r ''id'')) (\<lambda>i.
     bindR (parse_json_pointer (fld r ''bound_arg_pointer'')) (\<lambda>bp.
     bindR (parse_json_pointer (fld r ''item_value_pointer'')) (\<lambda>ip.
     bindR (parse_comparator (fld r ''comparator'')) (\<lambda>cmp.
     bindR (parse_stable_contract_id (fld r ''ordering_assertion_id'')) (\<lambda>oa.
       Inr \<lparr>ss_id = i, ss_bound_arg_pointer = bp, ss_item_value_pointer = ip, ss_comparator = cmp,
         ss_direction = direction, ss_inclusive = inclusive, ss_ordering_assertion_id = oa\<rparr>))))))))))"

fun parse_stop_list :: "string list \<Rightarrow> json list \<Rightarrow> exn + semantic_stop list" where
  "parse_stop_list seen [] = Inr []"
| "parse_stop_list seen (v # vs) = bindR (parse_semantic_stop v) (\<lambda>s.
     ensureR (ss_id s \<notin> set seen) (PublicContractError (STR ''must not be duplicated''))
       (bindR (parse_stop_list (ss_id s # seen) vs) (\<lambda>ss. Inr (s # ss))))"

definition parse_semantic_stops :: "json \<Rightarrow> exn + semantic_stop list" where
  "parse_semantic_stops v =
     bindR (parse_list_max 32 (STR ''must contain at most 32 semantic stops'') v) (parse_stop_list [])"

section \<open>Calendar\<close>

text \<open>\<open>daysFromCivil\<close>: \<open>Math.floor\<close> of a quotient is \<open>div\<close>.\<close>

definition days_from_civil :: "int \<Rightarrow> int \<Rightarrow> int \<Rightarrow> int" where
  "days_from_civil year month day =
     (let adjusted_year = year - (if month \<le> 2 then 1 else 0);
          era = adjusted_year div 400;
          year_of_era = adjusted_year - era * 400;
          transformed_month = month + (if month > 2 then -3 else 9);
          day_of_year = (153 * transformed_month + 2) div 5 + day - 1;
          day_of_era = year_of_era * 365 + year_of_era div 4 - year_of_era div 100 + day_of_year
      in era * 146097 + day_of_era - 719468)"

definition assert_calendar_date :: "nat \<Rightarrow> nat \<Rightarrow> nat \<Rightarrow> exn + unit" where
  "assert_calendar_date y m d = ensureR (1 \<le> m \<and> m \<le> 12 \<and> 1 \<le> d \<and> d \<le> days_in_month y m)
     (PublicContractError (STR ''must be a real proleptic Gregorian calendar date'')) (Inr ())"

section \<open>Comparable values\<close>

datatype comparable_value = Big_Value int | Number_Value int

text \<open>\<open>/^(\d{4})-(\d{2})-(\d{2})$/\<close>, and the prefix of an instant up to its seconds.\<close>

definition has_date_shape :: "string \<Rightarrow> bool" where
  "has_date_shape s \<longleftrightarrow> length s = 10 \<and>
     list_all (\<lambda>(i, c). if i = 4 \<or> i = 7 then c = CHR ''-'' else is_digit c) (zip [0..<10] s)"

definition has_clock_shape :: "string \<Rightarrow> bool" where
  "has_clock_shape s \<longleftrightarrow> length s = 9 \<and>
     list_all (\<lambda>(i, c). if i = 0 then c = CHR ''T'' else if i = 3 \<or> i = 6 then c = CHR '':'' else is_digit c)
       (zip [0..<9] s)"

definition has_offset_shape :: "string \<Rightarrow> bool" where
  "has_offset_shape s \<longleftrightarrow> s = ''Z'' \<or> length s = 6 \<and>
     list_all (\<lambda>(i, c). if i = 0 then c = CHR ''+'' \<or> c = CHR ''-'' else if i = 3 then c = CHR '':'' else is_digit c)
       (zip [0..<6] s)"

definition parse_iso_date :: "string \<Rightarrow> exn + comparable_value" where
  "parse_iso_date text = bindR (parse_string 10 (JStr text)) (\<lambda>s.
     ensureR (has_date_shape s) (PublicContractError (STR ''must be an ISO date in YYYY-MM-DD form''))
       (bindR (assert_calendar_date (number_at 0 4 s) (number_at 5 2 s) (number_at 8 2 s)) (\<lambda>_.
         Inr (Big_Value (days_from_civil (int (number_at 0 4 s)) (int (number_at 5 2 s)) (int (number_at 8 2 s)))))))"

definition parse_offset :: "string \<Rightarrow> exn + int" where
  "parse_offset s =
     (if s = ''Z'' then Inr 0
      else let sign = (if hd s = CHR ''+'' then 1 else -1); h = number_at 1 2 s; m = number_at 4 2 s in
        ensureR (h \<le> 23 \<and> m \<le> 59) (PublicContractError (STR ''must contain a real UTC offset''))
          (Inr (sign * (int h * 3600 + int m * 60))))"

text \<open>
  The optional fraction of one to nine digits, scaled to nanoseconds, and the offset after
  it. Without the point there is no fraction; with it and no digit the text does not match.
\<close>

definition split_fraction :: "string \<Rightarrow> (string \<times> string) option" where
  "split_fraction s = (case s of
     c # cs \<Rightarrow>
       (if c = CHR ''.'' then
          (let ds = takeWhile is_digit cs; rest = dropWhile is_digit cs in
           if 1 \<le> length ds \<and> length ds \<le> 9 then Some (ds, rest) else None)
        else Some ([], s))
   | [] \<Rightarrow> Some ([], s))"

definition fraction_nanoseconds :: "string \<Rightarrow> int" where
  "fraction_nanoseconds ds = int (digits_value (ds @ replicate (9 - length ds) (CHR ''0'')))"

definition parse_rfc3339_comparable :: "string \<Rightarrow> exn + comparable_value" where
  "parse_rfc3339_comparable text = bindR (parse_string 64 (JStr text)) (\<lambda>s.
     case split_fraction (drop 19 s) of
       None \<Rightarrow> contract_error (STR ''must be an RFC 3339 instant with an explicit offset'')
     | Some (fraction, offset_text) \<Rightarrow>
         ensureR (has_date_shape (take 10 s) \<and> has_clock_shape (take 9 (drop 10 s)) \<and> has_offset_shape offset_text)
           (PublicContractError (STR ''must be an RFC 3339 instant with an explicit offset''))
         (bindR (assert_calendar_date (number_at 0 4 s) (number_at 5 2 s) (number_at 8 2 s)) (\<lambda>_.
         ensureR (number_at 11 2 s \<le> 23 \<and> number_at 14 2 s \<le> 59 \<and> number_at 17 2 s \<le> 59)
           (PublicContractError (STR ''must contain a real clock time without leap seconds''))
         (bindR (parse_offset offset_text) (\<lambda>offset.
           Inr (Big_Value ((days_from_civil (int (number_at 0 4 s)) (int (number_at 5 2 s)) (int (number_at 8 2 s)) * 86400 +
             (int (number_at 11 2 s) * 3600 + int (number_at 14 2 s) * 60 + int (number_at 17 2 s) - offset)) *
             1000000000 + fraction_nanoseconds fraction)))))))"

definition parse_comparable :: "semantic_comparator \<Rightarrow> json \<Rightarrow> exn + comparable_value" where
  "parse_comparable cmp v = (case cmp of
     Cmp_Integer _ \<Rightarrow>
       (case v of
          JNum (NInt i) \<Rightarrow> ensureR (\<bar>i\<bar> \<le> max_safe_integer) (PublicContractError (STR ''must be a safe integer''))
            (Inr (Number_Value i))
        | _ \<Rightarrow> contract_error (STR ''must be a safe integer''))
   | Cmp_Iso_Date \<Rightarrow> (case v of JStr s \<Rightarrow> parse_iso_date s | _ \<Rightarrow> contract_error (STR ''must be a string''))
   | Cmp_Rfc3339_Instant \<Rightarrow>
       (case v of JStr s \<Rightarrow> parse_rfc3339_comparable s | _ \<Rightarrow> contract_error (STR ''must be a string'')))"

definition parse_semantic_stop_item_value :: "json \<Rightarrow> semantic_stop \<Rightarrow> exn + comparable_value" where
  "parse_semantic_stop_item_value v s = parse_comparable (ss_comparator s) v"

definition compare_int :: "int \<Rightarrow> int \<Rightarrow> int" where
  "compare_int a b = (if a = b then 0 else if a < b then -1 else 1)"

definition compare_semantic_values :: "comparable_value \<Rightarrow> comparable_value \<Rightarrow> exn + int" where
  "compare_semantic_values l r = (case (l, r) of
     (Big_Value a, Big_Value b) \<Rightarrow> Inr (compare_int a b)
   | (Number_Value a, Number_Value b) \<Rightarrow> Inr (compare_int a b)
   | _ \<Rightarrow> contract_error (STR ''comparator value kinds do not match''))"

section \<open>Resolving the caller's cutoffs\<close>

text \<open>
  \<open>resolveOptionalPointer\<close> reads a property of an object without asking whether it is the
  object's own: a name that \<open>Object.prototype\<close> has is found there. What is then found is
  the prototype itself or a function, and neither is a JSON value.
\<close>

datatype pointee = Json_Pointee json | Prototype_Pointee | Function_Pointee

definition resolve_optional_token :: "pointee \<Rightarrow> string \<Rightarrow> pointee option" where
  "resolve_optional_token current t = (case current of
     Json_Pointee (JArr xs) \<Rightarrow>
       (if is_array_index t \<and> digits_value t < length xs then Some (Json_Pointee (xs ! digits_value t)) else None)
   | Json_Pointee (JObj kvs) \<Rightarrow>
       (case map_of kvs t of
          Some v \<Rightarrow> Some (Json_Pointee v)
        | None \<Rightarrow>
            if t = ''__proto__'' then Some Prototype_Pointee
            else if t \<in> set object_prototype_keys then Some Function_Pointee else None)
   | Json_Pointee _ \<Rightarrow> None
   | Prototype_Pointee \<Rightarrow>
       (if t = ''__proto__'' then Some (Json_Pointee JNull)
        else if t \<in> set object_prototype_keys then Some Function_Pointee else None)
   | Function_Pointee \<Rightarrow> None)"

fun resolve_optional_tokens :: "pointee \<Rightarrow> string list \<Rightarrow> pointee option" where
  "resolve_optional_tokens current [] = Some current"
| "resolve_optional_tokens current (t # ts) = (case resolve_optional_token current (decode_token t) of
     None \<Rightarrow> None | Some next \<Rightarrow> resolve_optional_tokens next ts)"

definition resolve_optional_pointer :: "json \<Rightarrow> string \<Rightarrow> pointee option" where
  "resolve_optional_pointer v p =
     (if p = [] then Some (Json_Pointee v) else resolve_optional_tokens (Json_Pointee v) (split_on CHR ''/'' (tl p)))"

record resolved_stop =
  rs_stop :: semantic_stop
  rs_bound :: comparable_value

definition parse_pointee :: "semantic_comparator \<Rightarrow> pointee \<Rightarrow> exn + comparable_value" where
  "parse_pointee cmp p = (case p of
     Json_Pointee v \<Rightarrow> parse_comparable cmp v
   | _ \<Rightarrow> (case cmp of
       Cmp_Integer _ \<Rightarrow> contract_error (STR ''must be a safe integer'')
     | _ \<Rightarrow> contract_error (STR ''must be a string'')))"

fun resolve_semantic_stops :: "semantic_stop list \<Rightarrow> json \<Rightarrow> exn + resolved_stop list" where
  "resolve_semantic_stops [] input = Inr []"
| "resolve_semantic_stops (s # ss) input =
     (case resolve_optional_pointer input (ss_bound_arg_pointer s) of
        None \<Rightarrow> resolve_semantic_stops ss input
      | Some p \<Rightarrow> bindR (parse_pointee (ss_comparator s) p) (\<lambda>b.
          bindR (resolve_semantic_stops ss input) (\<lambda>rs. Inr (\<lparr>rs_stop = s, rs_bound = b\<rparr> # rs))))"

section \<open>The tracker\<close>

record stop_tracker =
  tr_active :: "resolved_stop list"
  tr_previous :: "(string \<times> comparable_value) list"

definition is_in_semantic_scope :: "int \<Rightarrow> stop_direction \<Rightarrow> bool \<Rightarrow> bool" where
  "is_in_semantic_scope c direction inclusive = (case direction of
     Ascending \<Rightarrow> if inclusive then c \<le> 0 else c < 0
   | Descending \<Rightarrow> if inclusive then c \<ge> 0 else c > 0)"

text \<open>\<open>if (error instanceof PublicContractError) throw new SemanticStopItemError(...)\<close>.\<close>

definition as_stop_item_error :: "exn \<Rightarrow> exn" where
  "as_stop_item_error e = (if is_contract_error e then SemanticStopItemError (STR ''semantic stop value is invalid'') else e)"

definition against_direction :: "stop_direction \<Rightarrow> int \<Rightarrow> bool" where
  "against_direction direction c = (case direction of Ascending \<Rightarrow> c < 0 | Descending \<Rightarrow> c > 0)"

text \<open>
  One cutoff: the previous value is replaced before the scope is tested, and stays replaced
  when a later cutoff throws. \<open>Inr (Some id)\<close> is a reached cutoff.
\<close>

definition observe_stop ::
  "resolved_stop \<Rightarrow> json \<Rightarrow> (string \<times> comparable_value) list \<Rightarrow> (string \<times> comparable_value) list \<times> (exn + string option)" where
  "observe_stop r item prev =
     (let s = rs_stop r in
      case catchR (resolve_json_pointer item (ss_item_value_pointer s)) as_stop_item_error of
        Inl e \<Rightarrow> (prev, Inl e)
      | Inr raw \<Rightarrow>
         (case catchR (parse_semantic_stop_item_value raw s) as_stop_item_error of
            Inl e \<Rightarrow> (prev, Inl e)
          | Inr current \<Rightarrow>
             (case (case map_of prev (ss_id s) of
                      None \<Rightarrow> Inr ()
                    | Some p \<Rightarrow> bindR (compare_semantic_values current p) (\<lambda>c.
                        ensureR (\<not> against_direction (ss_direction s) c)
                          (SemanticStopItemError (STR ''semantic stop ordering is not monotonic'')) (Inr ()))) of
                Inl e \<Rightarrow> (prev, Inl e)
              | Inr _ \<Rightarrow>
                  (AList.update (ss_id s) current prev,
                   bindR (compare_semantic_values current (rs_bound r)) (\<lambda>c.
                     Inr (if is_in_semantic_scope c (ss_direction s) (ss_inclusive s) then None else Some (ss_id s)))))))"

fun observe_stops ::
  "resolved_stop list \<Rightarrow> json \<Rightarrow> (string \<times> comparable_value) list \<Rightarrow> (string \<times> comparable_value) list \<times> (exn + string option)" where
  "observe_stops [] item prev = (prev, Inr None)"
| "observe_stops (r # rs) item prev =
     (case observe_stop r item prev of
        (prev1, Inr None) \<Rightarrow> observe_stops rs item prev1
      | other \<Rightarrow> other)"

definition observe_item :: "json \<Rightarrow> stop_tracker \<Rightarrow> stop_tracker \<times> (exn + string option)" where
  "observe_item item t = (case observe_stops (tr_active t) item (tr_previous t) of
     (prev, r) \<Rightarrow> (t\<lparr>tr_previous := prev\<rparr>, r))"

text \<open>The constructor replays the items a resumed run has already committed.\<close>

fun replay_items :: "json list \<Rightarrow> stop_tracker \<Rightarrow> exn + stop_tracker" where
  "replay_items [] t = Inr t"
| "replay_items (v # vs) t = (case observe_item v t of
     (t1, Inr None) \<Rightarrow> replay_items vs t1
   | (_, Inr (Some _)) \<Rightarrow> Inl (SemanticStopItemError (STR ''committed item is outside its active semantic cutoff''))
   | (_, Inl e) \<Rightarrow> Inl e)"

definition new_stop_tracker :: "semantic_stop list \<Rightarrow> json \<Rightarrow> json list \<Rightarrow> exn + stop_tracker" where
  "new_stop_tracker stops input prior = bindR (resolve_semantic_stops stops input) (\<lambda>active.
     replay_items prior \<lparr>tr_active = active, tr_previous = []\<rparr>)"

section \<open>Days are counted exactly\<close>

text \<open>The successor of a calendar date.\<close>

definition real_date :: "nat \<times> nat \<times> nat \<Rightarrow> bool" where
  "real_date = (\<lambda>(y, m, d). 1 \<le> m \<and> m \<le> 12 \<and> 1 \<le> d \<and> d \<le> days_in_month y m)"

definition next_date :: "nat \<times> nat \<times> nat \<Rightarrow> nat \<times> nat \<times> nat" where
  "next_date = (\<lambda>(y, m, d).
     if d < days_in_month y m then (y, m, d + 1)
     else if m < 12 then (y, m + 1, 1) else (y + 1, 1, 1))"

definition day_number :: "nat \<times> nat \<times> nat \<Rightarrow> int" where
  "day_number = (\<lambda>(y, m, d). days_from_civil (int y) (int m) (int d))"

definition date_less :: "nat \<times> nat \<times> nat \<Rightarrow> nat \<times> nat \<times> nat \<Rightarrow> bool" where
  "date_less = (\<lambda>(y, m, d) (y', m', d'). y < y' \<or> y = y' \<and> (m < m' \<or> m = m' \<and> d < d'))"

text \<open>The number of leap days before a year, whatever the era.\<close>

definition days_before :: "int \<Rightarrow> int" where
  "days_before a = 365 * a + a div 4 - a div 100 + a div 400"

definition days_in_year_before :: "int \<Rightarrow> int" where
  "days_in_year_before m = (153 * (m + (if m > 2 then -3 else 9)) + 2) div 5"

lemma era_sum:
  fixes e r p q :: int
  shows "365 * (400 * e + r) + (100 * e + r div 4) - (4 * e + r div 100) + e =
    e * 146097 + (400 * e + r - e * 400) * 365 + (400 * e + r - e * 400) div 4 - (400 * e + r - e * 400) div 100"
proof -
  have r: "400 * e + r - e * 400 = r" by simp
  show ?thesis unfolding r by (simp add: algebra_simps)
qed

lemma days_from_civil_closed:
  "days_from_civil y m d =
     days_before (y - (if m \<le> 2 then 1 else 0)) + days_in_year_before m + d - 1 - 719468"
proof -
  define a where "a = y - (if m \<le> 2 then 1 else 0)"
  define e r where "e = a div 400" and "r = a mod 400"
  have a: "a = 400 * e + r" "0 \<le> r" "r < 400" by (simp_all add: e_def r_def)
  have "a div 4 = 100 * e + r div 4"
    using div_mult_self1[of 4 r "100 * e"] by (simp only: a(1) ac_simps)
  moreover have "a div 100 = 4 * e + r div 100"
    using div_mult_self1[of 100 r "4 * e"] by (simp only: a(1) ac_simps)
  ultimately have "365 * a + a div 4 - a div 100 + a div 400 =
      e * 146097 + (a - e * 400) * 365 + (a - e * 400) div 4 - (a - e * 400) div 100"
    unfolding e_def[symmetric] by (simp only: a(1) era_sum)
  then show ?thesis
    unfolding days_from_civil_def a_def[symmetric] Let_def e_def[symmetric] days_before_def days_in_year_before_def
    by simp
qed

lemma multiples_step:
  fixes y k :: int assumes "0 < k"
  shows "y div k - (y - 1) div k = (if y mod k = 0 then 1 else 0)"
proof (cases "y mod k = 0")
  case True
  then have "y - 1 = k * (y div k - 1) + (k - 1)" using div_mult_mod_eq[of y k] by (simp add: algebra_simps)
  then have "(y - 1) div k = y div k - 1"
    using assms int_div_pos_eq[of "y - 1" k "y div k - 1" "k - 1"] by simp
  then show ?thesis using True by simp
next
  case False
  have "0 \<le> y mod k" "y mod k < k" using assms by simp_all
  moreover have "y - 1 = k * (y div k) + (y mod k - 1)" using mult_div_mod_eq[of k y] by simp
  ultimately have "(y - 1) div k = y div k"
    using False int_div_pos_eq[of "y - 1" k "y div k" "y mod k - 1"] by linarith
  then show ?thesis using False by simp
qed

lemma leap_int: "is_leap_year y \<longleftrightarrow> int y mod 4 = 0 \<and> (int y mod 100 \<noteq> 0 \<or> int y mod 400 = 0)"
proof -
  have "int y mod 4 = int (y mod 4)" "int y mod 100 = int (y mod 100)" "int y mod 400 = int (y mod 400)"
    by (simp_all add: zmod_int)
  then show ?thesis by (simp add: is_leap_year_def)
qed

lemma leap_cases: "(p \<Longrightarrow> q) \<Longrightarrow> (q \<Longrightarrow> r) \<Longrightarrow>
    (365::int) + (if r then 1 else 0) - (if q then 1 else 0) + (if p then 1 else 0) =
    365 + (if r \<and> (\<not> q \<or> p) then 1 else 0)"
  by (cases p; cases q; cases r) simp_all

lemma regroup:
  fixes a :: int
  shows "(365 * a + p - q + r) - (365 * (a - 1) + p' - q' + r') = 365 + (p - p') - (q - q') + (r - r')"
  by simp

lemma days_before_step: "days_before (int y) = days_before (int y - 1) + 365 + (if is_leap_year y then 1 else 0)"
proof -
  have "int y mod 400 mod 100 = int y mod 100" "int y mod 100 mod 4 = int y mod 4"
    by (rule mod_mod_cancel; simp)+
  then have m: "int y mod 400 = 0 \<Longrightarrow> int y mod 100 = 0" "int y mod 100 = 0 \<Longrightarrow> int y mod 4 = 0" by auto
  have "days_before (int y) - days_before (int y - 1) = 365 + (int y div 4 - (int y - 1) div 4)
      - (int y div 100 - (int y - 1) div 100) + (int y div 400 - (int y - 1) div 400)"
    unfolding days_before_def by (rule regroup)
  also have "\<dots> = 365 + (if int y mod 4 = 0 then 1 else 0) - (if int y mod 100 = 0 then 1 else 0) +
      (if int y mod 400 = 0 then 1 else 0)"
    unfolding multiples_step[of 4 "int y", OF zero_less_numeral] multiples_step[of 100 "int y", OF zero_less_numeral]
      multiples_step[of 400 "int y", OF zero_less_numeral] by (rule refl)
  also have "\<dots> = 365 + (if is_leap_year y then 1 else 0)" unfolding leap_int by (rule leap_cases[OF m])
  finally show ?thesis by simp
qed

lemma month_cases: "1 \<le> m \<Longrightarrow> m \<le> 12 \<Longrightarrow>
    m = 1 \<or> m = 2 \<or> m = 3 \<or> m = 4 \<or> m = 5 \<or> m = 6 \<or> m = 7 \<or> m = 8 \<or> m = 9 \<or> m = 10 \<or> m = 11 \<or> m = (12::nat)"
  by presburger

text \<open>The first day of the next month is as many days later as this month has.\<close>

lemma days_next_month:
  assumes "1 \<le> m" "m \<le> 12"
  shows "day_number (if m < 12 then (y, m + 1, 1) else (y + 1, 1, 1)) = day_number (y, m, 1) + int (days_in_month y m)"
  using month_cases[OF assms] days_before_step[of y]
  by (elim disjE) (simp_all add: day_number_def days_from_civil_closed days_in_year_before_def days_in_month_def)

lemma day_number_in_month: "day_number (y, m, d) = day_number (y, m, 1) + int d - 1"
  by (simp add: day_number_def days_from_civil_closed Let_def)

text \<open>Months in a row; the first day of each.\<close>

definition month_start :: "nat \<Rightarrow> int" where
  "month_start k = day_number (k div 12, k mod 12 + 1, 1)"

definition month_index :: "nat \<times> nat \<times> nat \<Rightarrow> nat" where
  "month_index = (\<lambda>(y, m, d). 12 * y + (m - 1))"

lemma month_start_Suc: "month_start (Suc k) = month_start k + int (days_in_month (k div 12) (k mod 12 + 1))"
proof -
  have "(if k mod 12 + 1 < 12 then (k div 12, k mod 12 + 1 + 1, 1) else (k div 12 + 1, 1, 1)) =
      (Suc k div 12, Suc k mod 12 + 1, 1::nat)"
    using mod_less_divisor[of 12 k] by (auto simp: div_Suc mod_Suc)
  then show ?thesis using days_next_month[of "k mod 12 + 1" "k div 12"] by (simp add: month_start_def)
qed

lemma days_in_month_pos: "0 < days_in_month y m"
  by (simp add: days_in_month_def)

lemma month_start_mono: "k < l \<Longrightarrow> month_start k < month_start l"
  by (rule lift_Suc_mono_less) (use days_in_month_pos in \<open>simp_all add: month_start_Suc\<close>)

lemma real_date_cases:
  assumes "real_date x" obtains y n d where "x = (y, Suc n, d)" "n < 12" "1 \<le> d" "d \<le> days_in_month y (Suc n)"
proof -
  obtain y m d where x: "x = (y, m, d)" by (cases x)
  then have "1 \<le> m" "m \<le> 12" "1 \<le> d" "d \<le> days_in_month y m" using assms by (auto simp: real_date_def)
  then show thesis using that[of y "m - 1" d] x by (cases m) auto
qed

lemma day_number_index:
  assumes "real_date x" shows "day_number x = month_start (month_index x) + int (snd (snd x)) - 1"
  using assms
proof (cases rule: real_date_cases)
  case (1 y n d)
  then show ?thesis using day_number_in_month[of y "Suc n" d] by (simp add: month_start_def month_index_def)
qed

lemma day_before_month_end:
  assumes "real_date x" shows "day_number x < month_start (Suc (month_index x))"
  using assms
proof (cases rule: real_date_cases)
  case (1 y n d)
  then have "month_start (Suc (month_index x)) = month_start (month_index x) + int (days_in_month y (Suc n))"
    by (simp add: month_start_Suc month_index_def)
  then show ?thesis using day_number_index[OF assms] 1 by simp
qed

lemma date_less_index:
  assumes "real_date x" "real_date x'"
  shows "date_less x x' \<longleftrightarrow> month_index x < month_index x' \<or> month_index x = month_index x' \<and> snd (snd x) < snd (snd x')"
  using assms by (cases x; cases x') (auto simp: date_less_def month_index_def real_date_def)

lemma date_less_day_number:
  assumes "real_date x" "real_date x'" "date_less x x'" shows "day_number x < day_number x'"
proof -
  from assms(3) consider "month_index x < month_index x'" | "month_index x = month_index x'" "snd (snd x) < snd (snd x')"
    using date_less_index[OF assms(1,2)] by blast
  then show ?thesis
  proof cases
    case 1
    have "1 \<le> snd (snd x')" using assms(2) by (auto simp: real_date_def)
    then have "month_start (month_index x') \<le> day_number x'" using day_number_index[OF assms(2)] by simp
    moreover have "month_start (Suc (month_index x)) \<le> month_start (month_index x')"
      using 1 month_start_mono[of "Suc (month_index x)" "month_index x'"] by (cases "Suc (month_index x) = month_index x'") auto
    ultimately show ?thesis using day_before_month_end[OF assms(1)] by simp
  qed (use day_number_index assms in simp)
qed

lemma date_less_total: "x = x' \<or> date_less x x' \<or> date_less x' x"
  by (cases x; cases x') (auto simp: date_less_def)

lemma day_number_less_iff:
  "real_date x \<Longrightarrow> real_date x' \<Longrightarrow> day_number x < day_number x' \<longleftrightarrow> date_less x x'"
  using date_less_day_number[of x x'] date_less_day_number[of x' x] date_less_total[of x x'] by fastforce

lemma next_date_counts:
  assumes "real_date x" shows "real_date (next_date x) \<and> day_number (next_date x) = day_number x + 1"
proof -
  obtain y m d where x: "x = (y, m, d)" by (cases x)
  then have m: "1 \<le> m" "m \<le> 12" "1 \<le> d" "d \<le> days_in_month y m" using assms by (auto simp: real_date_def)
  show ?thesis
  proof (cases "d < days_in_month y m")
    case True
    then show ?thesis using m day_number_in_month[of y m d] day_number_in_month[of y m "d + 1"]
      by (simp add: x next_date_def real_date_def)
  next
    case False
    have "real_date (next_date x)" using False m days_in_month_pos by (simp add: x next_date_def real_date_def Suc_le_eq)
    moreover have "day_number (next_date x) = day_number (y, m, 1) + int (days_in_month y m)"
      using False days_next_month[OF m(1,2), of y] by (simp add: x next_date_def)
    ultimately show ?thesis using False m(4) day_number_in_month[of y m d] by (simp add: x)
  qed
qed

definition date_of_text :: "string \<Rightarrow> nat \<times> nat \<times> nat" where
  "date_of_text s = (number_at 0 4 s, number_at 5 2 s, number_at 8 2 s)"

lemma parse_iso_date_value: "parse_iso_date s = Inr v \<Longrightarrow> real_date (date_of_text s) \<and> v = Big_Value (day_number (date_of_text s))"
  by (auto simp: parse_iso_date_def parse_string_def assert_calendar_date_def ensureR_Inr_iff date_of_text_def
    real_date_def day_number_def elim!: bindRE)

text \<open>
  C14: cutoff dates are ordered as the calendar orders them. Two texts accepted as ISO dates are
  real dates, and compare as those dates, year first, then month, then day; and the number
  behind the comparison counts days: it is 0 on 1970-01-01 and grows by exactly one from each
  real date to the next, through every month length and leap year.
\<close>

theorem iso_dates_compare_as_dates:
  assumes "parse_iso_date s = Inr a" "parse_iso_date t = Inr b"
  shows "compare_semantic_values a b = Inr (if date_of_text s = date_of_text t then 0
      else if date_less (date_of_text s) (date_of_text t) then -1 else 1) \<and>
    day_number (1970, 1, 1) = 0 \<and>
    day_number (next_date (date_of_text s)) = day_number (date_of_text s) + 1"
proof -
  note v = assms[THEN parse_iso_date_value]
  have "day_number (1970, 1, 1) = 0" by (simp add: day_number_def days_from_civil_def)
  then show ?thesis
    using v day_number_less_iff[of "date_of_text s" "date_of_text t"] day_number_less_iff[of "date_of_text t" "date_of_text s"]
      next_date_counts[of "date_of_text s"] date_less_total[of "date_of_text s" "date_of_text t"]
    by (auto simp: compare_semantic_values_def compare_int_def)
qed

theorem iso_dates_compare_as_dates_witness:
  "\<exists>a b. parse_iso_date ''2024-02-29'' = Inr a \<and> parse_iso_date ''2024-03-01'' = Inr b \<and> compare_semantic_values a b = Inr (-1)"
proof -
  have "\<not> isl (parse_iso_date ''2024-02-29'')" "\<not> isl (parse_iso_date ''2024-03-01'')" by code_simp+
  then obtain a b where ab: "parse_iso_date ''2024-02-29'' = Inr a" "parse_iso_date ''2024-03-01'' = Inr b"
    by (metis isl_def sum.exhaust)
  have "date_of_text ''2024-02-29'' = (2024, 2, 29)" "date_of_text ''2024-03-01'' = (2024, 3, 1)" by code_simp+
  then show ?thesis using iso_dates_compare_as_dates[OF ab] ab by (simp add: date_less_def)
qed

section \<open>A cutoff is final\<close>

definition item_value :: "resolved_stop \<Rightarrow> json \<Rightarrow> exn + comparable_value" where
  "item_value r item = bindR (resolve_json_pointer item (ss_item_value_pointer (rs_stop r)))
     (\<lambda>raw. parse_semantic_stop_item_value raw (rs_stop r))"

definition value_in_scope :: "resolved_stop \<Rightarrow> comparable_value \<Rightarrow> bool" where
  "value_in_scope r v = (case compare_semantic_values v (rs_bound r) of
     Inr c \<Rightarrow> is_in_semantic_scope c (ss_direction (rs_stop r)) (ss_inclusive (rs_stop r)) | Inl _ \<Rightarrow> False)"

text \<open>The value is comparable with the bound, and beyond it.\<close>

definition value_beyond :: "resolved_stop \<Rightarrow> comparable_value \<Rightarrow> bool" where
  "value_beyond r v = (case compare_semantic_values v (rs_bound r) of
     Inr c \<Rightarrow> \<not> is_in_semantic_scope c (ss_direction (rs_stop r)) (ss_inclusive (rs_stop r)) | Inl _ \<Rightarrow> False)"

lemma beyond_stays_beyond:
  assumes "value_beyond r p" "compare_semantic_values v p = Inr c" "\<not> against_direction (ss_direction (rs_stop r)) c"
  shows "value_beyond r v"
  using assms
  by (cases "rs_bound r"; cases p; cases v)
    (auto simp: value_beyond_def compare_semantic_values_def compare_int_def contract_error_def is_in_semantic_scope_def
      against_direction_def split: stop_direction.splits if_splits)

text \<open>What one cutoff can do.\<close>

lemma observe_stop_cases:
  assumes "observe_stop r item prev = (prev', res)"
  obtains e where "res = Inl e" "prev' = prev"
  | v e where "item_value r item = Inr v" "res = Inl e" "prev' = AList.update (ss_id (rs_stop r)) v prev"
      "compare_semantic_values v (rs_bound r) = Inl e"
      "\<forall>p. map_of prev (ss_id (rs_stop r)) = Some p \<longrightarrow>
        (\<exists>c. compare_semantic_values v p = Inr c \<and> \<not> against_direction (ss_direction (rs_stop r)) c)"
  | v where "item_value r item = Inr v" "prev' = AList.update (ss_id (rs_stop r)) v prev"
      "res = Inr (if value_in_scope r v then None else Some (ss_id (rs_stop r)))" "value_in_scope r v \<noteq> value_beyond r v"
      "\<forall>p. map_of prev (ss_id (rs_stop r)) = Some p \<longrightarrow>
        (\<exists>c. compare_semantic_values v p = Inr c \<and> \<not> against_direction (ss_direction (rs_stop r)) c)"
proof (cases "item_value r item")
  case (Inl e)
  then have "\<exists>e. res = Inl e \<and> prev' = prev"
    using assms by (auto simp: observe_stop_def item_value_def Let_def catchR_Inr_iff split: sum.splits)
  then show thesis using that(1) by blast
next
  case (Inr v)
  then obtain raw where raw: "resolve_json_pointer item (ss_item_value_pointer (rs_stop r)) = Inr raw"
    "parse_semantic_stop_item_value raw (rs_stop r) = Inr v" by (auto simp: item_value_def elim: bindRE)
  define chk where "chk = (case map_of prev (ss_id (rs_stop r)) of
                      None \<Rightarrow> Inr ()
                    | Some p \<Rightarrow> bindR (compare_semantic_values v p) (\<lambda>c.
                        ensureR (\<not> against_direction (ss_direction (rs_stop r)) c)
                          (SemanticStopItemError (STR ''semantic stop ordering is not monotonic'')) (Inr ())))"
  have o: "(prev', res) = (case chk of Inl e \<Rightarrow> (prev, Inl e) | Inr _ \<Rightarrow>
      (AList.update (ss_id (rs_stop r)) v prev,
        bindR (compare_semantic_values v (rs_bound r)) (\<lambda>c.
          Inr (if is_in_semantic_scope c (ss_direction (rs_stop r)) (ss_inclusive (rs_stop r)) then None
               else Some (ss_id (rs_stop r))))))"
    using assms raw by (simp add: observe_stop_def Let_def chk_def)
  show thesis
  proof (cases chk)
    case (Inl e)
    then show thesis using o that(1) by simp
  next
    case (Inr u)
    then have m: "\<forall>p. map_of prev (ss_id (rs_stop r)) = Some p \<longrightarrow>
        (\<exists>c. compare_semantic_values v p = Inr c \<and> \<not> against_direction (ss_direction (rs_stop r)) c)"
      by (auto simp: chk_def ensureR_Inr_iff bindR_Inr_iff)
    show thesis
    proof (cases "compare_semantic_values v (rs_bound r)")
      case (Inl e)
      then show thesis using o \<open>chk = Inr u\<close> that(2)[OF \<open>item_value r item = Inr v\<close>] m by simp
    next
      case (Inr c)
      then show thesis using o \<open>chk = Inr u\<close> that(3)[OF \<open>item_value r item = Inr v\<close>] m
        by (simp add: value_in_scope_def value_beyond_def)
    qed
  qed
qed

lemma observe_stop_other: "observe_stop r item prev = (prev', res) \<Longrightarrow> i \<noteq> ss_id (rs_stop r) \<Longrightarrow> map_of prev' i = map_of prev i"
  by (erule observe_stop_cases) auto

definition beyond :: "resolved_stop \<Rightarrow> (string \<times> comparable_value) list \<Rightarrow> bool" where
  "beyond r prev \<longleftrightarrow> (\<exists>p. map_of prev (ss_id (rs_stop r)) = Some p \<and> value_beyond r p)"

lemma observe_stop_beyond:
  assumes "observe_stop r item prev = (prev', res)" "beyond r prev"
  shows "beyond r prev' \<and> res \<noteq> Inr None"
  using assms(1)
proof (cases rule: observe_stop_cases)
  case (2 v e)
  then obtain c p where "compare_semantic_values v p = Inr c" "value_beyond r p" "\<not> against_direction (ss_direction (rs_stop r)) c"
    using assms(2) by (auto simp: beyond_def)
  then have "value_beyond r v" by (blast intro: beyond_stays_beyond)
  then show ?thesis using 2 by (simp add: value_beyond_def)
next
  case (3 v)
  then obtain c p where "compare_semantic_values v p = Inr c" "value_beyond r p" "\<not> against_direction (ss_direction (rs_stop r)) c"
    using assms(2) by (auto simp: beyond_def)
  then have "value_beyond r v" by (blast intro: beyond_stays_beyond)
  then show ?thesis using 3 by (auto simp: beyond_def)
qed (use assms(2) in simp)

lemma observe_stops_beyond:
  assumes "observe_stops rs item prev = (prev', res)" "beyond r prev" "distinct (map (ss_id \<circ> rs_stop) rs)"
  shows "((ss_id \<circ> rs_stop) r \<notin> (ss_id \<circ> rs_stop) ` set rs \<or> r \<in> set rs \<longrightarrow> beyond r prev') \<and> (r \<in> set rs \<longrightarrow> res \<noteq> Inr None)"
  using assms
proof (induction rs arbitrary: prev)
  case (Cons q rs)
  obtain prev1 res1 where q: "observe_stop q item prev = (prev1, res1)" by fastforce
  show ?case
  proof (cases "r = q")
    case True
    then have b: "beyond r prev1" "res1 \<noteq> Inr None" using observe_stop_beyond q Cons.prems(2) by blast+
    then have "prev' = prev1" "res = res1"
      using Cons.prems(1) q by (auto split: sum.splits option.splits)
    then show ?thesis using b by simp
  next
    case False
    have keep: "beyond r prev1" if "ss_id (rs_stop r) \<noteq> ss_id (rs_stop q)"
      using observe_stop_other[OF q that] Cons.prems(2) by (simp add: beyond_def)
    have ne: "ss_id (rs_stop r) \<noteq> ss_id (rs_stop q)" if "r \<in> set rs"
      using Cons.prems(3) imageI[OF that, of "ss_id \<circ> rs_stop"] by auto
    show ?thesis
    proof (cases "res1 = Inr None")
      case True
      then have "observe_stops rs item prev1 = (prev', res)" using Cons.prems(1) q by simp
      then show ?thesis using Cons.IH[of prev1] keep ne Cons.prems(3) False by auto
    next
      case False
      then have e: "prev' = prev1" "res = res1" using Cons.prems(1) q by (auto split: sum.splits option.splits)
      show ?thesis using e keep ne False \<open>r \<noteq> q\<close> by auto
    qed
  qed
qed simp

lemma observe_stops_accepts:
  assumes "observe_stops rs item prev = (prev', Inr None)" "r \<in> set rs"
  shows "\<exists>v. item_value r item = Inr v \<and> value_in_scope r v"
  using assms
proof (induction rs arbitrary: prev)
  case (Cons q rs)
  obtain prev1 where q: "observe_stop q item prev = (prev1, Inr None)" and rest: "observe_stops rs item prev1 = (prev', Inr None)"
    using Cons.prems(1) by (auto split: prod.splits sum.splits option.splits)
  from q have "\<exists>v. item_value q item = Inr v \<and> value_in_scope q v"
    by (rule observe_stop_cases) (auto split: if_splits)
  then show ?case using Cons.IH[OF rest] Cons.prems(2) by auto
qed simp

lemma observe_stops_reaches:
  assumes "observe_stops rs item prev = (prev', Inr (Some i))"
  shows "\<exists>r \<in> set rs. ss_id (rs_stop r) = i \<and> beyond r prev'"
  using assms
proof (induction rs arbitrary: prev)
  case (Cons q rs)
  obtain prev1 res1 where q: "observe_stop q item prev = (prev1, res1)" by fastforce
  show ?case
  proof (cases "res1 = Inr None")
    case True
    then have "observe_stops rs item prev1 = (prev', Inr (Some i))" using Cons.prems q by simp
    then show ?thesis using Cons.IH by auto
  next
    case False
    then have e: "prev' = prev1" "res1 = Inr (Some i)" using Cons.prems q by (auto split: sum.splits option.splits)
    from q show ?thesis
      by (rule observe_stop_cases) (use e in \<open>auto simp: beyond_def split: if_splits\<close>)
  qed
qed simp

text \<open>The results of observing items one after the other, whatever each gives.\<close>

fun observe_all :: "json list \<Rightarrow> stop_tracker \<Rightarrow> (exn + string option) list" where
  "observe_all [] t = []"
| "observe_all (v # vs) t = (case observe_item v t of (t1, r) \<Rightarrow> r # observe_all vs t1)"

lemma observe_all_beyond:
  assumes "r \<in> set (tr_active t)" "beyond r (tr_previous t)" "distinct (map (ss_id \<circ> rs_stop) (tr_active t))"
  shows "Inr None \<notin> set (observe_all items t)"
  using assms
proof (induction items arbitrary: t)
  case (Cons v vs)
  obtain prev res where o: "observe_stops (tr_active t) v (tr_previous t) = (prev, res)" by fastforce
  have "beyond r prev" "res \<noteq> Inr None" using observe_stops_beyond[OF o Cons.prems(2,3)] Cons.prems(1) by auto
  then show ?case using Cons.IH[of "t\<lparr>tr_previous := prev\<rparr>"] Cons.prems o
    by (auto simp: observe_item_def)
qed simp


definition example_stop :: resolved_stop where
  "example_stop = \<lparr>rs_stop = \<lparr>ss_id = ''since'', ss_bound_arg_pointer = ''/since'', ss_item_value_pointer = ''/date'',
      ss_comparator = Cmp_Iso_Date, ss_direction = Descending, ss_inclusive = True, ss_ordering_assertion_id = ''newest''\<rparr>,
    rs_bound = Big_Value 19782\<rparr>"

definition example_tracker :: stop_tracker where
  "example_tracker = \<lparr>tr_active = [example_stop], tr_previous = []\<rparr>"


end
