(* ===== verification/Inline_Bound.thy ===== *)
theory Inline_Bound
  imports Json_Schema
begin

text \<open>
  The byte bound on an inline output item that is derived from its schema
  (\<open>src/src/public/contracts/inline-output-bound.ts\<close>), and the proof that no item the schema
  admits is longer in canonical JSON, except where a nullable schema's bound is below the
  four bytes of \<open>null\<close>.
\<close>

section \<open>The bound\<close>

definition max_finite_json_number_bytes :: int where "max_finite_json_number_bytes = 32"

definition multiply_bytes :: "int \<Rightarrow> int \<Rightarrow> int option" where
  "multiply_bytes l r = (if \<bar>l * r\<bar> \<le> max_safe_integer then Some (l * r) else None)"

fun sum_bytes_from :: "int \<Rightarrow> int option list \<Rightarrow> int option" where
  "sum_bytes_from acc [] = Some acc"
| "sum_bytes_from acc (None # ps) = None"
| "sum_bytes_from acc (Some p # ps) =
     (if \<bar>acc + p\<bar> \<le> max_safe_integer then sum_bytes_from (acc + p) ps else None)"

definition sum_bytes :: "int option list \<Rightarrow> int option" where
  "sum_bytes parts = sum_bytes_from 0 parts"

definition maximum_enum_bytes :: "json list \<Rightarrow> exn + int option" where
  "maximum_enum_bytes vs = bindR (mapR canonical_json vs) (\<lambda>ts.
     Inr (Some (foldl (\<lambda>m t. max m (int (length t))) 0 ts)))"

text \<open>A loop over entries that returns \<open>null\<close> at the first entry without a bound.\<close>

fun collectR :: "('a \<Rightarrow> 'e + 'b option) \<Rightarrow> 'a list \<Rightarrow> 'e + 'b list option" where
  "collectR f [] = Inr (Some [])"
| "collectR f (x # xs) = bindR (f x) (\<lambda>o1. case o1 of
     None \<Rightarrow> Inr None
   | Some y \<Rightarrow> bindR (collectR f xs) (\<lambda>o2. Inr (map_option ((#) y) o2)))"

lemma collectR_cong [fundef_cong]:
  "xs = ys \<Longrightarrow> (\<And>x. x \<in> set ys \<Longrightarrow> f x = g x) \<Longrightarrow> collectR f xs = collectR g ys"
  by (induction ys arbitrary: xs) (auto cong: bindR_cong option.case_cong)

definition maximum_array_bytes :: "int option \<Rightarrow> (exn + int option) \<Rightarrow> exn + int option" where
  "maximum_array_bytes max_items item_bytes = (case max_items of
     None \<Rightarrow> Inr None
   | Some m \<Rightarrow> bindR item_bytes (\<lambda>ib. Inr (case ib of
       None \<Rightarrow> None
     | Some b \<Rightarrow> if m = 0 then Some 2 else sum_bytes [Some 2, multiply_bytes m b, Some (m - 1)])))"

text \<open>One declared property: whether it is required, and the bytes of its entry.\<close>

definition entry_bytes :: "string list \<Rightarrow> string \<Rightarrow> int option \<Rightarrow> exn + (bool \<times> int) option" where
  "entry_bytes required key value_bytes = (case value_bytes of
     None \<Rightarrow> Inr None
   | Some vb \<Rightarrow> bindR (canonical_json (JStr key)) (\<lambda>t.
       Inr (map_option (\<lambda>b. (key \<in> set required, b)) (sum_bytes [Some (int (length t)), Some 1, Some vb]))))"

definition select_entries :: "int option \<Rightarrow> (bool \<times> int) list \<Rightarrow> int option" where
  "select_entries max_properties entries =
     (let required = List.filter fst entries;
          maximum = min (case max_properties of None \<Rightarrow> int (length entries) | Some m \<Rightarrow> m) (int (length entries))
      in if maximum < int (length required) then None
         else let optional = take (nat (maximum - int (length required)))
                (sort_key (\<lambda>e. - snd e) (List.filter (\<lambda>e. \<not> fst e) entries));
              selected = required @ optional
         in if selected = [] then Some 2
            else sum_bytes (Some 2 # map (\<lambda>e. Some (snd e)) selected @ [Some (int (length selected) - 1)]))"

fun maximum_serialized_bytes :: "json_schema \<Rightarrow> exn + int option" where
  "maximum_serialized_bytes (S_Null en) = (case en of Some vs \<Rightarrow> maximum_enum_bytes vs | None \<Rightarrow> Inr (Some 4))"
| "maximum_serialized_bytes (S_Boolean nl en) = (case en of Some vs \<Rightarrow> maximum_enum_bytes vs | None \<Rightarrow> Inr (Some 5))"
| "maximum_serialized_bytes (S_Number i nl mn mx en) = (case en of
     Some vs \<Rightarrow> maximum_enum_bytes vs | None \<Rightarrow> Inr (Some max_finite_json_number_bytes))"
| "maximum_serialized_bytes (S_String nl mn mx en) = (case en of
     Some vs \<Rightarrow> maximum_enum_bytes vs
   | None \<Rightarrow> Inr (case mx of None \<Rightarrow> None | Some m \<Rightarrow> sum_bytes [Some 2, multiply_bytes m 6]))"
| "maximum_serialized_bytes (S_Array nl items mn mx en) = (case en of
     Some vs \<Rightarrow> maximum_enum_bytes vs
   | None \<Rightarrow> maximum_array_bytes mx (maximum_serialized_bytes items))"
| "maximum_serialized_bytes (S_Object nl props req extra mn mx en) = (case en of
     Some vs \<Rightarrow> maximum_enum_bytes vs
   | None \<Rightarrow>
       (if extra \<noteq> None then Inr None
        else bindR (collectR (\<lambda>p. bindR (maximum_serialized_bytes (snd p)) (entry_bytes req (fst p))) props)
          (\<lambda>entries. Inr (case entries of None \<Rightarrow> None | Some es \<Rightarrow> select_entries mx es))))"

section \<open>The bound of a contract\<close>

record inline_output_bound =
  ib_max_serialized_item_bytes :: int
  ib_item_schema_digest :: string

text \<open>
  \<open>canonicalJsonDigest(schema)\<close> is the digest of the schema's own JSON form, whose rendering
  \<open>render\<close> is not modelled.
\<close>

definition derive_inline_output_bound :: "(json_schema \<Rightarrow> exn + string) \<Rightarrow> json_schema \<Rightarrow> exn + inline_output_bound option" where
  "derive_inline_output_bound digest s = bindR (maximum_serialized_bytes s) (\<lambda>m. case m of
     None \<Rightarrow> Inr None
   | Some b \<Rightarrow> bindR (digest s) (\<lambda>d. Inr (Some \<lparr>ib_max_serialized_item_bytes = b, ib_item_schema_digest = d\<rparr>)))"

definition parse_inline_output_bound ::
  "(json_schema \<Rightarrow> exn + string) \<Rightarrow> json \<Rightarrow> json_schema \<Rightarrow> exn + inline_output_bound option" where
  "parse_inline_output_bound digest v s = bindR (derive_inline_output_bound digest s) (\<lambda>derived.
     if v = JNull then
       ensureR (derived = None) (PublicContractError (STR ''must contain the compiler-derived finite item bound'')) (Inr None)
     else bindR (parse_exact_record [''max_serialized_item_bytes'', ''item_schema_digest'', ''bound_algorithm_version''] v) (\<lambda>r.
       bindR (parse_integer 1 max_safe_integer (fld r ''max_serialized_item_bytes'')) (\<lambda>b.
       bindR (parse_sha256_digest (fld r ''item_schema_digest'')) (\<lambda>d.
       ensureR (fld r ''bound_algorithm_version'' = JNum (NInt 1)) (PublicContractError (STR ''must be 1''))
         (case derived of
            None \<Rightarrow> contract_error (STR ''must be null because the item schema has no finite bound'')
          | Some x \<Rightarrow> ensureR (b = ib_max_serialized_item_bytes x \<and> d = ib_item_schema_digest x)
              (PublicContractError (STR ''does not match the compiler-derived item schema bound'')) (Inr derived))))))"

section \<open>What the engine can print\<close>

text \<open>
  JavaScript numbers are doubles: \<open>Number::toString\<close> prints at most 17 significant digits
  and a decimal exponent of at most three.
\<close>

definition shortest_double :: "nat \<times> int \<Rightarrow> bool" where
  "shortest_double = (\<lambda>(d, x). length (digits_of d) \<le> 17 \<and> \<bar>int (length (digits_of d)) + x - 1\<bar> < 1000)"

fun is_double :: "jsnum \<Rightarrow> bool" where
  "is_double (NInt i) = (i = 0 \<or> shortest_double (strip_zeros (nat \<bar>i\<bar>) 0))"
| "is_double (NDec m k) = shortest_double (strip_zeros (nat \<bar>m\<bar>) (- int k))"
| "is_double NNonFinite = True"

text \<open>In UTF-8 at most three bytes continue a code point.\<close>

fun utf8_text :: "nat \<Rightarrow> string \<Rightarrow> bool" where
  "utf8_text k [] = True"
| "utf8_text k (c # cs) =
     (if byte c < 128 then utf8_text 0 cs
      else if 192 \<le> byte c then utf8_text 3 cs
      else 0 < k \<and> utf8_text (k - 1) cs)"

fun js_value :: "json \<Rightarrow> bool" where
  "js_value (JNum n) = is_double n"
| "js_value (JStr s) = utf8_text 0 s"
| "js_value (JArr xs) = list_all js_value xs"
| "js_value (JObj kvs) = (distinct (map fst kvs) \<and> list_all (\<lambda>kv. js_value (snd kv)) kvs)"
| "js_value v = True"

text \<open>
  What the schema parser ensures of bounds and names, and that wherever \<open>null\<close> is admitted
  beside the declared type the derived bound has room for it.
\<close>

definition null_fits :: "json_schema \<Rightarrow> bool" where
  "null_fits s \<longleftrightarrow> (\<forall>b. schema_nullable s \<longrightarrow> maximum_serialized_bytes s = Inr (Some b) \<longrightarrow> 4 \<le> b)"

fun bounded_schema :: "json_schema \<Rightarrow> bool" where
  "bounded_schema (S_String nl mn mx en) = (null_fits (S_String nl mn mx en) \<and> (\<forall>m. mx = Some m \<longrightarrow> 0 \<le> m))"
| "bounded_schema (S_Array nl items mn mx en) =
     (null_fits (S_Array nl items mn mx en) \<and> (\<forall>m. mx = Some m \<longrightarrow> 0 \<le> m) \<and> bounded_schema items)"
| "bounded_schema (S_Object nl props req extra mn mx en) =
     (null_fits (S_Object nl props req extra mn mx en) \<and> distinct (map fst props) \<and>
      list_all (\<lambda>p. bounded_schema (snd p)) props)"
| "bounded_schema s = null_fits s"

section \<open>Lengths of texts\<close>

lemma digits_of_length: "1 \<le> k \<Longrightarrow> n < 10 ^ k \<Longrightarrow> length (digits_of n) \<le> k"
proof (induction n arbitrary: k rule: digits_of.induct)
  case (1 n)
  show ?case
  proof (cases "n < 10")
    case False
    then obtain j where j: "k = Suc j" "1 \<le> j" using 1(2,3) by (cases k; cases "k - 1") auto
    then have "n div 10 < 10 ^ j" using 1(3) by (simp add: less_mult_imp_div_less mult.commute)
    then show ?thesis using 1(1)[OF False j(2)] j False by (subst digits_of.simps) simp
  qed (subst digits_of.simps, use 1 in simp)
qed

lemma decimal_text_length:
  assumes "shortest_double (d, x)" shows "length (decimal_text d x) \<le> 25"
proof -
  define k n where "k = int (length (digits_of d))" and "n = k + x"
  have k: "1 \<le> k" "k \<le> 17" "\<bar>n - 1\<bar> < 1000"
    using assms by (simp_all add: shortest_double_def k_def n_def Suc_le_eq)
  have e: "length (digits_of (nat \<bar>n - 1\<bar>)) \<le> 3" by (rule digits_of_length) (use k(3) in simp_all)
  have "length (decimal_text d x) =
     (if k \<le> n \<and> n \<le> 21 then nat k + nat (n - k)
      else if 0 < n \<and> n \<le> 21 then nat k + 1
      else if - 6 < n \<and> n \<le> 0 then 2 + nat (- n) + nat k
      else min 1 (nat k) + (if k = 1 then 0 else 1 + (nat k - 1)) + 1 + 1 + length (digits_of (nat \<bar>n - 1\<bar>)))"
    by (auto simp: decimal_text_def Let_def k_def n_def)
  also have "\<dots> \<le> 25" using k e by (auto split: if_splits)
  finally show ?thesis .
qed

lemma num_text_length: "is_double n \<Longrightarrow> is_finite n \<Longrightarrow> length (num_text n) \<le> 26"
  using decimal_text_length
  by (cases n) (auto simp: signed_text_def split: prod.splits, (force dest: order_trans)+)

lemma escape_length: "length (escape_char c) \<le> 6" "128 \<le> byte c \<Longrightarrow> escape_char c = [c]"
  by (simp_all add: escape_char_def Let_def)

lemma quote_length:
  assumes "utf8_text k s" shows "length (concat (map escape_char s)) \<le> 6 * code_points s + k"
  using assms
proof (induction k s rule: utf8_text.induct)
  case (2 k c cs)
  show ?case
  proof (cases "byte c < 128")
    case True
    then show ?thesis using 2 escape_length(1)[of c] by (simp add: code_points_def)
  next
    case False
    then show ?thesis using 2 escape_length(2)[of c] by (auto simp: code_points_def split: if_splits)
  qed
qed simp

lemma render_depth: "render_json d v = Inr t \<Longrightarrow> e \<le> d \<Longrightarrow> render_json e v = Inr t"
proof (induction v arbitrary: d e t rule: json.induct)
  case (JArr xs)
  then obtain ts where ts: "d \<le> 100" "mapR (render_json (Suc d)) xs = Inr ts" "t = ''['' @ join_with '','' ts @ '']''"
    by (auto simp: depth_guard_def ensureR_Inr_iff bindR_Inr_iff)
  have "list_all2 (\<lambda>x y. render_json (Suc e) x = Inr y) xs ts"
    using ts(2)[unfolded mapR_Inr_iff]
    by (rule list.rel_mono_strong) (use JArr.IH JArr.prems(2) Suc_le_mono in blast)
  then show ?case using ts JArr.prems(2) by (auto simp: depth_guard_def ensureR_Inr_iff mapR_Inr_iff[symmetric])
next
  case (JObj kvs)
  let ?m = "\<lambda>d kv. bindR (render_json (Suc d) (snd kv)) (\<lambda>t. Inr (json_quote (fst kv) @ '':'' @ t))"
  from JObj.prems obtain ts where ts: "d \<le> 100" "mapR (?m d) (sort_key fst kvs) = Inr ts" "t = ''{'' @ join_with '','' ts @ ''}''"
    by (auto simp: depth_guard_def ensureR_Inr_iff bindR_Inr_iff)
  have "list_all2 (\<lambda>x y. ?m e x = Inr y) (sort_key fst kvs) ts"
    using ts(2)[unfolded mapR_Inr_iff]
  proof (rule list.rel_mono_strong)
    fix x y assume "x \<in> set (sort_key fst kvs)" "y \<in> set ts" "?m d x = Inr y"
    then obtain u where u: "render_json (Suc d) (snd x) = Inr u" "y = json_quote (fst x) @ '':'' @ u" "x \<in> set kvs"
      by (auto elim: bindRE)
    have "render_json (Suc e) (snd x) = Inr u"
      using JObj.IH[OF u(3), of "snd x" "Suc d" u "Suc e"] u(1) JObj.prems(2) by (simp add: snds.simps)
    then show "?m e x = Inr y" using u(2) by simp
  qed
  then show ?case using ts JObj.prems(2) by (auto simp: depth_guard_def ensureR_Inr_iff mapR_Inr_iff[symmetric])
qed (auto simp: depth_guard_def ensureR_Inr_iff)

lemma join_length: "int (length (join_with [c] ts)) = sum_list (map (int \<circ> length) ts) + int (length ts - 1)"
  by (induction ts) (auto simp: join_with_Cons neq_Nil_conv)

section \<open>Sums of bounds\<close>

lemma sum_bytes_from_eq: "sum_bytes_from acc ps = Some b \<Longrightarrow> None \<notin> set ps \<and> b = acc + sum_list (map the ps)"
  by (induction acc ps rule: sum_bytes_from.induct) (auto split: if_splits)

lemma sum_bytes_eq: "sum_bytes ps = Some b \<Longrightarrow> None \<notin> set ps \<and> b = sum_list (map the ps)"
  using sum_bytes_from_eq[of 0 ps b] by (simp add: sum_bytes_def)

lemma multiply_bytes_eq: "multiply_bytes l r = Some b \<Longrightarrow> b = l * r"
  by (simp add: multiply_bytes_def split: if_splits)

lemma foldl_max_ge: "(\<forall>t \<in> set ts. int (length t) \<le> foldl (\<lambda>m t. max m (int (length t))) a ts) \<and>
    a \<le> foldl (\<lambda>m t. max m (int (length t))) a ts"
proof (induction ts arbitrary: a)
  case (Cons t ts)
  from Cons.IH[of "max a (int (length t))"] show ?case by auto
qed simp

lemma maximum_enum_bound:
  assumes "maximum_enum_bytes cs = Inr (Some b)" "in_enum (Some cs) v" "render_json d v = Inr t"
  shows "int (length t) \<le> b"
proof -
  obtain ts where ts: "mapR canonical_json cs = Inr ts" "b = foldl (\<lambda>m t. max m (int (length t))) 0 ts"
    using assms(1) by (auto simp: maximum_enum_bytes_def elim: bindRE)
  obtain c where c: "c \<in> set cs" "canon c = canon v" using assms(2) by (auto simp: in_enum_def)
  obtain u where u: "u \<in> set ts" "canonical_json c = Inr u" using mapR_each[OF ts(1) c(1)] by blast
  have "render_json 0 c = render_json 0 v" by (metis c(2) render_canon)
  then have "u = t" using u(2) render_depth[OF assms(3), of 0] by (simp add: canonical_json_def)
  then show ?thesis using u(1) foldl_max_ge ts(2) by auto
qed

lemma maximum_enum_nonneg: "maximum_enum_bytes cs = Inr (Some b) \<Longrightarrow> 0 \<le> b"
  using foldl_max_ge by (auto simp: maximum_enum_bytes_def elim!: bindRE)

text \<open>No choice of at most \<open>m\<close> entries is longer than the \<open>m\<close> longest.\<close>

lemma sum_longest:
  fixes xs :: "int list"
  assumes "sorted_wrt (\<ge>) xs" "\<forall>x \<in> set xs. 0 \<le> x" "A \<subseteq># mset xs" "size A \<le> m"
  shows "sum_mset A \<le> sum_list (take m xs)"
  using assms
proof (induction xs arbitrary: A m)
  case (Cons x xs)
  show ?case
  proof (cases "A = {#}")
    case True
    have "0 \<le> sum_list (take m (x # xs))"
    proof (rule sum_list_nonneg)
      fix y assume "y \<in> set (take m (x # xs))"
      then show "0 \<le> y" using Cons.prems(2) by (blast dest: in_set_takeD)
    qed
    then show ?thesis using True by simp
  next
    case False
    define a where "a = (if x \<in># A then x else (SOME y. y \<in># A))"
    have a: "a \<in># A" using False someI_ex[of "\<lambda>y. y \<in># A"] by (auto simp: a_def)
    have ax: "a \<le> x"
    proof -
      have "a \<in># mset (x # xs)" using a Cons.prems(3) by (rule mset_subset_eqD[rotated])
      then show ?thesis using Cons.prems(1) by auto
    qed
    have sub: "A - {#a#} \<subseteq># mset xs"
    proof (cases "x \<in># A")
      case True
      then show ?thesis using Cons.prems(3) by (simp add: a_def subset_eq_diff_conv)
    next
      case False
      have "A \<subseteq># mset xs"
      proof (rule mset_subset_eqI)
        fix y show "count A y \<le> count (mset xs) y"
          using mset_subset_eq_count[OF Cons.prems(3), of y] False by (cases "y = x") (auto simp: not_in_iff)
      qed
      then show ?thesis by (meson diff_subset_eq_self subset_mset.order_trans)
    qed
    obtain j where j: "m = Suc j" using Cons.prems(4) a by (cases m) auto
    have "size (A - {#a#}) \<le> j" using Cons.prems(4) j a by (simp add: size_Diff_singleton)
    then have "sum_mset (A - {#a#}) \<le> sum_list (take j xs)"
      using Cons.IH[OF _ _ sub] Cons.prems(1,2) by simp
    moreover have "sum_mset A = a + sum_mset (A - {#a#})" 
      using sum_mset.add_mset[of a "A - {#a#}"] unfolding insert_DiffM[OF a] .
    moreover have "sum_list (take m (x # xs)) = x + sum_list (take j xs)" by (simp add: j)
    ultimately show ?thesis using ax by linarith
  qed
qed simp

lemma collectR_Inr: "collectR f xs = Inr (Some ys) \<longleftrightarrow> list_all2 (\<lambda>x y. f x = Inr (Some y)) xs ys"
proof (induction xs arbitrary: ys)
  case Nil
  then show ?case by auto
next
  case (Cons x xs)
  show ?case by (cases ys) (auto simp: bindR_Inr_iff Cons.IH split: option.splits)
qed

lemma entry_bytes_Inr: "entry_bytes req k (Some vb) = Inr (Some (r, b)) \<Longrightarrow>
    r = (k \<in> set req) \<and> b = int (length (json_quote k)) + 1 + vb"
  by (auto simp: entry_bytes_def canonical_json_def depth_guard_def ensureR_def dest!: sum_bytes_eq split: option.splits)

lemma array_bytes_eq:
  assumes "maximum_array_bytes mx ib = Inr (Some b)"
  obtains m vb where "mx = Some m" "ib = Inr (Some vb)" "b = (if m = 0 then 2 else 2 + m * vb + (m - 1))"
proof -
  obtain m vb where m: "mx = Some m" "ib = Inr (Some vb)"
    "(if m = 0 then Some 2 else sum_bytes [Some 2, multiply_bytes m vb, Some (m - 1)]) = Some b"
    using assms by (auto simp: maximum_array_bytes_def split: option.splits elim!: bindRE)
  moreover have "b = 2 + m * vb + (m - 1)" if "sum_bytes [Some 2, multiply_bytes m vb, Some (m - 1)] = Some b"
    using sum_bytes_eq[OF that] by (cases "multiply_bytes m vb") (auto dest: multiply_bytes_eq)
  ultimately show thesis using that by (auto split: if_splits)
qed

lemma list_all2_right: "list_all2 P xs ys \<Longrightarrow> y \<in> set ys \<Longrightarrow> \<exists>x \<in> set xs. P x y"
  by (induction rule: list_all2_induct) auto

lemma list_all2_sum:
  assumes "list_all2 (\<lambda>x y. f y \<le> (g x :: int)) xs ys" shows "sum_list (map f ys) \<le> sum_list (map g xs)"
  using assms by (induction rule: list_all2_induct) auto

text \<open>The entries of a bounded object schema, one per property.\<close>

definition property_entry :: "string list \<Rightarrow> string \<times> json_schema \<Rightarrow> bool \<times> int \<Rightarrow> bool" where
  "property_entry req p e \<longleftrightarrow> fst e = (fst p \<in> set req) \<and>
     (\<exists>vb. maximum_serialized_bytes (snd p) = Inr (Some vb) \<and> snd e = int (length (json_quote (fst p))) + 1 + vb)"

lemma object_entries:
  assumes "maximum_serialized_bytes (S_Object nl props req extra mn mx None) = Inr (Some b)"
  obtains es where "extra = None" "list_all2 (property_entry req) props es" "select_entries mx es = Some b"
proof -
  obtain es where es: "extra = None"
    "collectR (\<lambda>p. bindR (maximum_serialized_bytes (snd p)) (entry_bytes req (fst p))) props = Inr (Some es)"
    "select_entries mx es = Some b"
    using assms by (auto simp: bindR_Inr_iff split: if_splits option.splits)
  have "list_all2 (property_entry req) props es"
    using es(2)[unfolded collectR_Inr]
  proof (rule list.rel_mono_strong)
    fix p e assume "bindR (maximum_serialized_bytes (snd p)) (entry_bytes req (fst p)) = Inr (Some e)"
    then obtain vb where "maximum_serialized_bytes (snd p) = Inr vb" "entry_bytes req (fst p) vb = Inr (Some e)"
      by (auto elim: bindRE)
    then show "property_entry req p e"
      by (cases vb; cases e) (auto simp: property_entry_def entry_bytes_Inr, simp_all add: entry_bytes_def)
  qed
  then show thesis using es that by blast
qed

lemma select_entries_eq:
  assumes "select_entries mx es = Some b"
  defines "m \<equiv> min (case mx of None \<Rightarrow> int (length es) | Some k \<Rightarrow> k) (int (length es))"
    and "required \<equiv> List.filter fst es"
  defines "picked \<equiv> take (nat (m - int (length required))) (sort_key (\<lambda>e. - snd e) (List.filter (\<lambda>e. \<not> fst e) es))"
  shows "int (length required) \<le> m \<and>
    b = 2 + sum_list (map snd required) + sum_list (map snd picked) + int (length (required @ picked) - 1)"
proof -
  have "int (length required) \<le> m"
    using assms(1) by (auto simp: select_entries_def Let_def m_def required_def split: if_splits)
  moreover have "b = 2 + sum_list (map snd required) + sum_list (map snd picked) + int (length (required @ picked) - 1)"
  proof (cases "required @ picked = []")
    case True
    then show ?thesis
      using assms(1) unfolding select_entries_def Let_def m_def[symmetric] required_def[symmetric] picked_def[symmetric]
      by (auto split: if_splits)
  next
    case False
    then have "sum_bytes (Some 2 # map (\<lambda>e. Some (snd e)) (required @ picked) @ [Some (int (length (required @ picked)) - 1)]) = Some b"
      using assms(1) unfolding select_entries_def Let_def m_def[symmetric] required_def[symmetric] picked_def[symmetric]
      by (simp split: if_splits)
    from sum_bytes_eq[OF this] have "b = 2 + sum_list (map snd required) + sum_list (map snd picked) +
        (int (length (required @ picked)) - 1)"
      by (simp add: comp_def)
    moreover have "0 < length (required @ picked)" using False by blast
    ultimately show ?thesis by linarith
  qed
  ultimately show ?thesis by blast
qed

lemma string_bytes_eq: "sum_bytes [Some 2, multiply_bytes m 6] = Some b \<Longrightarrow> b = 2 + m * 6"
  using sum_bytes_eq[of "[Some 2, multiply_bytes m 6]" b] by (cases "multiply_bytes m 6") (auto dest: multiply_bytes_eq)

lemma maximum_nonneg: "maximum_serialized_bytes s = Inr (Some b) \<Longrightarrow> bounded_schema s \<Longrightarrow> 0 \<le> b"
proof (induction s arbitrary: b)
  case (S_Array nl items mn mx en)
  show ?case
  proof (cases en)
    case None
    with S_Array.prems(1) obtain m vb where "mx = Some m" "maximum_serialized_bytes items = Inr (Some vb)"
      "b = (if m = 0 then 2 else 2 + m * vb + (m - 1))"
      by (auto elim: array_bytes_eq)
    then show ?thesis using S_Array.IH[of vb] S_Array.prems(2) by auto
  qed (use S_Array.prems in \<open>simp add: maximum_enum_nonneg\<close>)
next
  case (S_Object nl props req extra mn mx en)
  show ?case
  proof (cases en)
    case None
    with S_Object.prems(1) obtain es where es: "list_all2 (property_entry req) props es" "select_entries mx es = Some b"
      by (auto elim: object_entries simp del: maximum_serialized_bytes.simps)
    have "0 \<le> snd e" if e: "e \<in> set es" for e
    proof -
      obtain p where p: "p \<in> set props" "property_entry req p e"
        using list_all2_right[OF es(1) e] by blast
      then obtain vb where vb: "maximum_serialized_bytes (snd p) = Inr (Some vb)" "snd e = int (length (json_quote (fst p))) + 1 + vb"
        by (auto simp: property_entry_def)
      have "0 \<le> vb" using S_Object.IH(1)[of p "snd p" vb] p(1) vb(1) S_Object.prems(2)
        by (auto simp: snds.simps list_all_iff)
      then show ?thesis using vb(2) by simp
    qed
    then have "0 \<le> sum_list (map snd xs)" if "set xs \<subseteq> set es" for xs
      by (intro sum_list_nonneg) (use that in auto)
    note pos = this
    have "set (take k (sort_key (\<lambda>e. - snd e) (List.filter (\<lambda>e. \<not> fst e) es))) \<subseteq> set es" for k
      using set_take_subset[of k "sort_key (\<lambda>e. - snd e) (List.filter (\<lambda>e. \<not> fst e) es)"] by auto
    note picked = pos[OF this] and required = pos[OF filter_is_subset]
    then show ?thesis using select_entries_eq[OF es(2)] picked required
      by (smt (verit) of_nat_0_le_iff)
  qed (use S_Object.prems in \<open>simp add: maximum_enum_nonneg\<close>)
next
  case (S_String nl mn mx en)
  then show ?case by (auto simp: maximum_enum_nonneg split: option.splits dest!: string_bytes_eq)
qed (auto simp: maximum_enum_nonneg max_finite_json_number_bytes_def split: option.splits)

section \<open>Soundness\<close>

lemma filter_keys_card:
  assumes "distinct (map fst ps)" "K \<subseteq> fst ` set ps"
  shows "length (List.filter (\<lambda>p. fst p \<in> K) ps) = card K"
proof -
  have "distinct (map fst (List.filter (\<lambda>p. fst p \<in> K) ps))"
    using assms(1) by (simp add: distinct_map inj_on_def)
  moreover have "set (map fst (List.filter (\<lambda>p. fst p \<in> K) ps)) = K" using assms(2) by auto
  ultimately show ?thesis by (metis distinct_card length_map)
qed

lemma filter_split_length:
  "length (List.filter P xs) = length (List.filter P (List.filter Q xs)) + length (List.filter P (List.filter (\<lambda>x. \<not> Q x) xs))"
  by (induction xs) auto

lemma filter_split_sum:
  fixes h :: "'a \<Rightarrow> int"
  shows "sum_list (map h (List.filter P xs)) = sum_list (map h (List.filter P (List.filter Q xs))) +
    sum_list (map h (List.filter P (List.filter (\<lambda>x. \<not> Q x) xs)))"
  by (induction xs) auto

lemma sum_over_keys:
  fixes c :: "string \<Rightarrow> int"
  assumes "distinct (map fst ps)" "K \<subseteq> fst ` set ps" "\<And>p. p \<in> set ps \<Longrightarrow> h p = c (fst p)"
  shows "sum_list (map h (List.filter (\<lambda>p. fst p \<in> K) ps)) = sum c K"
proof -
  let ?f = "List.filter (\<lambda>p. fst p \<in> K) ps"
  have d: "distinct (map fst ?f)" using assms(1) by (simp add: distinct_map inj_on_def)
  have "set (map fst ?f) = K" using assms(2) by auto
  then have "sum c K = sum_list (map c (map fst ?f))" using d by (metis sum_list_distinct_conv_sum_set)
  moreover have "map h ?f = map c (map fst ?f)" using assms(3) by simp
  ultimately show ?thesis by metis
qed

text \<open>An object's entries fit the selected ones.\<close>

lemma selected_entries_cover:
  fixes pes :: "(string \<times> bool \<times> int) list"
  assumes sel: "select_entries mx (map snd pes) = Some b" and d: "distinct (map fst pes)"
    and K: "K \<subseteq> fst ` set pes" "\<And>p. p \<in> set pes \<Longrightarrow> fst (snd p) \<Longrightarrow> fst p \<in> K"
    and n: "int (card K) \<le> (case mx of None \<Rightarrow> int (length pes) | Some k \<Rightarrow> k)"
    and pos: "\<And>p. p \<in> set pes \<Longrightarrow> 0 \<le> snd (snd p)" and c: "\<And>p. p \<in> set pes \<Longrightarrow> snd (snd p) = c (fst p)"
  shows "2 + sum c K + int (card K - 1) \<le> b"
proof -
  define m where "m = min (case mx of None \<Rightarrow> int (length pes) | Some k \<Rightarrow> k) (int (length pes))"
  define req where "req = List.filter (\<lambda>p. fst (snd p)) pes"
  define opt where "opt = List.filter (\<lambda>p. \<not> fst (snd p)) pes"
  define sorted where "sorted = sort_key (\<lambda>e. - snd e) (List.filter (\<lambda>e. \<not> fst e) (map snd pes))"
  define picked where "picked = take (nat (m - int (length req))) sorted"
  define chosen where "chosen = List.filter (\<lambda>p. fst p \<in> K) opt"
  have fm: "List.filter fst (map snd pes) = map snd req" by (simp add: req_def filter_map comp_def)
  have "int (length req) \<le> m \<and>
      b = 2 + sum_list (map snd (map snd req)) + sum_list (map snd picked) + int (length (map snd req @ picked) - 1)"
    using select_entries_eq[OF sel] unfolding length_map fm picked_def sorted_def m_def .
  then have len: "int (length req) \<le> m"
    and b: "b = 2 + sum_list (map (snd \<circ> snd) req) + sum_list (map snd picked) + int (length req + length picked - 1)"
    by (simp_all add: comp_def)
  have all: "List.filter (\<lambda>p. fst p \<in> K) req = req"
    by (rule filter_True) (use K(2) in \<open>auto simp: req_def\<close>)
  have kn: "length (List.filter (\<lambda>p. fst p \<in> K) pes) = card K" by (rule filter_keys_card[OF d K(1)])
  have split: "length (List.filter P pes) = length (List.filter P req) + length (List.filter P opt)"
    "sum_list (map h (List.filter P pes)) = sum_list (map h (List.filter P req)) + sum_list (map h (List.filter P opt))"
    for P and h :: "_ \<Rightarrow> int"
    unfolding req_def opt_def by (rule filter_split_length, rule filter_split_sum)
  have cardm: "int (card K) \<le> m"
    using n kn length_filter_le[of "\<lambda>p. fst p \<in> K" pes] by (simp add: m_def)
  have cl: "length req + length chosen = card K" using split(1)[of "\<lambda>p. fst p \<in> K"] all kn by (simp add: chosen_def)
  have sl: "length sorted = length opt" by (simp add: sorted_def opt_def filter_map comp_def)
  have whole: "length req + length opt = length pes" using split(1)[of "\<lambda>_. True"] by simp
  have "sum_mset (mset (map (snd \<circ> snd) chosen)) \<le> sum_list (take (nat (m - int (length req))) (map snd sorted))"
  proof (rule sum_longest)
    have "sorted_wrt (\<le>) (map (\<lambda>e. - snd e) sorted)" unfolding sorted_def by (rule sorted_sort_key)
    then show "sorted_wrt (\<ge>) (map snd sorted)" by (simp add: sorted_wrt_map)
    show "\<forall>x \<in> set (map snd sorted). 0 \<le> x" using pos by (auto simp: sorted_def)
    have "mset (map snd sorted) = mset (map (snd \<circ> snd) opt)"
      by (simp add: sorted_def opt_def filter_map comp_def image_mset.compositionality)
    then show "mset (map (snd \<circ> snd) chosen) \<subseteq># mset (map snd sorted)"
      by (simp add: chosen_def image_mset_subseteq_mono multiset_filter_subset)
    show "size (mset (map (snd \<circ> snd) chosen)) \<le> nat (m - int (length req))" using cl cardm by simp
  qed
  then have "sum_list (map (snd \<circ> snd) chosen) \<le> sum_list (map snd picked)"
    by (simp add: picked_def take_map sum_mset_sum_list flip: mset_map)
  moreover have "sum c K = sum_list (map (snd \<circ> snd) req) + sum_list (map (snd \<circ> snd) chosen)"
    using sum_over_keys[OF d K(1), of "snd \<circ> snd" c] c split(2)[of "snd \<circ> snd" "\<lambda>p. fst p \<in> K"] all
    by (simp add: chosen_def)
  moreover have "length chosen \<le> length picked"
  proof -
    have "length picked = min (nat (m - int (length req))) (length opt)" by (simp add: picked_def sl)
    moreover have "length chosen \<le> length opt" by (simp add: chosen_def)
    ultimately show ?thesis using cl cardm by simp
  qed
  ultimately show ?thesis using b cl by linarith
qed

lemma bounded_null_fits: "bounded_schema s \<Longrightarrow> null_fits s"
  by (cases s) auto

lemma render_null: "render_json d JNull = Inr t \<Longrightarrow> length t = 4"
  by (auto simp: depth_guard_def ensureR_Inr_iff)

lemma null_bound:
  "maximum_serialized_bytes s = Inr (Some b) \<Longrightarrow> bounded_schema s \<Longrightarrow> schema_nullable s \<Longrightarrow>
    render_json d JNull = Inr t \<Longrightarrow> int (length t) \<le> b"
  using bounded_null_fits[of s] render_null[of d t] by (auto simp: null_fits_def)

lemma array_text_bound:
  assumes "render_json d (JArr xs) = Inr t" "int (length xs) \<le> m"
    and "\<And>x u. x \<in> set xs \<Longrightarrow> render_json (Suc d) x = Inr u \<Longrightarrow> int (length u) \<le> vb" and "0 \<le> vb"
  shows "int (length t) \<le> (if m = 0 then 2 else 2 + m * vb + (m - 1))"
proof -
  obtain ts where ts: "mapR (render_json (Suc d)) xs = Inr ts" "t = ''['' @ join_with '','' ts @ '']''"
    using assms(1) by (auto simp: depth_guard_def ensureR_Inr_iff bindR_Inr_iff)
  have n: "length ts = length xs" using ts(1) by (rule mapR_length)
  have "\<forall>u \<in> set ts. int (length u) \<le> vb"
    using list_all2_right[OF ts(1)[unfolded mapR_Inr_iff]] assms(3) by blast
  then have "sum_list (map (int \<circ> length) ts) \<le> int (length ts) * vb"
    by (induction ts) (simp_all add: algebra_simps)
  moreover have "int (length xs) * vb \<le> m * vb" using assms(2,4) by (rule mult_right_mono)
  moreover have "int (length t) = 2 + sum_list (map (int \<circ> length) ts) + int (length ts - 1)"
    using join_length[of "CHR '',''" ts] ts(2) by simp
  ultimately show ?thesis using n assms(2) by (cases "m = 0") auto
qed

lemma object_text_bound:
  assumes "render_json d (JObj kvs) = Inr t" "distinct (map fst kvs)"
    and "\<And>k x u. (k, x) \<in> set kvs \<Longrightarrow> render_json (Suc d) x = Inr u \<Longrightarrow> int (length (json_quote k)) + 1 + int (length u) \<le> c k"
  shows "int (length t) \<le> 2 + sum c (fst ` set kvs) + int (card (fst ` set kvs) - 1)"
proof -
  let ?member = "\<lambda>kv. bindR (render_json (Suc d) (snd kv)) (\<lambda>t. Inr (json_quote (fst kv) @ '':'' @ t))"
  obtain ts where ts: "mapR ?member (sort_key fst kvs) = Inr ts" "t = ''{'' @ join_with '','' ts @ ''}''"
    using assms(1) by (auto simp: depth_guard_def ensureR_Inr_iff bindR_Inr_iff)
  have n: "length ts = length kvs" using mapR_length[OF ts(1)] by simp
  have card: "card (fst ` set kvs) = length kvs" using assms(2) by (metis distinct_card length_map set_map)
  have "list_all2 (\<lambda>kv u. int (length u) \<le> c (fst kv)) (sort_key fst kvs) ts"
    using ts(1)[unfolded mapR_Inr_iff]
  proof (rule list.rel_mono_strong)
    fix kv u assume "kv \<in> set (sort_key fst kvs)" "?member kv = Inr u"
    then obtain w where "render_json (Suc d) (snd kv) = Inr w" "u = json_quote (fst kv) @ '':'' @ w" "kv \<in> set kvs"
      by (auto elim: bindRE)
    then show "int (length u) \<le> c (fst kv)" using assms(3)[of "fst kv" "snd kv" w] by simp
  qed
  then have "list_all2 (\<lambda>kv u. (int \<circ> length) u \<le> (c \<circ> fst) kv) (sort_key fst kvs) ts" by simp
  then have "sum_list (map (int \<circ> length) ts) \<le> sum_list (map (c \<circ> fst) (sort_key fst kvs))" by (rule list_all2_sum)
  also have "\<dots> = sum_list (map c (map fst (sort_key fst kvs)))" by simp
  also have "\<dots> = sum c (set (map fst (sort_key fst kvs)))"
    by (rule sum_list_distinct_conv_sum_set) (simp only: sort_key_distinct assms(2))
  finally have "sum_list (map (int \<circ> length) ts) \<le> sum c (fst ` set kvs)" by simp
  moreover have "int (length t) = 2 + sum_list (map (int \<circ> length) ts) + int (length ts - 1)"
    using join_length[of "CHR '',''" ts] ts(2) by simp
  ultimately show ?thesis using n card by simp
qed

lemma object_bound:
  assumes es: "list_all2 (property_entry req) props es" "select_entries mx es = Some b" and d: "distinct (map fst props)"
    and kvs: "distinct (map fst kvs)" "fst ` set kvs \<subseteq> fst ` set props" "set req \<subseteq> fst ` set kvs" "\<forall>n. mx = Some n \<longrightarrow> int (length kvs) \<le> n"
    and r: "render_json dp (JObj kvs) = Inr t"
    and child: "\<And>k x u s vb. (k, x) \<in> set kvs \<Longrightarrow> (k, s) \<in> set props \<Longrightarrow> maximum_serialized_bytes s = Inr (Some vb) \<Longrightarrow>
        render_json (Suc dp) x = Inr u \<Longrightarrow> int (length u) \<le> vb"
    and pos: "\<And>k s vb. (k, s) \<in> set props \<Longrightarrow> maximum_serialized_bytes s = Inr (Some vb) \<Longrightarrow> 0 \<le> vb"
  shows "int (length t) \<le> b"
proof -
  define pes where "pes = zip (map fst props) es"
  define c where "c k = snd (the (map_of pes k))" for k
  have len: "length es = length props" using es(1) by (simp add: list_all2_lengthD)
  have keys: "map fst pes = map fst props" and snds: "map snd pes = es" using len by (simp_all add: pes_def)
  have dk: "distinct (map fst pes)" using d keys by simp
  have entry: "\<exists>s vb. (fst p, s) \<in> set props \<and> maximum_serialized_bytes s = Inr (Some vb) \<and>
      snd (snd p) = int (length (json_quote (fst p))) + 1 + vb \<and> fst (snd p) = (fst p \<in> set req)" if p: "p \<in> set pes" for p
  proof -
    obtain i where i: "i < length props" "p = (fst (props ! i), es ! i)"
      using p len by (auto simp: pes_def set_zip)
    have "property_entry req (props ! i) (es ! i)" using es(1) i(1) by (rule list_all2_nthD)
    then obtain vb where "maximum_serialized_bytes (snd (props ! i)) = Inr (Some vb)"
      "snd (es ! i) = int (length (json_quote (fst (props ! i)))) + 1 + vb" "fst (es ! i) = (fst (props ! i) \<in> set req)"
      by (auto simp: property_entry_def)
    moreover have "(fst (props ! i), snd (props ! i)) \<in> set props" using i(1) by simp
    ultimately show ?thesis unfolding i(2) fst_conv snd_conv by blast
  qed
  have c: "snd (snd p) = c (fst p)" if "p \<in> set pes" for p
    using map_of_eq_Some_iff[OF dk, of "fst p" "snd p"] that by (simp add: c_def)
  have K: "fst ` set kvs \<subseteq> fst ` set pes" using kvs(2) keys by (metis list.set_map)
  have card: "card (fst ` set kvs) = length kvs" using kvs(1) by (metis distinct_card length_map set_map)
  have cover: "2 + sum c (fst ` set kvs) + int (card (fst ` set kvs) - 1) \<le> b"
  proof (rule selected_entries_cover[OF _ dk K])
    show "select_entries mx (map snd pes) = Some b" using es(2) snds by simp
    show "fst p \<in> fst ` set kvs" if "p \<in> set pes" "fst (snd p)" for p
      using entry[OF that(1)] that(2) kvs(3) by auto
    have "length kvs \<le> length pes"
      using card_mono[OF _ K] card distinct_card[OF dk] by (simp add: image_set del: set_map)
    then show "int (card (fst ` set kvs)) \<le> (case mx of None \<Rightarrow> int (length pes) | Some k \<Rightarrow> k)"
      using card kvs(4) by (auto split: option.split)
    show "0 \<le> snd (snd p)" if "p \<in> set pes" for p using entry[OF that] pos by fastforce
    show "snd (snd p) = c (fst p)" if "p \<in> set pes" for p using c[OF that] .
  qed
  have "int (length (json_quote k)) + 1 + int (length u) \<le> c k"
    if kx: "(k, x) \<in> set kvs" and u: "render_json (Suc dp) x = Inr u" for k x u
  proof -
    have "k \<in> fst ` set pes" using K kx by force
    then obtain p where p: "p \<in> set pes" "fst p = k" by auto
    obtain s vb where s: "(k, s) \<in> set props" "maximum_serialized_bytes s = Inr (Some vb)"
      "snd (snd p) = int (length (json_quote k)) + 1 + vb" using entry[OF p(1)] p(2) by auto
    show ?thesis using child[OF kx s(1,2) u] s(3) c[OF p(1)] p(2) by simp
  qed
  then show ?thesis using object_text_bound[OF r kvs(1), of c] cover by force
qed

lemma maximum_bounds_text:
  "maximum_serialized_bytes s = Inr (Some b) \<Longrightarrow> bounded_schema s \<Longrightarrow> conforms s v \<Longrightarrow> js_value v \<Longrightarrow>
    render_json d v = Inr t \<Longrightarrow> int (length t) \<le> b"
proof (induction s arbitrary: b v d t)
  case (S_Null en)
  show ?case
  proof (cases en)
    case None
    then show ?thesis using S_Null.prems render_null[of d t] by simp
  qed (use S_Null.prems in \<open>auto intro: maximum_enum_bound simp del: render_json.simps\<close>)
next
  case (S_Boolean nl en)
  show ?case
  proof (cases "nl \<and> v = JNull")
    case True
    then show ?thesis using null_bound[OF S_Boolean.prems(1,2)] S_Boolean.prems(5) by (simp add: schema_nullable_def)
  next
    case False
    then obtain x where "v = JBool x" "in_enum en v" using S_Boolean.prems(3) by auto
    then show ?thesis using S_Boolean.prems
      by (cases en) (auto intro: maximum_enum_bound simp: depth_guard_def ensureR_Inr_iff)
  qed
next
  case (S_Number i nl mn mx en)
  show ?case
  proof (cases "nl \<and> v = JNull")
    case True
    then show ?thesis using null_bound[OF S_Number.prems(1,2)] S_Number.prems(5) by (simp add: schema_nullable_def)
  next
    case False
    then obtain x where "v = JNum x" "is_finite x" "in_enum en v" using S_Number.prems(3) by auto
    then show ?thesis using S_Number.prems num_text_length[of x]
      by (cases en) (auto intro: maximum_enum_bound simp: max_finite_json_number_bytes_def depth_guard_def ensureR_Inr_iff)
  qed
next
  case (S_String nl mn mx en)
  show ?case
  proof (cases "nl \<and> v = JNull")
    case True
    then show ?thesis using null_bound[OF S_String.prems(1,2)] S_String.prems(5) by (simp add: schema_nullable_def)
  next
    case False
    then obtain x where x: "v = JStr x" "in_bounds mn mx (int (code_points x))" "in_enum en v"
      using S_String.prems(3) by auto
    show ?thesis
    proof (cases en)
      case None
      then obtain m where m: "mx = Some m" "sum_bytes [Some 2, multiply_bytes m 6] = Some b"
        using S_String.prems(1) by (auto split: option.splits)
      note string_bytes_eq[OF m(2)]
      moreover have "length t = 2 + length (concat (map escape_char x))"
        using S_String.prems(5) x(1) by (auto simp: depth_guard_def ensureR_Inr_iff json_quote_def)
      moreover have "length (concat (map escape_char x)) \<le> 6 * code_points x"
        using quote_length[of 0 x] S_String.prems(4) x(1) by simp
      moreover have "int (code_points x) \<le> m" using x(2) m(1) by (simp add: in_bounds_def)
      ultimately show ?thesis by linarith
    qed (use S_String.prems x in \<open>auto intro: maximum_enum_bound\<close>)
  qed
next
  case (S_Array nl items mn mx en)
  show ?case
  proof (cases "nl \<and> v = JNull")
    case True
    then show ?thesis using null_bound[OF S_Array.prems(1,2)] S_Array.prems(5) by (simp add: schema_nullable_def)
  next
    case False
    then obtain xs where xs: "v = JArr xs" "in_bounds mn mx (int (length xs))" "\<forall>x \<in> set xs. conforms items x" "in_enum en v"
      using S_Array.prems(3) by auto
    show ?thesis
    proof (cases en)
      case None
      obtain m vb where m: "mx = Some m" "maximum_serialized_bytes items = Inr (Some vb)"
        "b = (if m = 0 then 2 else 2 + m * vb + (m - 1))"
        using S_Array.prems(1) None by (auto elim: array_bytes_eq)
      have b: "bounded_schema items" using S_Array.prems(2) by simp
      have "int (length u) \<le> vb" if "x \<in> set xs" "render_json (Suc d) x = Inr u" for x u
        using S_Array.IH[OF m(2) b _ _ that(2)] xs(1,3) that(1) S_Array.prems(4) by (auto simp: list_all_iff)
      then show ?thesis
        using array_text_bound[of d xs t m vb] S_Array.prems(5) xs(1,2) m maximum_nonneg[OF m(2) b]
        by (simp add: in_bounds_def)
    qed (use S_Array.prems xs(4) in \<open>auto intro: maximum_enum_bound\<close>)
  qed
next
  case (S_Object nl props req extra mn mx en)
  show ?case
  proof (cases "nl \<and> v = JNull")
    case True
    then show ?thesis using null_bound[OF S_Object.prems(1,2)] S_Object.prems(5) by (simp add: schema_nullable_def)
  next
    case False
    let ?C = "map (\<lambda>p. (fst p, \<lambda>y. conforms (snd p) y)) props"
    from False S_Object.prems(3) obtain kvs where kvs: "v = JObj kvs" "in_bounds mn mx (int (length kvs))"
      "set req \<subseteq> fst ` set kvs" "in_enum en v"
      "\<forall>(k, x) \<in> set kvs. (case map_of ?C k of Some P \<Rightarrow> P x
           | None \<Rightarrow> k \<notin> set object_prototype_keys \<and>
               (case map_option (\<lambda>s y. conforms s y) extra of None \<Rightarrow> False | Some P \<Rightarrow> P x))"
      by auto
    show ?thesis
    proof (cases en)
      case None
      from S_Object.prems(1) None obtain es where es: "extra = None" "list_all2 (property_entry req) props es"
        "select_entries mx es = Some b"
        by (auto elim: object_entries simp del: maximum_serialized_bytes.simps)
      have look: "map_of ?C k = map_option (\<lambda>s y. conforms s y) (map_of props k)" for k
        by (induction props) auto
      have known: "\<exists>s. map_of props k = Some s \<and> conforms s x" if "(k, x) \<in> set kvs" for k x
        using kvs(5) that es(1) by (fastforce simp: look split: option.splits)
      have d: "distinct (map fst props)" "\<And>p. p \<in> set props \<Longrightarrow> bounded_schema (snd p)"
        using S_Object.prems(2) by (auto simp: list_all_iff)
      show ?thesis
      proof (rule object_bound[OF es(2,3) d(1)])
        show "distinct (map fst kvs)" using S_Object.prems(4) kvs(1) by simp
        show "fst ` set kvs \<subseteq> fst ` set props" using known by (force dest: map_of_SomeD)
        show "set req \<subseteq> fst ` set kvs" by (fact kvs(3))
        show "\<forall>n. mx = Some n \<longrightarrow> int (length kvs) \<le> n" using kvs(2) by (simp add: in_bounds_def)
        show "render_json d (JObj kvs) = Inr t" using S_Object.prems(5) kvs(1) by simp
      next
        fix k x u s vb
        assume a: "(k, x) \<in> set kvs" "(k, s) \<in> set props" "maximum_serialized_bytes s = Inr (Some vb)"
          "render_json (Suc d) x = Inr u"
        have "map_of props k = Some s" using a(2) d(1) by simp
        then have "conforms s x" using known[OF a(1)] by auto
        moreover have "js_value x" using S_Object.prems(4) kvs(1) a(1) by (auto simp: list_all_iff)
        ultimately show "int (length u) \<le> vb"
          using S_Object.IH(1)[of "(k, s)" s vb x "Suc d" u] a d(2)[of "(k, s)"] by (simp add: snds.simps)
      next
        fix k s vb assume "(k, s) \<in> set props" "maximum_serialized_bytes s = Inr (Some vb)"
        then show "0 \<le> vb" using maximum_nonneg[of s vb] d(2)[of "(k, s)"] by simp
      qed
    qed (use S_Object.prems kvs(4) in \<open>auto intro: maximum_enum_bound\<close>)
  qed
qed


definition item_schema_example :: json_schema where
  "item_schema_example = S_Object False [(''id'', S_String False None (Some 4) None), (''n'', S_Number True True None None None),
     (''tags'', S_Array False (S_Boolean False None) None (Some 2) None)] [''id''] None None (Some 2) None"


text \<open>
  Where there is no room, the bound is wrong: the derivation ignores \<open>nullable\<close>, so a nullable
  string of no characters is bounded by two bytes although the validator admits \<open>null\<close>.
\<close>

lemma nullable_bound_too_small:
  "maximum_serialized_bytes (S_String True None (Some 0) None) = Inr (Some 2) \<and>
   validate_json_schema (S_String True None (Some 0) None) JNull = Inr JNull \<and>
   canonical_json JNull = Inr ''null''"
  by code_simp

end
