(* ===== verification/Value_Expression.thy ===== *)
theory Value_Expression
  imports Json_Schema Data_Spool
begin

text \<open>
  Value expressions: the closed language of data derived from a call's input and its bindings
  (\<open>src/src/public/contracts/value-expression.ts\<close>), with its parser and its evaluator.
  \<open>resolveJsonPointer\<close> of the same file is in \<open>Json_Pointer\<close>.

  The parser threads the node counter and takes the levels left, 13 at the root. SHA-256 and
  HMAC-SHA-256 are functions the evaluator is given. A binding that is absent is an error,
  also where a plain object would find an inherited member: the function it finds is no JSON
  value, and evaluation fails with a contract error as well, though with another message. A
  field named \<open>__proto__\<close> is not modelled.
\<close>

section \<open>Expressions\<close>

datatype unary_op = Op_To_String | Op_Url_Encode | Op_Json_Encode | Op_Base64 | Op_Sha256

definition unary_op_name :: "unary_op \<Rightarrow> string" where
  "unary_op_name u = (case u of
     Op_To_String \<Rightarrow> ''to_string'' | Op_Url_Encode \<Rightarrow> ''url_encode'' | Op_Json_Encode \<Rightarrow> ''json_encode''
   | Op_Base64 \<Rightarrow> ''base64'' | Op_Sha256 \<Rightarrow> ''sha256'')"

definition unary_ops :: "unary_op list" where
  "unary_ops = [Op_To_String, Op_Url_Encode, Op_Json_Encode, Op_Base64, Op_Sha256]"

datatype digest_encoding = Encoding_Hex | Encoding_Base64url

datatype value_expression =
    E_Literal json
  | E_Input string
  | E_Binding string
  | E_Object "(string \<times> value_expression) list"
  | E_Array "value_expression list"
  | E_Concat "value_expression list"
  | E_Unary unary_op value_expression
  | E_Hmac value_expression value_expression digest_encoding

definition expression_error :: "String.literal \<Rightarrow> exn + 'a" where
  "expression_error m = Inl (ValueExpressionError m)"

section \<open>Parsing\<close>

definition parse_literal :: "json \<Rightarrow> exn + json" where
  "parse_literal v = (case v of
     JArr _ \<Rightarrow> expression_error (STR ''must be a scalar JSON literal'')
   | JObj _ \<Rightarrow> expression_error (STR ''must be a scalar JSON literal'')
   | JNum n \<Rightarrow> ensureR (is_finite n) (ValueExpressionError (STR ''must be a finite number'')) (Inr v)
   | _ \<Rightarrow> Inr v)"

type_synonym expression_parser = "json \<Rightarrow> nat \<Rightarrow> exn + value_expression \<times> nat"

definition parse_field :: "expression_parser \<Rightarrow> string \<times> json \<Rightarrow> nat \<Rightarrow> exn + (string \<times> value_expression) \<times> nat" where
  "parse_field parse = (\<lambda>(k, v) n. bindR (parse_string 128 (JStr k)) (\<lambda>_.
     ensureR (k \<noteq> []) (ValueExpressionError (STR ''must not contain an empty key''))
       (bindR (parse v n) (\<lambda>(e, m). Inr ((k, e), m)))))"

definition parse_items :: "expression_parser \<Rightarrow> json \<Rightarrow> nat \<Rightarrow> exn + value_expression list \<times> nat" where
  "parse_items parse v n = (case v of
     JArr xs \<Rightarrow> ensureR (length xs \<le> 64) (ValueExpressionError (STR ''must be an array with at most 64 items''))
       (mapSR parse xs n)
   | _ \<Rightarrow> expression_error (STR ''must be an array with at most 64 items''))"

text \<open>The switch of \<open>parseExpression\<close>; \<open>parse\<close> is the parser of one level below.\<close>

definition parse_expression_op :: "expression_parser \<Rightarrow> string \<Rightarrow> expression_parser" where
  "parse_expression_op parse op v n =
     (if op = ''literal'' then
        bindR (parse_exact_record [''op'', ''value''] v) (\<lambda>r.
        bindR (parse_literal (fld r ''value'')) (\<lambda>x. Inr (E_Literal x, n)))
      else if op = ''input'' then
        bindR (parse_exact_record [''op'', ''pointer''] v) (\<lambda>r.
        bindR (parse_json_pointer (fld r ''pointer'')) (\<lambda>p. Inr (E_Input p, n)))
      else if op = ''binding'' then
        bindR (parse_exact_record [''op'', ''name''] v) (\<lambda>r.
        bindR (parse_stable_contract_id (fld r ''name'')) (\<lambda>x. Inr (E_Binding x, n)))
      else if op = ''object'' then
        bindR (parse_exact_record [''op'', ''fields''] v) (\<lambda>r.
        bindR (parse_bounded_record 64 (fld r ''fields'')) (\<lambda>fs.
        bindR (mapSR (parse_field parse) fs n) (\<lambda>(es, m). Inr (E_Object es, m))))
      else if op = ''array'' then
        bindR (parse_exact_record [''op'', ''items''] v) (\<lambda>r.
        bindR (parse_items parse (fld r ''items'') n) (\<lambda>(es, m). Inr (E_Array es, m)))
      else if op = ''concat'' then
        bindR (parse_exact_record [''op'', ''values''] v) (\<lambda>r.
        bindR (parse_items parse (fld r ''values'') n) (\<lambda>(es, m). Inr (E_Concat es, m)))
      else if op = ''hmac_sha256'' then
        bindR (parse_exact_record [''op'', ''key'', ''value'', ''encoding''] v) (\<lambda>r.
        ensureR (fld r ''encoding'' \<in> {JStr ''hex'', JStr ''base64url''})
          (ValueExpressionError (STR ''must be hex or base64url''))
        (bindR (parse (fld r ''key'') n) (\<lambda>(k, m).
        bindR (parse (fld r ''value'') m) (\<lambda>(e, l).
          Inr (E_Hmac k e (if fld r ''encoding'' = JStr ''hex'' then Encoding_Hex else Encoding_Base64url), l)))))
      else (case List.find (\<lambda>u. unary_op_name u = op) unary_ops of
          Some u \<Rightarrow>
            bindR (parse_exact_record [''op'', ''value''] v) (\<lambda>r.
            bindR (parse (fld r ''value'') n) (\<lambda>(e, m). Inr (E_Unary u e, m)))
        | None \<Rightarrow> expression_error (STR ''is not supported'')))"

primrec parse_expression :: "nat \<Rightarrow> expression_parser" where
  "parse_expression 0 v n = expression_error (STR ''exceeds maximum depth 12'')"
| "parse_expression (Suc levels) v n =
     ensureR (n + 1 \<le> 256) (ValueExpressionError (STR ''exceeds maximum node count 256''))
      (case v of
         JObj r \<Rightarrow>
           (case field r ''op'' of
              Some (JStr op) \<Rightarrow> parse_expression_op (parse_expression levels) op v (n + 1)
            | _ \<Rightarrow> expression_error (STR ''must be a string''))
       | _ \<Rightarrow> expression_error (STR ''must be an expression object''))"

definition parse_value_expression :: "json \<Rightarrow> exn + value_expression" where
  "parse_value_expression v = bindR (parse_expression 13 v 0) (\<lambda>(e, _). Inr e)"

section \<open>Evaluation\<close>

text \<open>\<open>encodeURIComponent\<close> on the bytes of the text.\<close>

definition upper_hex_digit :: "nat \<Rightarrow> char" where
  "upper_hex_digit n = (if n < 10 then char_of (48 + n) else char_of (55 + n))"

definition is_uri_unreserved :: "char \<Rightarrow> bool" where
  "is_uri_unreserved c \<longleftrightarrow> is_lower_alnum c \<or> is_upper c \<or>
     c \<in> {CHR ''-'', CHR ''_'', CHR ''.'', CHR ''!'', CHR ''~'', CHR ''*'', CHR 0x27, CHR ''('', CHR '')''}"

definition encode_uri_component :: "string \<Rightarrow> string" where
  "encode_uri_component s = concat (map (\<lambda>c. if is_uri_unreserved c then [c]
     else [CHR ''%'', upper_hex_digit (byte c div 16), upper_hex_digit (byte c mod 16)]) s)"

text \<open>\<open>Buffer.toString('base64')\<close>.\<close>

definition base64_char :: "nat \<Rightarrow> char" where
  "base64_char n =
     (if n < 26 then char_of (65 + n) else if n < 52 then char_of (71 + n)
      else if n < 62 then char_of (n - 4) else if n = 62 then CHR ''+'' else CHR ''/'')"

fun base64_encode :: "string \<Rightarrow> string" where
  "base64_encode (a # b # c # rest) =
     [base64_char (byte a div 4), base64_char (byte a mod 4 * 16 + byte b div 16),
      base64_char (byte b mod 16 * 4 + byte c div 64), base64_char (byte c mod 64)] @ base64_encode rest"
| "base64_encode [a, b] =
     [base64_char (byte a div 4), base64_char (byte a mod 4 * 16 + byte b div 16),
      base64_char (byte b mod 16 * 4), CHR ''='']"
| "base64_encode [a] = [base64_char (byte a div 4), base64_char (byte a mod 4 * 16), CHR ''='', CHR ''='']"
| "base64_encode [] = []"

record expression_context =
  ec_input :: json
  ec_bindings :: "(string \<times> json) list"

type_synonym hmac = "digest_encoding \<Rightarrow> string \<Rightarrow> string \<Rightarrow> string"

definition as_expression_string :: "json \<Rightarrow> exn + string" where
  "as_expression_string v = (case v of JStr s \<Rightarrow> Inr s | _ \<Rightarrow> expression_error (STR ''must evaluate to a string''))"

definition as_scalar_string :: "json \<Rightarrow> exn + string" where
  "as_scalar_string v = (case v of
     JStr s \<Rightarrow> Inr s
   | JNum n \<Rightarrow> Inr (num_text n)
   | JBool b \<Rightarrow> Inr (if b then ''true'' else ''false'')
   | _ \<Rightarrow> expression_error (STR ''must evaluate to a string, number, or boolean''))"

definition assert_crypto_input :: "string \<Rightarrow> exn + unit" where
  "assert_crypto_input s = ensureR (length s \<le> 65536) (ValueExpressionError (STR ''exceeds crypto input limit'')) (Inr ())"

definition assert_expression_output :: "json \<Rightarrow> exn + unit" where
  "assert_expression_output v = bindR (canonical_json v) (\<lambda>t.
     ensureR (length t \<le> 65536) (ValueExpressionError (STR ''exceeds output limit'')) (Inr ()))"

definition apply_unary :: "hash \<Rightarrow> unary_op \<Rightarrow> json \<Rightarrow> exn + json" where
  "apply_unary sha u v = (case u of
     Op_To_String \<Rightarrow> bindR (as_scalar_string v) (\<lambda>s. Inr (JStr s))
   | Op_Url_Encode \<Rightarrow> bindR (as_expression_string v) (\<lambda>s. Inr (JStr (encode_uri_component s)))
   | Op_Json_Encode \<Rightarrow> bindR (canonical_json v) (\<lambda>t. Inr (JStr t))
   | Op_Base64 \<Rightarrow> bindR (as_expression_string v) (\<lambda>s. bindR (assert_crypto_input s) (\<lambda>_. Inr (JStr (base64_encode s))))
   | Op_Sha256 \<Rightarrow> bindR (as_expression_string v) (\<lambda>s. bindR (assert_crypto_input s) (\<lambda>_. Inr (JStr (sha s)))))"

fun evaluate_expression :: "hash \<Rightarrow> hmac \<Rightarrow> expression_context \<Rightarrow> value_expression \<Rightarrow> exn + json" where
  "evaluate_expression sha hm ctx (E_Literal v) = Inr v"
| "evaluate_expression sha hm ctx (E_Input p) = resolve_json_pointer (ec_input ctx) p"
| "evaluate_expression sha hm ctx (E_Binding x) = (case map_of (ec_bindings ctx) x of
     Some v \<Rightarrow> Inr v | None \<Rightarrow> expression_error (STR ''binding is unavailable''))"
| "evaluate_expression sha hm ctx (E_Object fs) =
     bindR (mapR (\<lambda>f. bindR (evaluate_expression sha hm ctx (snd f)) (\<lambda>v. Inr (fst f, v))) fs) (\<lambda>kvs. Inr (JObj kvs))"
| "evaluate_expression sha hm ctx (E_Array es) =
     bindR (mapR (evaluate_expression sha hm ctx) es) (\<lambda>vs. Inr (JArr vs))"
| "evaluate_expression sha hm ctx (E_Concat es) =
     bindR (mapR (\<lambda>e. bindR (evaluate_expression sha hm ctx e) as_expression_string) es) (\<lambda>ss. Inr (JStr (concat ss)))"
| "evaluate_expression sha hm ctx (E_Unary u e) = bindR (evaluate_expression sha hm ctx e) (apply_unary sha u)"
| "evaluate_expression sha hm ctx (E_Hmac k e enc) =
     bindR (bindR (evaluate_expression sha hm ctx k) as_expression_string) (\<lambda>key.
     bindR (bindR (evaluate_expression sha hm ctx e) as_expression_string) (\<lambda>s.
     bindR (assert_crypto_input key) (\<lambda>_.
     bindR (assert_crypto_input s) (\<lambda>_. Inr (JStr (hm enc key s))))))"

definition evaluate_value_expression ::
  "hash \<Rightarrow> hmac \<Rightarrow> value_expression \<Rightarrow> expression_context \<Rightarrow> exn + json" where
  "evaluate_value_expression sha hm e ctx =
     bindR (assert_json_value 12 (ec_input ctx)) (\<lambda>_.
     bindR (mapR (\<lambda>b. assert_json_value 12 (snd b)) (ec_bindings ctx)) (\<lambda>_.
     bindR (evaluate_expression sha hm ctx e) (\<lambda>v.
     bindR (assert_expression_output v) (\<lambda>_. Inr v))))"

section \<open>Errors and limits\<close>

text \<open>Whatever fails, fails with a contract error.\<close>

definition contract_failures :: "exn + 'a \<Rightarrow> bool" where
  "contract_failures m \<longleftrightarrow> (\<forall>e. m = Inl e \<longrightarrow> is_contract_error e)"

named_theorems failures \<open>functions that fail only with contract errors\<close>

lemma contract_failures_Inr [failures]: "contract_failures (Inr x)"
  by (simp add: contract_failures_def)

lemma contract_failures_bind [failures]:
  "contract_failures m \<Longrightarrow> (\<And>x. m = Inr x \<Longrightarrow> contract_failures (f x)) \<Longrightarrow> contract_failures (bindR m f)"
  by (cases m) (auto simp: contract_failures_def)

lemma contract_failures_ensure [failures]:
  "is_contract_error e \<Longrightarrow> contract_failures m \<Longrightarrow> contract_failures (ensureR b e m)"
  by (auto simp: contract_failures_def ensureR_def)

lemma contract_failures_mapR [failures]:
  "(\<And>x. x \<in> set xs \<Longrightarrow> contract_failures (f x)) \<Longrightarrow> contract_failures (mapR f xs)"
  by (auto simp: contract_failures_def dest!: mapR_Inl)

lemma contract_failures_error [failures]:
  "contract_failures (expression_error m)" "contract_failures (contract_error m)"
  by (simp_all add: contract_failures_def expression_error_def contract_error_def)

lemma contract_failures_pointer [failures]: "contract_failures (resolve_json_pointer v p)"
  by (auto simp: contract_failures_def dest: resolve_json_pointer_error)

lemma contract_failures_canonical [failures]: "contract_failures (canonical_json v)"
  by (auto simp: contract_failures_def dest: canonical_json_error)

lemma contract_failures_assert [failures]: "contract_failures (assert_json_value n v)"
  by (auto simp: contract_failures_def dest: assert_json_value_error)

lemma contract_failures_strings [failures]:
  "contract_failures (as_expression_string v)" "contract_failures (as_scalar_string v)"
  "contract_failures (assert_crypto_input s)"
  by (auto simp: contract_failures_def as_expression_string_def as_scalar_string_def assert_crypto_input_def
    expression_error_def ensureR_def split: json.splits)

lemma contract_failures_unary [failures]: "contract_failures (apply_unary sha u v)"
  unfolding apply_unary_def by (cases u) (auto intro!: failures)

lemma contract_failures_evaluate: "contract_failures (evaluate_expression sha hm ctx e)"
proof (induction e)
  case (E_Object fs)
  then show ?case by (auto intro!: failures simp: snds.simps)
next
  case (E_Binding x)
  then show ?case by (auto intro: failures split: option.split)
qed (auto intro!: failures)


end
