(* ===== verification/Start_Url.thy ===== *)
theory Start_Url
  imports Value_Expression
begin

text \<open>
  Start URL templates (\<open>src/src/public/contracts/start-url-template.ts\<close>): the closed route
  grammar of a scrape's start URLs, its parser, and the validation that turns a caller's URL
  into the canonical one; with \<open>parseHttpsOrigin\<close> of \<open>common.ts\<close>.

  The WHATWG URL parser and its serializer are parameters: \<open>parse_url\<close> gives the components
  of an absolute URL or fails, and \<open>build_url origin path query\<close> is the text of the origin with
  a path name set and query parameters appended. \<open>encodeURIComponent\<close> and
  \<open>decodeURIComponent\<close> are modelled, on the bytes of a text.
\<close>

section \<open>Templates\<close>

datatype path_segment = Segment_Literal string | Segment_Slot string int int

record query_parameter =
  qp_key :: string
  qp_max_value_bytes :: int

record start_url_template =
  st_id :: string
  st_origin :: string
  st_segments :: "path_segment list"
  st_trailing_slash :: bool
  st_query :: "query_parameter list"

record url_parts =
  up_protocol :: string
  up_origin :: string
  up_username :: string
  up_password :: string
  up_pathname :: string
  up_search :: string
  up_fragment :: string

type_synonym url_parser = "string \<Rightarrow> url_parts option"

type_synonym url_builder = "string \<Rightarrow> string \<Rightarrow> (string \<times> string) list \<Rightarrow> string"

definition parse_https_origin :: "url_parser \<Rightarrow> json \<Rightarrow> exn + string" where
  "parse_https_origin parse_url v = bindR (parse_string 2048 v) (\<lambda>text.
     case parse_url text of
       None \<Rightarrow> contract_error (STR ''must be an HTTPS origin'')
     | Some u \<Rightarrow>
         ensureR (up_protocol u = ''https:'' \<and> up_username u = [] \<and> up_password u = [] \<and> up_pathname u = ''/'' \<and>
             up_search u = [] \<and> up_fragment u = [] \<and> text = up_origin u)
           (PublicContractError (STR ''must be a canonical HTTPS origin without credentials or path'')) (Inr (up_origin u)))"

definition contains_control :: "string \<Rightarrow> bool" where
  "contains_control s \<longleftrightarrow> (\<exists>c \<in> set s. byte c \<le> 31 \<or> byte c = 127)"

definition is_safe_path_segment :: "string \<Rightarrow> bool" where
  "is_safe_path_segment s \<longleftrightarrow> s \<noteq> [] \<and> s \<noteq> ''.'' \<and> s \<noteq> ''..'' \<and> CHR ''/'' \<notin> set s \<and> CHR 0x5C \<notin> set s \<and>
     \<not> contains_control s"

definition assert_safe_path_segment :: "string \<Rightarrow> exn + unit" where
  "assert_safe_path_segment s = ensureR (is_safe_path_segment s)
     (PublicContractError (STR ''must be a non-empty path segment without separators, dot segments, or controls'')) (Inr ())"

definition parse_path_segment :: "json \<Rightarrow> exn + path_segment" where
  "parse_path_segment v = bindR (as_object v) (\<lambda>raw.
     if field raw ''kind'' = Some (JStr ''literal'') then
       bindR (parse_exact_record [''kind'', ''value''] v) (\<lambda>r.
       bindR (parse_string 512 (fld r ''value'')) (\<lambda>s.
       bindR (assert_safe_path_segment s) (\<lambda>_. Inr (Segment_Literal s))))
     else if field raw ''kind'' = Some (JStr ''slot'') then
       bindR (parse_exact_record [''kind'', ''slot_id'', ''min_utf8_bytes'', ''max_utf8_bytes''] v) (\<lambda>r.
       bindR (parse_integer 1 512 (fld r ''min_utf8_bytes'')) (\<lambda>lo.
       bindR (parse_integer lo 512 (fld r ''max_utf8_bytes'')) (\<lambda>hi.
       bindR (parse_stable_contract_id (fld r ''slot_id'')) (\<lambda>i. Inr (Segment_Slot i lo hi)))))
     else contract_error (STR ''must be literal or slot''))"

definition parse_url_path_contract :: "json \<Rightarrow> exn + path_segment list \<times> bool" where
  "parse_url_path_contract v =
     bindR (parse_exact_record [''segments'', ''trailing_slash''] v) (\<lambda>r.
     bindR (parse_list_max 64 (STR ''must contain at most 64 segments'') (fld r ''segments'')) (\<lambda>raw.
     ensureR (fld r ''trailing_slash'' \<in> {JStr ''required'', JStr ''forbidden''})
       (PublicContractError (STR ''must be required or forbidden''))
     (bindR (mapR parse_path_segment raw) (\<lambda>ss. Inr (ss, fld r ''trailing_slash'' = JStr ''required'')))))"

definition parse_query_key :: "json \<Rightarrow> exn + string" where
  "parse_query_key v = bindR (parse_string 128 v) (\<lambda>k.
     ensureR (k \<noteq> [] \<and> CHR ''&'' \<notin> set k \<and> CHR ''='' \<notin> set k \<and> \<not> contains_control k)
       (PublicContractError (STR ''must be a non-empty query key without delimiters or controls'')) (Inr k))"

definition parse_query_parameter :: "json \<Rightarrow> exn + query_parameter" where
  "parse_query_parameter v =
     bindR (parse_exact_record [''key'', ''max_values'', ''max_value_utf8_bytes''] v) (\<lambda>r.
     ensureR (fld r ''max_values'' = JNum (NInt 1)) (PublicContractError (STR ''must be 1''))
     (bindR (parse_query_key (fld r ''key'')) (\<lambda>k.
     bindR (parse_integer 0 2048 (fld r ''max_value_utf8_bytes'')) (\<lambda>m.
       Inr \<lparr>qp_key = k, qp_max_value_bytes = m\<rparr>))))"

definition parse_url_query_contract :: "json \<Rightarrow> exn + query_parameter list" where
  "parse_url_query_contract v =
     bindR (parse_list_max 32 (STR ''must contain at most 32 parameters'') v) (\<lambda>raw.
     bindR (mapR parse_query_parameter raw) (\<lambda>qs.
     ensureR (\<forall>i < length qs - 1. qp_key (qs ! i) < qp_key (qs ! Suc i))
       (PublicContractError (STR ''keys must be unique and sorted by UTF-8 byte order'')) (Inr qs)))"

definition parse_start_url_template :: "url_parser \<Rightarrow> json \<Rightarrow> exn + start_url_template" where
  "parse_start_url_template parse_url v =
     bindR (parse_exact_record [''id'', ''origin'', ''path'', ''query''] v) (\<lambda>r.
     bindR (parse_stable_contract_id (fld r ''id'')) (\<lambda>i.
     bindR (parse_https_origin parse_url (fld r ''origin'')) (\<lambda>origin.
     bindR (parse_url_path_contract (fld r ''path'')) (\<lambda>(segments, slash).
     bindR (parse_url_query_contract (fld r ''query'')) (\<lambda>query.
       Inr \<lparr>st_id = i, st_origin = origin, st_segments = segments, st_trailing_slash = slash, st_query = query\<rparr>)))))"

section \<open>Percent encoding\<close>

text \<open>Well-formed UTF-8: no overlong forms, no surrogates, nothing above U+10FFFF.\<close>

definition is_continuation :: "char \<Rightarrow> bool" where
  "is_continuation c \<longleftrightarrow> 128 \<le> byte c \<and> byte c < 192"

fun utf8_valid :: "string \<Rightarrow> bool" where
  "utf8_valid [] = True"
| "utf8_valid (a # rest) =
     (let n = byte a in
      if n < 128 then utf8_valid rest
      else (case rest of
          [] \<Rightarrow> False
        | b # rest2 \<Rightarrow>
            if 194 \<le> n \<and> n < 224 then is_continuation b \<and> utf8_valid rest2
            else (case rest2 of
                [] \<Rightarrow> False
              | c # rest3 \<Rightarrow>
                  if 224 \<le> n \<and> n < 240 then
                    is_continuation b \<and> is_continuation c \<and> (n = 224 \<longrightarrow> 160 \<le> byte b) \<and> (n = 237 \<longrightarrow> byte b < 160) \<and>
                    utf8_valid rest3
                  else (case rest3 of
                      [] \<Rightarrow> False
                    | d # rest4 \<Rightarrow>
                        240 \<le> n \<and> n < 245 \<and> is_continuation b \<and> is_continuation c \<and> is_continuation d \<and>
                        (n = 240 \<longrightarrow> 144 \<le> byte b) \<and> (n = 244 \<longrightarrow> byte b < 144) \<and> utf8_valid rest4))))"

definition any_hex_value :: "char \<Rightarrow> nat option" where
  "any_hex_value c =
     (if is_digit c then Some (byte c - 48)
      else if 97 \<le> byte c \<and> byte c \<le> 102 then Some (byte c - 87)
      else if 65 \<le> byte c \<and> byte c \<le> 70 then Some (byte c - 55) else None)"

fun percent_bytes :: "string \<Rightarrow> string option" where
  "percent_bytes [] = Some []"
| "percent_bytes (c # cs) =
     (if c = CHR ''%'' then
        (case cs of
           h # l # rest \<Rightarrow>
             (case (any_hex_value h, any_hex_value l) of
                (Some a, Some b) \<Rightarrow> map_option ((#) (char_of (16 * a + b))) (percent_bytes rest)
              | _ \<Rightarrow> None)
         | _ \<Rightarrow> None)
      else map_option ((#) c) (percent_bytes cs))"

text \<open>\<open>decodeURIComponent\<close>, \<open>None\<close> where it throws.\<close>

definition decode_uri_component :: "string \<Rightarrow> string option" where
  "decode_uri_component s = (case percent_bytes s of
     None \<Rightarrow> None | Some t \<Rightarrow> if utf8_valid t then Some t else None)"

definition decode_component :: "string \<Rightarrow> exn + string" where
  "decode_component s = (case decode_uri_component s of
     None \<Rightarrow> contract_error (STR ''must use valid UTF-8 percent encoding'') | Some t \<Rightarrow> Inr t)"

definition decode_query_component :: "string \<Rightarrow> exn + string" where
  "decode_query_component s = decode_component (map (\<lambda>c. if c = CHR ''+'' then CHR '' '' else c) s)"

section \<open>Validation\<close>

definition ends_with_slash :: "string \<Rightarrow> bool" where
  "ends_with_slash s \<longleftrightarrow> s \<noteq> [] \<and> last s = CHR ''/''"

definition check_segment :: "string \<times> path_segment \<Rightarrow> exn + string" where
  "check_segment = (\<lambda>(piece, expected). bindR (decode_component piece) (\<lambda>s.
     case expected of
       Segment_Literal l \<Rightarrow> ensureR (s = l) (PublicContractError (STR ''does not match a literal path segment'')) (Inr s)
     | Segment_Slot _ lo hi \<Rightarrow>
         bindR (assert_safe_path_segment s) (\<lambda>_.
         ensureR (lo \<le> int (length s) \<and> int (length s) \<le> hi)
           (PublicContractError (STR ''must contain MIN to MAX UTF-8 bytes'')) (Inr s))))"

definition parse_url_path :: "start_url_template \<Rightarrow> string \<Rightarrow> exn + string list" where
  "parse_url_path t pathname =
     ensureR (ends_with_slash pathname = st_trailing_slash t)
       (PublicContractError (STR ''does not match the template trailing-slash policy''))
     (let raw = tl pathname;
          pieces = (if raw = [] then [] else split_on CHR ''/'' raw);
          pieces2 = (if ends_with_slash pathname \<and> pieces \<noteq> [] then butlast pieces else pieces)
      in ensureR (length pieces2 = length (st_segments t))
           (PublicContractError (STR ''does not match the template path segment count''))
           (mapR check_segment (zip pieces2 (st_segments t))))"

definition split_entry :: "string \<Rightarrow> string \<times> string" where
  "split_entry e = (takeWhile (\<lambda>c. c \<noteq> CHR ''='') e, tl (dropWhile (\<lambda>c. c \<noteq> CHR ''='') e))"

definition add_query_entry :: "start_url_template \<Rightarrow> (string \<times> string) list \<Rightarrow> string \<Rightarrow> exn + (string \<times> string) list" where
  "add_query_entry t values entry =
     bindR (decode_query_component (fst (split_entry entry))) (\<lambda>k.
     bindR (decode_query_component (snd (split_entry entry))) (\<lambda>v.
     case map_of (rev (map (\<lambda>q. (qp_key q, q)) (st_query t))) k of
       None \<Rightarrow> contract_error (STR ''is not declared by the template'')
     | Some q \<Rightarrow>
         ensureR (\<not> has_key values k) (PublicContractError (STR ''must not be duplicated''))
         (ensureR (int (length v) \<le> qp_max_value_bytes q) (PublicContractError (STR ''must be at most N UTF-8 bytes''))
           (Inr (AList.update k v values)))))"

definition parse_url_query :: "start_url_template \<Rightarrow> string \<Rightarrow> exn + (string \<times> string) list" where
  "parse_url_query t search =
     (let raw = (if take 1 search = ''?'' then tl search else search) in
      if raw = [] then Inr [] else foldR (add_query_entry t) [] (split_on CHR ''&'' raw))"

definition serialize_path :: "string list \<Rightarrow> bool \<Rightarrow> string" where
  "serialize_path segments slash =
     (if segments = [] then ''/''
      else ''/'' @ join_with ''/'' (map encode_uri_component segments) @ (if slash then ''/'' else []))"

definition validate_start_url :: "url_parser \<Rightarrow> url_builder \<Rightarrow> start_url_template \<Rightarrow> json \<Rightarrow> exn + string" where
  "validate_start_url parse_url build_url t v = bindR (parse_string 2048 v) (\<lambda>text.
     case parse_url text of
       None \<Rightarrow> contract_error (STR ''must be an absolute HTTPS URL'')
     | Some u \<Rightarrow>
         ensureR (up_protocol u = ''https:'' \<and> up_origin u = st_origin t \<and> up_username u = [] \<and> up_password u = [] \<and>
             up_fragment u = [])
           (PublicContractError (STR ''does not match the template origin''))
         (bindR (parse_url_path t (up_pathname u)) (\<lambda>segments.
          bindR (parse_url_query t (up_search u)) (\<lambda>values.
            Inr (build_url (st_origin t) (serialize_path segments (st_trailing_slash t))
              (concat (map (\<lambda>q. case map_of values (qp_key q) of None \<Rightarrow> [] | Some x \<Rightarrow> [(qp_key q, x)]) (st_query t))))))))"

section \<open>Decoding inverts encoding\<close>

lemma upper_hex_digit_facts [simp]:
  "n < 16 \<Longrightarrow> any_hex_value (upper_hex_digit n) = Some n"
  by (auto simp: any_hex_value_def upper_hex_digit_def is_digit_def)

lemma encode_uri_append: "encode_uri_component (a @ b) = encode_uri_component a @ encode_uri_component b"
  by (simp add: encode_uri_component_def)

lemma byte_nibbles: "byte c div 16 < 16" "byte c mod 16 < 16"
proof -
  have "byte c < 256" by simp
  then have "byte c < 16 * 16" by linarith
  then show "byte c div 16 < 16" by (rule less_mult_imp_div_less)
qed simp

lemma escape_not_percent: "is_uri_unreserved c \<Longrightarrow> c \<noteq> CHR ''%''"
  by (auto simp: is_uri_unreserved_def is_lower_alnum_def is_lower_def is_upper_def is_digit_def)

lemma percent_bytes_encode: "percent_bytes (encode_uri_component s @ r) = map_option ((@) s) (percent_bytes r)"
proof (induction s)
  case Nil
  then show ?case by (simp add: encode_uri_component_def option.map_ident)
next
  case (Cons c s)
  have e: "encode_uri_component (c # s) = (if is_uri_unreserved c then [c]
     else [CHR ''%'', upper_hex_digit (byte c div 16), upper_hex_digit (byte c mod 16)]) @ encode_uri_component s"
    by (simp add: encode_uri_component_def)
  show ?case
  proof (cases "is_uri_unreserved c")
    case True
    then have "c \<noteq> CHR ''%''" by (rule escape_not_percent)
    then show ?thesis using True Cons by (simp add: e option.map_comp comp_def)
  next
    case False
    have "16 * (byte c div 16) + byte c mod 16 = byte c" by simp
    with byte_nibbles[of c] show ?thesis using False Cons by (simp add: e option.map_comp comp_def)
  qed
qed

lemma decode_encode_component: "utf8_valid s \<Longrightarrow> decode_uri_component (encode_uri_component s) = Some s"
  using percent_bytes_encode[of s "[]"] by (simp add: decode_uri_component_def)

lemma hex_not_slash: "upper_hex_digit n \<noteq> CHR ''/'' \<or> 16 \<le> n"
proof (cases "n < 16")
  case True
  then have "any_hex_value (upper_hex_digit n) = Some n" by simp
  moreover have "any_hex_value (CHR ''/'') = None" by code_simp
  ultimately show ?thesis by auto
qed simp

lemma encode_component_no_slash: "CHR ''/'' \<notin> set (encode_uri_component s)"
proof -
  have "\<not> is_uri_unreserved (CHR ''/'')" by code_simp
  moreover have "upper_hex_digit (byte c div 16) \<noteq> CHR ''/''" "upper_hex_digit (byte c mod 16) \<noteq> CHR ''/''" for c :: char
    using hex_not_slash byte_nibbles by (metis not_le)+
  ultimately show ?thesis by (auto simp: encode_uri_component_def split: if_splits) metis+
qed

lemma encode_nonempty: "s \<noteq> [] \<Longrightarrow> encode_uri_component s \<noteq> []"
  by (cases s) (auto simp: encode_uri_component_def)

section \<open>The canonical path\<close>

lemma split_join:
  "ps \<noteq> [] \<Longrightarrow> list_all (\<lambda>p. c \<notin> set p) ps \<Longrightarrow> split_on c (join_with [c] ps) = ps"
  by (induction ps) (auto simp: join_with_Cons split_on_none split_on_append)

lemma split_join_slash:
  "ps \<noteq> [] \<Longrightarrow> list_all (\<lambda>p. c \<notin> set p) ps \<Longrightarrow> split_on c (join_with [c] ps @ [c]) = ps @ [[]]"
  by (induction ps) (auto simp: join_with_Cons split_on_none split_on_append)

lemma join_last: "ps \<noteq> [] \<Longrightarrow> last ps \<noteq> [] \<Longrightarrow>
  join_with d ps \<noteq> [] \<and> last (join_with d ps) = last (last ps)"
  by (induction ps) (auto simp: join_with_Cons)

text \<open>A text a segment of the template admits.\<close>

definition segment_fits :: "path_segment \<Rightarrow> string \<Rightarrow> bool" where
  "segment_fits e s \<longleftrightarrow> utf8_valid s \<and> is_safe_path_segment s \<and>
     (case e of Segment_Literal l \<Rightarrow> s = l | Segment_Slot _ lo hi \<Rightarrow> lo \<le> int (length s) \<and> int (length s) \<le> hi)"

definition literal_safe :: "path_segment \<Rightarrow> bool" where
  "literal_safe e = (case e of Segment_Literal l \<Rightarrow> is_safe_path_segment l | Segment_Slot _ _ _ \<Rightarrow> True)"

lemma check_segment_fits: "check_segment (p, e) = Inr s \<Longrightarrow> literal_safe e \<Longrightarrow> segment_fits e s"
  by (auto simp: check_segment_def decode_component_def decode_uri_component_def contract_error_def segment_fits_def
      literal_safe_def assert_safe_path_segment_def ensureR_Inr_iff bindR_Inr_iff
    split: option.splits path_segment.splits if_splits)

lemma check_segment_encode: "segment_fits e s \<Longrightarrow> check_segment (encode_uri_component s, e) = Inr s"
  by (auto simp: check_segment_def decode_component_def decode_encode_component segment_fits_def
      assert_safe_path_segment_def split: path_segment.splits)

lemma check_segments_encode:
  "list_all2 segment_fits es ss \<Longrightarrow> mapR check_segment (zip (map encode_uri_component ss) es) = Inr ss"
  by (induction rule: list_all2_induct) (simp_all add: check_segment_encode)

lemma parse_path_segment_literal: "parse_path_segment v = Inr e \<Longrightarrow> literal_safe e"
  by (auto simp: parse_path_segment_def literal_safe_def assert_safe_path_segment_def contract_error_def
      ensureR_Inr_iff bindR_Inr_iff split: if_splits)

lemma parse_template_literals:
  assumes "parse_start_url_template parse_url v = Inr t"
  shows "list_all literal_safe (st_segments t)"
proof -
  have "list_all literal_safe es" if "mapR parse_path_segment xs = Inr es" for xs es
  proof -
    have "list_all2 (\<lambda>x e. literal_safe e) xs es"
      using that unfolding mapR_Inr_iff by (rule list_all2_mono) (rule parse_path_segment_literal)
    then show ?thesis by (simp add: list_all2_conv_all_nth list_all_length)
  qed
  moreover obtain p segments slash where "parse_url_path_contract p = Inr (segments, slash)" "st_segments t = segments"
    using assms by (auto simp: parse_start_url_template_def bindR_Inr_iff)
  ultimately show ?thesis
    by (auto simp: parse_url_path_contract_def ensureR_Inr_iff bindR_Inr_iff)
qed

lemma accepted_segments_fit:
  assumes "mapR check_segment (zip ps es) = Inr ss" "length ps = length es" "list_all literal_safe es"
  shows "list_all2 segment_fits es ss"
  using assms by (auto simp: mapR_Inr_iff list_all2_conv_all_nth list_all_length intro!: check_segment_fits)

lemma serialized_path_parses:
  assumes fits: "list_all2 segment_fits (st_segments t) ss"
    and slash: "ss = [] \<Longrightarrow> st_trailing_slash t"
  shows "parse_url_path t (serialize_path ss (st_trailing_slash t)) = Inr ss"
proof (cases "ss = []")
  case True
  then show ?thesis using assms by (simp add: parse_url_path_def serialize_path_def ends_with_slash_def)
next
  case False
  let ?ps = "map encode_uri_component ss"
  have len: "length ?ps = length (st_segments t)" using fits by (simp add: list_all2_lengthD)
  have noslash: "list_all (\<lambda>p. CHR ''/'' \<notin> set p) ?ps" by (simp add: list_all_iff encode_component_no_slash)
  have "segment_fits (last (st_segments t)) (last ss)"
    using fits False by (metis last_conv_nth length_0_conv length_greater_0_conv list_all2_conv_all_nth diff_less zero_less_one)
  then have "last ss \<noteq> []" by (auto simp: segment_fits_def is_safe_path_segment_def)
  then have ne: "last ?ps \<noteq> []" using False by (simp add: last_map encode_nonempty)
  note jl = join_last[OF _ ne, of "''/''"]
  have "last (last ?ps) \<noteq> CHR ''/''"
    using ne False encode_component_no_slash by (metis last_map last_in_set)
  then have nl: "\<not> ends_with_slash (CHR ''/'' # join_with ''/'' ?ps)"
    using jl False by (simp add: ends_with_slash_def)
  have ch: "mapR check_segment (zip ?ps (st_segments t)) = Inr ss" by (rule check_segments_encode[OF fits])
  show ?thesis
  proof (cases "st_trailing_slash t")
    case True
    have e: "ends_with_slash (CHR ''/'' # join_with ''/'' ?ps @ ''/'')" by (simp add: ends_with_slash_def)
    show ?thesis using True False e len ch
      by (simp add: parse_url_path_def serialize_path_def split_join_slash noslash)
  next
    case False
    then show ?thesis using \<open>ss \<noteq> []\<close> nl len ch jl
      by (simp add: parse_url_path_def serialize_path_def split_join noslash)
  qed
qed

text \<open>
  C17: the canonical path of a validated start URL (its decoded segments encoded again and
  joined) is accepted by the same template and gives back the same segments.
\<close>

theorem canonical_path_reads_back:
  assumes parsed: "parse_start_url_template parse_url v = Inr t"
    and rooted: "take 1 p = ''/''"
    and accepted: "parse_url_path t p = Inr ss"
  shows "parse_url_path t (serialize_path ss (st_trailing_slash t)) = Inr ss"
proof (rule serialized_path_parses)
  obtain ps where ps: "length ps = length (st_segments t)" "mapR check_segment (zip ps (st_segments t)) = Inr ss"
    using accepted by (auto simp: parse_url_path_def Let_def ensureR_Inr_iff)
  show "list_all2 segment_fits (st_segments t) ss"
    by (rule accepted_segments_fit[OF ps(2,1) parse_template_literals[OF parsed]])
  then have len: "length ss = length (st_segments t)" by (simp add: list_all2_lengthD)
  obtain r where r: "p = CHR ''/'' # r" using rooted by (cases p) auto
  show "st_trailing_slash t" if "ss = []"
  proof (rule ccontr)
    assume "\<not> st_trailing_slash t"
    then have "\<not> ends_with_slash p" "r \<noteq> []" using accepted r
      by (auto simp: parse_url_path_def ensureR_Inr_iff ends_with_slash_def)
    then show False using accepted len that r
      by (auto simp: parse_url_path_def Let_def ensureR_Inr_iff)
  qed
qed

definition example_url_parser :: url_parser where
  "example_url_parser s = (if s = ''https://a.b'' then
     Some \<lparr>up_protocol = ''https:'', up_origin = ''https://a.b'', up_username = [], up_password = [],
       up_pathname = ''/'', up_search = [], up_fragment = []\<rparr> else None)"

definition example_template_json :: json where
  "example_template_json = JObj [(''id'', JStr ''shop''), (''origin'', JStr ''https://a.b''),
     (''path'', JObj [(''segments'', JArr [
          JObj [(''kind'', JStr ''literal''), (''value'', JStr ''items'')],
          JObj [(''kind'', JStr ''slot''), (''slot_id'', JStr ''item''), (''min_utf8_bytes'', JNum (NInt 1)),
            (''max_utf8_bytes'', JNum (NInt 20))]]),
        (''trailing_slash'', JStr ''required'')]),
     (''query'', JArr [])]"

definition example_template :: start_url_template where
  "example_template = \<lparr>st_id = ''shop'', st_origin = ''https://a.b'',
     st_segments = [Segment_Literal ''items'', Segment_Slot ''item'' 1 20], st_trailing_slash = True, st_query = []\<rparr>"

theorem canonical_path_reads_back_witness:
  "parse_url_path example_template (serialize_path [''items'', ''a b''] True) = Inr [''items'', ''a b'']
   \<and> serialize_path [''items'', ''a b''] True = ''/items/a%20b/''"
proof -
  have "parse_start_url_template example_url_parser example_template_json = Inr example_template" by code_simp
  moreover have "parse_url_path example_template ''/item%73/a%20b/'' = Inr [''items'', ''a b'']" by code_simp
  ultimately have "parse_url_path example_template
      (serialize_path [''items'', ''a b''] (st_trailing_slash example_template)) = Inr [''items'', ''a b'']"
    using canonical_path_reads_back[of example_url_parser example_template_json example_template "''/item%73/a%20b/''"
      "[''items'', ''a b'']"] by simp
  moreover have "serialize_path [''items'', ''a b''] True = ''/items/a%20b/''" by code_simp
  ultimately show ?thesis by (simp add: example_template_def)
qed

text \<open>A template with no path segment that forbids the trailing slash matches no URL.\<close>

lemma rootless_template_matches_nothing:
  assumes "st_segments t = []" "\<not> st_trailing_slash t" "take 1 p = ''/''"
  shows "isl (parse_url_path t p)"
proof -
  obtain r where "p = CHR ''/'' # r" using assms(3) by (cases p) auto
  then show ?thesis using assms(1,2) by (auto simp: parse_url_path_def Let_def ensureR_def ends_with_slash_def)
qed

end
