(* ===== verification/Collection_Topology.thy ===== *)
theory Collection_Topology
  imports Scrape_Policy Scrape_Value
begin

text \<open>
  The task kinds of a collection and their fan-out graph
  (\<open>src/src/public/contracts/collection-topology.ts\<close>): what a task emits, how it paginates,
  which tasks it fans out to, the parser, and the depth-first search that rejects a cyclic
  graph, with the proof that it decides acyclicity.
\<close>

section \<open>Task kinds\<close>

datatype emit_cardinality = Emit_One | Emit_Array

datatype limit_scope = Scope_Run | Scope_Task_Chain

record scrape_emit =
  em_items_pointer :: string
  em_cardinality :: emit_cardinality
  em_projection :: scrape_value
  em_limit :: "(limit_scope \<times> scrape_limit) option"

datatype pagination_contract =
    Page_Cursor predicate predicate string string
  | Page_Counter predicate predicate string int
  | Page_Observed_Link predicate predicate string string string

definition page_continue_when :: "pagination_contract \<Rightarrow> predicate" where
  "page_continue_when p = (case p of
     Page_Cursor c _ _ _ \<Rightarrow> c | Page_Counter c _ _ _ \<Rightarrow> c | Page_Observed_Link c _ _ _ _ \<Rightarrow> c)"

definition page_exhausted_when :: "pagination_contract \<Rightarrow> predicate" where
  "page_exhausted_when p = (case p of
     Page_Cursor _ e _ _ \<Rightarrow> e | Page_Counter _ e _ _ \<Rightarrow> e | Page_Observed_Link _ e _ _ _ \<Rightarrow> e)"

definition page_bind_input :: "pagination_contract \<Rightarrow> string" where
  "page_bind_input p = (case p of
     Page_Cursor _ _ _ b \<Rightarrow> b | Page_Counter _ _ b _ \<Rightarrow> b | Page_Observed_Link _ _ _ b _ \<Rightarrow> b)"

record task_pagination =
  tp_contract :: pagination_contract
  tp_max_pages_per_chain :: scrape_limit

record scrape_fanout =
  fo_id :: string
  fo_child_task_kind :: string
  fo_when :: "predicate option"
  fo_input :: "(string \<times> scrape_value) list"

datatype task_role = Role_Page | Role_Detail

datatype on_failure = Stop_Run | Continue_Independent

record task_kind =
  tk_id :: string
  tk_capability :: string
  tk_task_role :: task_role
  tk_page_outcome_ids :: "string list"
  tk_terminal_outcome_ids :: "string list"
  tk_emit :: "scrape_emit option"
  tk_pagination :: "task_pagination option"
  tk_fanout :: "scrape_fanout list"
  tk_on_failure :: on_failure

section \<open>Parsing\<close>

text \<open>A value that is one of the texts of a table.\<close>

definition parse_choice :: "(string \<times> 'a) list \<Rightarrow> String.literal \<Rightarrow> json \<Rightarrow> exn + 'a" where
  "parse_choice table e v = (case v of
     JStr s \<Rightarrow> (case map_of table s of Some x \<Rightarrow> Inr x | None \<Rightarrow> contract_error e)
   | _ \<Rightarrow> contract_error e)"

definition parse_emit_limit :: "json \<Rightarrow> exn + limit_scope \<times> scrape_limit" where
  "parse_emit_limit v =
     bindR (parse_exact_record [''scope'', ''value''] v) (\<lambda>r.
     bindR (parse_choice [(''run'', Scope_Run), (''task_chain'', Scope_Task_Chain)]
       (STR ''must be run or task_chain'') (fld r ''scope'')) (\<lambda>s.
     bindR (parse_scrape_limit (fld r ''value'')) (\<lambda>l. Inr (s, l))))"

definition parse_emit :: "json \<Rightarrow> exn + scrape_emit" where
  "parse_emit v =
     bindR (parse_exact_record [''items_pointer'', ''cardinality'', ''projection'', ''limit''] v) (\<lambda>r.
     bindR (parse_choice [(''one'', Emit_One), (''array'', Emit_Array)]
       (STR ''must be one or array'') (fld r ''cardinality'')) (\<lambda>c.
     bindR (parse_json_pointer (fld r ''items_pointer'')) (\<lambda>p.
     bindR (parse_scrape_value [Val_Task_Data, Val_Raw_Item] (fld r ''projection'')) (\<lambda>x.
     bindR (parse_nullable_with parse_emit_limit (fld r ''limit'')) (\<lambda>l.
       Inr \<lparr>em_items_pointer = p, em_cardinality = c, em_projection = x, em_limit = l\<rparr>)))))"

definition parse_pagination_predicates :: "jobject \<Rightarrow> exn + predicate \<times> predicate" where
  "parse_pagination_predicates r =
     bindR (parse_collection_predicate [Pred_Task_Data, Pred_Task_Outcome] (fld r ''continue_when'')) (\<lambda>c.
     bindR (parse_collection_predicate [Pred_Task_Data, Pred_Task_Outcome] (fld r ''exhausted_when'')) (\<lambda>e.
       Inr (c, e)))"

definition parse_pagination_contract :: "json \<Rightarrow> exn + pagination_contract" where
  "parse_pagination_contract v = bindR (as_object v) (\<lambda>raw.
     if field raw ''kind'' = Some (JStr ''cursor'') then
       bindR (parse_exact_record [''kind'', ''continue_when'', ''exhausted_when'', ''value_pointer'', ''bind_input''] v) (\<lambda>r.
       bindR (parse_pagination_predicates r) (\<lambda>(c, e).
       bindR (parse_json_pointer (fld r ''value_pointer'')) (\<lambda>p.
       bindR (parse_stable_contract_id (fld r ''bind_input'')) (\<lambda>b. Inr (Page_Cursor c e p b)))))
     else if field raw ''kind'' = Some (JStr ''counter'') then
       bindR (parse_exact_record [''kind'', ''continue_when'', ''exhausted_when'', ''bind_input'', ''step''] v) (\<lambda>r.
       bindR (parse_pagination_predicates r) (\<lambda>(c, e).
       bindR (parse_stable_contract_id (fld r ''bind_input'')) (\<lambda>b.
       bindR (parse_integer 1 1000000 (fld r ''step'')) (\<lambda>n. Inr (Page_Counter c e b n)))))
     else if field raw ''kind'' = Some (JStr ''observed_link'') then
       bindR (parse_exact_record [''kind'', ''continue_when'', ''exhausted_when'', ''value_pointer'', ''bind_input'',
         ''start_url_template_id''] v) (\<lambda>r.
       bindR (parse_pagination_predicates r) (\<lambda>(c, e).
       bindR (parse_json_pointer (fld r ''value_pointer'')) (\<lambda>p.
       bindR (parse_stable_contract_id (fld r ''bind_input'')) (\<lambda>b.
       bindR (parse_stable_contract_id (fld r ''start_url_template_id'')) (\<lambda>t.
         Inr (Page_Observed_Link c e p b t))))))
     else contract_error (STR ''must be cursor, counter, or observed_link''))"

definition parse_pagination :: "json \<Rightarrow> exn + task_pagination" where
  "parse_pagination v =
     bindR (parse_exact_record [''contract'', ''max_pages_per_chain''] v) (\<lambda>r.
     bindR (parse_pagination_contract (fld r ''contract'')) (\<lambda>c.
     bindR (parse_scrape_limit (fld r ''max_pages_per_chain'')) (\<lambda>m.
       Inr \<lparr>tp_contract = c, tp_max_pages_per_chain = m\<rparr>)))"

text \<open>The input maps of fan-outs and roots: each key a contract id, each value a scrape value.\<close>

definition parse_input_map :: "scrape_value_source list \<Rightarrow> json \<Rightarrow> exn + (string \<times> scrape_value) list" where
  "parse_input_map allowed v = bindR (parse_bounded_record 64 v) (\<lambda>r.
     mapR (\<lambda>(k, x). bindR (parse_stable_contract_id (JStr k)) (\<lambda>i.
       bindR (parse_scrape_value allowed x) (\<lambda>e. Inr (i, e)))) r)"

definition parse_fanout_edge :: "json \<Rightarrow> exn + scrape_fanout" where
  "parse_fanout_edge v =
     bindR (parse_exact_record [''id'', ''child_task_kind'', ''when'', ''input'', ''child_tasks_per_parent''] v) (\<lambda>r.
     ensureR (fld r ''child_tasks_per_parent'' = JNum (NInt 1)) (PublicContractError (STR ''must be 1''))
     (bindR (parse_stable_contract_id (fld r ''id'')) (\<lambda>i.
     bindR (parse_stable_contract_id (fld r ''child_task_kind'')) (\<lambda>c.
     bindR (parse_nullable_with (parse_collection_predicate [Pred_Parent_Item, Pred_Args]) (fld r ''when'')) (\<lambda>w.
     bindR (parse_input_map [Val_Parent_Item] (fld r ''input'')) (\<lambda>m.
       Inr \<lparr>fo_id = i, fo_child_task_kind = c, fo_when = w, fo_input = m\<rparr>))))))"

definition parse_fanout :: "json \<Rightarrow> exn + scrape_fanout list" where
  "parse_fanout v = bindR (parse_list_max 32 (STR ''must contain at most 32 fan-out edges'') v) (mapR parse_fanout_edge)"

definition parse_outcome_ids :: "bool \<Rightarrow> json \<Rightarrow> exn + string list" where
  "parse_outcome_ids require_one v =
     bindR (if require_one then parse_list_of 32 (STR ''must not be empty'') v
            else parse_list_max 32 (STR ''must be an array'') v) (\<lambda>xs.
     bindR (mapR parse_stable_contract_id xs) (\<lambda>ids.
     ensureR (distinct ids) (PublicContractError (STR ''must not contain duplicates'')) (Inr ids)))"

definition parse_task_kind :: "json \<Rightarrow> exn + task_kind" where
  "parse_task_kind v =
     bindR (parse_exact_record [''id'', ''capability'', ''task_role'', ''page_outcome_ids'', ''terminal_outcome_ids'',
       ''emit'', ''pagination'', ''fanout'', ''on_failure''] v) (\<lambda>r.
     bindR (parse_choice [(''page'', Role_Page), (''detail'', Role_Detail)]
       (STR ''must be page or detail'') (fld r ''task_role'')) (\<lambda>role.
     bindR (parse_choice [(''stop_run'', Stop_Run), (''continue_independent'', Continue_Independent)]
       (STR ''must be stop_run or continue_independent'') (fld r ''on_failure'')) (\<lambda>failure.
     bindR (parse_nullable_with parse_emit (fld r ''emit'')) (\<lambda>emit.
     bindR (parse_nullable_with parse_pagination (fld r ''pagination'')) (\<lambda>pagination.
     ensureR (\<not> (role = Role_Detail \<and> pagination \<noteq> None))
       (PublicContractError (STR ''is only allowed on a page task''))
     (ensureR (\<not> (role = Role_Detail \<and> map_option em_cardinality emit = Some Emit_Array))
       (PublicContractError (STR ''must be one for a detail task''))
     (bindR (parse_outcome_ids True (fld r ''page_outcome_ids'')) (\<lambda>pages.
     bindR (parse_outcome_ids False (fld r ''terminal_outcome_ids'')) (\<lambda>terminals.
     ensureR (\<not> list_ex (\<lambda>i. i \<in> set pages) terminals)
       (PublicContractError (STR ''page and terminal outcome ids must be disjoint''))
     (bindR (parse_stable_contract_id (fld r ''id'')) (\<lambda>i.
     bindR (parse_capability_id (fld r ''capability'')) (\<lambda>c.
     bindR (parse_fanout (fld r ''fanout'')) (\<lambda>fanout.
       Inr \<lparr>tk_id = i, tk_capability = c, tk_task_role = role, tk_page_outcome_ids = pages,
         tk_terminal_outcome_ids = terminals, tk_emit = emit, tk_pagination = pagination,
         tk_fanout = fanout, tk_on_failure = failure\<rparr>)))))))))))))"

section \<open>The fan-out graph\<close>

text \<open>\<open>assertAcyclic\<close>: \<open>visiting\<close> is the path down to the task, \<open>visited\<close> the tasks done.\<close>

type_synonym task_index = "(string \<times> task_kind) list"

definition task_index :: "task_kind list \<Rightarrow> task_index" where
  "task_index tasks = rev (map (\<lambda>t. (tk_id t, t)) tasks)"

text \<open>The search ends: going down an edge adds a declared task to the path, and the path has no repetition.\<close>

definition unexplored :: "task_index \<Rightarrow> string list \<Rightarrow> nat" where
  "unexplored by_id visiting = card (dom (map_of by_id) - set visiting)"

lemma unexplored_down:
  assumes "map_of by_id i = Some t" "i \<notin> set visiting"
  shows "unexplored by_id (i # visiting) < unexplored by_id visiting"
proof -
  have "finite (dom (map_of by_id))" by (rule finite_dom_map_of)
  moreover have "dom (map_of by_id) - set (i # visiting) \<subset> dom (map_of by_id) - set visiting"
    using assms by auto
  ultimately show ?thesis unfolding unexplored_def by (intro psubset_card_mono) auto
qed

function visit_task :: "task_index \<Rightarrow> string \<Rightarrow> string list \<Rightarrow> string list \<Rightarrow> exn + string list"
  and visit_edges :: "task_index \<Rightarrow> scrape_fanout list \<Rightarrow> string list \<Rightarrow> string list \<Rightarrow> exn + string list"
where
  "visit_task by_id i visiting visited =
     (if i \<in> set visited then Inr visited
      else if i \<in> set visiting then contract_error (STR ''fan-out task graph must be acyclic'')
      else (case map_of by_id i of
          None \<Rightarrow> contract_error (STR ''contains an unresolved fan-out task'')
        | Some t \<Rightarrow> bindR (visit_edges by_id (tk_fanout t) (i # visiting) visited) (\<lambda>vd. Inr (vd @ [i]))))"
| "visit_edges by_id [] visiting visited = Inr visited"
| "visit_edges by_id (e # es) visiting visited =
     bindR (visit_task by_id (fo_child_task_kind e) visiting visited) (\<lambda>vd. visit_edges by_id es visiting vd)"
  by pat_completeness auto

termination
  by (relation "measures [\<lambda>x. case x of Inl (b, i, p, d) \<Rightarrow> unexplored b p | Inr (b, es, p, d) \<Rightarrow> unexplored b p,
      \<lambda>x. case x of Inl _ \<Rightarrow> 0 | Inr (b, es, p, d) \<Rightarrow> Suc (length es)]")
    (auto intro: unexplored_down)

declare visit_task.simps [simp del]

definition assert_acyclic :: "task_kind list \<Rightarrow> exn + unit" where
  "assert_acyclic tasks =
     bindR (foldR (\<lambda>vd t. visit_task (task_index tasks) (tk_id t) [] vd) [] tasks) (\<lambda>_. Inr ())"

definition check_task_edges :: "string list \<Rightarrow> task_kind \<Rightarrow> exn + unit" where
  "check_task_edges known t =
     bindR (foldR (\<lambda>ids e.
        ensureR (fo_id e \<notin> set ids) (PublicContractError (STR ''must not contain duplicate edge ids''))
        (ensureR (fo_child_task_kind e \<in> set known) (PublicContractError (STR ''does not name a declared task kind''))
          (Inr (fo_id e # ids)))) [] (tk_fanout t)) (\<lambda>_. Inr ())"

definition parse_scrape_task_kinds :: "json \<Rightarrow> exn + task_kind list" where
  "parse_scrape_task_kinds v =
     bindR (parse_list_of 32 (STR ''must contain one to 32 task kinds'') v) (\<lambda>xs.
     bindR (mapR parse_task_kind xs) (\<lambda>tasks.
     ensureR (distinct (map tk_id tasks)) (PublicContractError (STR ''must not contain duplicate task ids''))
     (bindR (mapR (check_task_edges (map tk_id tasks)) tasks) (\<lambda>_.
     bindR (assert_acyclic tasks) (\<lambda>_. Inr tasks)))))"

section \<open>The search decides acyclicity\<close>

text \<open>The edges of the graph, from a task to the task it fans out to.\<close>

definition fanout_edges :: "task_kind list \<Rightarrow> (string \<times> string) set" where
  "fanout_edges tasks = {(tk_id t, fo_child_task_kind e) | t e. t \<in> set tasks \<and> e \<in> set (tk_fanout t)}"

lemma fanout_edges_pairs:
  "fanout_edges tasks = {(i, c). \<exists>cs. (i, cs) \<in> set (map (\<lambda>t. (tk_id t, map fo_child_task_kind (tk_fanout t))) tasks) \<and> c \<in> set cs}"
  by (force simp: fanout_edges_def)

definition index_edges :: "task_index \<Rightarrow> (string \<times> string) set" where
  "index_edges b = {(i, fo_child_task_kind e) | i t e. map_of b i = Some t \<and> e \<in> set (tk_fanout t)}"

text \<open>A list of tasks in which every edge leads back to an earlier task.\<close>

definition children_first :: "task_index \<Rightarrow> string list \<Rightarrow> bool" where
  "children_first b vd \<longleftrightarrow> distinct vd \<and>
     (\<forall>k < length vd. \<forall>c. (vd ! k, c) \<in> index_edges b \<longrightarrow> c \<in> set (take k vd))"

definition all_declared :: "task_index \<Rightarrow> bool" where
  "all_declared b \<longleftrightarrow> (\<forall>(i, c) \<in> index_edges b. map_of b c \<noteq> None)"

lemma children_first_snoc:
  assumes "children_first b vd" "i \<notin> set vd" "\<And>c. (i, c) \<in> index_edges b \<Longrightarrow> c \<in> set vd"
  shows "children_first b (vd @ [i])"
  using assms by (auto simp: children_first_def nth_append less_Suc_eq)

lemma visited_children_first:
  "visit_task b i p vd = Inr vd' \<Longrightarrow> children_first b vd \<Longrightarrow> set p \<inter> set vd = {} \<Longrightarrow>
     children_first b vd' \<and> set vd \<subseteq> set vd' \<and> i \<in> set vd' \<and> set p \<inter> set vd' = {}"
  "visit_edges b es p vd = Inr vd' \<Longrightarrow> children_first b vd \<Longrightarrow> set p \<inter> set vd = {} \<Longrightarrow>
     children_first b vd' \<and> set vd \<subseteq> set vd' \<and> fo_child_task_kind ` set es \<subseteq> set vd' \<and> set p \<inter> set vd' = {}"
proof (induction b i p vd and b es p vd arbitrary: vd' and vd' rule: visit_task_visit_edges.induct)
  case (1 b i p vd)
  show ?case
  proof (cases "i \<in> set vd")
    case True
    then show ?thesis using 1 by (simp add: visit_task.simps)
  next
    case False
    then obtain t wd where t: "i \<notin> set p" "map_of b i = Some t"
      "visit_edges b (tk_fanout t) (i # p) vd = Inr wd" "vd' = wd @ [i]"
      using "1.prems"(1) by (auto simp: visit_task.simps contract_error_def split: if_splits option.splits elim!: bindRE)
    have w: "children_first b wd" "set vd \<subseteq> set wd" "fo_child_task_kind ` set (tk_fanout t) \<subseteq> set wd"
      "set (i # p) \<inter> set wd = {}"
      using "1.IH"[OF False t(1,2,3)] "1.prems"(2,3) False by auto
    have "c \<in> set wd" if "(i, c) \<in> index_edges b" for c
      using that t(2) w(3) by (auto simp: index_edges_def)
    then have "children_first b (wd @ [i])" using w(1,4) by (intro children_first_snoc) auto
    then show ?thesis using w t(1,4) by auto
  qed
next
  case (2 b p vd)
  then show ?case by simp
next
  case (3 b e es p vd)
  from "3.prems"(1) obtain wd where wd: "visit_task b (fo_child_task_kind e) p vd = Inr wd"
      "visit_edges b es p wd = Inr vd'"
    by (auto elim!: bindRE)
  note a = "3.IH"(1)[OF wd(1) "3.prems"(2,3)]
  have "children_first b vd' \<and> set wd \<subseteq> set vd' \<and> fo_child_task_kind ` set es \<subseteq> set vd' \<and> set p \<inter> set vd' = {}"
    using "3.IH"(2)[OF wd(1) wd(2)] a by simp
  then show ?case using a by auto
qed

text \<open>A failure is a cycle: the task found again on the path is reached from itself.\<close>

lemma failed_visit_is_cycle:
  "visit_task b i p vd = Inl x \<Longrightarrow> all_declared b \<Longrightarrow> map_of b i \<noteq> None \<Longrightarrow>
     \<forall>q \<in> set p. (q, i) \<in> (index_edges b)\<^sup>+ \<Longrightarrow> \<exists>q. (q, q) \<in> (index_edges b)\<^sup>+"
  "visit_edges b es p vd = Inl x \<Longrightarrow> all_declared b \<Longrightarrow>
     \<forall>q \<in> set p. \<forall>e \<in> set es. (q, fo_child_task_kind e) \<in> (index_edges b)\<^sup>+ \<Longrightarrow>
     \<forall>e \<in> set es. map_of b (fo_child_task_kind e) \<noteq> None \<Longrightarrow> \<exists>q. (q, q) \<in> (index_edges b)\<^sup>+"
proof (induction b i p vd and b es p vd arbitrary: x and x rule: visit_task_visit_edges.induct)
  case (1 b i p vd)
  have nv: "i \<notin> set vd" using "1.prems"(1) by (auto simp: visit_task.simps)
  show ?case
  proof (cases "i \<in> set p")
    case True
    then show ?thesis using "1.prems"(4) by blast
  next
    case False
    obtain t where t: "map_of b i = Some t" using "1.prems"(3) by auto
    have e: "(i, fo_child_task_kind e) \<in> index_edges b" if "e \<in> set (tk_fanout t)" for e
      using that t by (auto simp: index_edges_def)
    have f: "visit_edges b (tk_fanout t) (i # p) vd = Inl x"
      using "1.prems"(1) nv False t by (auto simp: visit_task.simps bindR_def split: sum.splits)
    have reach: "\<forall>q \<in> set (i # p). \<forall>e \<in> set (tk_fanout t). (q, fo_child_task_kind e) \<in> (index_edges b)\<^sup>+"
      using e "1.prems"(4) by (auto intro: trancl_into_trancl)
    have decl: "\<forall>e \<in> set (tk_fanout t). map_of b (fo_child_task_kind e) \<noteq> None"
      using e "1.prems"(2) unfolding all_declared_def by blast
    show ?thesis by (rule "1.IH"[OF nv False t f "1.prems"(2) reach decl])
  qed
next
  case (2 b p vd)
  then show ?case by simp
next
  case (3 b e es p vd)
  show ?case
  proof (cases "visit_task b (fo_child_task_kind e) p vd")
    case (Inl y)
    show ?thesis by (rule "3.IH"(1)[OF Inl "3.prems"(2)]) (use "3.prems"(3,4) in auto)
  next
    case (Inr wd)
    then have "visit_edges b es p wd = Inl x" using "3.prems"(1) by simp
    then show ?thesis by (rule "3.IH"(2)[OF Inr _ "3.prems"(2)]) (use "3.prems"(3,4) in auto)
  qed
qed

lemma index_edges_fanout:
  assumes "distinct (map tk_id tasks)"
  shows "index_edges (task_index tasks) = fanout_edges tasks"
proof -
  have "map_of (task_index tasks) i = Some t \<longleftrightarrow> t \<in> set tasks \<and> tk_id t = i" for i t
  proof -
    have "distinct (map fst (task_index tasks))" using assms
      by (simp add: task_index_def rev_map[symmetric] comp_def)
    then have "map_of (task_index tasks) i = Some t \<longleftrightarrow> (i, t) \<in> set (task_index tasks)" by (rule map_of_eq_Some_iff)
    then show ?thesis by (auto simp: task_index_def)
  qed
  then show ?thesis by (auto simp: index_edges_def fanout_edges_def)
qed

lemma all_visited:
  assumes "foldR (\<lambda>vd t. visit_task b (tk_id t) [] vd) vd tasks = Inr vd'" "children_first b vd"
  shows "children_first b vd' \<and> set vd \<subseteq> set vd' \<and> tk_id ` set tasks \<subseteq> set vd'"
  using assms
proof (induction tasks arbitrary: vd)
  case (Cons t tasks)
  then obtain wd where w: "visit_task b (tk_id t) [] vd = Inr wd"
      "foldR (\<lambda>vd t. visit_task b (tk_id t) [] vd) wd tasks = Inr vd'"
    by (auto elim!: bindRE)
  have "children_first b wd \<and> set vd \<subseteq> set wd \<and> tk_id t \<in> set wd"
    using visited_children_first(1)[OF w(1)] Cons.prems(2) by simp
  then show ?case using Cons.IH[OF w(2)] by auto
qed simp

text \<open>The position in a list that puts children first is a rank that every edge lowers.\<close>

definition position :: "'a list \<Rightarrow> 'a \<Rightarrow> nat" where
  "position vd x = length (takeWhile (\<lambda>y. y \<noteq> x) vd)"

lemma position_nth: "distinct vd \<Longrightarrow> k < length vd \<Longrightarrow> position vd (vd ! k) = k"
proof -
  assume d: "distinct vd" "k < length vd"
  have "takeWhile (\<lambda>y. y \<noteq> vd ! k) vd = take k vd"
    using d by (intro takeWhile_eq_take_P_nth) (auto simp: nth_eq_iff_index_eq)
  then show ?thesis using d by (simp add: position_def)
qed

lemma position_less: "x \<in> set vd \<Longrightarrow> position vd x < length vd"
  by (induction vd) (auto simp: position_def)

lemma edge_lowers_position:
  assumes "children_first b vd" "(i, c) \<in> index_edges b" "i \<in> set vd"
  shows "position vd c < position vd i"
proof -
  obtain k where k: "k < length vd" "vd ! k = i" using assms(3) by (auto simp: in_set_conv_nth)
  have "c \<in> set (take k vd)" using assms(1,2) k by (auto simp: children_first_def)
  then obtain j where "j < k" "vd ! j = c" using k by (auto simp: in_set_conv_nth)
  then show ?thesis using k assms(1) by (auto simp: children_first_def position_nth)
qed

lemma assert_acyclic_ranks:
  assumes "assert_acyclic tasks = Inr ()" "distinct (map tk_id tasks)"
  shows "\<exists>vd. distinct vd \<and> tk_id ` set tasks \<subseteq> set vd \<and>
    (\<forall>(i, c) \<in> fanout_edges tasks. position vd c < position vd i \<and> c \<in> set vd)"
proof -
  let ?b = "task_index tasks"
  obtain vd where "foldR (\<lambda>vd t. visit_task ?b (tk_id t) [] vd) [] tasks = Inr vd"
    using assms(1) by (auto simp: assert_acyclic_def elim!: bindRE)
  moreover have "children_first ?b []" by (simp add: children_first_def)
  ultimately have v: "children_first ?b vd" "tk_id ` set tasks \<subseteq> set vd" by (auto dest: all_visited)
  have "position vd c < position vd i \<and> c \<in> set vd" if e: "(i, c) \<in> fanout_edges tasks" for i c
  proof -
    have i: "(i, c) \<in> index_edges ?b" "i \<in> set vd"
      using e v(2) by (auto simp: index_edges_fanout[OF assms(2)] fanout_edges_def)
    have "position vd c < position vd i" by (rule edge_lowers_position[OF v(1) i])
    moreover have "c \<in> set vd"
    proof -
      obtain k where "k < length vd" "vd ! k = i" using i(2) by (auto simp: in_set_conv_nth)
      then show ?thesis using v(1) i(1) by (auto simp: children_first_def dest: in_set_takeD)
    qed
    ultimately show ?thesis ..
  qed
  then show ?thesis using v by (intro exI[of _ vd]) (auto simp: children_first_def)
qed

lemma visit_all_or_fail:
  assumes "foldR (\<lambda>vd t. visit_task b (tk_id t) [] vd) vd tasks = Inl x"
  shows "\<exists>t vd. t \<in> set tasks \<and> visit_task b (tk_id t) [] vd = Inl x"
  using assms
proof (induction tasks arbitrary: vd)
  case (Cons t tasks)
  show ?case
  proof (cases "visit_task b (tk_id t) [] vd")
    case (Inl y)
    then show ?thesis using Cons.prems by auto
  next
    case (Inr wd)
    then have "foldR (\<lambda>vd t. visit_task b (tk_id t) [] vd) wd tasks = Inl x" using Cons.prems by simp
    from Cons.IH[OF this] show ?thesis by auto
  qed
qed simp

lemma assert_acyclic_iff:
  assumes "distinct (map tk_id tasks)"
    and declared: "\<And>i c. (i, c) \<in> fanout_edges tasks \<Longrightarrow> c \<in> tk_id ` set tasks"
  shows "assert_acyclic tasks = Inr () \<longleftrightarrow> acyclic (fanout_edges tasks)"
proof
  assume "assert_acyclic tasks = Inr ()"
  then obtain vd where "\<forall>(i, c) \<in> fanout_edges tasks. position vd c < position vd i"
    using assert_acyclic_ranks[OF _ assms(1)] by fast
  then have "(fanout_edges tasks)\<inverse> \<subseteq> measure (position vd)" by auto
  then have "wf ((fanout_edges tasks)\<inverse>)" by (rule wf_subset[OF wf_measure])
  then show "acyclic (fanout_edges tasks)" using wf_acyclic acyclic_converse by blast
next
  let ?b = "task_index tasks"
  assume ac: "acyclic (fanout_edges tasks)"
  show "assert_acyclic tasks = Inr ()"
  proof (cases "assert_acyclic tasks")
    case (Inl x)
    then obtain t vd where t: "t \<in> set tasks" "visit_task ?b (tk_id t) [] vd = Inl x"
      using visit_all_or_fail[of ?b "[]" tasks x] by (auto simp: assert_acyclic_def bindR_def split: sum.splits)
    have m: "map_of ?b (tk_id s) \<noteq> None" if "s \<in> set tasks" for s
      using that by (auto simp: task_index_def map_of_eq_None_iff image_image)
    have "all_declared ?b"
      using declared m unfolding all_declared_def index_edges_fanout[OF assms(1)] by blast
    then have "\<exists>q. (q, q) \<in> (index_edges ?b)\<^sup>+"
      using failed_visit_is_cycle(1)[OF t(2)] m[OF t(1)] by simp
    then show ?thesis using ac unfolding index_edges_fanout[OF assms(1)] acyclic_def by blast
  qed simp
qed

section \<open>Fan-out ends\<close>

lemma check_edges_declared:
  "foldR (\<lambda>ids e.
      ensureR (fo_id e \<notin> set ids) x
      (ensureR (fo_child_task_kind e \<in> set known) y (Inr (fo_id e # ids)))) ids es = Inr ids' \<Longrightarrow>
    fo_child_task_kind ` set es \<subseteq> set known"
  by (induction es arbitrary: ids) (auto simp: ensureR_Inr_iff elim!: bindRE)

lemma parse_scrape_task_kinds_ok:
  assumes "parse_scrape_task_kinds v = Inr tasks"
  shows "length tasks \<le> 32" "distinct (map tk_id tasks)" "assert_acyclic tasks = Inr ()"
    and "(i, c) \<in> fanout_edges tasks \<Longrightarrow> c \<in> tk_id ` set tasks"
proof -
  obtain xs us where p: "parse_list_of 32 (STR ''must contain one to 32 task kinds'') v = Inr xs"
    "mapR parse_task_kind xs = Inr tasks" "distinct (map tk_id tasks)"
    "mapR (check_task_edges (map tk_id tasks)) tasks = Inr us" "assert_acyclic tasks = Inr ()"
    using assms by (auto simp: parse_scrape_task_kinds_def ensureR_Inr_iff elim!: bindRE)
  show "length tasks \<le> 32" using mapR_length[OF p(2)] parse_list_of_Inr[OF p(1)] by simp
  show "distinct (map tk_id tasks)" "assert_acyclic tasks = Inr ()" by fact+
  assume "(i, c) \<in> fanout_edges tasks"
  then obtain t e where t: "t \<in> set tasks" "e \<in> set (tk_fanout t)" "c = fo_child_task_kind e"
    by (auto simp: fanout_edges_def)
  obtain u where "check_task_edges (map tk_id tasks) t = Inr u" using mapR_each[OF p(4) t(1)] by auto
  then have "fo_child_task_kind ` set (tk_fanout t) \<subseteq> set (map tk_id tasks)"
    unfolding check_task_edges_def by (elim bindRE) (rule check_edges_declared)
  then show "c \<in> tk_id ` set tasks" using t by auto
qed

text \<open>
  C18: fan-out ends. In the task kinds of a parsed collection no chain of fan-outs is longer
  than the number of other task kinds, of which there are at most 31; so the generations of
  nodes under a root are finitely many.
\<close>

theorem fanout_generations_bounded:
  assumes "parse_scrape_task_kinds v = Inr tasks" and "(i, c) \<in> fanout_edges tasks ^^ n"
  shows "n < length tasks \<and> length tasks \<le> 32"
proof -
  note ok = parse_scrape_task_kinds_ok[OF assms(1)]
  obtain vd where vd: "distinct vd" "\<And>i c. (i, c) \<in> fanout_edges tasks \<Longrightarrow> position vd c < position vd i \<and> c \<in> set vd"
    using assert_acyclic_ranks[OF ok(3,2)] by fast
  let ?ids = "filter (\<lambda>x. x \<in> tk_id ` set tasks) vd"
  have down: "n + card {x \<in> tk_id ` set tasks. position vd x < position vd c}
      \<le> card {x \<in> tk_id ` set tasks. position vd x < position vd i}"
    if "(i, c) \<in> fanout_edges tasks ^^ n" for n i c
    using that
  proof (induction n arbitrary: c)
    case (Suc n)
    then obtain b where b: "(i, b) \<in> fanout_edges tasks ^^ n" "(b, c) \<in> fanout_edges tasks" by auto
    have "{x \<in> tk_id ` set tasks. position vd x < position vd c} \<subset> {x \<in> tk_id ` set tasks. position vd x < position vd b}"
      using vd(2)[OF b(2)] ok(4)[OF b(2)] by auto
    then have "card {x \<in> tk_id ` set tasks. position vd x < position vd c} <
        card {x \<in> tk_id ` set tasks. position vd x < position vd b}"
      by (intro psubset_card_mono) auto
    then show ?case using Suc.IH[OF b(1)] by simp
  qed simp
  show ?thesis
  proof (cases n)
    case 0
    have "tasks \<noteq> []" using assms(1)
      by (auto simp: parse_scrape_task_kinds_def ensureR_Inr_iff elim!: bindRE dest!: parse_list_of_Inr mapR_length)
    then show ?thesis using 0 ok(1) by simp
  next
    case (Suc m)
    then obtain b where "(i, b) \<in> fanout_edges tasks" using assms(2) relpow_Suc_D2 by metis
    then have i: "i \<in> tk_id ` set tasks" by (auto simp: fanout_edges_def)
    have "{x \<in> tk_id ` set tasks. position vd x < position vd i} \<subset> tk_id ` set tasks" using i by auto
    then have "card {x \<in> tk_id ` set tasks. position vd x < position vd i} < card (tk_id ` set tasks)"
      by (intro psubset_card_mono) auto
    also have "\<dots> \<le> length tasks" using card_image_le[of "set tasks" tk_id] card_length[of tasks] by simp
    finally show ?thesis using down[OF assms(2)] ok(1) by linarith
  qed
qed

definition example_task_json :: "string \<Rightarrow> string list \<Rightarrow> json" where
  "example_task_json i children = JObj [(''id'', JStr i), (''capability'', JStr ''read''), (''task_role'', JStr ''page''),
     (''page_outcome_ids'', JArr [JStr ''ok'']), (''terminal_outcome_ids'', JArr []), (''emit'', JNull),
     (''pagination'', JNull),
     (''fanout'', JArr (map (\<lambda>c. JObj [(''id'', JStr c), (''child_task_kind'', JStr c), (''when'', JNull),
        (''input'', JObj []), (''child_tasks_per_parent'', JNum (NInt 1))]) children)),
     (''on_failure'', JStr ''stop_run'')]"

theorem fanout_generations_bounded_witness:
  "\<exists>tasks. parse_scrape_task_kinds (JArr [example_task_json ''a'' [''b'', ''c''], example_task_json ''b'' [''c''],
     example_task_json ''c'' []]) = Inr tasks \<and> (''a'', ''c'') \<in> fanout_edges tasks ^^ 2 \<and> 2 < length tasks"
proof -
  let ?v = "JArr [example_task_json ''a'' [''b'', ''c''], example_task_json ''b'' [''c''], example_task_json ''c'' []]"
  have check: "(case parse_scrape_task_kinds ?v of Inl _ \<Rightarrow> False | Inr ts \<Rightarrow>
      map (\<lambda>t. (tk_id t, map fo_child_task_kind (tk_fanout t))) ts = [(''a'', [''b'', ''c'']), (''b'', [''c'']), (''c'', [])])"
    by code_simp
  then obtain ts where ts: "parse_scrape_task_kinds ?v = Inr ts"
      "map (\<lambda>t. (tk_id t, map fo_child_task_kind (tk_fanout t))) ts = [(''a'', [''b'', ''c'']), (''b'', [''c'']), (''c'', [])]"
    by (auto split: sum.splits)
  have e: "(''a'', ''b'') \<in> fanout_edges ts" "(''b'', ''c'') \<in> fanout_edges ts"
    unfolding fanout_edges_pairs ts(2) by auto
  then have "(''a'', ''c'') \<in> fanout_edges ts ^^ 2" by (auto simp: numeral_2_eq_2)
  then show ?thesis using ts(1) fanout_generations_bounded[OF ts(1)] by blast
qed

end
