(* ===== verification/Collection_Contract.thy ===== *)
theory Collection_Contract
  imports Collection_Topology Semantic_Stop Inline_Bound Start_Url
begin

text \<open>
  The contract of a collection: its input modes and roots
  (\<open>src/src/public/contracts/collection-roots.ts\<close>) and the contract that binds them to the
  task kinds, the start URL templates, the item schema and the run policy
  (\<open>src/src/public/contracts/collection.ts\<close>), with the checks across its parts.

  The URL parser and the digest of a schema are parameters, as in the theories of the parts.
\<close>

section \<open>Input modes and roots\<close>

datatype binding_source = From_Args | From_Seed

record start_url_binding =
  ub_from :: binding_source
  ub_pointer :: string
  ub_template_id :: string
  ub_bind_input :: string

type_synonym input_map = "(string \<times> scrape_value) list"

datatype root_seed =
    Seed_Once input_map "start_url_binding option"
  | Seed_For_Each string scrape_limit input_map "start_url_binding option"

record scrape_root =
  sr_task_kind :: string
  sr_seed :: root_seed

record input_mode =
  im_id :: string
  im_populated_when :: predicate
  im_roots :: "scrape_root list"

datatype conflict_policy = Reject_Conflict | Prefer_First_Nonempty

record input_modes =
  ms_ordered_mode_ids :: "string list"
  ms_conflict_policy :: conflict_policy
  ms_modes :: "input_mode list"

definition parse_start_url_binding ::
  "binding_source list \<Rightarrow> string list \<Rightarrow> input_map \<Rightarrow> json \<Rightarrow> exn + start_url_binding option" where
  "parse_start_url_binding allowed template_ids input v =
     (if v = JNull then Inr None else
      bindR (parse_exact_record [''source'', ''template_id'', ''bind_input''] v) (\<lambda>r.
      bindR (parse_exact_record [''from'', ''pointer''] (fld r ''source'')) (\<lambda>s.
      bindR (parse_choice [(''args'', From_Args), (''seed'', From_Seed)]
        (STR ''must be args or seed'') (fld s ''from'')) (\<lambda>from.
      ensureR (from \<in> set allowed) (PublicContractError (STR ''is not available for this root''))
      (bindR (parse_stable_contract_id (fld r ''template_id'')) (\<lambda>template.
      ensureR (template \<in> set template_ids)
        (PublicContractError (STR ''does not name a declared start URL template''))
      (bindR (parse_stable_contract_id (fld r ''bind_input'')) (\<lambda>bind.
      ensureR (\<not> has_key input bind) (PublicContractError (STR ''must not also appear in the root input map''))
      (bindR (parse_json_pointer (fld s ''pointer'')) (\<lambda>p.
        Inr (Some \<lparr>ub_from = from, ub_pointer = p, ub_template_id = template, ub_bind_input = bind\<rparr>)))))))))))"

definition parse_root_seed :: "string list \<Rightarrow> json \<Rightarrow> exn + root_seed" where
  "parse_root_seed template_ids v = bindR (as_object v) (\<lambda>raw.
     if field raw ''kind'' = Some (JStr ''once'') then
       bindR (parse_exact_record [''kind'', ''input'', ''start_url''] v) (\<lambda>s.
       bindR (parse_input_map [Val_Args] (fld s ''input'')) (\<lambda>input.
       bindR (parse_start_url_binding [From_Args] template_ids input (fld s ''start_url'')) (\<lambda>u.
         Inr (Seed_Once input u))))
     else if field raw ''kind'' = Some (JStr ''for_each_input'') then
       bindR (parse_exact_record [''kind'', ''array_pointer'', ''maximum'', ''input'', ''start_url''] v) (\<lambda>s.
       bindR (parse_input_map [Val_Args, Val_Seed] (fld s ''input'')) (\<lambda>input.
       bindR (parse_start_url_binding [From_Args, From_Seed] template_ids input (fld s ''start_url'')) (\<lambda>u.
       bindR (parse_json_pointer (fld s ''array_pointer'')) (\<lambda>p.
       bindR (parse_scrape_limit (fld s ''maximum'')) (\<lambda>m.
         Inr (Seed_For_Each p m input u))))))
     else contract_error (STR ''must be once or for_each_input''))"

definition parse_root :: "string list \<Rightarrow> json \<Rightarrow> exn + scrape_root" where
  "parse_root template_ids v =
     bindR (parse_exact_record [''task_kind'', ''seed''] v) (\<lambda>r.
     bindR (parse_stable_contract_id (fld r ''task_kind'')) (\<lambda>t.
     bindR (parse_root_seed template_ids (fld r ''seed'')) (\<lambda>s. Inr \<lparr>sr_task_kind = t, sr_seed = s\<rparr>)))"

definition parse_input_mode :: "string list \<Rightarrow> json \<Rightarrow> exn + input_mode" where
  "parse_input_mode template_ids v =
     bindR (parse_exact_record [''id'', ''populated_when'', ''roots''] v) (\<lambda>r.
     bindR (parse_list_of 32 (STR ''must contain one to 32 roots'') (fld r ''roots'')) (\<lambda>raw.
     bindR (parse_stable_contract_id (fld r ''id'')) (\<lambda>i.
     bindR (parse_collection_predicate [Pred_Args] (fld r ''populated_when'')) (\<lambda>w.
     bindR (mapR (parse_root template_ids) raw) (\<lambda>roots.
       Inr \<lparr>im_id = i, im_populated_when = w, im_roots = roots\<rparr>)))))"

definition assert_unique_ids :: "string list \<Rightarrow> exn + unit" where
  "assert_unique_ids ids = ensureR (distinct ids)
     (PublicContractError (STR ''must not contain duplicate identifiers'')) (Inr ())"

definition parse_mode_order :: "string list \<Rightarrow> json \<Rightarrow> exn + string list" where
  "parse_mode_order mode_ids v = (case v of
     JArr raw \<Rightarrow>
       ensureR (length raw = length mode_ids) (PublicContractError (STR ''must contain every mode exactly once''))
       (bindR (mapR parse_stable_contract_id raw) (\<lambda>ids.
        bindR (assert_unique_ids ids) (\<lambda>_.
        ensureR (\<not> list_ex (\<lambda>i. i \<notin> set mode_ids) ids)
          (PublicContractError (STR ''must be an exact permutation of mode ids'')) (Inr ids))))
   | _ \<Rightarrow> contract_error (STR ''must contain every mode exactly once''))"

definition parse_scrape_input_modes :: "start_url_template list \<Rightarrow> json \<Rightarrow> exn + input_modes" where
  "parse_scrape_input_modes templates v =
     bindR (parse_exact_record [''ordered_mode_ids'', ''conflict_policy'', ''modes''] v) (\<lambda>r.
     bindR (parse_choice [(''reject'', Reject_Conflict), (''prefer_first_nonempty'', Prefer_First_Nonempty)]
       (STR ''must be reject or prefer_first_nonempty'') (fld r ''conflict_policy'')) (\<lambda>policy.
     bindR (parse_list_of 32 (STR ''must contain one to 32 modes'') (fld r ''modes'')) (\<lambda>raw.
     bindR (mapR (parse_input_mode (map st_id templates)) raw) (\<lambda>modes.
     bindR (assert_unique_ids (map im_id modes)) (\<lambda>_.
     bindR (parse_mode_order (map im_id modes) (fld r ''ordered_mode_ids'')) (\<lambda>ordered.
       Inr \<lparr>ms_ordered_mode_ids = ordered, ms_conflict_policy = policy, ms_modes = modes\<rparr>))))))"

section \<open>The contract\<close>

record csv_column =
  cc_name :: string
  cc_pointer :: string

record collection_contract =
  cn_input_modes :: input_modes
  cn_start_url_templates :: "start_url_template list"
  cn_item_schema :: json_schema
  cn_identity_pointers :: "string list"
  cn_inline_output_bound :: "inline_output_bound option"
  cn_semantic_stops :: "semantic_stop list"
  cn_csv_columns :: "csv_column list option"
  cn_task_kinds :: "task_kind list"
  cn_max_fanout_depth :: int
  cn_run_policy :: run_policy

definition collection_contract_keys :: "string list" where
  "collection_contract_keys = [''collection_schema_version'', ''input_modes'', ''start_url_templates'', ''item_schema'',
     ''item_identity'', ''inline_output_bound'', ''semantic_stops'', ''csv_columns'', ''task_kinds'',
     ''max_fanout_depth'', ''run_policy'']"

definition parse_item_identity :: "json \<Rightarrow> exn + string list" where
  "parse_item_identity v =
     bindR (parse_exact_record [''pointers''] v) (\<lambda>r.
     bindR (parse_list_of 8 (STR ''must contain one to eight pointers'') (fld r ''pointers'')) (\<lambda>raw.
     bindR (mapR parse_json_pointer raw) (\<lambda>ps.
     ensureR (distinct ps) (PublicContractError (STR ''must not contain duplicates'')) (Inr ps))))"

definition parse_csv_column :: "csv_column list \<Rightarrow> json \<Rightarrow> exn + csv_column list" where
  "parse_csv_column cols v =
     bindR (parse_exact_record [''name'', ''pointer''] v) (\<lambda>r.
     bindR (parse_string 128 (fld r ''name'')) (\<lambda>name.
     ensureR (name \<noteq> []) (PublicContractError (STR ''must not be empty''))
     (ensureR (name \<notin> set (map cc_name cols)) (PublicContractError (STR ''must not be duplicated''))
     (bindR (parse_json_pointer (fld r ''pointer'')) (\<lambda>p.
       Inr (cols @ [\<lparr>cc_name = name, cc_pointer = p\<rparr>]))))))"

definition parse_csv_columns :: "json \<Rightarrow> exn + csv_column list option" where
  "parse_csv_columns v =
     (if v = JNull then Inr None
      else bindR (parse_list_of 128 (STR ''must contain one to 128 declared columns'') v) (\<lambda>raw.
        bindR (foldR parse_csv_column [] raw) (\<lambda>cols. Inr (Some cols))))"

definition validate_template_references :: "collection_contract \<Rightarrow> exn + unit" where
  "validate_template_references c =
     bindR (mapR (\<lambda>t. case map_option tp_contract (tk_pagination t) of
         Some (Page_Observed_Link _ _ _ _ template) \<Rightarrow>
           ensureR (template \<in> set (map st_id (cn_start_url_templates c)))
             (PublicContractError (STR ''does not name a declared start URL template'')) (Inr ())
       | _ \<Rightarrow> Inr ()) (cn_task_kinds c)) (\<lambda>_. Inr ())"

text \<open>The limits of a collection in the order the code visits them.\<close>

definition root_limits :: "scrape_root \<Rightarrow> scrape_limit list" where
  "root_limits r = (case sr_seed r of Seed_Once _ _ \<Rightarrow> [] | Seed_For_Each _ m _ _ \<Rightarrow> [m])"

definition task_limits :: "task_kind \<Rightarrow> scrape_limit list" where
  "task_limits t =
     (case tk_emit t of None \<Rightarrow> [] | Some e \<Rightarrow> (case em_limit e of None \<Rightarrow> [] | Some (_, l) \<Rightarrow> [l])) @
     (case tk_pagination t of None \<Rightarrow> [] | Some p \<Rightarrow> [tp_max_pages_per_chain p])"

definition collect_limits :: "collection_contract \<Rightarrow> scrape_limit list" where
  "collect_limits c = concat (map (\<lambda>m. concat (map root_limits (im_roots m))) (ms_modes (cn_input_modes c))) @
     concat (map task_limits (cn_task_kinds c))"

definition validate_collection_limit_ids :: "collection_contract \<Rightarrow> exn + unit" where
  "validate_collection_limit_ids c =
     bindR (foldR (\<lambda>ids i. ensureR (i \<notin> set ids)
         (PublicContractError (STR ''limit ids must be unique across the collection'')) (Inr (ids @ [i])))
       [] (map limit_id (collect_limits c))) (\<lambda>_. Inr ())"

definition is_once :: "root_seed \<Rightarrow> bool" where
  "is_once s = (case s of Seed_Once _ _ \<Rightarrow> True | Seed_For_Each _ _ _ _ \<Rightarrow> False)"

definition validate_semantic_stop_topology :: "collection_contract \<Rightarrow> exn + unit" where
  "validate_semantic_stop_topology c =
     (if cn_semantic_stops c = [] then Inr ()
      else (case cn_task_kinds c of
          [t] \<Rightarrow>
            ensureR (tk_fanout t = []) (PublicContractError (STR ''requires exactly one task kind without fan-out''))
            (bindR (mapR (\<lambda>m. case im_roots m of
                 [r] \<Rightarrow> ensureR (sr_task_kind r = tk_id t \<and> is_once (sr_seed r))
                   (PublicContractError (STR ''requires one once-seeded root for the ordered task in every input mode''))
                   (Inr ())
               | _ \<Rightarrow> contract_error (STR ''requires one once-seeded root for the ordered task in every input mode''))
               (ms_modes (cn_input_modes c))) (\<lambda>_. Inr ()))
        | _ \<Rightarrow> contract_error (STR ''requires exactly one task kind without fan-out'')))"

definition parse_collection_run_contract ::
  "(json_schema \<Rightarrow> exn + string) \<Rightarrow> url_parser \<Rightarrow> json \<Rightarrow> exn + collection_contract" where
  "parse_collection_run_contract digest parse_url v =
     bindR (parse_exact_record collection_contract_keys v) (\<lambda>r.
     ensureR (fld r ''collection_schema_version'' = JNum (NInt 1)) (PublicContractError (STR ''must be 1''))
     (bindR (parse_list_max 32 (STR ''must contain at most 32 templates'') (fld r ''start_url_templates'')) (\<lambda>raw.
     bindR (mapR (parse_start_url_template parse_url) raw) (\<lambda>templates.
     ensureR (distinct (map st_id templates)) (PublicContractError (STR ''must not contain duplicate template ids''))
     (bindR (parse_json_schema (fld r ''item_schema'')) (\<lambda>schema.
     bindR (parse_scrape_task_kinds (fld r ''task_kinds'')) (\<lambda>tasks.
     bindR (parse_scrape_input_modes templates (fld r ''input_modes'')) (\<lambda>modes.
     bindR (parse_item_identity (fld r ''item_identity'')) (\<lambda>identity.
     bindR (parse_inline_output_bound digest (fld r ''inline_output_bound'') schema) (\<lambda>bound.
     bindR (parse_semantic_stops (fld r ''semantic_stops'')) (\<lambda>stops.
     bindR (parse_csv_columns (fld r ''csv_columns'')) (\<lambda>columns.
     bindR (parse_integer 0 3 (fld r ''max_fanout_depth'')) (\<lambda>depth.
     bindR (parse_collection_run_policy (fld r ''run_policy'')) (\<lambda>policy.
       let c = \<lparr>cn_input_modes = modes, cn_start_url_templates = templates, cn_item_schema = schema,
         cn_identity_pointers = identity, cn_inline_output_bound = bound, cn_semantic_stops = stops,
         cn_csv_columns = columns, cn_task_kinds = tasks, cn_max_fanout_depth = depth, cn_run_policy = policy\<rparr>
       in bindR (validate_template_references c) (\<lambda>_.
          bindR (validate_collection_limit_ids c) (\<lambda>_.
          bindR (validate_semantic_stop_topology c) (\<lambda>_. Inr c)))))))))))))))))"

end
