(* ===== verification/Run_Planner.thy ===== *)
theory Run_Planner
  imports Collection_Contract Frontier Attempt_Order
begin

text \<open>
  What a run will do: the plan of its roots (\<open>src/src/consumer/scrape/planner.ts\<close>), the
  expansion of a finished node into its children (\<open>fanout.ts\<close>) and the input of the next
  page of a chain (\<open>pagination.ts\<close>, \<open>task-result.ts\<close>).

  The capabilities of a package are an association list. The URL parser and builder and
  SHA-256 are parameters.
\<close>

section \<open>Planning\<close>

record planned_root =
  pr_task_kind_id :: string
  pr_capability :: string
  pr_input :: json
  pr_root_ordinal :: int
  pr_seed_ordinal :: "int option"

record run_plan =
  pl_selected_input_mode_id :: string
  pl_ignored_input_mode_ids :: "string list"
  pl_effective_bounds :: effective_bounds
  pl_roots :: "planned_root list"

definition planning_error :: "String.literal \<Rightarrow> exn + 'a" where
  "planning_error m = Inl (ScrapePlanningError m)"

text \<open>\<open>catch (error)\<close>: a contract error becomes a planning error.\<close>

definition as_planning_error :: "exn \<Rightarrow> exn" where
  "as_planning_error e = (if is_contract_error e then ScrapePlanningError (contract_message e) else e)"

text \<open>\<open>filter\<close> with a predicate that may throw.\<close>

fun filterR :: "('a \<Rightarrow> exn + bool) \<Rightarrow> 'a list \<Rightarrow> exn + 'a list" where
  "filterR f [] = Inr []"
| "filterR f (x # xs) = bindR (f x) (\<lambda>b. bindR (filterR f xs) (\<lambda>ys. Inr (if b then x # ys else ys)))"

definition args_context :: "json \<Rightarrow> predicate_context" where
  "args_context args s = (if s = Pred_Args then Some args else None)"

text \<open>A JavaScript \<open>Map\<close> built from a list: the last entry of a key wins.\<close>

definition index_by :: "('a \<Rightarrow> string) \<Rightarrow> 'a list \<Rightarrow> string \<Rightarrow> 'a option" where
  "index_by key xs = map_of (rev (map (\<lambda>x. (key x, x)) xs))"

definition select_input_mode ::
  "collection_contract \<Rightarrow> json \<Rightarrow> string option \<Rightarrow> exn + input_mode \<times> string list" where
  "select_input_mode c args requested =
     (let modes = index_by im_id (ms_modes (cn_input_modes c)) in
      bindR (filterR (\<lambda>i. case modes i of
          None \<Rightarrow> Inr False
        | Some m \<Rightarrow> evaluate_predicate (im_populated_when m) (args_context args))
        (ms_ordered_mode_ids (cn_input_modes c))) (\<lambda>matches.
      case requested of
        Some x \<Rightarrow>
          bindR (parse_stable_contract_id (JStr x)) (\<lambda>i.
          case modes i of
            None \<Rightarrow> planning_error (STR ''selected input mode is not declared'')
          | Some m \<Rightarrow>
              ensureR (i \<in> set matches)
                (ScrapePlanningError (STR ''selected input mode is not populated by this input''))
                (Inr (m, filter (\<lambda>j. j \<noteq> i) matches)))
      | None \<Rightarrow>
          (case matches of
             [] \<Rightarrow> planning_error (STR ''no input mode is populated by this input'')
           | i # rest \<Rightarrow>
               ensureR (\<not> (ms_conflict_policy (cn_input_modes c) = Reject_Conflict \<and> rest \<noteq> []))
                 (ScrapePlanningError (STR ''multiple input modes are populated by this input''))
                 (case modes i of
                    None \<Rightarrow> planning_error (STR ''selected input mode is not declared'')
                  | Some m \<Rightarrow> Inr (m, rest)))))"

definition seed_context :: "json \<Rightarrow> json option \<Rightarrow> scrape_value_context" where
  "seed_context args seed s = (case s of Val_Args \<Rightarrow> Some args | Val_Seed \<Rightarrow> seed | _ \<Rightarrow> None)"

definition materialize_input ::
  "url_parser \<Rightarrow> url_builder \<Rightarrow> start_url_template list \<Rightarrow> input_map \<Rightarrow> start_url_binding option \<Rightarrow> json \<Rightarrow> json option \<Rightarrow>
    exn + json" where
  "materialize_input parse_url build_url templates input start_url args seed =
     bindR (mapR (\<lambda>(k, x). bindR (evaluate_scrape_value x (seed_context args seed)) (\<lambda>v. Inr (k, v))) input) (\<lambda>kvs.
     case start_url of
       None \<Rightarrow> Inr (JObj kvs)
     | Some u \<Rightarrow>
         (case index_by st_id templates (ub_template_id u) of
            None \<Rightarrow> planning_error (STR ''start URL template is unavailable'')
          | Some t \<Rightarrow>
              (case (if ub_from u = From_Args then Some args else seed) of
                 None \<Rightarrow> planning_error (STR ''start URL seed source is unavailable'')
               | Some source \<Rightarrow>
                   bindR (catchR (resolve_json_pointer source (ub_pointer u)) as_planning_error) (\<lambda>raw.
                   bindR (validate_start_url parse_url build_url t raw) (\<lambda>url.
                     Inr (JObj (AList.update (ub_bind_input u) (JStr url) kvs)))))))"

definition resolve_seed_array :: "json \<Rightarrow> string \<Rightarrow> exn + json list" where
  "resolve_seed_array args p = bindR (catchR (resolve_json_pointer args p) as_planning_error) (\<lambda>v.
     case v of JArr xs \<Rightarrow> Inr xs | _ \<Rightarrow> planning_error (STR ''root seed pointer must resolve to an array''))"

record plan_context =
  pc_parse_url :: url_parser
  pc_build_url :: url_builder
  pc_collection :: collection_contract
  pc_capabilities :: "(string \<times> read_capability) list"
  pc_args :: json
  pc_named_limits :: "(string \<times> int) list"

text \<open>One iteration of the loop over the selected mode's roots.\<close>

definition plan_root :: "plan_context \<Rightarrow> int \<Rightarrow> scrape_root \<Rightarrow> exn + planned_root list" where
  "plan_root x root_ordinal r =
     (case index_by tk_id (cn_task_kinds (pc_collection x)) (sr_task_kind r) of
        None \<Rightarrow> planning_error (STR ''root is missing its task kind'')
      | Some t \<Rightarrow>
          ensureR (has_key (pc_capabilities x) (tk_capability t))
            (ScrapePlanningError (STR ''task is missing its capability''))
          (let planned = (\<lambda>input seed_ordinal. \<lparr>pr_task_kind_id = tk_id t, pr_capability = tk_capability t,
                 pr_input = input, pr_root_ordinal = root_ordinal, pr_seed_ordinal = seed_ordinal\<rparr>);
               materialize = materialize_input (pc_parse_url x) (pc_build_url x)
                 (cn_start_url_templates (pc_collection x))
           in (case sr_seed r of
                 Seed_Once input u \<Rightarrow>
                   bindR (materialize input u (pc_args x) None) (\<lambda>v. Inr [planned v None])
               | Seed_For_Each p m input u \<Rightarrow>
                   bindR (resolve_seed_array (pc_args x) p) (\<lambda>seeds.
                   case map_of (pc_named_limits x) (limit_id m) of
                     None \<Rightarrow> planning_error (STR ''root seed limit is unresolved'')
                   | Some maximum \<Rightarrow>
                       ensureR (int (length seeds) \<le> maximum)
                         (ScrapePlanningError (STR ''root seed array exceeds its declared limit''))
                       (mapR (\<lambda>(k, seed). bindR (materialize input u (pc_args x) (Some seed)) (\<lambda>v.
                          Inr (planned v (Some (int k))))) (zip [0..<length seeds] seeds))))))"

definition plan_roots :: "plan_context \<Rightarrow> scrape_root list \<Rightarrow> exn + planned_root list" where
  "plan_roots x roots = bindR (mapR (\<lambda>(k, r). plan_root x (int k) r) (zip [0..<length roots] roots)) (\<lambda>rs. Inr (concat rs))"

definition check_root_input :: "(string \<times> read_capability) list \<Rightarrow> planned_root \<Rightarrow> exn + unit" where
  "check_root_input capabilities r = (case map_of capabilities (pr_capability r) of
     None \<Rightarrow> planning_error (STR ''task capability is unavailable'')
   | Some c \<Rightarrow> bindR (catchR (validate_json_schema (rc_input_schema c) (pr_input r)) as_planning_error) (\<lambda>_. Inr ()))"

definition plan_scrape_run ::
  "url_parser \<Rightarrow> url_builder \<Rightarrow> read_capability \<Rightarrow> collection_contract option \<Rightarrow> (string \<times> read_capability) list \<Rightarrow>
    json \<Rightarrow> json \<Rightarrow> string option \<Rightarrow> exn + run_plan" where
  "plan_scrape_run parse_url build_url owner collection capabilities args caller_bounds requested =
     (case collection of
        None \<Rightarrow> planning_error (STR ''capability does not declare a collection'')
      | Some c \<Rightarrow>
          bindR (catchR (validate_json_schema (rc_input_schema owner) args) as_planning_error) (\<lambda>_.
          bindR (resolve_effective_run_bounds (cn_run_policy c) (collect_limits c) caller_bounds) (\<lambda>bounds.
          bindR (select_input_mode c args requested) (\<lambda>(selected, ignored).
          bindR (plan_roots \<lparr>pc_parse_url = parse_url, pc_build_url = build_url, pc_collection = c,
              pc_capabilities = capabilities, pc_args = args, pc_named_limits = eb_named_limits bounds\<rparr>
            (im_roots selected)) (\<lambda>roots.
          ensureR (int (length roots) \<le> rp_max_tasks (eb_policy bounds))
            (ScrapePlanningError (STR ''initial root count exceeds the signed task ceiling''))
          (bindR (mapR (check_root_input capabilities) roots) (\<lambda>_.
            Inr \<lparr>pl_selected_input_mode_id = im_id selected, pl_ignored_input_mode_ids = ignored,
              pl_effective_bounds = bounds, pl_roots = roots\<rparr>)))))))"

text \<open>
  In \<open>plan_roots\<close> the ordinal of a root is its position: the code counts it up once per root,
  whichever branch it takes.
\<close>

section \<open>Fan-out\<close>

definition parent_context :: "json \<Rightarrow> json \<Rightarrow> predicate_context" where
  "parent_context item args s = (case s of Pred_Parent_Item \<Rightarrow> Some item | Pred_Args \<Rightarrow> Some args | _ \<Rightarrow> None)"

definition parent_item_context :: "json \<Rightarrow> scrape_value_context" where
  "parent_item_context item s = (if s = Val_Parent_Item then Some item else None)"

definition fanout_key :: "string \<Rightarrow> string \<Rightarrow> string \<Rightarrow> json" where
  "fanout_key parent edge digest = JObj [(''kind'', JStr ''fanout''), (''parent_node_id'', JStr parent),
     (''edge_id'', JStr edge), (''parent_item_digest'', JStr digest)]"

record fanout_context =
  fc_sha :: hash
  fc_run_id :: string
  fc_args :: json
  fc_collection :: collection_contract
  fc_capabilities :: "(string \<times> read_capability) list"

text \<open>
  One edge on one parent item. The ordinal is allocated after every check, so a check that
  throws leaves it; \<open>None\<close> when the edge's predicate does not hold.
\<close>

definition expand_edge ::
  "fanout_context \<Rightarrow> scrape_node \<Rightarrow> json \<Rightarrow> scrape_fanout \<Rightarrow> exn + (string \<times> node_seed) option" where
  "expand_edge x n item e =
     bindR (case fo_when e of None \<Rightarrow> Inr True | Some p \<Rightarrow> evaluate_predicate p (parent_context item (fc_args x))) (\<lambda>b.
     if \<not> b then Inr None
     else (case index_by tk_id (cn_task_kinds (fc_collection x)) (fo_child_task_kind e) of
         None \<Rightarrow> contract_error (STR ''is unavailable'')
       | Some t \<Rightarrow>
           (case map_of (fc_capabilities x) (tk_capability t) of
              None \<Rightarrow> contract_error (STR ''is unavailable'')
            | Some c \<Rightarrow>
                ensureR (sn_depth n + 1 \<le> cn_max_fanout_depth (fc_collection x))
                  (PublicContractError (STR ''exceeds the signed graph depth''))
                (bindR (mapR (\<lambda>(k, v). bindR (evaluate_scrape_value v (parent_item_context item)) (\<lambda>y. Inr (k, y)))
                   (fo_input e)) (\<lambda>kvs.
                 bindR (validate_json_schema (rc_input_schema c) (JObj kvs)) (\<lambda>_.
                 bindR (canonical_json_digest (fc_sha x) item) (\<lambda>digest.
                   Inr (Some (digest, \<lparr>ns_task_kind_id = tk_id t, ns_capability = tk_capability t,
                     ns_input = JObj kvs, ns_root_ordinal = sn_root_ordinal n,
                     ns_seed_ordinal = sn_seed_ordinal n, ns_depth = sn_depth n + 1\<rparr>)))))))))"

text \<open>The loop over items and edges; the state is the next output ordinal.\<close>

fun expand_pairs ::
  "fanout_context \<Rightarrow> scrape_node \<Rightarrow> (json \<times> scrape_fanout) list \<Rightarrow> int \<Rightarrow> int \<times> (exn + scrape_node list)" where
  "expand_pairs x n [] ordinal = (ordinal, Inr [])"
| "expand_pairs x n ((item, e) # rest) ordinal =
     (case expand_edge x n item e of
        Inl err \<Rightarrow> (ordinal, Inl err)
      | Inr None \<Rightarrow> expand_pairs x n rest ordinal
      | Inr (Some (digest, seed)) \<Rightarrow>
          (case create_scrape_node (fc_sha x) (fc_run_id x) (fanout_key (sn_node_id n) (fo_id e) digest) ordinal seed of
             Inl err \<Rightarrow> (ordinal + 1, Inl err)
           | Inr child \<Rightarrow>
               (case expand_pairs x n rest (ordinal + 1) of
                  (o', Inl err) \<Rightarrow> (o', Inl err)
                | (o', Inr children) \<Rightarrow> (o', Inr (child # children)))))"

definition expand_scrape_fanout ::
  "fanout_context \<Rightarrow> task_kind \<Rightarrow> json list \<Rightarrow> scrape_node \<Rightarrow> int \<Rightarrow> int \<times> (exn + scrape_node list)" where
  "expand_scrape_fanout x t items n ordinal =
     expand_pairs x n (concat (map (\<lambda>item. map (\<lambda>e. (item, e)) (tk_fanout t)) items)) ordinal"

section \<open>Pagination\<close>

record outcome_result =
  or_outcome_id :: string
  or_outcome_class :: string
  or_data :: json
  or_attempts :: int

definition outcome_context :: "outcome_result \<Rightarrow> json" where
  "outcome_context r = JObj [(''id'', JStr (or_outcome_id r)), (''class'', JStr (or_outcome_class r))]"

definition page_context :: "outcome_result \<Rightarrow> predicate_context" where
  "page_context r s = (case s of
     Pred_Task_Outcome \<Rightarrow> Some (outcome_context r)
   | Pred_Task_Data \<Rightarrow> if or_data r = JNull then None else Some (or_data r)
   | _ \<Rightarrow> None)"

definition next_page_value ::
  "url_parser \<Rightarrow> url_builder \<Rightarrow> start_url_template list \<Rightarrow> pagination_contract \<Rightarrow> jobject \<Rightarrow> json \<Rightarrow> exn + json" where
  "next_page_value parse_url build_url templates p kvs data = (case p of
     Page_Counter _ _ b step \<Rightarrow>
       (case field kvs b of
          Some (JNum (NInt i)) \<Rightarrow>
            ensureR (\<bar>i\<bar> \<le> max_safe_integer) (PublicContractError (STR ''binding must be a safe integer''))
            (ensureR (\<bar>i + step\<bar> \<le> max_safe_integer) (PublicContractError (STR ''increment is out of range''))
              (Inr (JNum (NInt (i + step)))))
        | _ \<Rightarrow> contract_error (STR ''binding must be a safe integer''))
   | Page_Cursor _ _ pointer _ \<Rightarrow> resolve_json_pointer data pointer
   | Page_Observed_Link _ _ pointer _ template \<Rightarrow>
       bindR (resolve_json_pointer data pointer) (\<lambda>v.
       case index_by st_id templates template of
         None \<Rightarrow> contract_error (STR ''is unavailable'')
       | Some t \<Rightarrow> bindR (validate_start_url parse_url build_url t v) (\<lambda>url. Inr (JStr url))))"

definition next_pagination_input ::
  "url_parser \<Rightarrow> url_builder \<Rightarrow> start_url_template list \<Rightarrow> task_kind \<Rightarrow> json \<Rightarrow> outcome_result \<Rightarrow> exn + json option" where
  "next_pagination_input parse_url build_url templates t input r = (case tk_pagination t of
     None \<Rightarrow> Inr None
   | Some pg \<Rightarrow>
       bindR (evaluate_predicate (page_continue_when (tp_contract pg)) (page_context r)) (\<lambda>c.
       bindR (evaluate_predicate (page_exhausted_when (tp_contract pg)) (page_context r)) (\<lambda>e.
       ensureR (c \<noteq> e) (PublicContractError (STR ''continuation and exhaustion predicates are indeterminate''))
       (if e then Inr None
        else (case input of
            JObj kvs \<Rightarrow>
              ensureR (or_data r \<noteq> JNull) (PublicContractError (STR ''continuation requires task data''))
              (bindR (next_page_value parse_url build_url templates (tp_contract pg) kvs (or_data r)) (\<lambda>v.
                Inr (Some (JObj (AList.update (page_bind_input (tp_contract pg)) v kvs)))))
          | _ \<Rightarrow> contract_error (STR ''must be a JSON object''))))))"

section \<open>Plans are executable\<close>

lemma default_limits_dom:
  "limit_id ` set ls \<union> dom (map_of m) \<subseteq> dom (map_of (foldl (\<lambda>m l. AList.update (limit_id l) (limit_default l) m) m ls))"
proof (induction ls arbitrary: m)
  case (Cons l ls)
  have "limit_id ` set (l # ls) \<union> dom (map_of m) \<subseteq>
      limit_id ` set ls \<union> dom (map_of (AList.update (limit_id l) (limit_default l) m))"
    by auto
  also have "\<dots> \<subseteq> dom (map_of (foldl (\<lambda>m l. AList.update (limit_id l) (limit_default l) m) m (l # ls)))"
    unfolding foldl.simps by (rule Cons.IH)
  finally show ?case .
qed simp

lemma apply_caller_limits_dom:
  "foldR (apply_caller_limit limits) named ks = Inr named' \<Longrightarrow> dom (map_of named) \<subseteq> dom (map_of named')"
proof (induction ks arbitrary: named)
  case (Cons k ks)
  then obtain m where m: "apply_caller_limit limits named k = Inr m" "dom (map_of m) \<subseteq> dom (map_of named')"
    by (auto elim!: bindRE)
  have "dom (map_of named) \<subseteq> dom (map_of m)" using m(1)
    by (cases k) (auto simp: apply_caller_limit_def contract_error_def elim!: bindRE split: option.splits scrape_limit.splits if_splits)
  with m(2) show ?case by simp
qed simp

lemma resolved_limits_and_tasks:
  assumes "resolve_effective_run_bounds p declared v = Inr eb"
  shows "limit_id ` set declared \<subseteq> dom (map_of (eb_named_limits eb))" "rp_max_tasks (eb_policy eb) = rp_max_tasks p"
proof -
  obtain opts :: caller_bounds and limits named a b c d e where
    "index_limits declared = Inr limits"
    and nm: "foldR (apply_caller_limit limits)
        (foldl (\<lambda>m l. AList.update (limit_id l) (limit_default l) m) [] declared)
        (case cb_limits opts of None \<Rightarrow> [] | Some m \<Rightarrow> m) = Inr named"
    and "lower_bound (cb_max_concurrency opts) (rp_max_concurrency p) = Inr a"
      "lower_bound (cb_max_items opts) (rp_max_items p) = Inr b"
      "lower_bound (cb_max_pages opts) (rp_max_pages p) = Inr c"
      "lower_bound (cb_max_requests opts) (rp_max_requests p) = Inr d"
      "lower_bound (cb_timeout_ms opts) (rp_total_timeout_ms p) = Inr e"
    and eb: "eb = \<lparr>eb_policy = p\<lparr>rp_max_concurrency := a, rp_max_items := b, rp_max_pages := c,
      rp_max_requests := d, rp_total_timeout_ms := e\<rparr>, eb_named_limits = named\<rparr>"
    using assms by (rule resolve_cases)
  have "limit_id ` set declared \<subseteq> dom (map_of named)"
    using default_limits_dom[of declared "[]"] apply_caller_limits_dom[OF nm] by simp
  then show "limit_id ` set declared \<subseteq> dom (map_of (eb_named_limits eb))" "rp_max_tasks (eb_policy eb) = rp_max_tasks p"
    by (simp_all add: eb)
qed

definition ordinals :: "planned_root \<Rightarrow> int \<times> int option" where
  "ordinals r = (pr_root_ordinal r, pr_seed_ordinal r)"

lemma seeds_numbered:
  "mapR (\<lambda>(k, seed). bindR (f seed) (\<lambda>v. Inr (mk v (Some (int k))))) (zip ks seeds) = Inr rs \<Longrightarrow>
    length ks = length seeds \<Longrightarrow> (\<And>v s. pr_root_ordinal (mk v s) = n \<and> pr_seed_ordinal (mk v s) = s) \<Longrightarrow>
    map ordinals rs = map (\<lambda>k. (n, Some (int k))) ks"
proof (induction ks seeds arbitrary: rs rule: list_induct2')
  case (4 k ks s seeds)
  then show ?case by (auto simp: ordinals_def elim!: bindRE)
qed auto

lemma plan_root_ordinals:
  assumes "plan_root x n r = Inr rs"
  shows "(\<forall>p \<in> set rs. pr_root_ordinal p = n) \<and> distinct (map ordinals rs)"
proof (cases "sr_seed r")
  case (Seed_Once input u)
  then show ?thesis using assms
    by (auto simp: plan_root_def planning_error_def ensureR_Inr_iff split: option.splits elim!: bindRE)
next
  case (Seed_For_Each p m input u)
  let ?t = "the (index_by tk_id (cn_task_kinds (pc_collection x)) (sr_task_kind r))"
  let ?mk = "\<lambda>v s. \<lparr>pr_task_kind_id = tk_id ?t, pr_capability = tk_capability ?t, pr_input = v,
    pr_root_ordinal = n, pr_seed_ordinal = s\<rparr>"
  obtain seeds where e: "mapR (\<lambda>(k, seed). bindR (materialize_input (pc_parse_url x) (pc_build_url x)
      (cn_start_url_templates (pc_collection x)) input u (pc_args x) (Some seed)) (\<lambda>v. Inr (?mk v (Some (int k)))))
      (zip [0..<length seeds] seeds) = Inr rs"
    using assms Seed_For_Each
    by (auto simp: plan_root_def planning_error_def ensureR_Inr_iff split: option.splits elim!: bindRE)
  have m: "map ordinals rs = map (\<lambda>k. (n, Some (int k))) [0..<length seeds]"
    by (rule seeds_numbered[OF e]) auto
  have "distinct (map (\<lambda>k. (n, Some (int k))) [0..<length seeds])" by (simp add: distinct_map inj_on_def)
  moreover have "pr_root_ordinal p = n" if "p \<in> set rs" for p
  proof -
    have "ordinals p \<in> set (map ordinals rs)" using that by simp
    then show ?thesis unfolding m by (auto simp: ordinals_def)
  qed
  ultimately show ?thesis using m by simp
qed

lemma plan_roots_ordinals:
  "mapR (\<lambda>(k, r). plan_root x (int k) r) (zip [n..<n + length roots] roots) = Inr rss \<Longrightarrow>
    distinct (map ordinals (concat rss)) \<and> (\<forall>p \<in> set (concat rss). int n \<le> pr_root_ordinal p)"
proof (induction roots arbitrary: n rss)
  case (Cons r roots)
  have z: "zip [n..<n + length (r # roots)] (r # roots) = (n, r) # zip [Suc n..<Suc n + length roots] roots"
    by (simp add: upt_conv_Cons del: upt_Suc)
  obtain rs rss' where rs: "plan_root x (int n) r = Inr rs" "rss = rs # rss'"
    "mapR (\<lambda>(k, r). plan_root x (int k) r) (zip [Suc n..<Suc n + length roots] roots) = Inr rss'"
    using Cons.prems unfolding z by (auto elim!: bindRE)
  note a = plan_root_ordinals[OF rs(1)] and b = Cons.IH[OF rs(3)]
  have "set (map ordinals rs) \<inter> set (map ordinals (concat rss')) = {}"
    using a b by (force simp: ordinals_def)
  then show ?case using a b rs(2) by (auto simp del: set_concat)
qed simp

lemma plan_cases:
  assumes "plan_scrape_run parse_url build_url owner (Some c) capabilities args caller requested = Inr plan"
  obtains bounds selected ignored x roots us where
    "resolve_effective_run_bounds (cn_run_policy c) (collect_limits c) caller = Inr bounds"
    "select_input_mode c args requested = Inr (selected, ignored)"
    "plan_roots x (im_roots selected) = Inr roots" "pc_collection x = c"
    "int (length roots) \<le> rp_max_tasks (eb_policy bounds)"
    "mapR (check_root_input capabilities) roots = Inr us"
    "plan = \<lparr>pl_selected_input_mode_id = im_id selected, pl_ignored_input_mode_ids = ignored,
       pl_effective_bounds = bounds, pl_roots = roots\<rparr>"
proof -
  from assms obtain bounds sel roots us where
    a: "resolve_effective_run_bounds (cn_run_policy c) (collect_limits c) caller = Inr bounds"
    and b: "select_input_mode c args requested = Inr sel"
    and d: "plan_roots \<lparr>pc_parse_url = parse_url, pc_build_url = build_url, pc_collection = c,
              pc_capabilities = capabilities, pc_args = args, pc_named_limits = eb_named_limits bounds\<rparr>
            (im_roots (fst sel)) = Inr roots"
    and e: "int (length roots) \<le> rp_max_tasks (eb_policy bounds)" "mapR (check_root_input capabilities) roots = Inr us"
    and f: "plan = \<lparr>pl_selected_input_mode_id = im_id (fst sel), pl_ignored_input_mode_ids = snd sel,
              pl_effective_bounds = bounds, pl_roots = roots\<rparr>"
    unfolding plan_scrape_run_def by (auto simp: ensureR_Inr_iff elim!: bindRE)
  show ?thesis by (rule that[OF a _ d _ e f]) (use b in auto)
qed

text \<open>
  C19: a plan can be executed as it is. Every planned root names a capability of the package
  whose input schema accepts the planned input; the roots fit the signed task ceiling; no two
  roots have the same root and seed ordinals; and every limit the collection declares has a
  value, so that no later look-up of a limit finds none.
\<close>

theorem plan_is_executable:
  assumes "plan_scrape_run parse_url build_url owner (Some c) capabilities args caller requested = Inr plan"
  shows "(\<forall>r \<in> set (pl_roots plan). \<exists>cap. map_of capabilities (pr_capability r) = Some cap \<and>
      validate_json_schema (rc_input_schema cap) (pr_input r) = Inr (pr_input r)) \<and>
    int (length (pl_roots plan)) \<le> rp_max_tasks (cn_run_policy c) \<and>
    distinct (map ordinals (pl_roots plan)) \<and>
    (\<forall>l \<in> set (collect_limits c). \<exists>n. map_of (eb_named_limits (pl_effective_bounds plan)) (limit_id l) = Some n)"
proof -
  obtain bounds :: effective_bounds and selected :: input_mode and ignored and x :: plan_context and roots us where
    pc: "resolve_effective_run_bounds (cn_run_policy c) (collect_limits c) caller = Inr bounds"
    "plan_roots x (im_roots selected) = Inr roots"
    "int (length roots) \<le> rp_max_tasks (eb_policy bounds)" "mapR (check_root_input capabilities) roots = Inr us"
    "plan = \<lparr>pl_selected_input_mode_id = im_id selected, pl_ignored_input_mode_ids = ignored,
       pl_effective_bounds = bounds, pl_roots = roots\<rparr>"
    by (rule plan_cases[OF assms]) (rule that)
  obtain rss where rss: "mapR (\<lambda>(k, r). plan_root x (int k) r) (zip [0..<0 + length (im_roots selected)] (im_roots selected)) = Inr rss"
      "roots = concat rss"
    using pc(2) by (auto simp: plan_roots_def elim!: bindRE)
  have "\<exists>cap. map_of capabilities (pr_capability r) = Some cap \<and>
      validate_json_schema (rc_input_schema cap) (pr_input r) = Inr (pr_input r)" if r: "r \<in> set roots" for r
  proof -
    obtain u where "check_root_input capabilities r = Inr u" using mapR_each[OF pc(4) r] by auto
    then show ?thesis
      by (auto simp: check_root_input_def planning_error_def catchR_Inr_iff validate_json_schema_def
        split: option.splits elim!: bindRE)
  qed
  then show ?thesis
    using pc(3,5) resolved_limits_and_tasks[OF pc(1)] plan_roots_ordinals[OF rss(1)] rss(2) by auto
qed

text \<open>
  C20: a collection with semantic cutoffs is one chain. Its plan has a single root, of its
  single task kind, which fans out to nothing, so its items reach the cutoff tracker in the
  order of the pages.
\<close>

theorem ordered_collection_is_one_chain:
  assumes "validate_semantic_stop_topology c = Inr ()" "cn_semantic_stops c \<noteq> []"
    and "distinct (map tk_id (cn_task_kinds c))"
    and "plan_scrape_run parse_url build_url owner (Some c) capabilities args caller requested = Inr plan"
  shows "\<exists>r t. pl_roots plan = [r] \<and> cn_task_kinds c = [t] \<and> pr_task_kind_id r = tk_id t \<and> tk_fanout t = []"
proof -
  obtain bounds :: effective_bounds and selected :: input_mode and ignored and x :: plan_context and roots where
    pc: "select_input_mode c args requested = Inr (selected, ignored)"
    "plan_roots x (im_roots selected) = Inr roots" "pc_collection x = c"
    "plan = \<lparr>pl_selected_input_mode_id = im_id selected, pl_ignored_input_mode_ids = ignored,
       pl_effective_bounds = bounds, pl_roots = roots\<rparr>"
    by (rule plan_cases[OF assms(4)]) (rule that)
  obtain t us where t: "cn_task_kinds c = [t]" "tk_fanout t = []"
    and ms: "mapR (\<lambda>m. case im_roots m of
        [r] \<Rightarrow> ensureR (sr_task_kind r = tk_id t \<and> is_once (sr_seed r))
          (PublicContractError (STR ''requires one once-seeded root for the ordered task in every input mode'')) (Inr ())
      | _ \<Rightarrow> contract_error (STR ''requires one once-seeded root for the ordered task in every input mode''))
      (ms_modes (cn_input_modes c)) = Inr us"
    using assms(1,2) unfolding validate_semantic_stop_topology_def
    by (auto simp: contract_error_def ensureR_Inr_iff elim!: bindRE split: list.splits if_splits)
  have "selected \<in> set (ms_modes (cn_input_modes c))"
    using pc(1) by (auto simp: select_input_mode_def Let_def planning_error_def index_by_def ensureR_Inr_iff
      elim!: bindRE split: option.splits list.splits dest!: map_of_SomeD)
  then obtain u where "(case im_roots selected of
        [r] \<Rightarrow> ensureR (sr_task_kind r = tk_id t \<and> is_once (sr_seed r))
          (PublicContractError (STR ''requires one once-seeded root for the ordered task in every input mode'')) (Inr ())
      | _ \<Rightarrow> contract_error (STR ''requires one once-seeded root for the ordered task in every input mode'')) = Inr u"
    using mapR_each[OF ms] by blast
  then obtain r where r: "im_roots selected = [r]" "sr_task_kind r = tk_id t" "is_once (sr_seed r)"
    by (auto simp: contract_error_def ensureR_Inr_iff split: list.splits)
  obtain rs where rs: "plan_root x 0 r = Inr rs" "roots = rs"
    using pc(2) r(1) by (auto simp: plan_roots_def elim!: bindRE)
  obtain input b where once: "sr_seed r = Seed_Once input b"
    using r(3) by (auto simp: is_once_def split: root_seed.splits)
  obtain p where "rs = [p]" "pr_task_kind_id p = tk_id t"
    using rs(1) once r(2) pc(3) t(1)
    by (auto simp: plan_root_def planning_error_def ensureR_Inr_iff index_by_def split: option.splits if_splits elim!: bindRE)
  then show ?thesis using rs(2) pc(4) t by auto
qed

section \<open>Examples\<close>

text \<open>A listing of given ids, one page each, and a listing that ends at a date.\<close>

definition id_schema :: json_schema where
  "id_schema = S_Object False [(''id'', S_String False None (Some 8) None)] [''id''] None None None None"

definition ids_schema :: json_schema where
  "ids_schema = S_Object False [(''ids'', S_Array False (S_String False None (Some 8) None) None (Some 4) None)]
     [''ids''] None None None None"

definition page_task :: task_kind where
  "page_task = \<lparr>tk_id = ''page'', tk_capability = ''list'', tk_task_role = Role_Page, tk_page_outcome_ids = [''ok''],
     tk_terminal_outcome_ids = [], tk_emit = None,
     tk_pagination = Some \<lparr>tp_contract = Page_Counter (P_Exists \<lparr>ref_from = Pred_Task_Data, ref_pointer = ''/next''\<rparr>)
         (P_Not_Exists \<lparr>ref_from = Pred_Task_Data, ref_pointer = ''/next''\<rparr>) ''page'' 1,
       tp_max_pages_per_chain = Caller_Limit ''pages'' 2 5\<rparr>,
     tk_fanout = [], tk_on_failure = Stop_Run\<rparr>"

definition list_capability :: read_capability where
  "list_capability = \<lparr>rc_id = ''list'', rc_input_schema = id_schema, rc_max_encoded_outcome_bytes = 1024,
     rc_max_target_requests_per_call = 2, rc_safe_read = [True]\<rparr>"

definition seeded_mode :: input_mode where
  "seeded_mode = \<lparr>im_id = ''by_id'', im_populated_when = P_Exists \<lparr>ref_from = Pred_Args, ref_pointer = ''/ids''\<rparr>,
     im_roots = [\<lparr>sr_task_kind = ''page'',
       sr_seed = Seed_For_Each ''/ids'' (Fixed_Limit ''seeds'' 3) [(''id'', V_Get Val_Seed [])] None\<rparr>]\<rparr>"

definition once_mode :: input_mode where
  "once_mode = \<lparr>im_id = ''first'', im_populated_when = P_Exists \<lparr>ref_from = Pred_Args, ref_pointer = ''/ids''\<rparr>,
     im_roots = [\<lparr>sr_task_kind = ''page'', sr_seed = Seed_Once [(''id'', V_Get Val_Args ''/ids/0'')] None\<rparr>]\<rparr>"

definition example_collection :: "input_mode \<Rightarrow> semantic_stop list \<Rightarrow> collection_contract" where
  "example_collection m stops = \<lparr>cn_input_modes = \<lparr>ms_ordered_mode_ids = [im_id m], ms_conflict_policy = Reject_Conflict,
       ms_modes = [m]\<rparr>,
     cn_start_url_templates = [], cn_item_schema = id_schema, cn_identity_pointers = [''/id''],
     cn_inline_output_bound = None, cn_semantic_stops = stops, cn_csv_columns = None, cn_task_kinds = [page_task],
     cn_max_fanout_depth = 0, cn_run_policy = example_run_policy\<rparr>"

definition example_plan :: "input_mode \<Rightarrow> semantic_stop list \<Rightarrow> exn + run_plan" where
  "example_plan m stops = plan_scrape_run (\<lambda>_. None) (\<lambda>_ _ _. []) (list_capability\<lparr>rc_input_schema := ids_schema\<rparr>)
     (Some (example_collection m stops)) [(''list'', list_capability)]
     (JObj [(''ids'', JArr [JStr ''a'', JStr ''b''])]) (JObj []) None"

theorem plan_is_executable_witness:
  "\<exists>plan. example_plan seeded_mode [] = Inr plan \<and> length (pl_roots plan) = 2 \<and> distinct (map ordinals (pl_roots plan))"
proof -
  have "(case example_plan seeded_mode [] of Inl _ \<Rightarrow> False | Inr plan \<Rightarrow> length (pl_roots plan) = 2)" by code_simp
  then obtain plan where plan: "example_plan seeded_mode [] = Inr plan" "length (pl_roots plan) = 2"
    by (auto split: sum.splits)
  then show ?thesis using plan_is_executable[OF plan(1)[unfolded example_plan_def]] by blast
qed

theorem ordered_collection_is_one_chain_witness:
  "\<exists>plan r. example_plan once_mode [rs_stop example_stop] = Inr plan \<and> pl_roots plan = [r] \<and> pr_task_kind_id r = ''page''"
proof -
  let ?c = "example_collection once_mode [rs_stop example_stop]"
  have "\<not> isl (example_plan once_mode [rs_stop example_stop])" by code_simp
  then obtain plan where plan: "example_plan once_mode [rs_stop example_stop] = Inr plan" by (metis isl_def sum.exhaust)
  have "validate_semantic_stop_topology ?c = Inr ()" by code_simp
  moreover have "cn_semantic_stops ?c \<noteq> []" "distinct (map tk_id (cn_task_kinds ?c))" "cn_task_kinds ?c = [page_task]"
    by (simp_all add: example_collection_def)
  ultimately show ?thesis
    using ordered_collection_is_one_chain[OF _ _ _ plan[unfolded example_plan_def]] plan
    by (auto simp: page_task_def)
qed

end
