(* ===== verification/Output_Sink.thy ===== *)
theory Output_Sink
  imports Collection_Contract Frontier
begin

text \<open>
  The output of a run: its declaration and the checks before any traffic
  (\<open>src/src/consumer/scrape/output.ts\<close>), and the sink that writes committed items to a private
  file and publishes it without replacing anything (\<open>output-sink.ts\<close>).

  A file system is a function from absolute POSIX paths; two names that are hard links of one
  file are two equal entries, as nothing writes to a file once it is linked. An open sink
  writes to the file at its private path, which belongs to the run. System calls fail only as
  the code expects: a missing path, an existing one, a path that is no regular file. An error's
  code is not modelled: \<open>RunOutputError\<close> is a contract error.
\<close>

section \<open>Files\<close>

datatype fs_entry = Regular_File string | Directory_Entry | Other_Entry

type_synonym file_system = "string \<Rightarrow> fs_entry option"

text \<open>\<open>ftruncateSync\<close> and \<open>writeSync\<close> at a position; a gap reads as zero bytes.\<close>

definition truncate_at :: "nat \<Rightarrow> string \<Rightarrow> string" where
  "truncate_at n s = take n (s @ replicate (n - length s) (CHR 0x00))"

definition write_at :: "nat \<Rightarrow> string \<Rightarrow> string \<Rightarrow> string" where
  "write_at n bytes s = truncate_at n s @ bytes @ drop (n + length bytes) s"

definition file_text :: "file_system \<Rightarrow> string \<Rightarrow> string" where
  "file_text fs p = (case fs p of Some (Regular_File s) \<Rightarrow> s | _ \<Rightarrow> [])"

definition dirname_slash :: "string \<Rightarrow> string" where
  "dirname_slash p = rev (dropWhile (\<lambda>c. c \<noteq> CHR ''/'') (rev p))"

definition path_dirname :: "string \<Rightarrow> string" where
  "path_dirname p = (if dirname_slash p = ''/'' then ''/'' else butlast (dirname_slash p))"

definition path_basename :: "string \<Rightarrow> string" where
  "path_basename p = rev (takeWhile (\<lambda>c. c \<noteq> CHR ''/'') (rev p))"

text \<open>\<open>path.isAbsolute(p)\<close> and \<open>path.resolve(p) === p\<close>.\<close>

definition is_normalized_absolute :: "string \<Rightarrow> bool" where
  "is_normalized_absolute p \<longleftrightarrow> p = ''/'' \<or>
     (take 1 p = ''/'' \<and> list_all (\<lambda>s. s \<notin> {[], ''.'', ''..''}) (split_on CHR ''/'' (tl p)))"

section \<open>The declaration\<close>

datatype run_output = Inline_Output | File_Output string output_format

definition output_error :: "String.literal \<Rightarrow> exn + 'a" where
  "output_error m = Inl (PublicContractError m)"

definition parse_absolute_output_path :: "json \<Rightarrow> exn + string" where
  "parse_absolute_output_path v = (case v of
     JStr s \<Rightarrow>
       ensureR (s \<noteq> []) (PublicContractError (STR ''must be a non-empty absolute path''))
       (ensureR (length s \<le> 4096 \<and> list_all (\<lambda>c. byte c \<noteq> 0) s) (PublicContractError (STR ''is invalid''))
       (ensureR (take 1 s = ''/'') (PublicContractError (STR ''must be an absolute path''))
       (ensureR (is_normalized_absolute s) (PublicContractError (STR ''must be a normalized absolute path'')) (Inr s))))
   | _ \<Rightarrow> contract_error (STR ''must be a non-empty absolute path''))"

definition parse_run_output_format :: "json \<Rightarrow> exn + output_format" where
  "parse_run_output_format v =
     parse_choice [(''json'', Format_Json), (''ndjson'', Format_Ndjson), (''csv'', Format_Csv)]
       (STR ''must be json, ndjson, or csv'') v"

definition parse_run_output :: "json \<Rightarrow> exn + run_output" where
  "parse_run_output v = bindR (as_object v) (\<lambda>raw.
     if field raw ''kind'' = Some (JStr ''inline'') then
       bindR (parse_exact_record [''kind''] v) (\<lambda>_. Inr Inline_Output)
     else if field raw ''kind'' = Some (JStr ''file'') then
       bindR (parse_exact_record [''kind'', ''requested_path'', ''format''] v) (\<lambda>r.
       bindR (parse_absolute_output_path (fld r ''requested_path'')) (\<lambda>p.
       bindR (parse_run_output_format (fld r ''format'')) (\<lambda>f. Inr (File_Output p f))))
     else contract_error (STR ''must be inline or file''))"

definition partial_output_path :: "string \<Rightarrow> string \<Rightarrow> string" where
  "partial_output_path requested run_id = requested @ ''.partial.'' @ run_id"

definition private_output_path :: "string \<Rightarrow> string \<Rightarrow> string" where
  "private_output_path requested run_id =
     dirname_slash requested @ ''.'' @ path_basename requested @ ''.klura-'' @ run_id @ ''.tmp''"

definition assert_absent :: "file_system \<Rightarrow> string \<Rightarrow> exn + unit" where
  "assert_absent fs p = ensureR (fs p = None) (PublicContractError (STR ''output path already exists'')) (Inr ())"

definition assert_regular_directory :: "file_system \<Rightarrow> string \<Rightarrow> exn + unit" where
  "assert_regular_directory fs p = (case fs p of
     None \<Rightarrow> output_error (STR ''output parent directory does not exist'')
   | Some Directory_Entry \<Rightarrow> Inr ()
   | Some _ \<Rightarrow> output_error (STR ''output parent must be a non-symbolic-link directory''))"

definition preflight_run_output :: "file_system \<Rightarrow> run_output \<Rightarrow> string \<Rightarrow> exn + unit" where
  "preflight_run_output fs output run_id = (case output of
     Inline_Output \<Rightarrow> Inr ()
   | File_Output p _ \<Rightarrow>
       bindR (assert_regular_directory fs (path_dirname p)) (\<lambda>_.
       bindR (assert_absent fs p) (\<lambda>_.
       bindR (assert_absent fs (partial_output_path p run_id)) (\<lambda>_.
         assert_absent fs (private_output_path p run_id)))))"

definition default_inline_output_max_bytes :: int where "default_inline_output_max_bytes = 1048576"

definition preflight_inline_run_output :: "run_output \<Rightarrow> collection_contract \<Rightarrow> int \<Rightarrow> int \<Rightarrow> exn + unit" where
  "preflight_inline_run_output output c maximum_items budget = (case output of
     File_Output _ _ \<Rightarrow> Inr ()
   | Inline_Output \<Rightarrow>
       ensureR (\<bar>maximum_items\<bar> \<le> max_safe_integer \<and> 1 \<le> maximum_items)
         (PublicContractError (STR ''inline item ceiling is invalid''))
       (ensureR (\<bar>budget\<bar> \<le> max_safe_integer \<and> 1 \<le> budget \<and> budget \<le> default_inline_output_max_bytes)
         (PublicContractError (STR ''inline adapter byte budget is invalid''))
       (case cn_inline_output_bound c of
          None \<Rightarrow> output_error (STR ''inline output requires a finite item bound and at most 100 items'')
        | Some b \<Rightarrow>
            ensureR (maximum_items \<le> 100)
              (PublicContractError (STR ''inline output requires a finite item bound and at most 100 items''))
            (let len = 2 + maximum_items * ib_max_serialized_item_bytes b + max 0 (maximum_items - 1) + 4096 in
             ensureR (len \<le> max_safe_integer \<and> len \<le> budget)
               (PublicContractError (STR ''inline output exceeds the active adapter byte budget'')) (Inr ())))))"

section \<open>The sink\<close>

record output_sink =
  sk_requested_path :: string
  sk_format :: output_format
  sk_run_id :: string
  sk_csv_columns :: "csv_column list option"
  sk_max_output_bytes :: int
  sk_bytes_written :: int
  sk_items_written :: int
  sk_closed :: bool

record sink_progress =
  sp_byte_offset :: int
  sp_prefix_digest :: string
  sp_items_written :: int

record prepared_file =
  pf_path :: string
  pf_byte_length :: int
  pf_content_digest :: string
  pf_items_written :: int

record sink_commit =
  sc_path :: string
  sc_bytes_written :: int
  sc_items_written :: int

definition sink_error :: "String.literal \<Rightarrow> exn + 'a" where
  "sink_error m = Inl (RunOutputSinkError m)"

definition sk_private :: "output_sink \<Rightarrow> string" where
  "sk_private sk = private_output_path (sk_requested_path sk) (sk_run_id sk)"

definition terminal_output :: "output_sink \<Rightarrow> bool \<Rightarrow> output_descriptor" where
  "terminal_output sk partial = Output_File
     (if partial then partial_output_path (sk_requested_path sk) (sk_run_id sk) else sk_requested_path sk)
     (sk_format sk) partial"

definition escape_csv :: "string \<Rightarrow> string" where
  "escape_csv s = CHR 0x22 # concat (map (\<lambda>c. if c = CHR 0x22 then [CHR 0x22, CHR 0x22] else [c]) s) @ [CHR 0x22]"

definition as_sink_error :: "exn \<Rightarrow> exn" where
  "as_sink_error e = (if is_contract_error e then RunOutputSinkError (contract_message e) else e)"

definition project_csv_cell :: "json \<Rightarrow> csv_column \<Rightarrow> exn + string" where
  "project_csv_cell item col = bindR (catchR (resolve_json_pointer item (cc_pointer col)) as_sink_error) (\<lambda>v.
     case v of
       JNull \<Rightarrow> Inr (escape_csv [])
     | JStr s \<Rightarrow> Inr (escape_csv s)
     | JNum n \<Rightarrow> Inr (escape_csv (num_text n))
     | JBool b \<Rightarrow> Inr (escape_csv (if b then ''true'' else ''false''))
     | _ \<Rightarrow> bindR (canonical_json v) (\<lambda>t. Inr (escape_csv t)))"

definition csv_required :: "exn + 'a" where
  "csv_required = sink_error (STR ''CSV output requires declared collection columns'')"

definition encode_item :: "output_format \<Rightarrow> csv_column list option \<Rightarrow> json \<Rightarrow> exn + string" where
  "encode_item f cols item =
     (if f \<noteq> Format_Csv then canonical_json item
      else (case cols of
          None \<Rightarrow> csv_required
        | Some cs \<Rightarrow> bindR (mapR (project_csv_cell item) cs) (\<lambda>cells. Inr (join_with '','' cells))))"

text \<open>The bytes an item adds: \<open>delta\<close> of the code is their number.\<close>

definition format_item :: "output_sink \<Rightarrow> json \<Rightarrow> exn + string" where
  "format_item sk item = bindR (encode_item (sk_format sk) (sk_csv_columns sk) item) (\<lambda>t.
     Inr (if sk_format sk = Format_Json then (if sk_items_written sk = 0 then t else CHR '','' # t)
          else t @ [CHR 0x0A]))"

definition assert_open :: "output_sink \<Rightarrow> exn + unit" where
  "assert_open sk = ensureR (\<not> sk_closed sk) (RunOutputSinkError (STR ''output sink is closed'')) (Inr ())"

definition preview_item :: "output_sink \<Rightarrow> json \<Rightarrow> exn + int" where
  "preview_item sk item = bindR (assert_open sk) (\<lambda>_. bindR (format_item sk item) (\<lambda>t. Inr (int (length t))))"

definition reserve :: "output_sink \<Rightarrow> nat \<Rightarrow> exn + unit" where
  "reserve sk n = ensureR (sk_bytes_written sk + int n \<le> sk_max_output_bytes sk)
     (RunOutputSinkError (STR ''declared output byte budget is exhausted'')) (Inr ())"

definition read_progress :: "hash \<Rightarrow> file_system \<Rightarrow> output_sink \<Rightarrow> exn + sink_progress" where
  "read_progress sha fs sk = bindR (assert_open sk) (\<lambda>_.
     Inr \<lparr>sp_byte_offset = sk_bytes_written sk, sp_prefix_digest = sha (file_text fs (sk_private sk)),
       sp_items_written = sk_items_written sk\<rparr>)"

type_synonym sink_state = "file_system \<times> output_sink"

definition set_file :: "string \<Rightarrow> string \<Rightarrow> file_system \<Rightarrow> file_system" where
  "set_file p s fs = fs(p \<mapsto> Regular_File s)"

definition sink_write :: "hash \<Rightarrow> json \<Rightarrow> sink_state \<Rightarrow> sink_state \<times> (exn + sink_progress)" where
  "sink_write sha item = (\<lambda>(fs, sk).
     case bindR (assert_open sk) (\<lambda>_. bindR (format_item sk item) (\<lambda>t. bindR (reserve sk (length t)) (\<lambda>_. Inr t))) of
       Inl e \<Rightarrow> ((fs, sk), Inl e)
     | Inr t \<Rightarrow>
         (let old = file_text fs (sk_private sk);
              new = (if sk_format sk = Format_Json
                 then write_at (nat (sk_bytes_written sk - 1)) (t @ [CHR '']'']) (truncate_at (nat (sk_bytes_written sk - 1)) old)
                 else write_at (nat (sk_bytes_written sk)) t old);
              fs' = set_file (sk_private sk) new fs;
              sk' = sk\<lparr>sk_bytes_written := sk_bytes_written sk + int (length t),
                sk_items_written := sk_items_written sk + 1\<rparr>
          in ((fs', sk'), read_progress sha fs' sk')))"

definition initial_prefix :: "output_format \<Rightarrow> csv_column list option \<Rightarrow> exn + string" where
  "initial_prefix f cols = (case f of
     Format_Json \<Rightarrow> Inr ''[]''
   | Format_Ndjson \<Rightarrow> Inr []
   | Format_Csv \<Rightarrow> (case cols of
       None \<Rightarrow> csv_required
     | Some cs \<Rightarrow> Inr (join_with '','' (map (escape_csv \<circ> cc_name) cs) @ [CHR 0x0A])))"

definition remove_temporary_path :: "string \<Rightarrow> file_system \<Rightarrow> file_system" where
  "remove_temporary_path p fs = (case fs p of Some (Regular_File _) \<Rightarrow> fs(p := None) | _ \<Rightarrow> fs)"

definition reset_temporary_path :: "string \<Rightarrow> bool \<Rightarrow> file_system \<Rightarrow> exn + file_system" where
  "reset_temporary_path p replace fs = (case fs p of
     None \<Rightarrow> Inr fs
   | Some entry \<Rightarrow>
       ensureR replace (RunOutputSinkError (STR ''output temporary path already exists''))
        (case entry of
           Regular_File _ \<Rightarrow> Inr (fs(p := None))
         | _ \<Rightarrow> sink_error (STR ''output temporary path is not a regular file'')))"

definition create_sink ::
  "string \<Rightarrow> output_format \<Rightarrow> string \<Rightarrow> csv_column list option \<Rightarrow> int \<Rightarrow> bool \<Rightarrow> file_system \<Rightarrow>
    file_system \<times> (exn + output_sink)" where
  "create_sink requested f run_id cols maximum replace fs =
     (let p = private_output_path requested run_id in
      case bindR (ensureR (\<not> (f = Format_Csv \<and> cols = None))
          (RunOutputSinkError (STR ''CSV output requires declared collection columns'')) (Inr ())) (\<lambda>_.
        bindR (ensureR (\<bar>maximum\<bar> \<le> max_safe_integer \<and> 1 \<le> maximum)
          (RunOutputSinkError (STR ''output byte budget is invalid'')) (Inr ())) (\<lambda>_.
        reset_temporary_path p replace fs)) of
        Inl e \<Rightarrow> (fs, Inl e)
      | Inr fs1 \<Rightarrow>
          (let sk = \<lparr>sk_requested_path = requested, sk_format = f, sk_run_id = run_id, sk_csv_columns = cols,
               sk_max_output_bytes = maximum, sk_bytes_written = 0, sk_items_written = 0, sk_closed = False\<rparr>
           in (case bindR (initial_prefix f cols) (\<lambda>t. bindR (reserve sk (length t)) (\<lambda>_. Inr t)) of
                 Inl e \<Rightarrow> (remove_temporary_path p (set_file p [] fs1), Inl e)
               | Inr t \<Rightarrow> (set_file p t fs1, Inr (sk\<lparr>sk_bytes_written := int (length t)\<rparr>)))))"

definition discard_sink :: "sink_state \<Rightarrow> sink_state" where
  "discard_sink = (\<lambda>(fs, sk). (remove_temporary_path (sk_private sk) fs, sk\<lparr>sk_closed := True\<rparr>))"

fun write_items :: "hash \<Rightarrow> json list \<Rightarrow> sink_state \<Rightarrow> sink_state \<times> (exn + unit)" where
  "write_items sha [] st = (st, Inr ())"
| "write_items sha (v # vs) st = (case sink_write sha v st of
     (st1, Inl e) \<Rightarrow> (st1, Inl e) | (st1, Inr _) \<Rightarrow> write_items sha vs st1)"

text \<open>\<open>openFileRunOutputSink\<close>; \<open>items\<close> are the committed items the journal gives back.\<close>

definition open_file_run_output_sink ::
  "hash \<Rightarrow> run_output \<Rightarrow> string \<Rightarrow> csv_column list option \<Rightarrow> int \<Rightarrow> bool \<Rightarrow> exn + json list \<Rightarrow> file_system \<Rightarrow>
    file_system \<times> (exn + output_sink option)" where
  "open_file_run_output_sink sha output run_id cols maximum replace items fs = (case output of
     Inline_Output \<Rightarrow> (fs, Inr None)
   | File_Output p f \<Rightarrow>
       (case create_sink p f run_id cols maximum replace fs of
          (fs1, Inl e) \<Rightarrow> (fs1, Inl e)
        | (fs1, Inr sk) \<Rightarrow>
            if \<not> replace then (fs1, Inr (Some sk))
            else (case items of
                Inl e \<Rightarrow> (fst (discard_sink (fs1, sk)), Inl e)
              | Inr vs \<Rightarrow>
                  (case write_items sha vs (fs1, sk) of
                     (st, Inl e) \<Rightarrow> (fst (discard_sink st), Inl e)
                   | (st, Inr _) \<Rightarrow> (fst st, Inr (Some (snd st)))))))"

section \<open>Publication\<close>

definition prepare_output :: "hash \<Rightarrow> string \<Rightarrow> sink_state \<Rightarrow> exn + prepared_file" where
  "prepare_output sha destination = (\<lambda>(fs, sk). bindR (assert_open sk) (\<lambda>_.
     Inr (let bytes = file_text fs (sk_private sk) in
       \<lparr>pf_path = destination, pf_byte_length = int (length bytes), pf_content_digest = sha bytes,
         pf_items_written = sk_items_written sk\<rparr>)))"

definition prepare_complete :: "hash \<Rightarrow> sink_state \<Rightarrow> exn + prepared_file" where
  "prepare_complete sha st = prepare_output sha (sk_requested_path (snd st)) st"

definition prepare_partial :: "hash \<Rightarrow> sink_state \<Rightarrow> exn + prepared_file" where
  "prepare_partial sha st =
     prepare_output sha (partial_output_path (sk_requested_path (snd st)) (sk_run_id (snd st))) st"

text \<open>\<open>linkSync\<close>: the new name must be free.\<close>

definition link_file :: "string \<Rightarrow> string \<Rightarrow> file_system \<Rightarrow> file_system option" where
  "link_file source destination fs = (if fs destination = None then Some (fs(destination := fs source)) else None)"

definition commit_output :: "string \<Rightarrow> sink_state \<Rightarrow> sink_state \<times> (exn + sink_commit)" where
  "commit_output destination = (\<lambda>(fs, sk). case assert_open sk of
     Inl e \<Rightarrow> ((fs, sk), Inl e)
   | Inr _ \<Rightarrow>
       (let sk' = sk\<lparr>sk_closed := True\<rparr> in
        (case link_file (sk_private sk) destination fs of
           None \<Rightarrow> ((fs, sk'), sink_error (STR ''output path already exists''))
         | Some fs1 \<Rightarrow> ((fs1(sk_private sk := None), sk'),
             Inr \<lparr>sc_path = destination, sc_bytes_written = sk_bytes_written sk, sc_items_written = sk_items_written sk\<rparr>))))"

definition commit_prepared :: "hash \<Rightarrow> prepared_file \<Rightarrow> sink_state \<Rightarrow> sink_state \<times> (exn + sink_commit)" where
  "commit_prepared sha prepared st =
     (case prepare_output sha (pf_path prepared) st of
        Inl e \<Rightarrow> (st, Inl e)
      | Inr current \<Rightarrow>
          if pf_byte_length current \<noteq> pf_byte_length prepared \<or>
             pf_content_digest current \<noteq> pf_content_digest prepared \<or>
             pf_items_written current \<noteq> pf_items_written prepared
          then (st, sink_error (STR ''prepared output no longer matches''))
          else commit_output (pf_path prepared) st)"

definition commit_complete :: "hash \<Rightarrow> sink_state \<Rightarrow> sink_state \<times> (exn + sink_commit)" where
  "commit_complete sha st = (case prepare_complete sha st of Inl e \<Rightarrow> (st, Inl e) | Inr p \<Rightarrow> commit_prepared sha p st)"

definition commit_partial :: "hash \<Rightarrow> sink_state \<Rightarrow> sink_state \<times> (exn + sink_commit)" where
  "commit_partial sha st = (case prepare_partial sha st of Inl e \<Rightarrow> (st, Inl e) | Inr p \<Rightarrow> commit_prepared sha p st)"

text \<open>\<open>verifyPreparedFile\<close>: \<open>None\<close> is the missing file (\<open>ENOENT\<close>).\<close>

definition verify_prepared_file :: "hash \<Rightarrow> string \<Rightarrow> int \<Rightarrow> string \<Rightarrow> file_system \<Rightarrow> (exn + unit) option" where
  "verify_prepared_file sha p len digest fs = (case fs p of
     None \<Rightarrow> None
   | Some (Regular_File s) \<Rightarrow>
       Some (ensureR (int (length s) = len \<and> sha s = digest)
         (RunOutputSinkError (STR ''does not match its preparation'')) (Inr ()))
   | Some _ \<Rightarrow> Some (sink_error (STR ''is not a regular file'')))"

definition missing_file :: exn where
  "missing_file = OtherError (STR ''ENOENT'')"

text \<open>
  \<open>removeMatchingTemporaryPath\<close>: a missing file is fine, another one an error.
\<close>

definition remove_matching_temporary ::
  "hash \<Rightarrow> string \<Rightarrow> int \<Rightarrow> string \<Rightarrow> file_system \<Rightarrow> file_system \<times> (exn + unit)" where
  "remove_matching_temporary sha p len digest fs = (case verify_prepared_file sha p len digest fs of
     None \<Rightarrow> (fs, Inr ())
   | Some (Inl e) \<Rightarrow> (fs, Inl e)
   | Some (Inr _) \<Rightarrow> (fs(p := None), Inr ()))"

definition recover_prepared_file_output ::
  "hash \<Rightarrow> string \<Rightarrow> string \<Rightarrow> string \<Rightarrow> int \<Rightarrow> string \<Rightarrow> file_system \<Rightarrow> file_system \<times> (exn + unit)" where
  "recover_prepared_file_output sha requested run_id p len digest fs =
     (if p \<noteq> requested \<and> p \<noteq> partial_output_path requested run_id
      then (fs, sink_error (STR ''prepared output path is not owned by the run''))
      else let temp = private_output_path requested run_id in
        (case verify_prepared_file sha p len digest fs of
           Some (Inl e) \<Rightarrow> (fs, Inl e)
         | Some (Inr _) \<Rightarrow> remove_matching_temporary sha temp len digest fs
         | None \<Rightarrow>
             (case verify_prepared_file sha temp len digest fs of
                None \<Rightarrow> (fs, Inl missing_file)
              | Some (Inl e) \<Rightarrow> (fs, Inl e)
              | Some (Inr _) \<Rightarrow> ((fs(p := fs temp))(temp := None), Inr ()))))"

text \<open>
  In the last branch \<open>linkSync\<close> finds the destination free: the check before it has just found
  it missing, and no step of another process is modelled in between.
\<close>

definition complete_prepared :: "hash \<Rightarrow> prepared_file \<Rightarrow> sink_state \<Rightarrow> sink_state \<times> (exn + sink_commit)" where
  "complete_prepared sha prepared = (\<lambda>(fs, sk). case assert_open sk of
     Inl e \<Rightarrow> ((fs, sk), Inl e)
   | Inr _ \<Rightarrow>
       (case recover_prepared_file_output sha (sk_requested_path sk) (sk_run_id sk) (pf_path prepared)
          (pf_byte_length prepared) (pf_content_digest prepared) fs of
          (fs1, Inl e) \<Rightarrow> ((fs1, sk), Inl e)
        | (fs1, Inr _) \<Rightarrow> ((fs1, sk\<lparr>sk_closed := True\<rparr>),
            Inr \<lparr>sc_path = pf_path prepared, sc_bytes_written = pf_byte_length prepared,
              sc_items_written = pf_items_written prepared\<rparr>)))"

definition finish_file_run_output_sink ::
  "hash \<Rightarrow> int \<Rightarrow> run_stop \<Rightarrow> sink_state option \<Rightarrow> sink_state option \<times> (exn + run_stop)" where
  "finish_file_run_output_sink sha committed_items stop sink = (case sink of
     None \<Rightarrow> (None, Inr stop)
   | Some st \<Rightarrow>
       if stop = Stop_Output_Sink_Failure \<or> committed_items = 0 then (Some (discard_sink st), Inr stop)
       else (case commit_partial sha st of
           (st1, Inr _) \<Rightarrow> (Some st1, Inr stop)
         | (st1, Inl e) \<Rightarrow>
             (case e of
                RunOutputSinkError _ \<Rightarrow> (Some (discard_sink st1), Inr Stop_Output_Sink_Failure)
              | _ \<Rightarrow> (Some st1, Inl e))))"

section \<open>What the file holds\<close>

text \<open>The text of a list of items in a format.\<close>

definition render_output :: "output_format \<Rightarrow> csv_column list option \<Rightarrow> json list \<Rightarrow> exn + string" where
  "render_output f cols items = bindR (initial_prefix f cols) (\<lambda>h. bindR (mapR (encode_item f cols) items) (\<lambda>ts.
     Inr (if f = Format_Json then ''['' @ join_with '','' ts @ '']'' else h @ concat (map (\<lambda>t. t @ [CHR 0x0A]) ts))))"

definition sink_ok :: "file_system \<Rightarrow> output_sink \<Rightarrow> json list \<Rightarrow> bool" where
  "sink_ok fs sk items \<longleftrightarrow> \<not> sk_closed sk \<and> sk_items_written sk = int (length items) \<and>
     (\<exists>t. render_output (sk_format sk) (sk_csv_columns sk) items = Inr t \<and>
       fs (sk_private sk) = Some (Regular_File t) \<and> sk_bytes_written sk = int (length t) \<and>
       sk_bytes_written sk \<le> sk_max_output_bytes sk)"

lemma truncate_at_take: "n \<le> length s \<Longrightarrow> truncate_at n s = take n s"
  by (simp add: truncate_at_def)

lemma write_at_end: "n = length s \<Longrightarrow> write_at n b s = s @ b"
  by (simp add: write_at_def truncate_at_take)

lemma join_with_snoc: "join_with d (ts @ [x]) = (if ts = [] then x else join_with d ts @ d @ x)"
  by (induction ts) (auto simp: join_with_Cons)

lemma mapR_snoc: "mapR f (xs @ [x]) = bindR (mapR f xs) (\<lambda>ys. bindR (f x) (\<lambda>y. Inr (ys @ [y])))"
  by (induction xs) (auto simp: bindR_def split: sum.splits)

lemma render_output_snoc:
  assumes "render_output f cols items = Inr t" "encode_item f cols v = Inr u"
  shows "render_output f cols (items @ [v]) = Inr (if f = Format_Json
    then butlast t @ (if items = [] then u else CHR '','' # u) @ '']'' else t @ u @ [CHR 0x0A])"
  using assms mapR_length[of "encode_item f cols" items]
  by (auto simp: render_output_def mapR_snoc join_with_snoc butlast_append elim!: bindRE)

lemma render_output_json_last: "render_output Format_Json cols items = Inr t \<Longrightarrow> t \<noteq> [] \<and> last t = CHR '']''"
  by (auto simp: render_output_def initial_prefix_def elim!: bindRE)

lemma sink_private_update [simp]:
  "sk_private (sk\<lparr>sk_bytes_written := a\<rparr>) = sk_private sk" "sk_private (sk\<lparr>sk_items_written := b\<rparr>) = sk_private sk"
  "sk_private (sk\<lparr>sk_closed := c\<rparr>) = sk_private sk"
  by (simp_all add: sk_private_def)

lemma sink_write_error: "sink_write sha v (fs, sk) = (st, Inl e) \<Longrightarrow> sink_ok fs sk items \<Longrightarrow> st = (fs, sk)"
  by (auto simp: sink_write_def Let_def read_progress_def assert_open_def sink_ok_def ensureR_def
    split: sum.splits if_splits)

lemma sink_write_ok:
  assumes ok: "sink_ok fs sk items" and w: "sink_write sha v (fs, sk) = ((fs', sk'), Inr g)"
  shows "sink_ok fs' sk' (items @ [v]) \<and> sk_private sk' = sk_private sk \<and> sk_format sk' = sk_format sk \<and>
    sk_csv_columns sk' = sk_csv_columns sk \<and> sk_max_output_bytes sk' = sk_max_output_bytes sk \<and>
    (\<forall>q. q \<noteq> sk_private sk \<longrightarrow> fs' q = fs q) \<and>
    sp_byte_offset g = sk_bytes_written sk' \<and> sp_prefix_digest g = sha (file_text fs' (sk_private sk'))"
proof -
  obtain t where t: "render_output (sk_format sk) (sk_csv_columns sk) items = Inr t"
    "fs (sk_private sk) = Some (Regular_File t)" "sk_bytes_written sk = int (length t)"
    "\<not> sk_closed sk" "sk_items_written sk = int (length items)"
    using ok by (auto simp: sink_ok_def)
  obtain d where d: "format_item sk v = Inr d" "sk_bytes_written sk + int (length d) \<le> sk_max_output_bytes sk"
    and st: "fs' = set_file (sk_private sk) (if sk_format sk = Format_Json
        then write_at (nat (sk_bytes_written sk - 1)) (d @ [CHR '']'']) (truncate_at (nat (sk_bytes_written sk - 1)) t)
        else write_at (nat (sk_bytes_written sk)) d t) fs"
      "sk' = sk\<lparr>sk_bytes_written := sk_bytes_written sk + int (length d), sk_items_written := sk_items_written sk + 1\<rparr>"
      "read_progress sha fs' sk' = Inr g"
    using w t by (auto simp: sink_write_def Let_def reserve_def ensureR_Inr_iff file_text_def split: sum.splits elim!: bindRE)
  obtain u where u: "encode_item (sk_format sk) (sk_csv_columns sk) v = Inr u"
    "d = (if sk_format sk = Format_Json then (if items = [] then u else CHR '','' # u) else u @ [CHR 0x0A])"
    using d(1) t(5) by (auto simp: format_item_def elim!: bindRE)
  have new: "(if sk_format sk = Format_Json
        then write_at (nat (sk_bytes_written sk - 1)) (d @ [CHR '']'']) (truncate_at (nat (sk_bytes_written sk - 1)) t)
        else write_at (nat (sk_bytes_written sk)) d t) =
      (if sk_format sk = Format_Json then butlast t @ d @ '']'' else t @ d)" (is "?new = ?text")
  proof (cases "sk_format sk = Format_Json")
    case True
    then have "t \<noteq> []" using t(1) render_output_json_last by metis
    then have n: "nat (sk_bytes_written sk - 1) = length (butlast t)" using t(3) by (cases t) auto
    have "truncate_at (length (butlast t)) t = butlast t"
      by (simp add: truncate_at_take butlast_conv_take)
    then show ?thesis using True n by (simp add: write_at_end)
  next
    case False
    then show ?thesis using t(3) by (simp add: write_at_end)
  qed
  have r: "render_output (sk_format sk) (sk_csv_columns sk) (items @ [v]) = Inr ?text"
    using render_output_snoc[OF t(1) u(1)] u(2) by simp
  have "int (length ?text) = sk_bytes_written sk + int (length d)"
  proof (cases "sk_format sk = Format_Json")
    case True
    then have "t \<noteq> []" using t(1) render_output_json_last by metis
    then show ?thesis using True t(3) by (cases t) auto
  next
    case False
    then show ?thesis using t(3) by simp
  qed
  then show ?thesis using r t d(2) st new
    by (auto simp: sink_ok_def set_file_def read_progress_def assert_open_def ensureR_Inr_iff)
qed

lemma write_items_ok:
  assumes "write_items sha vs (fs, sk) = ((fs', sk'), Inr u)" "sink_ok fs sk items"
  shows "sink_ok fs' sk' (items @ vs) \<and> sk_private sk' = sk_private sk \<and> sk_format sk' = sk_format sk \<and>
    sk_csv_columns sk' = sk_csv_columns sk \<and> sk_max_output_bytes sk' = sk_max_output_bytes sk \<and>
    (\<forall>q. q \<noteq> sk_private sk \<longrightarrow> fs' q = fs q)"
  using assms
proof (induction vs arbitrary: fs sk items)
  case (Cons v vs)
  obtain fs1 sk1 g where w: "sink_write sha v (fs, sk) = ((fs1, sk1), Inr g)"
    "write_items sha vs (fs1, sk1) = ((fs', sk'), Inr u)"
    using Cons.prems(1) by (auto split: prod.splits sum.splits)
  note a = sink_write_ok[OF Cons.prems(2) w(1)]
  show ?case using Cons.IH[OF w(2), of "items @ [v]"] a by auto
qed simp

lemma create_sink_ok:
  assumes "create_sink requested f run_id cols maximum replace fs = (fs1, Inr sk)"
  shows "sink_ok fs1 sk [] \<and> sk_private sk = private_output_path requested run_id \<and> sk_requested_path sk = requested \<and>
    sk_run_id sk = run_id \<and> sk_format sk = f \<and> sk_csv_columns sk = cols \<and> sk_max_output_bytes sk = maximum \<and>
    (\<forall>q. q \<noteq> private_output_path requested run_id \<longrightarrow> fs1 q = fs q)"
proof -
  let ?p = "private_output_path requested run_id"
  obtain fs0 t where "reset_temporary_path ?p replace fs = Inr fs0" "initial_prefix f cols = Inr t"
    "int (length t) \<le> maximum" "fs1 = set_file ?p t fs0"
    "sk = \<lparr>sk_requested_path = requested, sk_format = f, sk_run_id = run_id, sk_csv_columns = cols,
       sk_max_output_bytes = maximum, sk_bytes_written = int (length t), sk_items_written = 0, sk_closed = False\<rparr>"
    using assms by (auto simp: create_sink_def Let_def reserve_def ensureR_Inr_iff split: sum.splits elim!: bindRE)
  moreover from this have "\<forall>q. q \<noteq> ?p \<longrightarrow> fs0 q = fs q"
    by (auto simp: reset_temporary_path_def sink_error_def ensureR_Inr_iff split: option.splits fs_entry.splits)
  moreover have "render_output f cols [] = Inr t" using calculation(2)
    by (auto simp: render_output_def initial_prefix_def split: output_format.splits)
  ultimately show ?thesis by (auto simp: sink_ok_def sk_private_def set_file_def)
qed

lemma deeper_text:
  assumes "assert_json_value 99 v = Inr ()" "canonical_json v = Inr t"
  shows "render_json (Suc 0) v = Inr t"
proof -
  have "assert_json_value_at 100 (Suc 0) v = Inr ()"
    using assms(1) assert_json_value_at_Suc[of 99 0 v] by (simp add: assert_json_value_def)
  then obtain u where "render_json (Suc 0) v = Inr u" using render_total by blast
  then show ?thesis using render_depth[of "Suc 0" v u 0] assms(2) by (simp add: canonical_json_def)
qed

lemma encode_item_json: "encode_item Format_Json cols = canonical_json"
  by (simp add: encode_item_def fun_eq_iff)

lemma json_output_is_canonical:
  assumes "render_output Format_Json cols items = Inr t" "\<forall>v \<in> set items. assert_json_value 99 v = Inr ()"
  shows "canonical_json (JArr items) = Inr t"
proof -
  obtain ts where ts: "mapR canonical_json items = Inr ts" "t = ''['' @ join_with '','' ts @ '']''"
    using assms(1) by (auto simp: render_output_def encode_item_json initial_prefix_def elim!: bindRE)
  have "mapR (render_json (Suc 0)) items = Inr ts"
    using ts(1) assms(2) by (auto simp: mapR_Inr_iff list_all2_conv_all_nth intro!: deeper_text)
  then show ?thesis using ts(2) by (simp add: canonical_json_def depth_guard_def)
qed

text \<open>
  C25: whatever items have been written, the private file is a complete output of exactly those
  items: their rendering in the declared format, for JSON the canonical text of their array,
  within the declared byte budget and of the length the sink reports; and no other path has
  changed.
\<close>

theorem sink_file_is_valid_prefix:
  assumes "create_sink requested f run_id cols maximum replace fs = (fs1, Inr sk)"
    and "write_items sha vs (fs1, sk) = ((fs2, sk2), Inr ())"
  shows "\<exists>t. fs2 (private_output_path requested run_id) = Some (Regular_File t) \<and>
    render_output f cols vs = Inr t \<and> int (length t) \<le> maximum \<and> sk_bytes_written sk2 = int (length t) \<and>
    (f = Format_Json \<and> (\<forall>v \<in> set vs. assert_json_value 12 v = Inr ()) \<longrightarrow> canonical_json (JArr vs) = Inr t) \<and>
    (\<forall>q. q \<noteq> private_output_path requested run_id \<longrightarrow> fs2 q = fs q)"
proof -
  note c = create_sink_ok[OF assms(1)]
  note w = write_items_ok[OF assms(2), of "[]"]
  obtain t where t: "render_output f cols vs = Inr t" "fs2 (private_output_path requested run_id) = Some (Regular_File t)"
    "sk_bytes_written sk2 = int (length t)" "int (length t) \<le> maximum"
    using c w by (auto simp: sink_ok_def)
  have "canonical_json (JArr vs) = Inr t" if "f = Format_Json" "\<forall>v \<in> set vs. assert_json_value 12 v = Inr ()"
  proof (rule json_output_is_canonical)
    show "render_output Format_Json cols vs = Inr t" using t(1) that(1) by simp
    show "\<forall>v \<in> set vs. assert_json_value 99 v = Inr ()"
      using that(2) by (auto simp: assert_json_value_def intro: assert_json_value_at_mono[of 12 0])
  qed
  then show ?thesis using t c w by auto
qed

section \<open>Publication survives a crash\<close>

lemma dirname_basename: "dirname_slash p @ path_basename p = p"
  by (simp add: dirname_slash_def path_basename_def rev_append[symmetric] takeWhile_dropWhile_id del: rev_append)

lemma private_path_differs:
  "private_output_path requested run_id \<noteq> requested"
  "private_output_path requested run_id \<noteq> partial_output_path requested run_id"
proof -
  have "length (private_output_path requested run_id) = length requested + length run_id + 12"
    using arg_cong[OF dirname_basename[of requested], of length] by (simp add: private_output_path_def)
  then show "private_output_path requested run_id \<noteq> requested"
    "private_output_path requested run_id \<noteq> partial_output_path requested run_id"
    by (auto simp: partial_output_path_def dest!: arg_cong[of _ _ length])
qed

text \<open>
  C26: publication survives a crash. Once an output is prepared, a crash before the link, between
  the link and the removal of the private name, or after both leaves a file system from which
  the recovery reaches the state a completed publication reaches: the destination holds exactly
  the rendering of the committed items, the private file is gone and nothing else has changed.
\<close>

theorem prepared_output_survives_crash:
  assumes ok: "sink_ok fs sk items"
    and dest: "dest = sk_requested_path sk \<or> dest = partial_output_path (sk_requested_path sk) (sk_run_id sk)"
    and prep: "prepare_output sha dest (fs, sk) = Inr p"
    and commit: "commit_prepared sha p (fs, sk) = ((fs3, sk3), Inr c)"
    and crash: "crashed \<in> {fs, fs(dest := fs (sk_private sk)), fs3}"
  shows "recover_prepared_file_output sha (sk_requested_path sk) (sk_run_id sk) dest
      (pf_byte_length p) (pf_content_digest p) crashed = (fs3, Inr ()) \<and>
    (\<exists>t. render_output (sk_format sk) (sk_csv_columns sk) items = Inr t \<and> fs3 dest = Some (Regular_File t)) \<and>
    fs3 (sk_private sk) = None \<and> (\<forall>q. q \<noteq> dest \<and> q \<noteq> sk_private sk \<longrightarrow> fs3 q = fs q)"
proof -
  let ?temp = "private_output_path (sk_requested_path sk) (sk_run_id sk)"
  obtain t where t: "render_output (sk_format sk) (sk_csv_columns sk) items = Inr t"
    "fs ?temp = Some (Regular_File t)" "\<not> sk_closed sk"
    using ok by (auto simp: sink_ok_def sk_private_def)
  have p: "p = \<lparr>pf_path = dest, pf_byte_length = int (length t), pf_content_digest = sha t,
      pf_items_written = sk_items_written sk\<rparr>"
    using prep t by (auto simp: prepare_output_def assert_open_def file_text_def sk_private_def)
  have differ: "?temp \<noteq> dest" using dest private_path_differs by metis
  have free: "fs dest = None" and fs3: "fs3 = (fs(dest := fs ?temp))(?temp := None)"
    using commit p t(3) prep
    by (auto simp: commit_prepared_def commit_output_def link_file_def assert_open_def sink_error_def sk_private_def
      Let_def split: if_splits)
  have r: "recover_prepared_file_output sha (sk_requested_path sk) (sk_run_id sk) dest (int (length t)) (sha t) x =
      (fs3, Inr ())" if "x \<in> {fs, fs(dest := fs ?temp), fs3}" for x
    using that dest differ free t(2) fs3
    by (auto simp: recover_prepared_file_output_def Let_def verify_prepared_file_def remove_matching_temporary_def)
  have pl: "sk_private sk = ?temp" by (simp add: sk_private_def)
  show ?thesis using r[of crashed] crash t fs3 differ unfolding p pl by auto
qed

text \<open>
  A destination that someone else has created is never replaced; but the fallback of a failed
  commit cannot work then: the commit has closed the sink.
\<close>

lemma taken_destination_is_kept:
  assumes "fs (pf_path p) \<noteq> None" "\<not> sk_closed sk"
    and "commit_prepared sha p (fs, sk) = ((fs1, sk1), r)"
  shows "fs1 = fs \<and> isl r"
  using assms
  by (auto simp: commit_prepared_def commit_output_def link_file_def assert_open_def prepare_output_def sink_error_def
    Let_def split: if_splits)

lemma failed_commit_cannot_complete:
  assumes "prepare_output sha dest (fs, sk) = Inr p" "commit_prepared sha p (fs, sk) = (st1, Inl e)"
  shows "\<exists>x. complete_prepared sha p st1 = (st1, Inl x)"
  using assms
  by (auto simp: commit_prepared_def commit_output_def link_file_def assert_open_def prepare_output_def sink_error_def
    complete_prepared_def Let_def ensureR_def split: if_splits option.splits)

section \<open>Examples\<close>

definition example_files :: file_system where
  "example_files = (\<lambda>p. if p = ''/o'' then Some Directory_Entry else None)"

definition example_items :: "json list" where
  "example_items = [JObj [(''id'', JStr ''a'')], JObj [(''id'', JStr ''b'')]]"

definition example_sink :: sink_state where
  "example_sink = (case create_sink ''/o/x'' Format_Json ''r'' None 100 False example_files of
     (fs, Inr sk) \<Rightarrow> (fs, sk) | (fs, Inl _) \<Rightarrow> (fs, undefined))"

definition example_written :: sink_state where
  "example_written = fst (write_items (\<lambda>s. s) example_items example_sink)"

lemma example_sink_created:
  "create_sink ''/o/x'' Format_Json ''r'' None 100 False example_files = (fst example_sink, Inr (snd example_sink))"
proof -
  have "\<not> isl (snd (create_sink ''/o/x'' Format_Json ''r'' None 100 False example_files))"
    by (simp add: create_sink_def Let_def reset_temporary_path_def example_files_def private_output_path_def
      dirname_slash_def path_basename_def initial_prefix_def reserve_def max_safe_integer_def)
  then show ?thesis by (auto simp: example_sink_def isl_def split: prod.splits sum.splits)
qed

lemma example_sink_written:
  "write_items (\<lambda>s. s) example_items (fst example_sink, snd example_sink) = (example_written, Inr ())"
proof -
  have "\<not> isl (snd (write_items (\<lambda>s. s) example_items example_sink))" by code_simp
  then obtain u where "snd (write_items (\<lambda>s. s) example_items example_sink) = Inr u"
    by (cases "snd (write_items (\<lambda>s. s) example_items example_sink)") auto
  then show ?thesis by (simp add: example_written_def prod_eq_iff)
qed

theorem sink_file_is_valid_prefix_witness:
  "\<exists>t. fst example_written ''/o/.x.klura-r.tmp'' = Some (Regular_File t) \<and> canonical_json (JArr example_items) = Inr t"
proof -
  have "\<forall>v \<in> set example_items. assert_json_value 12 v = Inr ()" by (simp add: example_items_def assert_json_value_def)
  moreover have "private_output_path ''/o/x'' ''r'' = ''/o/.x.klura-r.tmp''" by code_simp
  ultimately show ?thesis
    using sink_file_is_valid_prefix[OF example_sink_created, of "\<lambda>s. s" example_items "fst example_written" "snd example_written"]
      example_sink_written by auto
qed

theorem prepared_output_survives_crash_witness:
  "\<exists>(p :: prepared_file) fs3. fst (recover_prepared_file_output (\<lambda>s. s) ''/o/x'' ''r'' ''/o/x'' (pf_byte_length p) (pf_content_digest p)
      (fst example_written)) = fs3 \<and>
    (\<exists>t. fs3 ''/o/x'' = Some (Regular_File t)) \<and> fs3 ''/o/.x.klura-r.tmp'' = None"
proof -
  let ?fs = "fst example_written" and ?sk = "snd example_written"
  have c: "sink_ok (fst example_sink) (snd example_sink) []" "sk_private (snd example_sink) = private_output_path ''/o/x'' ''r''"
    using create_sink_ok[OF example_sink_created] by auto
  have w: "write_items (\<lambda>s. s) example_items (fst example_sink, snd example_sink) = ((?fs, ?sk), Inr ())"
    using example_sink_written by simp
  have ok: "sink_ok ?fs ?sk example_items" using write_items_ok[OF w c(1)] by simp
  have f: "sk_requested_path ?sk = ''/o/x''" "sk_run_id ?sk = ''r''" by code_simp+
  have "\<not> isl (prepare_output (\<lambda>s. s) ''/o/x'' (?fs, ?sk))" by code_simp
  then obtain p where p: "prepare_output (\<lambda>s. s) ''/o/x'' (?fs, ?sk) = Inr p" by (metis isl_def sum.exhaust)
  have free: "?fs ''/o/x'' = None"
  proof -
    have "(case ?fs ''/o/x'' of None \<Rightarrow> True | Some _ \<Rightarrow> False)" by code_simp
    then show ?thesis by (auto split: option.splits)
  qed
  have "pf_path p = ''/o/x''"
    using p by (auto simp: prepare_output_def Let_def split: prod.splits elim!: bindRE)
  moreover have "\<not> sk_closed ?sk" using ok by (simp add: sink_ok_def)
  ultimately obtain fs3 sk3 k where k: "commit_prepared (\<lambda>s. s) p (?fs, ?sk) = ((fs3, sk3), Inr k)"
    using p free by (simp add: commit_prepared_def commit_output_def link_file_def assert_open_def Let_def split_beta)
  have "private_output_path ''/o/x'' ''r'' = ''/o/.x.klura-r.tmp''" by code_simp
  then have "recover_prepared_file_output (\<lambda>s. s) ''/o/x'' ''r'' ''/o/x'' (pf_byte_length p) (pf_content_digest p) ?fs =
      (fs3, Inr ()) \<and> (\<exists>t. fs3 ''/o/x'' = Some (Regular_File t)) \<and> fs3 ''/o/.x.klura-r.tmp'' = None"
    using prepared_output_survives_crash[OF ok _ p k, of ?fs] f by (auto simp: sk_private_def)
  then have "fst (recover_prepared_file_output (\<lambda>s. s) ''/o/x'' ''r'' ''/o/x'' (pf_byte_length p) (pf_content_digest p) ?fs) =
      fs3 \<and> (\<exists>t. fs3 ''/o/x'' = Some (Regular_File t)) \<and> fs3 ''/o/.x.klura-r.tmp'' = None" by simp
  then show ?thesis by blast
qed

end
