(* ===== verification/Engine_State.thy ===== *)
theory Engine_State
  imports Output_Sink Semantic_Stop Run_Planner
begin

text \<open>
  The state one executing run works on, the operations of the run service on it, and the end of
  a run: its terminal descriptor, the publication of its output file and its terminal frame
  (\<open>src/src/consumer/scrape/output-finalization.ts\<close>, \<open>finish\<close> and \<open>append\<close> of
  \<open>run-service.ts\<close>, \<open>run-cancellation.ts\<close>).

  An operation takes the state and gives the state it leaves next to its result: what it has
  written stays written when it throws.
\<close>

section \<open>The state and its operations\<close>

text \<open>What does not change during a run; the URL parser and builder and SHA-256 are parameters.\<close>

record run_env =
  ev_sha :: hash
  ev_parse_url :: url_parser
  ev_build_url :: url_builder
  ev_run_id :: string
  ev_args :: json
  ev_capabilities :: "(string \<times> read_capability) list"
  ev_collection :: collection_contract
  ev_named_limits :: "(string \<times> int) list"
  ev_policy :: run_policy

record engine_state =
  es_durable :: durable_state
  es_files :: file_system
  es_sink :: "output_sink option"
  es_stops :: stop_tracker
  es_order :: attempt_order
  es_batch_stop :: "run_stop option"

type_synonym 'a eng = "engine_state \<Rightarrow> engine_state \<times> (exn + 'a)"

definition returnE :: "'a \<Rightarrow> 'a eng" where "returnE x w = (w, Inr x)"
definition throwE :: "exn \<Rightarrow> 'a eng" where "throwE e w = (w, Inl e)"
definition liftE :: "exn + 'a \<Rightarrow> 'a eng" where "liftE r w = (w, r)"
definition getE :: "(engine_state \<Rightarrow> 'a) \<Rightarrow> 'a eng" where "getE f w = (w, Inr (f w))"
definition modifyE :: "(engine_state \<Rightarrow> engine_state) \<Rightarrow> unit eng" where "modifyE f w = (f w, Inr ())"

definition bindE :: "'a eng \<Rightarrow> ('a \<Rightarrow> 'b eng) \<Rightarrow> 'b eng" where
  "bindE m k w = (case m w of (w1, Inl e) \<Rightarrow> (w1, Inl e) | (w1, Inr x) \<Rightarrow> k x w1)"

definition catchE :: "'a eng \<Rightarrow> (exn \<Rightarrow> 'a eng) \<Rightarrow> 'a eng" where
  "catchE m h w = (case m w of (w1, Inl e) \<Rightarrow> h e w1 | (w1, Inr x) \<Rightarrow> (w1, Inr x))"

abbreviation execution :: "engine_state \<Rightarrow> execution_state" where
  "execution w \<equiv> ds_execution (es_durable w)"

definition map_execution :: "(execution_state \<Rightarrow> execution_state) \<Rightarrow> engine_state \<Rightarrow> engine_state" where
  "map_execution f w = w\<lparr>es_durable := (es_durable w)\<lparr>ds_execution := f (execution w)\<rparr>\<rparr>"

definition env_limits :: "run_env \<Rightarrow> durable_limits" where
  "env_limits env = \<lparr>dl_run_id = ev_run_id env,
     dl_max_spool_bytes = db_max_data_spool_bytes (rp_durable (ev_policy env)),
     dl_max_journal_bytes = db_max_journal_bytes (rp_durable (ev_policy env))\<rparr>"

text \<open>\<open>append\<close>: \<open>False\<close> when the ordinary budget of frames is exhausted.\<close>

definition append_run :: "run_env \<Rightarrow> journal_event \<Rightarrow> bool eng" where
  "append_run env event w =
     (case append_event (ev_sha env) (env_limits env) event (es_durable w) of (d, r) \<Rightarrow> (w\<lparr>es_durable := d\<rparr>, r))"

definition append_emergency :: "run_env \<Rightarrow> int \<Rightarrow> journal_event \<Rightarrow> unit eng" where
  "append_emergency env maximum_bytes event w =
     (case append_emergency_journal_event (ev_sha env) (ev_run_id env) maximum_bytes event
         (ds_journal (es_durable w), execution w) of
        ((f, s), r) \<Rightarrow> (w\<lparr>es_durable := (es_durable w)\<lparr>ds_journal := f, ds_execution := s\<rparr>\<rparr>, r))"

text \<open>A method of the sink. It is called on an open run only with a sink.\<close>

definition on_sink :: "(sink_state \<Rightarrow> sink_state \<times> (exn + 'a)) \<Rightarrow> 'a eng" where
  "on_sink f w = (case es_sink w of
     None \<Rightarrow> (w, Inl (OtherError (STR ''the run has no sink'')))
   | Some sk \<Rightarrow> (case f (es_files w, sk) of ((fs, sk1), r) \<Rightarrow> (w\<lparr>es_files := fs, es_sink := Some sk1\<rparr>, r)))"

lemma eng_simps [simp]:
  "returnE x w = (w, Inr x)" "throwE e w = (w, Inl e)" "liftE r w = (w, r)" "getE f w = (w, Inr (f w))"
  "modifyE g w = (g w, Inr ())"
  by (simp_all add: returnE_def throwE_def liftE_def getE_def modifyE_def)

lemma bindE_Inr_iff: "bindE m k w = (w', Inr y) \<longleftrightarrow> (\<exists>w1 x. m w = (w1, Inr x) \<and> k x w1 = (w', Inr y))"
  by (auto simp: bindE_def split: prod.splits sum.splits)

lemma bindE_InrE:
  assumes "bindE m k w = (w', Inr y)"
  obtains w1 x where "m w = (w1, Inr x)" "k x w1 = (w', Inr y)"
  using assms by (auto simp: bindE_Inr_iff)

lemma bindE_step: "m w = (w1, Inr x) \<Longrightarrow> bindE m k w = k x w1"
  by (simp add: bindE_def)

lemma bindE_fail: "m w = (w1, Inl e) \<Longrightarrow> bindE m k w = (w1, Inl e)"
  by (simp add: bindE_def)

lemma map_execution_simps [simp]:
  "execution (map_execution f w) = f (execution w)" "es_files (map_execution f w) = es_files w"
  "es_sink (map_execution f w) = es_sink w" "es_stops (map_execution f w) = es_stops w"
  "es_order (map_execution f w) = es_order w" "es_batch_stop (map_execution f w) = es_batch_stop w"
  "ds_journal (es_durable (map_execution f w)) = ds_journal (es_durable w)"
  "ds_spool (es_durable (map_execution f w)) = ds_spool (es_durable w)"
  "ds_frontier (es_durable (map_execution f w)) = ds_frontier (es_durable w)"
  by (simp_all add: map_execution_def)

section \<open>The end of a run\<close>

definition create_terminal_descriptor ::
  "run_summary \<Rightarrow> result_kind \<Rightarrow> terminal_stop \<Rightarrow> output_sink option \<Rightarrow> terminal_descriptor" where
  "create_terminal_descriptor m k stop sink = \<lparr>td_result_kind = k, td_stop = stop, td_summary = m,
     td_output = (if k = Scrape_Failure then Output_None
       else case sink of Some sk \<Rightarrow> terminal_output sk (k = Scrape_Partial) | None \<Rightarrow> Output_Inline (k = Scrape_Partial))\<rparr>"

definition terminal_journal_event :: "hash \<Rightarrow> terminal_descriptor \<Rightarrow> exn + journal_event" where
  "terminal_journal_event sha d = bindR (terminal_descriptor_digest sha d) (\<lambda>g. Inr (Terminal d g))"

fun is_sink_error :: "exn \<Rightarrow> bool" where
  "is_sink_error (RunOutputSinkError _) = True" | "is_sink_error _ = False"

definition output_publication_pending :: exn where
  "output_publication_pending = OtherError (STR ''prepared output could not be finalized in the active process'')"

text \<open>\<open>commitPrepared\<close>, and \<open>completePrepared\<close> when it fails with an error of the sink.\<close>

definition publish_prepared :: "hash \<Rightarrow> prepared_file \<Rightarrow> unit eng" where
  "publish_prepared sha p =
     catchE (bindE (on_sink (commit_prepared sha p)) (\<lambda>_. returnE ())) (\<lambda>e.
       if is_sink_error e
       then catchE (bindE (on_sink (complete_prepared sha p)) (\<lambda>_. returnE ()))
         (\<lambda>_. throwE output_publication_pending)
       else throwE e)"

definition publish_file_output :: "run_env \<Rightarrow> int \<Rightarrow> terminal_descriptor \<Rightarrow> unit eng" where
  "publish_file_output env maximum_bytes d = bindE (getE es_sink) (\<lambda>sink. case sink of
     None \<Rightarrow> returnE ()
   | Some _ \<Rightarrow>
       (case td_output d of
          Output_File path _ partial \<Rightarrow>
            bindE (on_sink (\<lambda>st. (st, (if partial then prepare_partial else prepare_complete) (ev_sha env) st))) (\<lambda>p.
            if pf_path p \<noteq> path
            then throwE (RunOutputSinkError (STR ''prepared output path does not match descriptor''))
            else
              bindE (liftE (terminal_descriptor_digest (ev_sha env) d)) (\<lambda>g.
              bindE (append_emergency env maximum_bytes (Output_Prepared
                \<lparr>po_path_digest = ev_sha env (pf_path p), po_content_digest = pf_content_digest p,
                  po_byte_length = pf_byte_length p, po_descriptor = d, po_descriptor_digest = g\<rparr>)) (\<lambda>_.
              bindE (publish_prepared (ev_sha env) p) (\<lambda>_.
                append_emergency env maximum_bytes (Output_Committed (pf_content_digest p) (pf_byte_length p) g)))))
        | _ \<Rightarrow> throwE (RunOutputSinkError (STR ''file sink has no file terminal descriptor''))))"

definition append_terminal :: "run_env \<Rightarrow> int \<Rightarrow> terminal_descriptor \<Rightarrow> unit eng" where
  "append_terminal env maximum_bytes d =
     bindE (liftE (terminal_journal_event (ev_sha env) d)) (append_emergency env maximum_bytes)"

text \<open>\<open>publishFileOutput\<close> and the terminal frame, as both ends of a run have them.\<close>

definition publish_and_end :: "run_env \<Rightarrow> int \<Rightarrow> result_kind \<Rightarrow> terminal_stop \<Rightarrow> unit eng" where
  "publish_and_end env maximum_bytes k stop =
     bindE (getE (\<lambda>w. create_terminal_descriptor (summary (execution w)) k stop (es_sink w))) (\<lambda>d.
     bindE (publish_file_output env maximum_bytes d) (\<lambda>_. append_terminal env maximum_bytes d))"

definition finalize_successful_output :: "run_env \<Rightarrow> int \<Rightarrow> terminal_stop \<Rightarrow> unit eng" where
  "finalize_successful_output env maximum_bytes stop = publish_and_end env maximum_bytes Scrape_Outcome stop"

definition discard_output :: "unit eng" where
  "discard_output = bindE (getE es_sink) (\<lambda>sink. case sink of
     None \<Rightarrow> returnE () | Some _ \<Rightarrow> on_sink (\<lambda>st. (discard_sink st, Inr ())))"

definition end_without_file :: "run_env \<Rightarrow> int \<Rightarrow> result_kind \<Rightarrow> run_stop \<Rightarrow> unit eng" where
  "end_without_file env maximum_bytes k stop =
     bindE discard_output (\<lambda>_. bindE (getE (\<lambda>w. create_terminal_descriptor (summary (execution w)) k (Run_Stop stop) None))
       (append_terminal env maximum_bytes))"

definition finalize_incomplete_output :: "run_env \<Rightarrow> int \<Rightarrow> run_stop \<Rightarrow> (result_kind \<times> terminal_stop) eng" where
  "finalize_incomplete_output env maximum_bytes stop =
     bindE (getE (\<lambda>w. if items_emitted (summary (execution w)) > 0 then Scrape_Partial else Scrape_Failure)) (\<lambda>k.
     bindE (getE es_sink) (\<lambda>sink.
     if sink = None \<or> stop = Stop_Output_Sink_Failure \<or> k = Scrape_Failure
     then bindE (end_without_file env maximum_bytes k stop) (\<lambda>_. returnE (k, Run_Stop stop))
     else catchE (bindE (publish_and_end env maximum_bytes k (Run_Stop stop)) (\<lambda>_. returnE (k, Run_Stop stop))) (\<lambda>e.
       if is_sink_error e
       then bindE (end_without_file env maximum_bytes k Stop_Output_Sink_Failure)
         (\<lambda>_. returnE (k, Run_Stop Stop_Output_Sink_Failure))
       else throwE e)))"

definition finalize_successful_run :: "run_env \<Rightarrow> int \<Rightarrow> terminal_stop \<Rightarrow> (result_kind \<times> terminal_stop) eng" where
  "finalize_successful_run env maximum_bytes stop =
     catchE (bindE (finalize_successful_output env maximum_bytes stop) (\<lambda>_. returnE (Scrape_Outcome, stop))) (\<lambda>e.
       if is_sink_error e then finalize_incomplete_output env maximum_bytes Stop_Output_Sink_Failure else throwE e)"

record local_run_result =
  lr_kind :: result_kind
  lr_summary :: run_summary
  lr_stop :: terminal_stop

definition run_result :: "(result_kind \<times> terminal_stop) eng \<Rightarrow> local_run_result eng" where
  "run_result m = bindE m (\<lambda>(k, stop). bindE (getE (\<lambda>w. summary (execution w))) (\<lambda>s.
     returnE \<lparr>lr_kind = k, lr_summary = s, lr_stop = stop\<rparr>))"

definition finish_run :: "run_env \<Rightarrow> run_stop \<Rightarrow> local_run_result eng" where
  "finish_run env stop = run_result (bindE (getE (\<lambda>w. maximum_journal_bytes (execution w))) (\<lambda>m.
     finalize_incomplete_output env m stop))"

section \<open>Cancellation\<close>

text \<open>\<open>cancel\<close> of \<open>createRunCancellation\<close>: \<open>requested\<close> is its flag, \<open>True\<close> aborts the signal.\<close>

definition cancel_run :: "run_env \<Rightarrow> cancellation_source \<Rightarrow> bool \<Rightarrow> (bool \<times> bool) eng" where
  "cancel_run env source requested = bindE (getE execution) (\<lambda>s.
     if requested \<or> terminal s then returnE (requested, False)
     else bindE (append_emergency env (db_max_journal_bytes (rp_durable (ev_policy env))) (Cancel_Requested source))
       (\<lambda>_. returnE (True, True)))"

end
