(* ===== verification/Output_Finalization.thy ===== *)
theory Output_Finalization
  imports Engine_State
begin

text \<open>
  What the end of a run guarantees: a result that the run service reports has its terminal
  frame on disk, and a result in a file has that file.
\<close>

section \<open>Recorded events\<close>

text \<open>The journal reads back, and its last frame records \<open>ev\<close>.\<close>

definition last_recorded :: "run_env \<Rightarrow> engine_state \<Rightarrow> journal_event \<Rightarrow> bool" where
  "last_recorded env w ev \<longleftrightarrow> (\<exists>bytes frames fr. ds_journal (es_durable w) = Some bytes \<and>
     read_journal (ev_sha env) (Some (ev_run_id env)) bytes = Inr (frames @ [fr], None) \<and> fb_event (jf_body fr) = ev)"

lemma appended_is_last:
  assumes "sha_ok sha" "append_journal_frame sha f (next_body rid s ev) mb mf r = (f1, Inr fr)"
  shows "\<exists>frames bytes. f1 = Some bytes \<and> read_journal sha (Some rid) bytes = Inr (frames @ [fr], None) \<and>
    fb_event (jf_body fr) = ev"
proof -
  from append_Inr[OF assms(2)] obtain f0 frames enc where a:
    "recover_journal_file sha (Some rid) f = (f0, Inr frames)"
    "frame_to_append sha frames (length (file_bytes f0)) (next_body rid s ev) mb mf r = Inr (enc, fr)"
    "f1 = Some (file_bytes f0 @ enc)" by (auto simp: next_body_def)
  have "fb_run_id (next_body rid s ev) = rid" by (simp add: next_body_def)
  with appended_frame_reads(1)[OF assms(1) _ a(2), of f] a(1)
  have "read_journal sha (Some rid) (file_bytes f0 @ enc) = Inr (frames @ [fr], None)" by (simp add: read_journal_def)
  moreover have "fb_event (jf_body fr) = ev"
    using frame_to_append_Inr(2)[OF a(2)] by (simp add: frame_at_def next_body_def)
  ultimately show ?thesis using a(3) by blast
qed

lemma append_emergency_ok:
  assumes "sha_ok (ev_sha env)" "append_emergency env mb ev w = (w', Inr u)"
  shows "last_recorded env w' ev \<and> es_files w' = es_files w \<and> es_sink w' = es_sink w \<and>
    summary (execution w') = summary (execution w)"
proof -
  obtain f1 fr where a: "append_emergency_journal_frame (ev_sha env) (ev_run_id env) mb ev (ds_journal (es_durable w))
      (execution w) = (f1, Inr fr)"
    and w': "ds_journal (es_durable w') = f1" "es_files w' = es_files w" "es_sink w' = es_sink w"
      "summary (execution w') = summary (execution w)"
    using assms(2) by (auto simp: append_emergency_def append_emergency_journal_event_def advance_cursor_def
      split: prod.splits sum.splits)
  from a have "append_journal_frame (ev_sha env) (ds_journal (es_durable w)) (next_body (ev_run_id env) (execution w) ev) mb
      (Some (maximum_journal_frames (execution w))) 0 = (f1, Inr fr)"
    by (auto simp: append_emergency_journal_frame_def split: if_splits sum.splits)
  from appended_is_last[OF assms(1) this] show ?thesis using w' unfolding last_recorded_def by blast
qed

lemma append_terminal_ok:
  assumes "sha_ok (ev_sha env)" "append_terminal env mb d w = (w', Inr u)"
  shows "(\<exists>g. last_recorded env w' (Terminal d g)) \<and> es_files w' = es_files w \<and> es_sink w' = es_sink w \<and>
    summary (execution w') = summary (execution w)"
  using assms append_emergency_ok[OF assms(1)]
  by (fastforce simp: append_terminal_def bindE_Inr_iff terminal_journal_event_def bindR_Inr_iff)

section \<open>Publication\<close>

lemma on_sink_read: "es_sink w = Some sk \<Longrightarrow> on_sink (\<lambda>st. (st, f st)) w = (w, f (es_files w, sk))"
  by (simp add: on_sink_def)

lemma commit_prepared_free:
  assumes "sink_ok fs sk items" "prepare_output sha dest (fs, sk) = Inr p"
    and "commit_prepared sha p (fs, sk) = ((fs1, sk1), Inr c)"
  shows "\<exists>t. render_output (sk_format sk) (sk_csv_columns sk) items = Inr t \<and>
    fs1 = (fs(dest := Some (Regular_File t)))(sk_private sk := None) \<and> sk1 = sk\<lparr>sk_closed := True\<rparr>"
proof -
  have "pf_path p = dest" using assms(2) by (auto simp: prepare_output_def Let_def bindR_Inr_iff)
  then show ?thesis using assms
  by (auto simp: commit_prepared_def commit_output_def link_file_def assert_open_def sink_error_def prepare_output_def
    Let_def sink_ok_def split: if_splits)
qed

lemma publish_prepared_ok:
  assumes ok: "sink_ok (es_files w) sk items" and sk: "es_sink w = Some sk"
    and prep: "prepare_output sha dest (es_files w, sk) = Inr p"
    and pub: "publish_prepared sha p w = (w', Inr u)"
  shows "\<exists>t. render_output (sk_format sk) (sk_csv_columns sk) items = Inr t \<and>
    es_files w' = ((es_files w)(dest := Some (Regular_File t)))(sk_private sk := None) \<and>
    es_durable w' = es_durable w"
proof (cases "commit_prepared sha p (es_files w, sk)")
  case (Pair st r)
  obtain fs1 sk1 where st: "st = (fs1, sk1)" by (cases st)
  show ?thesis
  proof (cases r)
    case (Inr c)
    then have "w' = w\<lparr>es_files := fs1, es_sink := Some sk1\<rparr>"
      using pub Pair st by (auto simp: publish_prepared_def catchE_def bindE_def on_sink_def sk)
    then show ?thesis using commit_prepared_free[OF ok prep] Pair st Inr by fastforce
  next
    case (Inl e)
    from failed_commit_cannot_complete[OF prep, of st e] Pair Inl
    obtain x where "complete_prepared sha p st = (st, Inl x)" by auto
    then have False using pub Pair Inl st sk
      by (auto simp: publish_prepared_def catchE_def bindE_def on_sink_def split: if_splits)
    then show ?thesis ..
  qed
qed

lemma sink_ok_prepares:
  "sink_ok fs sk items \<Longrightarrow> \<exists>p. prepare_output sha dest (fs, sk) = Inr p \<and> pf_path p = dest"
  by (simp add: sink_ok_def prepare_output_def assert_open_def Let_def)

definition output_path :: "output_sink \<Rightarrow> bool \<Rightarrow> string" where
  "output_path sk partial =
     (if partial then partial_output_path (sk_requested_path sk) (sk_run_id sk) else sk_requested_path sk)"

lemma terminal_output_path: "terminal_output sk partial = Output_File (output_path sk partial) (sk_format sk) partial"
  by (simp add: terminal_output_def output_path_def)

lemma publish_file_output_ok:
  assumes sha: "sha_ok (ev_sha env)" and ok: "sink_ok (es_files w) sk items" and sk: "es_sink w = Some sk"
    and d: "td_output d = terminal_output sk partial" and pub: "publish_file_output env mb d w = (w', Inr u)"
  shows "\<exists>t. render_output (sk_format sk) (sk_csv_columns sk) items = Inr t \<and>
    es_files w' = ((es_files w)(output_path sk partial := Some (Regular_File t)))(sk_private sk := None) \<and>
    summary (execution w') = summary (execution w)"
proof -
  let ?dest = "output_path sk partial"
  obtain p where p: "prepare_output (ev_sha env) ?dest (es_files w, sk) = Inr p" "pf_path p = ?dest"
    using sink_ok_prepares[OF ok] by blast
  have prep: "on_sink (\<lambda>st. (st, (if partial then prepare_partial else prepare_complete) (ev_sha env) st)) w = (w, Inr p)"
    using p(1) sk by (auto simp: on_sink_def prepare_partial_def prepare_complete_def output_path_def)
  from pub obtain g w1 w2 u1 u2 ev1 ev2 where
    s1: "append_emergency env mb ev1 w = (w1, Inr u1)" and
    s2: "publish_prepared (ev_sha env) p w1 = (w2, Inr u2)" and
    s3: "append_emergency env mb ev2 w2 = (w', Inr u)"
    using p(2) sk unfolding publish_file_output_def d terminal_output_path
    by (auto simp: bindE_Inr_iff prep)
  note a1 = append_emergency_ok[OF sha s1] and a3 = append_emergency_ok[OF sha s3]
  from a1 p(1) ok sk have "prepare_output (ev_sha env) ?dest (es_files w1, sk) = Inr p"
    "sink_ok (es_files w1) sk items" "es_sink w1 = Some sk" by auto
  from publish_prepared_ok[OF this(2,3,1) s2] show ?thesis using a1 a3 by auto
qed

lemma publish_and_end_ok:
  assumes sha: "sha_ok (ev_sha env)" and ok: "\<forall>sk. es_sink w = Some sk \<longrightarrow> sink_ok (es_files w) sk items"
    and fin: "publish_and_end env mb k stop w = (w', Inr u)" and k: "k \<noteq> Scrape_Failure"
  shows "\<exists>g. last_recorded env w' (Terminal (create_terminal_descriptor (summary (execution w)) k stop (es_sink w)) g) \<and>
    summary (execution w') = summary (execution w) \<and>
    (\<forall>sk. es_sink w = Some sk \<longrightarrow> (\<exists>t. render_output (sk_format sk) (sk_csv_columns sk) items = Inr t \<and>
      es_files w' = ((es_files w)(output_path sk (k = Scrape_Partial) := Some (Regular_File t)))(sk_private sk := None)))"
proof -
  let ?d = "create_terminal_descriptor (summary (execution w)) k stop (es_sink w)"
  from fin obtain w1 u1 where
    s1: "publish_file_output env mb ?d w = (w1, Inr u1)" and s2: "append_terminal env mb ?d w1 = (w', Inr u)"
    by (auto simp: publish_and_end_def bindE_Inr_iff)
  note a = append_terminal_ok[OF sha s2]
  show ?thesis
  proof (cases "es_sink w")
    case None
    then have "w1 = w" using s1 by (simp add: publish_file_output_def bindE_def)
    then show ?thesis using a None by auto
  next
    case (Some sk)
    have "td_output ?d = terminal_output sk (k = Scrape_Partial)" using k Some by (simp add: create_terminal_descriptor_def)
    from publish_file_output_ok[OF sha _ Some this s1] ok Some a show ?thesis by auto
  qed
qed

section \<open>The summary stays\<close>

lemma append_emergency_summary: "append_emergency env mb ev w = (w', r) \<Longrightarrow> summary (execution w') = summary (execution w)"
  by (auto simp: append_emergency_def append_emergency_journal_event_def advance_cursor_def split: prod.splits sum.splits)

lemma on_sink_summary: "on_sink f w = (w', r) \<Longrightarrow> summary (execution w') = summary (execution w)"
  by (auto simp: on_sink_def split: option.splits prod.splits)

definition keeps_summary :: "'a eng \<Rightarrow> bool" where
  "keeps_summary m \<longleftrightarrow> (\<forall>w w' r. m w = (w', r) \<longrightarrow> summary (execution w') = summary (execution w))"

lemma keeps_summaryD: "keeps_summary m \<Longrightarrow> m w = (w', r) \<Longrightarrow> summary (execution w') = summary (execution w)"
  by (simp add: keeps_summary_def)

lemma keeps_summary_ops [intro!]:
  "keeps_summary (returnE x)" "keeps_summary (throwE e)" "keeps_summary (liftE q)" "keeps_summary (getE g)"
  "keeps_summary (append_emergency env mb ev)" "keeps_summary (on_sink f)"
  by (auto simp: keeps_summary_def dest: append_emergency_summary on_sink_summary)

lemma keeps_summary_bind [intro!]: "keeps_summary m \<Longrightarrow> (\<And>x. keeps_summary (k x)) \<Longrightarrow> keeps_summary (bindE m k)"
  unfolding keeps_summary_def bindE_def by (auto split: prod.splits sum.splits)

lemma keeps_summary_catch [intro!]: "keeps_summary m \<Longrightarrow> (\<And>e. keeps_summary (h e)) \<Longrightarrow> keeps_summary (catchE m h)"
  unfolding keeps_summary_def catchE_def by (auto split: prod.splits sum.splits)

lemma publish_and_end_summary: "keeps_summary (publish_and_end env mb k stop)"
  unfolding publish_and_end_def publish_file_output_def publish_prepared_def append_terminal_def
  by (auto split: option.split output_descriptor.split)

lemma end_without_file_ok:
  assumes "sha_ok (ev_sha env)" "end_without_file env mb k stop w = (w', Inr u)"
  shows "(\<exists>g. last_recorded env w' (Terminal (create_terminal_descriptor (summary (execution w)) k (Run_Stop stop) None) g)) \<and>
    summary (execution w') = summary (execution w)"
proof -
  from assms(2) obtain w1 u1 where s: "discard_output w = (w1, Inr u1)"
    "append_terminal env mb (create_terminal_descriptor (summary (execution w1)) k (Run_Stop stop) None) w1 = (w', Inr u)"
    by (auto simp: end_without_file_def bindE_Inr_iff)
  have "keeps_summary discard_output" unfolding discard_output_def by (auto split: option.split)
  from keeps_summaryD[OF this s(1)] append_terminal_ok[OF assms(1) s(2)] show ?thesis by auto
qed

section \<open>Results are recorded\<close>

text \<open>
  The result \<open>(k, stop)\<close> of a run is recorded: its terminal frame is the last of the journal,
  and the output the frame names holds the rendering of the items.
\<close>

definition result_recorded :: "run_env \<Rightarrow> engine_state \<Rightarrow> json list \<Rightarrow> engine_state \<Rightarrow> result_kind \<Rightarrow> terminal_stop \<Rightarrow> bool" where
  "result_recorded env w items w' k stop \<longleftrightarrow> (\<exists>d g. last_recorded env w' (Terminal d g) \<and> td_result_kind d = k \<and>
     td_stop d = stop \<and> td_summary d = summary (execution w) \<and> summary (execution w') = summary (execution w) \<and>
     (k = Scrape_Failure \<longleftrightarrow> td_output d = Output_None) \<and>
     (case td_output d of
        Output_File p f partial \<Rightarrow> (\<exists>sk t. es_sink w = Some sk \<and> p = output_path sk partial \<and> f = sk_format sk \<and>
          render_output f (sk_csv_columns sk) items = Inr t \<and> es_files w' p = Some (Regular_File t) \<and>
          es_files w' (sk_private sk) = None)
      | _ \<Rightarrow> True))"

lemma publish_and_end_recorded:
  assumes sha: "sha_ok (ev_sha env)" and ok: "\<forall>sk. es_sink w = Some sk \<longrightarrow> sink_ok (es_files w) sk items"
    and fin: "publish_and_end env mb k stop w = (w', Inr u)" and k: "k \<noteq> Scrape_Failure"
  shows "result_recorded env w items w' k stop"
proof -
  let ?d = "create_terminal_descriptor (summary (execution w)) k stop (es_sink w)"
  note a = publish_and_end_ok[OF assms]
  obtain g where g: "last_recorded env w' (Terminal ?d g)" "summary (execution w') = summary (execution w)"
    using a by blast
  have d: "td_result_kind ?d = k" "td_stop ?d = stop" "td_summary ?d = summary (execution w)"
    by (simp_all add: create_terminal_descriptor_def)
  show ?thesis
  proof (cases "es_sink w")
    case None
    then have "td_output ?d = Output_Inline (k = Scrape_Partial)" using k by (simp add: create_terminal_descriptor_def)
    then show ?thesis using g d k unfolding result_recorded_def by (intro exI[of _ ?d] exI[of _ g]) simp
  next
    case (Some sk)
    then have o: "td_output ?d = Output_File (output_path sk (k = Scrape_Partial)) (sk_format sk) (k = Scrape_Partial)"
      using k by (simp add: create_terminal_descriptor_def terminal_output_path)
    have "output_path sk x \<noteq> sk_private sk" for x
      using private_path_differs by (metis output_path_def sk_private_def)
    then show ?thesis using a g d k o Some unfolding result_recorded_def
      by (intro exI[of _ ?d] exI[of _ g]) auto
  qed
qed

lemma end_without_file_recorded:
  assumes "sha_ok (ev_sha env)" "end_without_file env mb k stop w1 = (w', Inr u)"
    and "summary (execution w1) = summary (execution w)"
  shows "result_recorded env w items w' k (Run_Stop stop)"
proof -
  let ?d = "create_terminal_descriptor (summary (execution w)) k (Run_Stop stop) None"
  obtain g where "last_recorded env w' (Terminal ?d g)" "summary (execution w') = summary (execution w)"
    using end_without_file_ok[OF assms(1,2)] assms(3) by auto
  then show ?thesis unfolding result_recorded_def
    by (intro exI[of _ ?d] exI[of _ g]) (simp add: create_terminal_descriptor_def)
qed

definition incomplete_kind :: "engine_state \<Rightarrow> result_kind" where
  "incomplete_kind w = (if items_emitted (summary (execution w)) > 0 then Scrape_Partial else Scrape_Failure)"

lemma finalize_incomplete_eq: "finalize_incomplete_output env mb stop w =
    (if es_sink w = None \<or> stop = Stop_Output_Sink_Failure \<or> incomplete_kind w = Scrape_Failure
     then bindE (end_without_file env mb (incomplete_kind w) stop) (\<lambda>_. returnE (incomplete_kind w, Run_Stop stop)) w
     else catchE (bindE (publish_and_end env mb (incomplete_kind w) (Run_Stop stop)) (\<lambda>_. returnE (incomplete_kind w, Run_Stop stop)))
      (\<lambda>e. if is_sink_error e
         then bindE (end_without_file env mb (incomplete_kind w) Stop_Output_Sink_Failure)
           (\<lambda>_. returnE (incomplete_kind w, Run_Stop Stop_Output_Sink_Failure))
         else throwE e) w)"
  by (simp add: finalize_incomplete_output_def bindE_step[of "getE _"] flip: incomplete_kind_def)

lemma finalize_incomplete_recorded:
  assumes sha: "sha_ok (ev_sha env)" and w: "summary (execution w1) = summary (execution w)"
    and ok: "w1 = w \<or> stop = Stop_Output_Sink_Failure"
    and sink: "\<forall>sk. es_sink w = Some sk \<longrightarrow> sink_ok (es_files w) sk items"
    and fin: "finalize_incomplete_output env mb stop w1 = (w', Inr (k, stop'))"
  shows "result_recorded env w items w' k stop'"
proof -
  let ?k = "incomplete_kind w1"
  note eq = fin[unfolded finalize_incomplete_eq]
  show ?thesis
  proof (cases "es_sink w1 = None \<or> stop = Stop_Output_Sink_Failure \<or> ?k = Scrape_Failure")
    case True
    have "bindE (end_without_file env mb ?k stop) (\<lambda>_. returnE (?k, Run_Stop stop)) w1 = (w', Inr (k, stop'))"
      using eq True by (simp only: if_True)
    then obtain u where u: "end_without_file env mb ?k stop w1 = (w', Inr u)" "k = ?k" "stop' = Run_Stop stop"
      by (elim bindE_InrE) simp
    show ?thesis unfolding u(2,3) by (rule end_without_file_recorded[OF sha u(1) w])
  next
    case False
    then have same: "w1 = w" using ok by auto
    obtain w2 r where p: "publish_and_end env mb ?k (Run_Stop stop) w1 = (w2, r)" by (cases "publish_and_end env mb ?k (Run_Stop stop) w1")
    show ?thesis
    proof (cases r)
      case (Inr u)
      have "w' = w2" "k = ?k" "stop' = Run_Stop stop" "?k \<noteq> Scrape_Failure"
        using eq[unfolded if_not_P[OF False]] False p Inr by (auto simp: bindE_def catchE_def)
      then show ?thesis using publish_and_end_recorded[OF sha sink] p Inr same by blast
    next
      case (Inl e)
      obtain u where "end_without_file env mb ?k Stop_Output_Sink_Failure w2 = (w', Inr u)" "k = ?k"
        "stop' = Run_Stop Stop_Output_Sink_Failure"
        using eq[unfolded if_not_P[OF False]] p Inl by (auto simp: bindE_def catchE_def split: if_splits prod.splits sum.splits)
      then show ?thesis
        using end_without_file_recorded[OF sha] keeps_summaryD[OF publish_and_end_summary p] w by metis
    qed
  qed
qed

text \<open>
  C21: no result without its record. Whatever way a run ends, when the run service reports a
  result then the last frame of its journal is the terminal frame with that kind, stop and
  summary; only a failure has no output, and when the frame names a file, that file holds
  exactly the rendering of the committed items and the private file is gone.
\<close>

theorem reported_result_is_recorded:
  assumes "sha_ok (ev_sha env)" "\<forall>sk. es_sink w = Some sk \<longrightarrow> sink_ok (es_files w) sk items"
    and "finalize_successful_run env mb end_stop w = (w', Inr (k, stop)) \<or>
      finalize_incomplete_output env mb run_stop w = (w', Inr (k, stop))"
  shows "result_recorded env w items w' k stop"
  using assms(3)
proof
  assume "finalize_incomplete_output env mb run_stop w = (w', Inr (k, stop))"
  then show ?thesis using finalize_incomplete_recorded[OF assms(1) _ _ assms(2)] by blast
next
  assume fin: "finalize_successful_run env mb end_stop w = (w', Inr (k, stop))"
  obtain w1 r where p: "publish_and_end env mb Scrape_Outcome end_stop w = (w1, r)"
    by (cases "publish_and_end env mb Scrape_Outcome end_stop w")
  show ?thesis
  proof (cases r)
    case (Inr u)
    then have "w' = w1" "k = Scrape_Outcome" "stop = end_stop"
      using fin p by (auto simp: finalize_successful_run_def finalize_successful_output_def catchE_def bindE_def)
    then show ?thesis using publish_and_end_recorded[OF assms(1,2)] p Inr by blast
  next
    case (Inl e)
    then have "finalize_incomplete_output env mb Stop_Output_Sink_Failure w1 = (w', Inr (k, stop))"
      using fin p by (auto simp: finalize_successful_run_def finalize_successful_output_def catchE_def bindE_def split: if_splits)
    then show ?thesis
      using finalize_incomplete_recorded[OF assms(1) keeps_summaryD[OF publish_and_end_summary p] _ assms(2)] by blast
  qed
qed

text \<open>
  When the destination has appeared in the meantime, a run that has prepared its output ends
  without a result: the frame \<open>output_prepared\<close> is its last.
\<close>

lemma taken_destination_leaves_no_terminal:
  assumes sha: "sha_ok (ev_sha env)" and ok: "sink_ok (es_files w) sk items" and sk: "es_sink w = Some sk"
    and taken: "es_files w (sk_requested_path sk) \<noteq> None"
    and g: "terminal_descriptor_digest (ev_sha env) (create_terminal_descriptor (summary (execution w)) Scrape_Outcome stop (Some sk)) = Inr g"
    and prep: "prepare_complete (ev_sha env) (es_files w, sk) = Inr p"
    and rec: "append_emergency env mb (Output_Prepared \<lparr>po_path_digest = ev_sha env (pf_path p),
        po_content_digest = pf_content_digest p, po_byte_length = pf_byte_length p,
        po_descriptor = create_terminal_descriptor (summary (execution w)) Scrape_Outcome stop (Some sk),
        po_descriptor_digest = g\<rparr>) w = (w1, Inr ())"
  shows "\<exists>w' p. finalize_successful_run env mb stop w = (w', Inl output_publication_pending) \<and>
    last_recorded env w' (Output_Prepared p)"
proof -
  let ?d = "create_terminal_descriptor (summary (execution w)) Scrape_Outcome stop (Some sk)"
  note a = append_emergency_ok[OF sha rec]
  have path: "pf_path p = sk_requested_path sk" and closed: "\<not> sk_closed sk"
    using prep ok by (auto simp: prepare_complete_def prepare_output_def Let_def bindR_Inr_iff sink_ok_def)
  have same: "prepare_output (ev_sha env) (pf_path p) (es_files w, sk) = Inr p"
    using prep path by (simp add: prepare_complete_def)
  have cp: "commit_prepared (ev_sha env) p (es_files w, sk) =
      ((es_files w, sk\<lparr>sk_closed := True\<rparr>), Inl (RunOutputSinkError (STR ''output path already exists'')))"
    using same taken closed path
    by (auto simp: commit_prepared_def commit_output_def link_file_def assert_open_def sink_error_def)
  from failed_commit_cannot_complete[OF same cp] obtain x where
    "complete_prepared (ev_sha env) p (es_files w, sk\<lparr>sk_closed := True\<rparr>) = ((es_files w, sk\<lparr>sk_closed := True\<rparr>), Inl x)" ..
  with cp a sk have pp: "publish_prepared (ev_sha env) p w1 =
      (w1\<lparr>es_files := es_files w, es_sink := Some (sk\<lparr>sk_closed := True\<rparr>)\<rparr>, Inl output_publication_pending)"
    by (simp add: publish_prepared_def catchE_def bindE_def on_sink_def)
  have "publish_and_end env mb Scrape_Outcome stop w =
      (w1\<lparr>es_files := es_files w, es_sink := Some (sk\<lparr>sk_closed := True\<rparr>)\<rparr>, Inl output_publication_pending)"
    using prep rec pp g path sk
    by (simp add: publish_and_end_def publish_file_output_def bindE_def on_sink_read create_terminal_descriptor_def
      terminal_output_def)
  moreover have "\<not> is_sink_error output_publication_pending" by (simp add: output_publication_pending_def)
  ultimately show ?thesis using a unfolding last_recorded_def
    by (auto simp: finalize_successful_run_def finalize_successful_output_def catchE_def bindE_def)
qed

section \<open>Example\<close>

definition example_end_env :: run_env where
  "example_end_env = \<lparr>ev_sha = zero_sha, ev_parse_url = (\<lambda>_. None), ev_build_url = (\<lambda>_ _ _. []), ev_run_id = example_run,
     ev_args = JNull, ev_capabilities = [], ev_collection = example_collection seeded_mode [],
     ev_named_limits = [], ev_policy = cn_run_policy (example_collection seeded_mode [])\<rparr>"

definition example_summary :: run_summary where
  "example_summary = zero_summary\<lparr>items_emitted := 2\<rparr>"

definition example_end_state :: engine_state where
  "example_end_state = \<lparr>es_durable = \<lparr>ds_frontier = new_frontier 0, ds_spool = [], ds_journal = None,
       ds_execution = (idle_state 10)\<lparr>summary := example_summary\<rparr>\<rparr>,
     es_files = fst example_written, es_sink = Some (snd example_written), es_stops = \<lparr>tr_active = [], tr_previous = []\<rparr>,
     es_order = new_attempt_order, es_batch_stop = None\<rparr>"

definition example_descriptor :: terminal_descriptor where
  "example_descriptor = \<lparr>td_result_kind = Scrape_Outcome, td_stop = Source_Exhausted, td_summary = example_summary,
     td_output = Output_File ''/o/x'' Format_Json False\<rparr>"

definition example_body_at :: "int \<Rightarrow> journal_event \<Rightarrow> frame_body" where
  "example_body_at q ev = \<lparr>fb_run_id = example_run, fb_sequence = q, fb_execution_epoch = 0,
     fb_previous = (if q = 1 then None else Some (zero_sha [])), fb_event = ev\<rparr>"

definition example_prepared_event :: journal_event where
  "example_prepared_event = Output_Prepared \<lparr>po_path_digest = zero_sha [], po_content_digest = zero_sha [],
     po_byte_length = 23, po_descriptor = example_descriptor, po_descriptor_digest = zero_sha []\<rparr>"

definition example_events :: "journal_event list" where
  "example_events = [example_prepared_event, Output_Committed (zero_sha []) 23 (zero_sha []),
     Terminal example_descriptor (zero_sha [])]"

lemma example_descriptor_digest: "\<not> isl (terminal_descriptor_digest zero_sha example_descriptor)"
  by code_simp

lemma example_bound: "parse_bound_descriptor zero_sha (descriptor_json example_descriptor) (JStr (zero_sha [])) =
    Inr (example_descriptor, zero_sha [])" "terminal_descriptor_digest zero_sha example_descriptor = Inr (zero_sha [])"
proof -
  obtain g where g: "terminal_descriptor_digest zero_sha example_descriptor = Inr g"
    using example_descriptor_digest by (cases "terminal_descriptor_digest zero_sha example_descriptor") auto
  then obtain d where "parse_terminal_descriptor (descriptor_json example_descriptor) = Inr d"
    by (auto simp: terminal_descriptor_digest_def bindR_Inr_iff)
  then have d: "parse_terminal_descriptor (descriptor_json example_descriptor) = Inr example_descriptor"
    using parse_descriptor_json by metis
  moreover have "g = zero_sha []" using g
    by (auto simp: terminal_descriptor_digest_def bindR_Inr_iff canonical_json_digest_def zero_sha_def)
  ultimately show "parse_bound_descriptor zero_sha (descriptor_json example_descriptor) (JStr (zero_sha [])) =
    Inr (example_descriptor, zero_sha [])" "terminal_descriptor_digest zero_sha example_descriptor = Inr (zero_sha [])"
    using g zero_sha_ok by (simp_all add: parse_bound_descriptor_def object_read sha_ok_def)
qed

lemmas example_parse = example_body_at_def frame_json_def
    parse_journal_frame_body_def object_read parts_json parse_journal_event_def read_record_kind_def event_parsers
    example_run_def is_prefixed_hex_def max_safe_integer_def is_lower_hex_def
    is_digit_def sha_ok_def num_json_def option_json_def parse_nullable_with_def

lemma example_hex: "list_all is_lower_hex (replicate 32 CHR ''0'')"
  by (simp add: list_all_iff is_lower_hex_def is_digit_def)

lemma example_parse_3: "parse_journal_frame_body zero_sha (frame_json (example_body_at 3 (Terminal example_descriptor (zero_sha [])))) =
    Inr (example_body_at 3 (Terminal example_descriptor (zero_sha [])))"
  using example_bound(1) zero_sha_ok example_hex by (simp add: example_parse)

lemma example_parse_2: "parse_journal_frame_body zero_sha (frame_json (example_body_at 2 (Output_Committed (zero_sha []) 23 (zero_sha [])))) =
    Inr (example_body_at 2 (Output_Committed (zero_sha []) 23 (zero_sha [])))"
  using zero_sha_ok example_hex by (simp add: example_parse)

lemma example_parse_1: "parse_journal_frame_body zero_sha (frame_json (example_body_at 1 example_prepared_event)) =
    Inr (example_body_at 1 example_prepared_event)"
  using example_bound(1) zero_sha_ok example_hex by (simp add: example_parse example_prepared_event_def)

lemma example_text_3: "case canonical_json (frame_json (example_body_at 3 (Terminal example_descriptor (zero_sha [])))) of
    Inr t \<Rightarrow> length t < 2000 | Inl _ \<Rightarrow> False"
  by code_simp

lemma example_text_2: "case canonical_json (frame_json (example_body_at 2 (Output_Committed (zero_sha []) 23 (zero_sha [])))) of
    Inr t \<Rightarrow> length t < 2000 | Inl _ \<Rightarrow> False"
  by code_simp

lemma example_text_1: "case canonical_json (frame_json (example_body_at 1 example_prepared_event)) of
    Inr t \<Rightarrow> length t < 2000 | Inl _ \<Rightarrow> False"
  by code_simp

lemma example_encodes_body:
  assumes "parse_journal_frame_body zero_sha (frame_json b) = Inr b"
    and "case canonical_json (frame_json b) of Inr t \<Rightarrow> length t < 2000 | Inl _ \<Rightarrow> False"
  shows "\<exists>enc. encode_journal_frame zero_sha b = Inr enc \<and> int (length enc) \<le> journal_emergency_frame_body_bytes + 36"
proof -
  obtain t where t: "canonical_json (frame_json b) = Inr t" "length t < 2000"
    using assms(2) by (cases "canonical_json (frame_json b)") auto
  have "length (unhex (zero_sha t)) = 32" using sha_hex[OF zero_sha_ok] by simp
  then show ?thesis using t assms(1)
    by (simp add: encode_journal_frame_def max_frame_body_bytes_def journal_emergency_frame_body_bytes_def)
qed

definition ready_at :: "nat \<Rightarrow> int \<Rightarrow> engine_state \<Rightarrow> bool" where
  "ready_at k q w \<longleftrightarrow> journal_ready zero_sha example_run 400000 k (ds_journal (es_durable w), execution w) \<and>
     sequence (execution w) + 1 = q \<and> execution_epoch (execution w) = 0 \<and>
     previous_digest (execution w) = (if q = 1 then None else Some (zero_sha []))"

lemma example_frame_step:
  assumes ready: "ready_at (Suc k) q w" and q: "1 \<le> q"
    and enc: "\<exists>enc. encode_journal_frame zero_sha (example_body_at q ev) = Inr enc \<and>
      int (length enc) \<le> journal_emergency_frame_body_bytes + 36"
  obtains w1 where "append_emergency example_end_env 400000 ev w = (w1, Inr ())" "ready_at k (q + 1) w1"
    "es_files w1 = es_files w" "es_sink w1 = es_sink w" "summary (execution w1) = summary (execution w)"
proof -
  have b: "next_body example_run (execution w) ev = example_body_at q ev"
    using ready by (auto simp: ready_at_def next_body_def example_body_at_def)
  obtain bytes where "encode_journal_frame zero_sha (next_body example_run (execution w) ev) = Inr bytes"
    "int (length bytes) \<le> journal_emergency_frame_body_bytes + 36" using enc b by auto
  from emergency_step_ok[OF zero_sha_ok _ this] ready obtain f1 s1 t where st:
    "append_emergency_journal_event zero_sha example_run 400000 ev (ds_journal (es_durable w), execution w) = ((f1, s1), Inr ())"
    "journal_ready zero_sha example_run 400000 k (f1, s1)" "sequence s1 = sequence (execution w) + 1"
    "previous_digest s1 = Some (zero_sha t)" "execution_epoch s1 = execution_epoch (execution w)"
    unfolding ready_at_def by blast
  have t: "zero_sha t = zero_sha []" by (simp add: zero_sha_def)
  obtain w1 where w1: "append_emergency example_end_env 400000 ev w = (w1, Inr ())"
    "ds_journal (es_durable w1) = f1" "execution w1 = s1"
    using st(1) by (simp add: append_emergency_def example_end_env_def)
  have "sha_ok (ev_sha example_end_env)" by (simp add: example_end_env_def zero_sha_ok)
  from append_emergency_ok[OF this w1(1)] show ?thesis
    using that[OF w1(1)] st w1 ready q t by (auto simp: ready_at_def)
qed

lemma example_ready: "ready_at 5 1 example_end_state"
  by (simp add: ready_at_def example_end_state_def journal_ready_def idle_state_def recover_journal_file_def
    last_digest_def safe_int_def max_safe_integer_def file_bytes_def journal_emergency_frame_body_bytes_def)

lemma example_prepared: "prepare_complete zero_sha (fst example_written, snd example_written) =
    Inr \<lparr>pf_path = ''/o/x'', pf_byte_length = 23, pf_content_digest = zero_sha [], pf_items_written = 2\<rparr>"
proof -
  have "case prepare_complete zero_sha (fst example_written, snd example_written) of Inl _ \<Rightarrow> False
      | Inr p \<Rightarrow> pf_path p = ''/o/x'' \<and> pf_byte_length p = 23 \<and> pf_items_written p = 2"
    by code_simp
  then show ?thesis
    by (auto simp: prepare_complete_def prepare_output_def Let_def zero_sha_def split_beta bindR_Inr_iff split: sum.splits)
qed

lemma example_sink_ok: "sink_ok (fst example_written) (snd example_written) example_items"
proof -
  have c: "sink_ok (fst example_sink) (snd example_sink) []" using create_sink_ok[OF example_sink_created] by auto
  have "write_items (\<lambda>s. s) example_items (fst example_sink, snd example_sink) =
      ((fst example_written, snd example_written), Inr ())"
    using example_sink_written by simp
  from write_items_ok[OF this c] show ?thesis by simp
qed

theorem reported_result_is_recorded_witness:
  "\<exists>w. finalize_successful_run example_end_env 400000 Source_Exhausted example_end_state =
      (w, Inr (Scrape_Outcome, Source_Exhausted)) \<and>
    result_recorded example_end_env example_end_state example_items w Scrape_Outcome Source_Exhausted"
proof -
  let ?p = "\<lparr>pf_path = ''/o/x'', pf_byte_length = 23, pf_content_digest = zero_sha [], pf_items_written = 2\<rparr>"
  have z: "zero_sha s = zero_sha []" for s by (simp add: zero_sha_def)
  have f: "sk_requested_path (snd example_written) = ''/o/x''" "sk_format (snd example_written) = Format_Json"
    by code_simp+
  have free: "fst example_written ''/o/x'' = None"
  proof -
    have "(case fst example_written ''/o/x'' of None \<Rightarrow> True | Some _ \<Rightarrow> False)" by code_simp
    then show ?thesis by (auto split: option.splits)
  qed
  have w0: "es_sink example_end_state = Some (snd example_written)" "es_files example_end_state = fst example_written"
    "summary (execution example_end_state) = example_summary" by (simp_all add: example_end_state_def)
  obtain w1 where w1: "append_emergency example_end_env 400000 example_prepared_event example_end_state = (w1, Inr ())"
    "ready_at 4 2 w1" "es_files w1 = fst example_written" "es_sink w1 = Some (snd example_written)"
    using example_frame_step[of 4 1 example_end_state, OF _ _ example_encodes_body[OF example_parse_1 example_text_1]] example_ready w0
    by auto
  have "prepare_output zero_sha ''/o/x'' (fst example_written, snd example_written) = Inr ?p"
    using example_prepared f by (simp add: prepare_complete_def)
  moreover have "\<not> sk_closed (snd example_written)" using example_sink_ok by (simp add: sink_ok_def)
  ultimately obtain fs2 sk2 c where "commit_prepared zero_sha ?p (fst example_written, snd example_written) = ((fs2, sk2), Inr c)"
    using free by (simp add: commit_prepared_def commit_output_def link_file_def assert_open_def Let_def split_beta)
  then obtain w2 where w2: "publish_prepared zero_sha ?p w1 = (w2, Inr ())" "es_durable w2 = es_durable w1"
    using w1 by (auto simp: publish_prepared_def catchE_def bindE_def on_sink_def)
  have "ready_at (Suc 3) 2 w2" using w1(2) w2(2) by (simp add: ready_at_def)
  then obtain w3 where w3: "append_emergency example_end_env 400000 (Output_Committed (zero_sha []) 23 (zero_sha [])) w2 =
      (w3, Inr ())" "ready_at 3 3 w3"
    using example_frame_step[of 3 2 w2, OF _ _ example_encodes_body[OF example_parse_2 example_text_2]] by auto
  obtain w4 where w4: "append_emergency example_end_env 400000 (Terminal example_descriptor (zero_sha [])) w3 = (w4, Inr ())"
    using example_frame_step[of 2 3 w3, OF _ _ example_encodes_body[OF example_parse_3 example_text_3]] w3(2) by auto
  have d: "create_terminal_descriptor example_summary Scrape_Outcome Source_Exhausted (Some (snd example_written)) = example_descriptor"
    by (simp add: create_terminal_descriptor_def example_descriptor_def terminal_output_def f)
  have o: "td_output example_descriptor = Output_File ''/o/x'' Format_Json False" by (simp add: example_descriptor_def)
  have e: "ev_sha example_end_env = zero_sha" by (simp add: example_end_env_def)
  have "publish_and_end example_end_env 400000 Scrape_Outcome Source_Exhausted example_end_state = (w4, Inr ())"
    using w1(1)[unfolded example_prepared_event_def] w2(1) w3(1) w4 w0 d o example_prepared example_bound(2)
    by (simp add: publish_and_end_def publish_file_output_def append_terminal_def terminal_journal_event_def bindE_def
      on_sink_read e z[of "''/o/x''"])
  then have r: "finalize_successful_run example_end_env 400000 Source_Exhausted example_end_state =
      (w4, Inr (Scrape_Outcome, Source_Exhausted))"
    by (simp add: finalize_successful_run_def finalize_successful_output_def catchE_def bindE_def)
  have "\<forall>sk. es_sink example_end_state = Some sk \<longrightarrow> sink_ok (es_files example_end_state) sk example_items"
    using example_sink_ok w0 by simp
  from reported_result_is_recorded[OF _ this disjI1[OF r]] zero_sha_ok e r show ?thesis by auto
qed

end
