(* ===== verification/Item_Emission.thy ===== *)
theory Item_Emission
  imports Engine_State
begin

text \<open>
  How the items of a page are buffered and committed
  (\<open>src/src/consumer/scrape/item-emission.ts\<close>). A page is buffered before its chain has the
  commit turn: every item is validated, reserves its part of the budgets and is written to the
  spool and the journal. Once the chain has the turn, the buffered items are committed in
  order: an identity that is already committed is dropped, another is recorded and written to
  the sink. The section on invariants shows that the reservations cover what the commits use.
\<close>

section \<open>Retained parents of a fan-out\<close>

fun canonical_bytes :: "json list \<Rightarrow> exn + int" where
  "canonical_bytes [] = Inr 0"
| "canonical_bytes (v # vs) = bindR (canonical_json v) (\<lambda>t. bindR (canonical_bytes vs) (\<lambda>n. Inr (int (length t) + n)))"

definition max_local_state :: "run_env \<Rightarrow> int" where
  "max_local_state env = db_max_local_state_bytes (rp_durable (ev_policy env))"

text \<open>\<open>None\<close> when the local state has no room for the items.\<close>

definition reserve_retained_fanout_items :: "run_env \<Rightarrow> json list \<Rightarrow> int option eng" where
  "reserve_retained_fanout_items env items =
     bindE (liftE (canonical_bytes items)) (\<lambda>bytes.
     bindE (getE execution) (\<lambda>s.
     if local_state_bytes s + retained_fanout_item_bytes s + reserved_identity_state_bytes s + bytes > max_local_state env
     then returnE None
     else bindE (modifyE (map_execution (\<lambda>s. s\<lparr>retained_fanout_item_bytes := retained_fanout_item_bytes s + bytes\<rparr>)))
       (\<lambda>_. returnE (Some bytes))))"

section \<open>Buffering\<close>

text \<open>\<open>if (error instanceof PublicContractError) throw new ItemValidationError(error.message)\<close>.\<close>

definition as_item_error :: "exn \<Rightarrow> exn" where
  "as_item_error e = (if is_contract_error e then ItemValidationError (contract_message e) else e)"

definition to_raw_items :: "emit_cardinality \<Rightarrow> json \<Rightarrow> exn + json list" where
  "to_raw_items c raw = (case c of
     Emit_One \<Rightarrow> Inr [raw]
   | Emit_Array \<Rightarrow> (case raw of
       JArr xs \<Rightarrow> Inr xs
     | _ \<Rightarrow> Inl (ItemValidationError (STR ''array emit pointer did not resolve to an array''))))"

definition item_identity_digest :: "hash \<Rightarrow> collection_contract \<Rightarrow> json \<Rightarrow> exn + string" where
  "item_identity_digest sha c item =
     bindR (mapR (\<lambda>p. catchR (resolve_json_pointer item p) as_item_error) (cn_identity_pointers c)) (\<lambda>vs.
     bindR (canonical_json (JArr vs)) (\<lambda>t. Inr (sha t)))"

definition conservative_output_bytes :: "output_sink option \<Rightarrow> json \<Rightarrow> int \<Rightarrow> exn + int" where
  "conservative_output_bytes sink item item_bytes = (case sink of
     None \<Rightarrow> Inr (item_bytes + 1 + 1)
   | Some sk \<Rightarrow> bindR (preview_item sk item) (\<lambda>n. Inr (n + 1)))"

definition identity_state_bytes :: "string \<Rightarrow> int" where
  "identity_state_bytes digest = int (length digest) + 1"

definition emit_context :: "json \<Rightarrow> json \<Rightarrow> scrape_value_context" where
  "emit_context data raw s = (case s of Val_Task_Data \<Rightarrow> Some data | Val_Raw_Item \<Rightarrow> Some raw | _ \<Rightarrow> None)"

definition journal_frames_exhausted :: exn where
  "journal_frames_exhausted = RunBudgetExceededError (STR ''journal frame budget is exhausted'')"

text \<open>\<open>if (!input.append(event)) throw new RunBudgetExceededError(...)\<close>.\<close>

definition append_or_fail :: "run_env \<Rightarrow> journal_event \<Rightarrow> unit eng" where
  "append_or_fail env event = bindE (append_run env event) (\<lambda>b. if b then returnE () else throwE journal_frames_exhausted)"

definition append_blob :: "run_env \<Rightarrow> json \<Rightarrow> blob_ref eng" where
  "append_blob env v = bindE (getE (\<lambda>w. ds_spool (es_durable w))) (\<lambda>spool.
     bindE (liftE (append_data_blob (ev_sha env) spool v (dl_max_spool_bytes (env_limits env)))) (\<lambda>(spool1, r).
     bindE (modifyE (\<lambda>w. w\<lparr>es_durable := (es_durable w)\<lparr>ds_spool := spool1\<rparr>\<rparr>)) (\<lambda>_. returnE r)))"

text \<open>A replayed position must hold the item it held.\<close>

definition check_replayed_item :: "string \<Rightarrow> string \<Rightarrow> string \<Rightarrow> buffered_item \<Rightarrow> exn + unit" where
  "check_replayed_item node_id digest encoded b =
     bindR (if bi_node_id b \<noteq> node_id \<or> bi_identity_digest b \<noteq> digest then Inr False
       else bindR (canonical_json (bi_item b)) (\<lambda>t. Inr (t = encoded))) (\<lambda>same.
     ensureR same (ItemValidationError (STR ''safe read replay changed a buffered item position'')) (Inr ()))"

definition check_item_budgets :: "run_env \<Rightarrow> execution_state \<Rightarrow> int \<Rightarrow> int \<Rightarrow> exn + unit" where
  "check_item_budgets env s output identity =
     ensureR (output_bytes s + reserved_output_bytes s + output \<le> rp_max_output_bytes (ev_policy env))
       (RunBudgetExceededError (STR ''output byte budget is exhausted''))
     (ensureR (local_state_bytes s + retained_fanout_item_bytes s + reserved_identity_state_bytes s + identity \<le> max_local_state env)
       (RunBudgetExceededError (STR ''local identity state budget is exhausted''))
     (ensureR (has_ordinary_journal_capacity s 1) journal_frames_exhausted (Inr ())))"

definition buffer_new_item :: "run_env \<Rightarrow> string \<Rightarrow> string \<Rightarrow> logical_order \<Rightarrow> string \<Rightarrow> json \<Rightarrow> int \<Rightarrow> buffered_item eng" where
  "buffer_new_item env node_id digest order key item item_bytes =
     bindE (getE execution) (\<lambda>s.
     bindE (liftE (ensureR (items_emitted (summary s) + reserved_item_count s < rp_max_items (ev_policy env))
       (RunBudgetExceededError (STR ''item budget is exhausted'')) (Inr ()))) (\<lambda>_.
     bindE (getE es_sink) (\<lambda>sink.
     bindE (liftE (conservative_output_bytes sink item item_bytes)) (\<lambda>output.
     bindE (liftE (check_item_budgets env s output (identity_state_bytes digest))) (\<lambda>_.
     bindE (append_blob env item) (\<lambda>blob.
     bindE (append_or_fail env (Item_Buffered node_id digest blob order)) (\<lambda>_.
     bindE (returnE \<lparr>bi_node_id = node_id, bi_identity_digest = digest, bi_logical_order = order, bi_item = item,
         bi_item_bytes = item_bytes, bi_reserved_output_bytes = output\<rparr>) (\<lambda>b.
     bindE (modifyE (map_execution (\<lambda>s. s\<lparr>buffered_items := buffered_items s @ [(key, b)],
         reserved_item_count := reserved_item_count s + 1,
         reserved_output_bytes := reserved_output_bytes s + output,
         reserved_identity_state_bytes := reserved_identity_state_bytes s + identity_state_bytes digest\<rparr>))) (\<lambda>_.
       returnE b)))))))))"

text \<open>
  The body of the loop of \<open>bufferRunItems\<close> for one raw item. Every text of the model is its
  UTF-8 bytes, so \<open>Buffer.byteLength\<close> is \<open>length\<close>.
\<close>

definition buffer_run_item ::
  "run_env \<Rightarrow> scrape_emit \<Rightarrow> string \<Rightarrow> int \<Rightarrow> int \<Rightarrow> json \<Rightarrow> nat \<Rightarrow> json \<Rightarrow> buffered_item eng" where
  "buffer_run_item env emit node_id node page data i raw =
     bindE (liftE (evaluate_scrape_value (em_projection emit) (emit_context data raw))) (\<lambda>item.
     bindE (liftE (catchR (validate_json_schema (cn_item_schema (ev_collection env)) item) as_item_error)) (\<lambda>_.
     bindE (liftE (canonical_json item)) (\<lambda>encoded.
     bindE (liftE (ensureR (int (length encoded) \<le> rp_max_encoded_item_bytes (ev_policy env))
       (ItemValidationError (STR ''item exceeds the signed encoded item byte limit'')) (Inr ()))) (\<lambda>_.
     bindE (liftE (item_identity_digest (ev_sha env) (ev_collection env) item)) (\<lambda>digest.
     bindE (returnE \<lparr>node_ordinal = node, page_ordinal = page, item_ordinal = int i\<rparr>) (\<lambda>order.
     bindE (liftE (item_logical_order_key order)) (\<lambda>key.
     bindE (getE (\<lambda>w. map_of (buffered_items (execution w)) key)) (\<lambda>existing.
     case existing of
       Some b \<Rightarrow> bindE (liftE (check_replayed_item node_id digest encoded b)) (\<lambda>_. returnE b)
     | None \<Rightarrow> buffer_new_item env node_id digest order key item (int (length encoded))))))))))"

fun buffer_run_items_from ::
  "run_env \<Rightarrow> scrape_emit \<Rightarrow> string \<Rightarrow> int \<Rightarrow> int \<Rightarrow> json \<Rightarrow> nat \<Rightarrow> json list \<Rightarrow> buffered_item list eng" where
  "buffer_run_items_from env emit node_id node page data i [] = returnE []"
| "buffer_run_items_from env emit node_id node page data i (raw # rest) =
     bindE (buffer_run_item env emit node_id node page data i raw) (\<lambda>b.
     bindE (buffer_run_items_from env emit node_id node page data (Suc i) rest) (\<lambda>bs. returnE (b # bs)))"

definition buffer_run_items ::
  "run_env \<Rightarrow> task_kind \<Rightarrow> string \<Rightarrow> int \<Rightarrow> int \<Rightarrow> json \<Rightarrow> buffered_item list eng" where
  "buffer_run_items env task node_id node page data = (case tk_emit task of
     None \<Rightarrow> returnE []
   | Some emit \<Rightarrow>
       if data = JNull then returnE []
       else
         bindE (liftE (catchR (resolve_json_pointer data (em_items_pointer emit)) as_item_error)) (\<lambda>raw.
         bindE (liftE (to_raw_items (em_cardinality emit) raw)) (\<lambda>raws.
           buffer_run_items_from env emit node_id node page data 0 raws)))"

section \<open>Committing\<close>

record item_emission =
  ie_items :: "json list"
  ie_retained_item_bytes :: int
  ie_semantic_stop_id :: "string option"

definition release_buffered_item :: "buffered_item \<Rightarrow> bool \<Rightarrow> unit eng" where
  "release_buffered_item b release_identity =
     bindE (liftE (item_logical_order_key (bi_logical_order b))) (\<lambda>key.
     bindE (getE execution) (\<lambda>s.
     if map_of (buffered_items s) key = None
     then throwE (ItemValidationError (STR ''buffered item is unavailable for commit''))
     else modifyE (map_execution (\<lambda>s. s\<lparr>
       buffered_items := filter (\<lambda>kv. fst kv \<noteq> key) (buffered_items s),
       reserved_item_count := reserved_item_count s - 1,
       reserved_output_bytes := reserved_output_bytes s - bi_reserved_output_bytes b,
       reserved_identity_state_bytes := reserved_identity_state_bytes s -
         (if release_identity then identity_state_bytes (bi_identity_digest b) else 0)\<rparr>))))"

definition observe_run_item :: "json \<Rightarrow> string option eng" where
  "observe_run_item item w = (case observe_item item (es_stops w) of (t, r) \<Rightarrow> (w\<lparr>es_stops := t\<rparr>, r))"

definition count_duplicate :: "execution_state \<Rightarrow> execution_state" where
  "count_duplicate s = s\<lparr>summary := (summary s)\<lparr>items_duplicate := items_duplicate (summary s) + 1\<rparr>\<rparr>"

definition count_committed :: "bool \<Rightarrow> buffered_item \<Rightarrow> execution_state \<Rightarrow> execution_state" where
  "count_committed has_fanout b s = s\<lparr>identity_digests := set_add (bi_identity_digest b) (identity_digests s),
     reserved_identity_state_bytes := reserved_identity_state_bytes s - identity_state_bytes (bi_identity_digest b),
     local_state_bytes := local_state_bytes s + identity_state_bytes (bi_identity_digest b),
     next_item_sequence := next_item_sequence s + 1,
     summary := (summary s)\<lparr>items_emitted := items_emitted (summary s) + 1\<rparr>,
     retained_fanout_item_bytes := retained_fanout_item_bytes s + (if has_fanout then bi_item_bytes b else 0)\<rparr>"

text \<open>The output of a committed item: the sink and its frame, or the bytes an inline result takes.\<close>

definition write_committed_item :: "run_env \<Rightarrow> int \<Rightarrow> buffered_item \<Rightarrow> unit eng" where
  "write_committed_item env seq b = bindE (getE es_sink) (\<lambda>sink. case sink of
     Some _ \<Rightarrow>
       bindE (on_sink (sink_write (ev_sha env) (bi_item b))) (\<lambda>progress.
       bindE (append_or_fail env (Sink_Committed seq (sp_byte_offset progress) (sp_prefix_digest progress))) (\<lambda>_.
       bindE (getE es_sink) (\<lambda>sink1.
         modifyE (map_execution (\<lambda>s. s\<lparr>output_bytes := (case sink1 of Some sk \<Rightarrow> sk_bytes_written sk | None \<Rightarrow> output_bytes s)\<rparr>)))))
   | None \<Rightarrow> modifyE (map_execution (\<lambda>s. s\<lparr>output_bytes := output_bytes s + bi_reserved_output_bytes b\<rparr>)))"

text \<open>One buffered item whose value no cutoff has stopped: \<open>True\<close> when it is committed.\<close>

definition commit_buffered_item :: "run_env \<Rightarrow> bool \<Rightarrow> buffered_item \<Rightarrow> bool eng" where
  "commit_buffered_item env has_fanout b = bindE (getE execution) (\<lambda>s.
     if bi_identity_digest b \<in> set (identity_digests s) then
       bindE (append_or_fail env (Item_Duplicate (bi_node_id b) (bi_identity_digest b) (bi_logical_order b))) (\<lambda>_.
       bindE (modifyE (map_execution count_duplicate)) (\<lambda>_.
       bindE (release_buffered_item b True) (\<lambda>_. returnE False)))
     else
       bindE (liftE (ensureR (\<not> (has_fanout \<and> local_state_bytes s + retained_fanout_item_bytes s +
           reserved_identity_state_bytes s + bi_item_bytes b > max_local_state env))
         (RunBudgetExceededError (STR ''fan-out item state budget is exhausted'')) (Inr ()))) (\<lambda>_.
       bindE (getE es_sink) (\<lambda>sink.
       bindE (liftE (ensureR (has_ordinary_journal_capacity s (if sink = None then 1 else 2)) journal_frames_exhausted (Inr ()))) (\<lambda>_.
       bindE (append_or_fail env (Item_Committed (bi_node_id b) (bi_identity_digest b) (bi_logical_order b) (next_item_sequence s))) (\<lambda>_.
       bindE (modifyE (map_execution (count_committed has_fanout b))) (\<lambda>_.
       bindE (write_committed_item env (next_item_sequence s) b) (\<lambda>_.
       bindE (release_buffered_item b False) (\<lambda>_. returnE True))))))))"

text \<open>The items and bytes handed on to the fan-out are those of the committed items.\<close>

definition keep_for_fanout :: "bool \<Rightarrow> buffered_item \<Rightarrow> item_emission \<Rightarrow> item_emission" where
  "keep_for_fanout keep b e = (if keep then e\<lparr>ie_items := bi_item b # ie_items e,
     ie_retained_item_bytes := bi_item_bytes b + ie_retained_item_bytes e\<rparr> else e)"

primrec commit_buffered_run_items :: "run_env \<Rightarrow> bool \<Rightarrow> buffered_item list \<Rightarrow> item_emission eng" where
  "commit_buffered_run_items env has_fanout [] =
     returnE \<lparr>ie_items = [], ie_retained_item_bytes = 0, ie_semantic_stop_id = None\<rparr>"
| "commit_buffered_run_items env has_fanout (b # bs) =
     bindE (observe_run_item (bi_item b)) (\<lambda>stop. case stop of
       Some i \<Rightarrow> returnE \<lparr>ie_items = [], ie_retained_item_bytes = 0, ie_semantic_stop_id = Some i\<rparr>
     | None \<Rightarrow> bindE (commit_buffered_item env has_fanout b) (\<lambda>committed.
         bindE (commit_buffered_run_items env has_fanout bs) (\<lambda>e.
           returnE (keep_for_fanout (committed \<and> has_fanout) b e))))"

end
