(* ===== verification/Item_Budgets.thy ===== *)
theory Item_Budgets
  imports Item_Emission
begin

text \<open>
  The reservations of buffered items cover what their commits use: the invariant of the item
  budgets and its preservation by buffering and committing, whether the operation returns or
  throws in the middle.
\<close>

section \<open>Weakest preconditions\<close>

definition wpE :: "'a eng \<Rightarrow> ('a \<Rightarrow> engine_state \<Rightarrow> bool) \<Rightarrow> (exn \<Rightarrow> engine_state \<Rightarrow> bool) \<Rightarrow> engine_state \<Rightarrow> bool" where
  "wpE m Q E w = (case m w of (w1, Inl e) \<Rightarrow> E e w1 | (w1, Inr x) \<Rightarrow> Q x w1)"

lemma wp_simps [simp]:
  "wpE (returnE x) Q E = Q x" "wpE (throwE e) Q E = E e" "wpE (getE f) Q E = (\<lambda>w. Q (f w) w)"
  "wpE (modifyE g) Q' E = (\<lambda>w. Q' () (g w))"
  "wpE (liftE r) Q E = (case r of Inl e \<Rightarrow> E e | Inr x \<Rightarrow> Q x)"
  "wpE (bindE m k) Q'' E = wpE m (\<lambda>x. wpE (k x) Q'' E) E"
  "wpE (catchE m h) Q E = wpE m Q (\<lambda>e. wpE (h e) Q E)"
  by (auto simp: wpE_def bindE_def catchE_def fun_eq_iff split: prod.split sum.split)

lemma wpE_Inr: "wpE m Q E w \<Longrightarrow> m w = (w', Inr x) \<Longrightarrow> Q x w'"
  by (simp add: wpE_def)

lemma wpE_any: "wpE m (\<lambda>_. P) (\<lambda>_. P) w \<Longrightarrow> m w = (w', r) \<Longrightarrow> P w'"
  by (cases r) (simp_all add: wpE_def)

lemma wpE_mono:
  "wpE m Q E w \<Longrightarrow> (\<And>x w. Q x w \<Longrightarrow> Q' x w) \<Longrightarrow> (\<And>e w. E e w \<Longrightarrow> E' e w) \<Longrightarrow> wpE m Q' E' w"
  by (auto simp: wpE_def split: prod.splits sum.splits)

lemma wpE_bindI:
  "wpE m R E w \<Longrightarrow> (\<And>x w1. R x w1 \<Longrightarrow> wpE (k x) Q E w1) \<Longrightarrow> wpE (bindE m k) Q E w"
  by (simp add: wpE_mono)

lemma wpE_step: "m w = (w1, Inr x) \<Longrightarrow> wpE m Q E w = Q x w1"
  by (simp add: wpE_def)

text \<open>An append moves the journal and the cursor of the run, and nothing else.\<close>

definition move_journal :: "file_state \<Rightarrow> int \<Rightarrow> string option \<Rightarrow> engine_state \<Rightarrow> engine_state" where
  "move_journal f q p w = w\<lparr>es_durable := (es_durable w)\<lparr>ds_journal := f,
     ds_execution := (execution w)\<lparr>sequence := q, previous_digest := p\<rparr>\<rparr>\<rparr>"

lemma move_journal_same: "move_journal (ds_journal (es_durable w)) (sequence (execution w)) (previous_digest (execution w)) w = w"
  by (simp add: move_journal_def)

lemma append_run_moves:
  assumes "append_run env ev w = (w', r)" shows "\<exists>f q p. w' = move_journal f q p w"
proof -
  obtain f s where a: "run_append (ev_sha env) (dl_run_id (env_limits env)) (dl_max_journal_bytes (env_limits env)) ev
      (ds_journal (es_durable w), execution w) = ((f, s), r)"
    and w': "w' = w\<lparr>es_durable := (es_durable w)\<lparr>ds_journal := f, ds_execution := s\<rparr>\<rparr>"
    using assms by (auto simp: append_run_def append_event_def split: prod.splits)
  from a have "s = (execution w)\<lparr>sequence := sequence s, previous_digest := previous_digest s\<rparr>"
    by (auto simp: run_append_def advance_cursor_def split: prod.splits sum.splits if_splits)
  then have "w' = move_journal f (sequence s) (previous_digest s) w" using w' by (simp add: move_journal_def)
  then show ?thesis by blast
qed

lemma wp_append_run:
  assumes "\<And>f q p b. Q b (move_journal f q p w)" "\<And>f q p e. E e (move_journal f q p w)"
  shows "wpE (append_run env ev) Q E w"
proof (cases "append_run env ev w")
  case (Pair w' r)
  then show ?thesis using append_run_moves[OF Pair] assms by (cases r) (auto simp: wpE_def)
qed

lemma move_journal_simps [simp]:
  "es_files (move_journal f q p w) = es_files w" "es_sink (move_journal f q p w) = es_sink w"
  "es_stops (move_journal f q p w) = es_stops w" "es_order (move_journal f q p w) = es_order w"
  "es_batch_stop (move_journal f q p w) = es_batch_stop w"
  "ds_spool (es_durable (move_journal f q p w)) = ds_spool (es_durable w)"
  "ds_frontier (es_durable (move_journal f q p w)) = ds_frontier (es_durable w)"
  "ds_journal (es_durable (move_journal f q p w)) = f"
  "execution (move_journal f q p w) = (execution w)\<lparr>sequence := q, previous_digest := p\<rparr>"
  by (simp_all add: move_journal_def)

section \<open>The invariant\<close>

text \<open>
  A commit that throws after it has recorded the item leaves the item's reservation behind: its
  position is stuck, and it counts no more. Every other buffered position is live.
\<close>

type_synonym buffered_entries = "(string \<times> buffered_item) list"

definition live_items :: "string set \<Rightarrow> buffered_entries \<Rightarrow> buffered_entries" where
  "live_items stuck xs = filter (\<lambda>kv. fst kv \<notin> stuck) xs"

definition reserved_output :: "buffered_entries \<Rightarrow> int" where
  "reserved_output xs = sum_list (map (bi_reserved_output_bytes \<circ> snd) xs)"

definition reserved_identity :: "buffered_entries \<Rightarrow> int" where
  "reserved_identity xs = sum_list (map (identity_state_bytes \<circ> bi_identity_digest \<circ> snd) xs)"

definition output_used :: "output_sink option \<Rightarrow> execution_state \<Rightarrow> int" where
  "output_used sink s = (case sink of Some sk \<Rightarrow> sk_bytes_written sk | None \<Rightarrow> output_bytes s)"

text \<open>What is reserved for an item is enough for its text, with a separator or without.\<close>

definition covers_output :: "output_sink option \<Rightarrow> buffered_item \<Rightarrow> bool" where
  "covers_output sink b \<longleftrightarrow> 0 \<le> bi_reserved_output_bytes b \<and> (case sink of
     None \<Rightarrow> True
   | Some sk \<Rightarrow> \<exists>u. encode_item (sk_format sk) (sk_csv_columns sk) (bi_item b) = Inr u \<and>
       int (length u) + 1 \<le> bi_reserved_output_bytes b)"

definition entries_ok :: "output_sink option \<Rightarrow> string set \<Rightarrow> execution_state \<Rightarrow> bool" where
  "entries_ok sink stuck s \<longleftrightarrow> distinct (map fst (buffered_items s)) \<and> stuck \<subseteq> fst ` set (buffered_items s) \<and>
     (\<forall>(k, b) \<in> set (buffered_items s). item_logical_order_key (bi_logical_order b) = Inr k \<and> covers_output sink b \<and>
       0 \<le> bi_item_bytes b \<and> (k \<in> stuck \<longrightarrow> bi_identity_digest b \<in> set (identity_digests s)))"

definition sink_within :: "run_env \<Rightarrow> file_system \<Rightarrow> output_sink option \<Rightarrow> bool" where
  "sink_within env fs sink \<longleftrightarrow> (\<forall>sk. sink = Some sk \<longrightarrow> sk_max_output_bytes sk = rp_max_output_bytes (ev_policy env) \<and>
     (\<exists>items. sink_ok fs sk items))"

definition budgets_ok :: "run_env \<Rightarrow> output_sink option \<Rightarrow> string set \<Rightarrow> execution_state \<Rightarrow> bool" where
  "budgets_ok env sink stuck s \<longleftrightarrow>
     items_emitted (summary s) + int (length (live_items stuck (buffered_items s))) \<le> rp_max_items (ev_policy env) \<and>
     reserved_item_count s = int (length (buffered_items s)) \<and>
     reserved_output_bytes s = reserved_output (buffered_items s) \<and>
     reserved_identity_state_bytes s = reserved_identity (live_items stuck (buffered_items s)) \<and>
     output_used sink s + reserved_output (live_items stuck (buffered_items s)) \<le> rp_max_output_bytes (ev_policy env) \<and>
     output_used sink s + reserved_output (live_items stuck (buffered_items s)) \<le> output_bytes s + reserved_output_bytes s \<and>
     local_state_bytes s + retained_fanout_item_bytes s + reserved_identity_state_bytes s \<le> max_local_state env"

definition identities_ok :: "execution_state \<Rightarrow> bool" where
  "identities_ok s \<longleftrightarrow> distinct (identity_digests s) \<and> int (length (identity_digests s)) = items_emitted (summary s) \<and>
     next_item_sequence s = items_emitted (summary s) + 1"

definition emission_inv :: "run_env \<Rightarrow> string set \<Rightarrow> engine_state \<Rightarrow> bool" where
  "emission_inv env stuck w \<longleftrightarrow> entries_ok (es_sink w) stuck (execution w) \<and>
     budgets_ok env (es_sink w) stuck (execution w) \<and> identities_ok (execution w) \<and> sink_within env (es_files w) (es_sink w)"

lemma output_used_cursor [simp]: "output_used sink (s\<lparr>sequence := q, previous_digest := p\<rparr>) = output_used sink s"
  by (simp add: output_used_def split: option.split)

lemma emission_inv_move [simp]: "emission_inv env stuck (move_journal f q p w) = emission_inv env stuck w"
  by (simp add: emission_inv_def entries_ok_def budgets_ok_def identities_ok_def)

lemma emission_inv_same:
  assumes "emission_inv env stuck w" "es_sink w' = es_sink w" "es_files w' = es_files w"
    and "execution w' = execution w"
  shows "emission_inv env stuck w'"
  using assms by (simp add: emission_inv_def)

lemma wp_append_or_fail:
  assumes "\<And>f q p. Q () (move_journal f q p w)" "\<And>f q p e. E e (move_journal f q p w)"
  shows "wpE (append_or_fail env ev) Q E w"
  unfolding append_or_fail_def by (simp, rule wp_append_run) (use assms in \<open>auto split: if_splits\<close>)

section \<open>Sums over entries\<close>

lemma without_key:
  assumes "distinct (map fst xs)" "(k, b) \<in> set xs"
  shows "reserved_output (filter (\<lambda>kv. fst kv \<noteq> k) xs) = reserved_output xs - bi_reserved_output_bytes b"
    and "reserved_identity (filter (\<lambda>kv. fst kv \<noteq> k) xs) = reserved_identity xs - identity_state_bytes (bi_identity_digest b)"
    and "int (length (filter (\<lambda>kv. fst kv \<noteq> k) xs)) = int (length xs) - 1"
proof -
  have "filter (\<lambda>kv. fst kv \<noteq> k) xs = xs" if "k \<notin> fst ` set xs" for xs :: buffered_entries
    using that by (auto simp: filter_id_conv)
  then show "reserved_output (filter (\<lambda>kv. fst kv \<noteq> k) xs) = reserved_output xs - bi_reserved_output_bytes b"
    "reserved_identity (filter (\<lambda>kv. fst kv \<noteq> k) xs) = reserved_identity xs - identity_state_bytes (bi_identity_digest b)"
    "int (length (filter (\<lambda>kv. fst kv \<noteq> k) xs)) = int (length xs) - 1"
    using assms by (induction xs) (auto simp: reserved_output_def reserved_identity_def image_iff)
qed

lemma live_items_insert: "live_items (insert k stuck) xs = filter (\<lambda>kv. fst kv \<noteq> k) (live_items stuck xs)"
  by (auto simp: live_items_def intro: filter_cong)

lemma live_items_without: "live_items stuck (filter (\<lambda>kv. fst kv \<noteq> k) xs) = filter (\<lambda>kv. fst kv \<noteq> k) (live_items stuck xs)"
  by (auto simp: live_items_def intro: filter_cong)

lemma live_items_distinct: "distinct (map fst xs) \<Longrightarrow> distinct (map fst (live_items stuck xs))"
  by (simp add: live_items_def distinct_map_filter)

lemma live_items_in: "(k, b) \<in> set xs \<Longrightarrow> k \<notin> stuck \<Longrightarrow> (k, b) \<in> set (live_items stuck xs)"
  by (simp add: live_items_def)

lemma reserved_output_append [simp]: "reserved_output (xs @ [kb]) = reserved_output xs + bi_reserved_output_bytes (snd kb)"
  by (simp add: reserved_output_def)

lemma reserved_identity_append [simp]:
  "reserved_identity (xs @ [kb]) = reserved_identity xs + identity_state_bytes (bi_identity_digest (snd kb))"
  by (simp add: reserved_identity_def)

lemma reserved_output_live:
  "\<forall>(k, b) \<in> set xs. 0 \<le> bi_reserved_output_bytes b \<Longrightarrow> 0 \<le> reserved_output (live_items stuck xs) \<and>
    reserved_output (live_items stuck xs) \<le> reserved_output xs"
  by (induction xs) (auto simp: reserved_output_def live_items_def)

section \<open>Buffering keeps the invariant\<close>

lemma output_used_sink_state:
  "output_bytes s' = output_bytes s \<Longrightarrow> output_used sink s' = output_used sink s"
  by (simp add: output_used_def split: option.split)

lemma preview_covers:
  assumes "preview_item sk item = Inr n"
  shows "\<exists>u. encode_item (sk_format sk) (sk_csv_columns sk) item = Inr u \<and> int (length u) \<le> n"
  using assms by (auto simp: preview_item_def format_item_def bindR_Inr_iff split: if_splits)

lemma conservative_covers:
  assumes "conservative_output_bytes sink (bi_item b) n = Inr (bi_reserved_output_bytes b)" "0 \<le> n"
  shows "covers_output sink b"
proof (cases sink)
  case None
  then show ?thesis using assms by (simp add: conservative_output_bytes_def covers_output_def)
next
  case (Some sk)
  obtain m where m: "preview_item sk (bi_item b) = Inr m" "m + 1 = bi_reserved_output_bytes b"
    using assms Some by (auto simp: conservative_output_bytes_def bindR_Inr_iff)
  from preview_covers[OF m(1)] show ?thesis using m Some by (auto simp: covers_output_def)
qed

text \<open>A new entry whose parts are within the budgets.\<close>

definition add_entry :: "string \<Rightarrow> buffered_item \<Rightarrow> execution_state \<Rightarrow> execution_state" where
  "add_entry key b s = s\<lparr>buffered_items := buffered_items s @ [(key, b)],
     reserved_item_count := reserved_item_count s + 1,
     reserved_output_bytes := reserved_output_bytes s + bi_reserved_output_bytes b,
     reserved_identity_state_bytes := reserved_identity_state_bytes s + identity_state_bytes (bi_identity_digest b)\<rparr>"

lemma add_entry_simps [simp]:
  "buffered_items (add_entry k b s) = buffered_items s @ [(k, b)]"
  "reserved_item_count (add_entry k b s) = reserved_item_count s + 1"
  "reserved_output_bytes (add_entry k b s) = reserved_output_bytes s + bi_reserved_output_bytes b"
  "reserved_identity_state_bytes (add_entry k b s) = reserved_identity_state_bytes s + identity_state_bytes (bi_identity_digest b)"
  "summary (add_entry k b s) = summary s" "identity_digests (add_entry k b s) = identity_digests s"
  "next_item_sequence (add_entry k b s) = next_item_sequence s" "local_state_bytes (add_entry k b s) = local_state_bytes s"
  "retained_fanout_item_bytes (add_entry k b s) = retained_fanout_item_bytes s" "output_bytes (add_entry k b s) = output_bytes s"
  "output_used sink (add_entry k b s) = output_used sink s"
  by (simp_all add: add_entry_def output_used_def split: option.split)

lemma add_entry_inv:
  assumes inv: "emission_inv env stuck w"
    and key: "item_logical_order_key (bi_logical_order b) = Inr key" "key \<notin> fst ` set (buffered_items (execution w))"
    and cov: "covers_output (es_sink w) b" "0 \<le> bi_item_bytes b"
    and items: "items_emitted (summary (execution w)) + reserved_item_count (execution w) < rp_max_items (ev_policy env)"
    and out: "output_bytes (execution w) + reserved_output_bytes (execution w) + bi_reserved_output_bytes b \<le>
      rp_max_output_bytes (ev_policy env)"
    and local: "local_state_bytes (execution w) + retained_fanout_item_bytes (execution w) +
      reserved_identity_state_bytes (execution w) + identity_state_bytes (bi_identity_digest b) \<le> max_local_state env"
  shows "emission_inv env stuck (map_execution (add_entry key b) w)"
proof -
  let ?s = "execution w"
  have new: "key \<notin> stuck" using inv key(2) by (auto simp: emission_inv_def entries_ok_def)
  then have live: "live_items stuck (buffered_items ?s @ [(key, b)]) = live_items stuck (buffered_items ?s) @ [(key, b)]"
    by (simp add: live_items_def)
  have le: "length (live_items stuck (buffered_items ?s)) \<le> length (buffered_items ?s)" by (simp add: live_items_def)
  have "entries_ok (es_sink w) stuck (add_entry key b ?s)" "identities_ok (add_entry key b ?s)"
    using inv key new cov by (auto simp: emission_inv_def entries_ok_def identities_ok_def)
  moreover have "budgets_ok env (es_sink w) stuck (add_entry key b ?s)"
    using inv le items out local by (auto simp: emission_inv_def budgets_ok_def live)
  ultimately show ?thesis using inv by (simp add: emission_inv_def)
qed

text \<open>
  A node's operations add and remove only entries of the node: what buffering leaves are the
  entries that were there and new ones of the node, and no entry of a running node is stuck.
\<close>

definition entries_grow :: "string \<Rightarrow> engine_state \<Rightarrow> engine_state \<Rightarrow> bool" where
  "entries_grow n w w1 \<longleftrightarrow> (\<exists>new. buffered_items (execution w1) = buffered_items (execution w) @ new \<and>
     (\<forall>kb \<in> set new. bi_node_id (snd kb) = n))"

definition none_stuck :: "string set \<Rightarrow> engine_state \<Rightarrow> string \<Rightarrow> bool" where
  "none_stuck stuck w n \<longleftrightarrow> (\<forall>(k, b) \<in> set (buffered_items (execution w)). bi_node_id b = n \<longrightarrow> k \<notin> stuck)"

definition live_entry :: "string set \<Rightarrow> engine_state \<Rightarrow> string \<Rightarrow> buffered_item \<Rightarrow> bool" where
  "live_entry stuck w k b \<longleftrightarrow> (k, b) \<in> set (buffered_items (execution w)) \<and> k \<notin> stuck"

lemma entries_grow_refl [simp]: "entries_grow n w w"
  by (simp add: entries_grow_def)

lemma entries_grow_trans: "entries_grow n w w1 \<Longrightarrow> entries_grow n w1 w2 \<Longrightarrow> entries_grow n w w2"
  by (auto simp: entries_grow_def)

lemma live_entry_grow: "live_entry stuck w k b \<Longrightarrow> entries_grow n w w1 \<Longrightarrow> live_entry stuck w1 k b"
  by (auto simp: live_entry_def entries_grow_def)

lemma none_stuck_grow:
  assumes "none_stuck stuck w m" "entries_grow n w w1" "emission_inv env stuck w" "emission_inv env stuck w1"
  shows "none_stuck stuck w1 m"
proof -
  obtain new where new: "buffered_items (execution w1) = buffered_items (execution w) @ new"
    using assms(2) by (auto simp: entries_grow_def)
  have "distinct (map fst (buffered_items (execution w) @ new))" "stuck \<subseteq> fst ` set (buffered_items (execution w))"
    using assms(3,4) new by (simp_all add: emission_inv_def entries_ok_def)
  then have "k \<notin> stuck" if "(k, b) \<in> set new" for k b using that by (force simp: image_iff)
  then show ?thesis using assms(1) new by (fastforce simp: none_stuck_def)
qed

lemma wp_append_blob:
  assumes "\<And>spool r. Q r (w\<lparr>es_durable := (es_durable w)\<lparr>ds_spool := spool\<rparr>\<rparr>)" "\<And>e. E e w"
  shows "wpE (append_blob env v) Q E w"
  using assms by (auto simp: append_blob_def split: sum.split)

lemma buffer_new_item_inv:
  assumes inv: "emission_inv env stuck w" and key: "item_logical_order_key order = Inr key"
    and new: "map_of (buffered_items (execution w)) key = None" and n: "0 \<le> n"
  shows "wpE (buffer_new_item env node_id digest order key item n)
    (\<lambda>b w1. emission_inv env stuck w1 \<and> entries_grow node_id w w1 \<and> live_entry stuck w1 key b \<and> bi_node_id b = node_id)
    (\<lambda>_ w1. emission_inv env stuck w1 \<and> entries_grow node_id w w1) w"
proof (cases "conservative_output_bytes (es_sink w) item n")
  case (Inl e)
  then show ?thesis using inv by (auto simp: buffer_new_item_def split: sum.split)
next
  case (Inr out)
  let ?b = "\<lparr>bi_node_id = node_id, bi_identity_digest = digest, bi_logical_order = order, bi_item = item,
    bi_item_bytes = n, bi_reserved_output_bytes = out\<rparr>"
  let ?spooled = "\<lambda>spool. w\<lparr>es_durable := (es_durable w)\<lparr>ds_spool := spool\<rparr>\<rparr>"
  have spooled: "emission_inv env stuck (?spooled spool)" for spool
    by (rule emission_inv_same[OF inv]) simp_all
  have cov: "covers_output (es_sink w) ?b" using conservative_covers[of "es_sink w" ?b n] Inr n by simp
  have k: "key \<notin> fst ` set (buffered_items (execution w))" using new by (simp add: map_of_eq_None_iff)
  then have fresh: "key \<notin> stuck" using inv by (auto simp: emission_inv_def entries_ok_def)
  have add: "emission_inv env stuck (map_execution (add_entry key ?b) (move_journal f q p (?spooled spool)))"
    if "items_emitted (summary (execution w)) + reserved_item_count (execution w) < rp_max_items (ev_policy env)"
      "check_item_budgets env (execution w) out (identity_state_bytes digest) = Inr ()" for f q p spool
    by (rule add_entry_inv) (use spooled key k cov n that in \<open>simp_all add: check_item_budgets_def ensureR_Inr_iff\<close>)
  have fold: "(\<lambda>s. s\<lparr>buffered_items := buffered_items s @ [(key, ?b)], reserved_item_count := reserved_item_count s + 1,
      reserved_output_bytes := reserved_output_bytes s + out,
      reserved_identity_state_bytes := reserved_identity_state_bytes s + identity_state_bytes digest\<rparr>) = add_entry key ?b"
    by (simp add: add_entry_def fun_eq_iff)
  show ?thesis
  proof (cases "items_emitted (summary (execution w)) + reserved_item_count (execution w) < rp_max_items (ev_policy env)")
    case True
    show ?thesis
    proof (cases "check_item_budgets env (execution w) out (identity_state_bytes digest)")
      case (Inl e)
      then show ?thesis using True Inr inv by (simp add: buffer_new_item_def \<open>conservative_output_bytes _ _ _ = _\<close>)
    next
      case ok: (Inr u)
      show ?thesis
        by (simp add: buffer_new_item_def True \<open>conservative_output_bytes _ _ _ = _\<close> ok, rule wp_append_blob,
            rule wp_append_or_fail)
          (use add[OF True] ok spooled inv fresh in \<open>simp_all add: fold entries_grow_def live_entry_def\<close>)
    qed
  next
    case False
    then show ?thesis using inv by (simp add: buffer_new_item_def)
  qed
qed

text \<open>The keys of the positions of a page, and the items of a page in their entries.\<close>

definition item_position :: "int \<Rightarrow> int \<Rightarrow> nat \<Rightarrow> logical_order" where
  "item_position node page i = \<lparr>node_ordinal = node, page_ordinal = page, item_ordinal = int i\<rparr>"

lemma buffer_run_item_inv:
  assumes inv: "emission_inv env stuck w" and fresh: "none_stuck stuck w node_id"
  shows "wpE (buffer_run_item env emit node_id node page data i raw)
    (\<lambda>b w1. emission_inv env stuck w1 \<and> entries_grow node_id w w1 \<and> bi_node_id b = node_id \<and>
      (\<exists>k. item_logical_order_key (item_position node page i) = Inr k \<and> live_entry stuck w1 k b))
    (\<lambda>_ w1. emission_inv env stuck w1 \<and> entries_grow node_id w w1) w"
proof -
  have old: "live_entry stuck w k b" if "map_of (buffered_items (execution w)) k = Some b" "bi_node_id b = node_id" for k b
    using that fresh map_of_SomeD[OF that(1)] by (auto simp: live_entry_def none_stuck_def)
  obtain k where k: "item_logical_order_key (item_position node page i) = Inr k" using item_logical_order_key_total by blast
  have "wpE (buffer_new_item env node_id digest (item_position node page i) k item n)
      (\<lambda>b w1. emission_inv env stuck w1 \<and> entries_grow node_id w w1 \<and> bi_node_id b = node_id \<and>
        live_entry stuck w1 k b) (\<lambda>_ w1. emission_inv env stuck w1 \<and> entries_grow node_id w w1) w"
    if "map_of (buffered_items (execution w)) k = None" "0 \<le> n" for digest item n
    by (rule wpE_mono[OF buffer_new_item_inv[OF inv k that]]) auto
  then show ?thesis using inv old k
    by (auto simp: buffer_run_item_def check_replayed_item_def item_position_def bindR_Inr_iff ensureR_Inr_iff
      split: sum.split option.split if_splits)
qed

fun page_entries :: "string set \<Rightarrow> engine_state \<Rightarrow> string \<Rightarrow> int \<Rightarrow> int \<Rightarrow> nat \<Rightarrow> buffered_item list \<Rightarrow> bool" where
  "page_entries stuck w n node page i [] \<longleftrightarrow> True"
| "page_entries stuck w n node page i (b # bs) \<longleftrightarrow> bi_node_id b = n \<and>
     (\<exists>k. item_logical_order_key (item_position node page i) = Inr k \<and> live_entry stuck w k b) \<and>
     page_entries stuck w n node page (Suc i) bs"

lemma buffer_run_items_from_inv:
  assumes "emission_inv env stuck w" "none_stuck stuck w node_id"
  shows "wpE (buffer_run_items_from env emit node_id node page data i raws)
    (\<lambda>bs w1. emission_inv env stuck w1 \<and> entries_grow node_id w w1 \<and> page_entries stuck w1 node_id node page i bs \<and>
      length bs = length raws)
    (\<lambda>_ w1. emission_inv env stuck w1 \<and> entries_grow node_id w w1) w"
  using assms
proof (induction raws arbitrary: i w)
  case (Cons raw raws)
  have rest: "wpE (buffer_run_items_from env emit node_id node page data (Suc i) raws)
      (\<lambda>bs w2. emission_inv env stuck w2 \<and> entries_grow node_id w w2 \<and> page_entries stuck w2 node_id node page i (b # bs) \<and>
        length bs = length raws)
      (\<lambda>_ w2. emission_inv env stuck w2 \<and> entries_grow node_id w w2) w1"
    if h: "emission_inv env stuck w1" "entries_grow node_id w w1" "bi_node_id b = node_id"
      "item_logical_order_key (item_position node page i) = Inr k" "live_entry stuck w1 k b" for w1 b k
  proof (rule wpE_mono[OF Cons.IH[OF h(1) none_stuck_grow[OF Cons.prems(2) h(2) Cons.prems(1) h(1)]]])
    fix bs w2
    assume "emission_inv env stuck w2 \<and> entries_grow node_id w1 w2 \<and> page_entries stuck w2 node_id node page (Suc i) bs \<and>
      length bs = length raws"
    then show "emission_inv env stuck w2 \<and> entries_grow node_id w w2 \<and> page_entries stuck w2 node_id node page i (b # bs) \<and>
        length bs = length raws"
      using h entries_grow_trans live_entry_grow by fastforce
  qed (use h entries_grow_trans in blast)
  show ?case
    unfolding buffer_run_items_from.simps
  proof (rule wpE_bindI[OF buffer_run_item_inv[OF Cons.prems]])
    fix b w1
    assume "emission_inv env stuck w1 \<and> entries_grow node_id w w1 \<and> bi_node_id b = node_id \<and>
      (\<exists>k. item_logical_order_key (item_position node page i) = Inr k \<and> live_entry stuck w1 k b)"
    then obtain k where "emission_inv env stuck w1" "entries_grow node_id w w1" "bi_node_id b = node_id"
      "item_logical_order_key (item_position node page i) = Inr k" "live_entry stuck w1 k b" by blast
    from rest[OF this] show "wpE (bindE (buffer_run_items_from env emit node_id node page data (Suc i) raws)
        (\<lambda>bs. returnE (b # bs))) (\<lambda>bs w1. emission_inv env stuck w1 \<and> entries_grow node_id w w1 \<and>
          page_entries stuck w1 node_id node page i bs \<and> length bs = length (raw # raws))
        (\<lambda>_ w1. emission_inv env stuck w1 \<and> entries_grow node_id w w1) w1"
      by (rule wpE_bindI) auto
  qed
qed simp

text \<open>The buffered items a chain still has to commit.\<close>

definition entry_key :: "buffered_item \<Rightarrow> string" where
  "entry_key b = (case item_logical_order_key (bi_logical_order b) of Inr k \<Rightarrow> k | Inl _ \<Rightarrow> [])"

definition owned :: "string set \<Rightarrow> engine_state \<Rightarrow> string \<Rightarrow> buffered_item list \<Rightarrow> bool" where
  "owned stuck w n bs \<longleftrightarrow> distinct (map entry_key bs) \<and>
     (\<forall>b \<in> set bs. bi_node_id b = n \<and> live_entry stuck w (entry_key b) b)"

lemma live_entry_key: "emission_inv env stuck w \<Longrightarrow> live_entry stuck w k b \<Longrightarrow> entry_key b = k"
  by (auto simp: emission_inv_def entries_ok_def live_entry_def entry_key_def)

lemma item_position_wf: "count_ok node \<Longrightarrow> count_ok page \<Longrightarrow> int i \<le> max_safe_integer \<Longrightarrow> json_wf (order_json (item_position node page i))"
  using num_wf_safe[of node] num_wf_safe[of page] num_wf_safe[of "int i"]
  by (simp add: order_json_def item_position_def count_ok_def)

lemma position_key_inj:
  assumes "count_ok node" "count_ok page" "int i \<le> max_safe_integer" "int j \<le> max_safe_integer"
    and "item_logical_order_key (item_position node page i) = Inr k" "item_logical_order_key (item_position node page j) = Inr k"
  shows "i = j"
proof -
  have "canon (order_json (item_position node page i)) = canon (order_json (item_position node page j))"
    using canonical_json_eq[OF item_position_wf[OF assms(1-3)] item_position_wf[OF assms(1,2,4)]] assms(5,6)
    by (simp add: item_logical_order_key_def)
  then show ?thesis by (simp add: canon_order) (simp add: order_json_def item_position_def)
qed

lemma page_entries_owned:
  assumes "emission_inv env stuck w" "count_ok node" "count_ok page"
  shows "page_entries stuck w n node page i bs \<Longrightarrow> int (i + length bs) \<le> max_safe_integer \<Longrightarrow> owned stuck w n bs \<and>
    (\<forall>b \<in> set bs. \<exists>j. i \<le> j \<and> j < i + length bs \<and> item_logical_order_key (item_position node page j) = Inr (entry_key b))"
proof (induction bs arbitrary: i)
  case (Cons b bs)
  obtain k where k: "item_logical_order_key (item_position node page i) = Inr k" "live_entry stuck w k b" "bi_node_id b = n"
    using Cons.prems by auto
  note key = live_entry_key[OF assms(1) k(2)]
  have rest: "owned stuck w n bs" "\<forall>b \<in> set bs. \<exists>j \<ge> Suc i. j < Suc i + length bs \<and>
      item_logical_order_key (item_position node page j) = Inr (entry_key b)"
    using Cons.IH[of "Suc i"] Cons.prems by auto
  have "entry_key b \<noteq> entry_key c" if c: "c \<in> set bs" for c
  proof
    assume "entry_key b = entry_key c"
    moreover obtain j where "Suc i \<le> j" "j < Suc i + length bs" "item_logical_order_key (item_position node page j) = Inr (entry_key c)"
      using bspec[OF rest(2) c] by auto
    ultimately show False using position_key_inj[OF assms(2,3), of i j k] k(1) key Cons.prems(2) by auto
  qed
  then have "owned stuck w n (b # bs)" using rest(1) k key by (auto simp: owned_def)
  moreover have "\<exists>j. i \<le> j \<and> j < i + length (b # bs) \<and> item_logical_order_key (item_position node page j) = Inr (entry_key c)"
    if c: "c \<in> set (b # bs)" for c
  proof (cases "c = b")
    case True
    then show ?thesis using k key by (intro exI[of _ i]) simp
  next
    case False
    then obtain j where "Suc i \<le> j" "j < Suc i + length bs" "item_logical_order_key (item_position node page j) = Inr (entry_key c)"
      using bspec[OF rest(2), of c] c by auto
    then show ?thesis by (intro exI[of _ j]) simp
  qed
  ultimately show ?case by blast
qed (simp add: owned_def)

text \<open>No array of a value has more elements than JavaScript can index.\<close>

definition arrays_fit :: "json \<Rightarrow> bool" where
  "arrays_fit v \<longleftrightarrow> (\<forall>p xs. resolve_json_pointer v p = Inr (JArr xs) \<longrightarrow> int (length xs) \<le> max_safe_integer)"

lemma buffer_run_items_inv:
  assumes inv: "emission_inv env stuck w" "none_stuck stuck w node_id"
    and pos: "count_ok node" "count_ok page" and fit: "arrays_fit data"
  shows "wpE (buffer_run_items env task node_id node page data)
    (\<lambda>bs w1. emission_inv env stuck w1 \<and> entries_grow node_id w w1 \<and> owned stuck w1 node_id bs)
    (\<lambda>_ w1. emission_inv env stuck w1 \<and> entries_grow node_id w w1) w"
proof (cases "tk_emit task")
  case None
  then show ?thesis using inv by (simp add: buffer_run_items_def owned_def)
next
  case (Some emit)
  have many: "wpE (buffer_run_items_from env emit node_id node page data 0 raws)
      (\<lambda>bs w1. emission_inv env stuck w1 \<and> entries_grow node_id w w1 \<and> owned stuck w1 node_id bs)
      (\<lambda>_ w1. emission_inv env stuck w1 \<and> entries_grow node_id w w1) w"
    if "int (length raws) \<le> max_safe_integer" for raws
    by (rule wpE_mono[OF buffer_run_items_from_inv[OF inv]])
      (use that page_entries_owned[OF _ pos, of env stuck _ node_id 0] in auto)
  have "int (length raws) \<le> max_safe_integer"
    if "resolve_json_pointer data p = Inr raw" "to_raw_items c raw = Inr raws" for p raw c raws
    using that fit by (cases c; cases raw) (auto simp: to_raw_items_def arrays_fit_def max_safe_integer_def)
  then show ?thesis using Some inv many
    by (auto simp: buffer_run_items_def owned_def catchR_Inr_iff split: sum.split)
qed

section \<open>Committing keeps the invariant\<close>

lemma count_committed_simps [simp]:
  "buffered_items (count_committed hf b s) = buffered_items s" "reserved_item_count (count_committed hf b s) = reserved_item_count s"
  "reserved_output_bytes (count_committed hf b s) = reserved_output_bytes s"
  "output_used sink (count_committed hf b s) = output_used sink s" "output_bytes (count_committed hf b s) = output_bytes s"
  "reserved_identity_state_bytes (count_committed hf b s) = reserved_identity_state_bytes s - identity_state_bytes (bi_identity_digest b)"
  "local_state_bytes (count_committed hf b s) = local_state_bytes s + identity_state_bytes (bi_identity_digest b)"
  "next_item_sequence (count_committed hf b s) = next_item_sequence s + 1"
  "items_emitted (summary (count_committed hf b s)) = items_emitted (summary s) + 1"
  "identity_digests (count_committed hf b s) = set_add (bi_identity_digest b) (identity_digests s)"
  "retained_fanout_item_bytes (count_committed hf b s) = retained_fanout_item_bytes s + (if hf then bi_item_bytes b else 0)"
  by (simp_all add: count_committed_def output_used_def split: option.split)

lemma entries_distinct: "emission_inv env stuck w \<Longrightarrow> distinct (map fst (live_items stuck (buffered_items (execution w))))"
  by (simp add: emission_inv_def entries_ok_def live_items_distinct)

lemma live_entry_in: "live_entry stuck w k b \<Longrightarrow> (k, b) \<in> set (live_items stuck (buffered_items (execution w)))"
  by (simp add: live_entry_def live_items_in)

lemma live_nonneg:
  assumes "emission_inv env stuck w" shows "\<forall>(k, b) \<in> set (buffered_items (execution w)). 0 \<le> bi_reserved_output_bytes b"
  using assms by (auto simp: emission_inv_def entries_ok_def covers_output_def)

text \<open>Once the item is counted its position is stuck, and its reservation is to spare.\<close>

lemma count_committed_inv:
  assumes inv: "emission_inv env stuck w" and live: "live_entry stuck w k b"
    and new: "bi_identity_digest b \<notin> set (identity_digests (execution w))"
    and room: "\<not> (hf \<and> local_state_bytes (execution w) + retained_fanout_item_bytes (execution w) +
      reserved_identity_state_bytes (execution w) + bi_item_bytes b > max_local_state env)"
  shows "emission_inv env (insert k stuck) (map_execution (count_committed hf b) w)"
    and "output_used (es_sink w) (execution w) + reserved_output (live_items (insert k stuck) (buffered_items (execution w))) +
      bi_reserved_output_bytes b \<le> rp_max_output_bytes (ev_policy env)"
    and "output_used (es_sink w) (execution w) + reserved_output (live_items (insert k stuck) (buffered_items (execution w))) +
      bi_reserved_output_bytes b \<le> output_bytes (execution w) + reserved_output_bytes (execution w)"
proof -
  let ?s = "execution w"
  note w = without_key[OF entries_distinct[OF inv] live_entry_in[OF live], folded live_items_insert]
  have r: "0 \<le> bi_reserved_output_bytes b" using live_nonneg[OF inv] live by (auto simp: live_entry_def)
  have k: "k \<in> fst ` set (buffered_items ?s)" using live by (force simp: live_entry_def)
  have "entries_ok (es_sink w) (insert k stuck) (count_committed hf b ?s)"
    using inv k live by (auto simp: emission_inv_def entries_ok_def live_entry_def dest: eq_key_imp_eq_value)
  moreover have "identities_ok (count_committed hf b ?s)"
    using inv new by (simp add: emission_inv_def identities_ok_def set_add_def)
  moreover have "budgets_ok env (es_sink w) (insert k stuck) (count_committed hf b ?s)"
    using inv w r room by (auto simp: emission_inv_def budgets_ok_def)
  ultimately show "emission_inv env (insert k stuck) (map_execution (count_committed hf b) w)"
    using inv by (simp add: emission_inv_def)
  show "output_used (es_sink w) ?s + reserved_output (live_items (insert k stuck) (buffered_items ?s)) +
      bi_reserved_output_bytes b \<le> rp_max_output_bytes (ev_policy env)"
    "output_used (es_sink w) ?s + reserved_output (live_items (insert k stuck) (buffered_items ?s)) +
      bi_reserved_output_bytes b \<le> output_bytes ?s + reserved_output_bytes ?s"
    using inv w by (auto simp: emission_inv_def budgets_ok_def)
qed

lemma covers_output_format:
  "sk_format sk' = sk_format sk \<Longrightarrow> sk_csv_columns sk' = sk_csv_columns sk \<Longrightarrow>
    covers_output (Some sk') b = covers_output (Some sk) b"
  by (simp add: covers_output_def)

lemma format_item_covered:
  assumes "encode_item (sk_format sk) (sk_csv_columns sk) item = Inr u"
  shows "\<exists>t. format_item sk item = Inr t \<and> length t \<le> length u + 1"
  using assms by (simp add: format_item_def)

text \<open>The reservation of an item is enough for the sink to take it.\<close>

lemma sink_takes_covered:
  assumes inv: "emission_inv env stuck w" and sk: "es_sink w = Some sk" and cov: "covers_output (es_sink w) b"
    and room: "output_used (es_sink w) (execution w) + bi_reserved_output_bytes b \<le> rp_max_output_bytes (ev_policy env)"
  shows "\<exists>fs1 sk1 g. on_sink (sink_write sha (bi_item b)) w = (w\<lparr>es_files := fs1, es_sink := Some sk1\<rparr>, Inr g) \<and>
    sk_bytes_written sk1 \<le> sk_bytes_written sk + bi_reserved_output_bytes b \<and> sk_format sk1 = sk_format sk \<and>
    sk_csv_columns sk1 = sk_csv_columns sk \<and> sk_max_output_bytes sk1 = sk_max_output_bytes sk \<and>
    (\<exists>items. sink_ok fs1 sk1 items)"
proof -
  obtain items where ok: "sink_ok (es_files w) sk items" "sk_max_output_bytes sk = rp_max_output_bytes (ev_policy env)"
    using inv sk by (auto simp: emission_inv_def sink_within_def)
  obtain u where u: "encode_item (sk_format sk) (sk_csv_columns sk) (bi_item b) = Inr u"
    "int (length u) + 1 \<le> bi_reserved_output_bytes b" using cov sk by (auto simp: covers_output_def)
  obtain t where t: "format_item sk (bi_item b) = Inr t" "length t \<le> length u + 1"
    using format_item_covered[OF u(1)] by blast
  have fits: "sk_bytes_written sk + int (length t) \<le> sk_max_output_bytes sk"
    using room t(2) u(2) ok(2) sk by (simp add: output_used_def)
  have opened: "\<not> sk_closed sk" using ok(1) by (simp add: sink_ok_def)
  obtain fs1 sk1 g where w: "sink_write sha (bi_item b) (es_files w, sk) = ((fs1, sk1), Inr g)"
    "sk1 = sk\<lparr>sk_bytes_written := sk_bytes_written sk + int (length t), sk_items_written := sk_items_written sk + 1\<rparr>"
    using t(1) fits opened
    by (simp add: sink_write_def assert_open_def reserve_def Let_def read_progress_def)
  have "on_sink (sink_write sha (bi_item b)) w = (w\<lparr>es_files := fs1, es_sink := Some sk1\<rparr>, Inr g)"
    using w(1) sk by (simp add: on_sink_def)
  moreover have "\<exists>items. sink_ok fs1 sk1 items" using sink_write_ok[OF ok(1) w(1)] by blast
  ultimately show ?thesis using w(2) t(2) u(2)
    by (intro exI[of _ fs1] exI[of _ sk1] exI[of _ g]) auto
qed

definition written_ok :: "run_env \<Rightarrow> string set \<Rightarrow> engine_state \<Rightarrow> engine_state \<Rightarrow> bool" where
  "written_ok env stuck w w1 \<longleftrightarrow> emission_inv env stuck w1 \<and>
     buffered_items (execution w1) = buffered_items (execution w) \<and>
     identity_digests (execution w1) = identity_digests (execution w)"

lemma set_output_bytes_inv:
  assumes inv: "emission_inv env stuck w" and sk: "es_sink w = Some sk"
  shows "emission_inv env stuck (map_execution (\<lambda>s. s\<lparr>output_bytes := sk_bytes_written sk\<rparr>) w)"
proof -
  let ?e = "buffered_items (execution w)"
  have "0 \<le> reserved_output (live_items stuck ?e) \<and> reserved_output (live_items stuck ?e) \<le> reserved_output ?e"
    by (rule reserved_output_live[OF live_nonneg[OF inv]])
  then show ?thesis using inv sk
    by (auto simp: emission_inv_def entries_ok_def budgets_ok_def identities_ok_def output_used_def)
qed

lemma add_output_bytes_inv:
  assumes inv: "emission_inv env stuck w" and sk: "es_sink w = None" and n: "0 \<le> n"
    and room: "output_used (es_sink w) (execution w) + reserved_output (live_items stuck (buffered_items (execution w))) + n \<le>
      rp_max_output_bytes (ev_policy env)"
  shows "emission_inv env stuck (map_execution (\<lambda>s. s\<lparr>output_bytes := output_bytes s + n\<rparr>) w)"
  using assms by (auto simp: emission_inv_def entries_ok_def budgets_ok_def identities_ok_def output_used_def)

lemma write_committed_item_inv:
  assumes inv: "emission_inv env stuck w" and cov: "covers_output (es_sink w) b"
    and room: "output_used (es_sink w) (execution w) + reserved_output (live_items stuck (buffered_items (execution w))) +
      bi_reserved_output_bytes b \<le> rp_max_output_bytes (ev_policy env)"
    and room2: "output_used (es_sink w) (execution w) + reserved_output (live_items stuck (buffered_items (execution w))) +
      bi_reserved_output_bytes b \<le> output_bytes (execution w) + reserved_output_bytes (execution w)"
  shows "wpE (write_committed_item env q b)
    (\<lambda>_ w1. written_ok env stuck w w1 \<and> output_used (es_sink w1) (execution w1) = output_bytes (execution w1))
    (\<lambda>_ w1. written_ok env stuck w w1) w"
proof (cases "es_sink w")
  case None
  then show ?thesis
    using add_output_bytes_inv[OF inv None _ room] cov
    by (auto simp: write_committed_item_def written_ok_def output_used_def covers_output_def)
next
  case (Some sk)
  have live: "0 \<le> reserved_output (live_items stuck (buffered_items (execution w)))"
    using reserved_output_live[OF live_nonneg[OF inv]] by blast
  obtain fs1 sk1 g where wr: "on_sink (sink_write (ev_sha env) (bi_item b)) w = (w\<lparr>es_files := fs1, es_sink := Some sk1\<rparr>, Inr g)"
    "sk_bytes_written sk1 \<le> sk_bytes_written sk + bi_reserved_output_bytes b" "sk_format sk1 = sk_format sk"
    "sk_csv_columns sk1 = sk_csv_columns sk" "sk_max_output_bytes sk1 = sk_max_output_bytes sk" "\<exists>items. sink_ok fs1 sk1 items"
    using sink_takes_covered[OF inv Some cov, of "ev_sha env"] room live by auto
  let ?w = "w\<lparr>es_files := fs1, es_sink := Some sk1\<rparr>"
  have "emission_inv env stuck ?w"
    using inv Some wr room room2 covers_output_format[OF wr(3,4)]
    by (auto simp: emission_inv_def entries_ok_def budgets_ok_def sink_within_def output_used_def)
  then have moved: "emission_inv env stuck (move_journal f j p ?w)" for f j p by simp
  have "wpE (append_or_fail env ev)
      (\<lambda>_. wpE (bindE (getE es_sink) (\<lambda>sink1. modifyE (map_execution (\<lambda>s. s\<lparr>output_bytes :=
        (case sink1 of Some sk \<Rightarrow> sk_bytes_written sk | None \<Rightarrow> output_bytes s)\<rparr>))))
        (\<lambda>_ w1. written_ok env stuck w w1 \<and> output_used (es_sink w1) (execution w1) = output_bytes (execution w1))
        (\<lambda>_ w1. written_ok env stuck w w1))
      (\<lambda>_ w1. written_ok env stuck w w1) ?w" for ev
    by (rule wp_append_or_fail)
      (use moved set_output_bytes_inv[OF moved, where sk = sk1] in \<open>simp_all add: written_ok_def output_used_def\<close>)
  moreover have "wpE (on_sink (sink_write (ev_sha env) (bi_item b))) Q E w = Q g ?w" for Q E
    by (rule wpE_step[of "on_sink (sink_write (ev_sha env) (bi_item b))", OF wr(1)])
  ultimately show ?thesis using Some by (simp add: write_committed_item_def)
qed

lemma keys_without [simp]: "fst ` {x \<in> A. fst x \<noteq> k} = fst ` A - {k}"
  by auto

definition drop_entry :: "string \<Rightarrow> buffered_item \<Rightarrow> bool \<Rightarrow> execution_state \<Rightarrow> execution_state" where
  "drop_entry k b release s = s\<lparr>buffered_items := filter (\<lambda>kv. fst kv \<noteq> k) (buffered_items s),
     reserved_item_count := reserved_item_count s - 1,
     reserved_output_bytes := reserved_output_bytes s - bi_reserved_output_bytes b,
     reserved_identity_state_bytes := reserved_identity_state_bytes s -
       (if release then identity_state_bytes (bi_identity_digest b) else 0)\<rparr>"

lemma drop_entry_simps [simp]:
  "buffered_items (drop_entry k b r s) = filter (\<lambda>kv. fst kv \<noteq> k) (buffered_items s)"
  "reserved_item_count (drop_entry k b r s) = reserved_item_count s - 1"
  "reserved_output_bytes (drop_entry k b r s) = reserved_output_bytes s - bi_reserved_output_bytes b"
  "reserved_identity_state_bytes (drop_entry k b r s) = reserved_identity_state_bytes s -
    (if r then identity_state_bytes (bi_identity_digest b) else 0)"
  "summary (drop_entry k b r s) = summary s" "identity_digests (drop_entry k b r s) = identity_digests s"
  "next_item_sequence (drop_entry k b r s) = next_item_sequence s" "local_state_bytes (drop_entry k b r s) = local_state_bytes s"
  "retained_fanout_item_bytes (drop_entry k b r s) = retained_fanout_item_bytes s" "output_bytes (drop_entry k b r s) = output_bytes s"
  "output_used sink (drop_entry k b r s) = output_used sink s"
  by (simp_all add: drop_entry_def output_used_def split: option.split)

lemma wp_release:
  assumes "emission_inv env stuck w" "(k, b) \<in> set (buffered_items (execution w))"
    and "Q () (map_execution (drop_entry k b r) w)"
  shows "wpE (release_buffered_item b r) Q E w"
proof -
  have k: "item_logical_order_key (bi_logical_order b) = Inr k" using assms(1,2) by (auto simp: emission_inv_def entries_ok_def)
  obtain y where m: "map_of (buffered_items (execution w)) k = Some y" using weak_map_of_SomeI[OF assms(2)] by auto
  show ?thesis using assms(3) k m by (simp add: release_buffered_item_def drop_entry_def[abs_def])
qed

lemma drop_committed_inv:
  assumes inv: "emission_inv env (insert k stuck) w" and k: "k \<notin> stuck" and b: "(k, b) \<in> set (buffered_items (execution w))"
    and used: "output_used (es_sink w) (execution w) = output_bytes (execution w)"
  shows "emission_inv env stuck (map_execution (drop_entry k b False) w)"
proof -
  let ?e = "buffered_items (execution w)"
  have d: "distinct (map fst ?e)" "stuck \<subseteq> fst ` set ?e" using inv by (auto simp: emission_inv_def entries_ok_def)
  note w = without_key[OF d(1) b]
  have live: "live_items stuck (filter (\<lambda>kv. fst kv \<noteq> k) ?e) = live_items (insert k stuck) ?e"
    by (simp add: live_items_insert live_items_without)
  have "0 \<le> reserved_output (live_items stuck (filter (\<lambda>kv. fst kv \<noteq> k) ?e)) \<and>
      reserved_output (live_items stuck (filter (\<lambda>kv. fst kv \<noteq> k) ?e)) \<le> reserved_output (filter (\<lambda>kv. fst kv \<noteq> k) ?e)"
    by (rule reserved_output_live) (use live_nonneg[OF inv] in auto)
  moreover have "entries_ok (es_sink w) stuck (drop_entry k b False (execution w))"
    using inv d k by (auto simp: emission_inv_def entries_ok_def distinct_map_filter)
  moreover have "identities_ok (drop_entry k b False (execution w))" using inv by (simp add: emission_inv_def identities_ok_def)
  ultimately show ?thesis using inv w used by (auto simp: emission_inv_def budgets_ok_def live)
qed

lemma drop_duplicate_inv:
  assumes inv: "emission_inv env stuck w" and live: "live_entry stuck w k b"
  shows "emission_inv env stuck (map_execution (drop_entry k b True) w)"
proof -
  let ?e = "buffered_items (execution w)"
  have d: "distinct (map fst ?e)" "stuck \<subseteq> fst ` set ?e" using inv by (auto simp: emission_inv_def entries_ok_def)
  have k: "(k, b) \<in> set ?e" "k \<notin> stuck" using live by (auto simp: live_entry_def)
  note w = without_key[OF d(1) k(1)]
  note v = without_key[OF entries_distinct[OF inv] live_entry_in[OF live], folded live_items_without]
  have r: "0 \<le> bi_reserved_output_bytes b" "0 \<le> identity_state_bytes (bi_identity_digest b)"
    using live_nonneg[OF inv] k by (auto simp: identity_state_bytes_def)
  have "entries_ok (es_sink w) stuck (drop_entry k b True (execution w))"
    using inv d k by (auto simp: emission_inv_def entries_ok_def distinct_map_filter)
  moreover have "identities_ok (drop_entry k b True (execution w))" using inv by (simp add: emission_inv_def identities_ok_def)
  ultimately show ?thesis using inv w v r by (auto simp: emission_inv_def budgets_ok_def)
qed

lemma count_duplicate_inv: "emission_inv env stuck w \<Longrightarrow> emission_inv env stuck (map_execution count_duplicate w)"
  by (simp add: emission_inv_def entries_ok_def budgets_ok_def identities_ok_def count_duplicate_def output_used_def
    split: option.splits)

lemma commit_buffered_item_inv:
  assumes inv: "emission_inv env stuck w" and live: "live_entry stuck w k b"
  shows "wpE (commit_buffered_item env hf b)
    (\<lambda>_ w1. emission_inv env stuck w1 \<and>
      buffered_items (execution w1) = filter (\<lambda>kv. fst kv \<noteq> k) (buffered_items (execution w)))
    (\<lambda>_ w1. (emission_inv env stuck w1 \<or> emission_inv env (insert k stuck) w1) \<and>
      buffered_items (execution w1) = buffered_items (execution w)) w"
proof -
  let ?s = "execution w" and ?d = "bi_identity_digest b"
  have k: "(k, b) \<in> set (buffered_items ?s)" "k \<notin> stuck" using live by (auto simp: live_entry_def)
  have cov: "covers_output (es_sink w) b" using inv k by (auto simp: emission_inv_def entries_ok_def)
  show ?thesis
  proof (cases "?d \<in> set (identity_digests ?s)")
    case True
    have dup: "emission_inv env stuck (map_execution count_duplicate (move_journal f q p w))" for f q p
      by (rule count_duplicate_inv) (use inv in simp)
    have "wpE (release_buffered_item b True)
        (\<lambda>_ w1. emission_inv env stuck w1 \<and> buffered_items (execution w1) = filter (\<lambda>kv. fst kv \<noteq> k) (buffered_items ?s))
        E (map_execution count_duplicate (move_journal f q p w))" for f q p E
      by (rule wp_release[OF dup])
        (use drop_duplicate_inv[OF dup, where k = k and b = b] live k in \<open>auto simp: live_entry_def count_duplicate_def\<close>)
    then show ?thesis using True inv
      by (simp add: commit_buffered_item_def, intro wp_append_or_fail) (auto simp: wpE_mono)
  next
    case False
    show ?thesis
    proof (cases "hf \<and> local_state_bytes ?s + retained_fanout_item_bytes ?s + reserved_identity_state_bytes ?s + bi_item_bytes b >
        max_local_state env")
      case True
      then show ?thesis using False inv by (simp add: commit_buffered_item_def)
    next
      case room: False
      have step: "wpE (bindE (modifyE (map_execution (count_committed hf b))) (\<lambda>_.
          bindE (write_committed_item env (next_item_sequence ?s) b) (\<lambda>_. bindE (release_buffered_item b False) (\<lambda>_. returnE True))))
        (\<lambda>_ w1. emission_inv env stuck w1 \<and> buffered_items (execution w1) = filter (\<lambda>kv. fst kv \<noteq> k) (buffered_items ?s))
        (\<lambda>_ w1. (emission_inv env stuck w1 \<or> emission_inv env (insert k stuck) w1) \<and>
          buffered_items (execution w1) = buffered_items ?s) (move_journal f q p w)" for f q p
      proof -
        let ?m = "move_journal f q p w"
        let ?w1 = "map_execution (count_committed hf b) ?m"
        have m: "emission_inv env stuck ?m" "live_entry stuck ?m k b" using inv live by (simp_all add: live_entry_def)
        note counted = count_committed_inv[OF m, of hf]
        have c: "emission_inv env (insert k stuck) ?w1" using counted False room by simp
        have r: "output_used (es_sink ?w1) (execution ?w1) +
            reserved_output (live_items (insert k stuck) (buffered_items (execution ?w1))) + bi_reserved_output_bytes b \<le>
            rp_max_output_bytes (ev_policy env)"
          "output_used (es_sink ?w1) (execution ?w1) +
            reserved_output (live_items (insert k stuck) (buffered_items (execution ?w1))) + bi_reserved_output_bytes b \<le>
            output_bytes (execution ?w1) + reserved_output_bytes (execution ?w1)"
          using counted(2,3) False room by simp_all
        have "covers_output (es_sink ?w1) b" using cov by simp
        from write_committed_item_inv[OF c this r, of "next_item_sequence ?s"]
        show ?thesis
        proof (simp, elim wpE_mono)
          fix w3
          assume "written_ok env (insert k stuck) ?w1 w3 \<and> output_used (es_sink w3) (execution w3) = output_bytes (execution w3)"
          then have w3: "emission_inv env (insert k stuck) w3" "(k, b) \<in> set (buffered_items (execution w3))"
            "output_used (es_sink w3) (execution w3) = output_bytes (execution w3)"
            "buffered_items (execution w3) = buffered_items ?s"
            using k by (simp_all add: written_ok_def)
          show "wpE (release_buffered_item b False)
              (\<lambda>_ w1. emission_inv env stuck w1 \<and> buffered_items (execution w1) = filter (\<lambda>kv. fst kv \<noteq> k) (buffered_items ?s))
              (\<lambda>_ w1. (emission_inv env stuck w1 \<or> emission_inv env (insert k stuck) w1) \<and>
                buffered_items (execution w1) = buffered_items ?s) w3"
            by (rule wp_release[OF w3(1,2)]) (use drop_committed_inv[OF w3(1) k(2) w3(2,3)] w3(4) in simp)
        qed (simp add: written_ok_def)
      qed
      note body = step[unfolded wp_simps]
      show ?thesis using False room inv
        by (simp add: commit_buffered_item_def ensureR_def, intro impI conjI wp_append_or_fail)
          (use body in \<open>simp_all\<close>)
    qed
  qed
qed

text \<open>
  What committing a page leaves: the entries that are gone and the positions that are newly
  stuck are among those of the page.
\<close>

definition settles :: "run_env \<Rightarrow> string set \<Rightarrow> string set \<Rightarrow> engine_state \<Rightarrow> string set \<Rightarrow> engine_state \<Rightarrow> bool" where
  "settles env keys stuck w stuck1 w1 \<longleftrightarrow> emission_inv env stuck1 w1 \<and> stuck1 \<subseteq> stuck \<union> keys \<and>
     (\<exists>gone. gone \<subseteq> keys \<and> buffered_items (execution w1) = filter (\<lambda>kv. fst kv \<notin> gone) (buffered_items (execution w)))"

lemma settles_same: "emission_inv env stuck1 w1 \<Longrightarrow> stuck1 \<subseteq> stuck \<union> keys \<Longrightarrow>
    buffered_items (execution w1) = buffered_items (execution w) \<Longrightarrow> settles env keys stuck w stuck1 w1"
  by (auto simp: settles_def intro: exI[of _ "{}"])

lemma settles_refl: "emission_inv env stuck w1 \<Longrightarrow> buffered_items (execution w1) = buffered_items (execution w) \<Longrightarrow>
    settles env keys stuck w stuck w1"
  by (rule settles_same) simp_all

lemma settles_step:
  assumes "buffered_items (execution w1) = filter (\<lambda>kv. fst kv \<noteq> k) (buffered_items (execution w))"
    and "settles env keys stuck w1 stuck2 w2"
  shows "settles env (insert k keys) stuck w stuck2 w2"
proof -
  obtain gone where "gone \<subseteq> keys" "buffered_items (execution w2) = filter (\<lambda>kv. fst kv \<notin> gone) (buffered_items (execution w1))"
    using assms(2) by (auto simp: settles_def)
  then have "insert k gone \<subseteq> insert k keys \<and>
      buffered_items (execution w2) = filter (\<lambda>kv. fst kv \<notin> insert k gone) (buffered_items (execution w))"
    using assms(1) by (auto intro: filter_cong)
  then show ?thesis using assms(2) unfolding settles_def by blast
qed

lemma wp_observe:
  assumes "\<And>t r. Q r (w\<lparr>es_stops := t\<rparr>)" "\<And>t e. E e (w\<lparr>es_stops := t\<rparr>)"
  shows "wpE (observe_run_item item) Q E w"
  using assms by (auto simp: wpE_def observe_run_item_def split: prod.split sum.split)

lemma owned_stops [simp]: "owned stuck (w\<lparr>es_stops := t\<rparr>) n bs = owned stuck w n bs"
  by (simp add: owned_def live_entry_def)

lemma owned_entries:
  assumes "owned stuck w n (b # bs)"
    and "buffered_items (execution w1) = filter (\<lambda>kv. fst kv \<noteq> entry_key b) (buffered_items (execution w))"
  shows "owned stuck w1 n bs"
proof -
  have "entry_key c \<noteq> entry_key b" if "c \<in> set bs" for c
    using assms(1) that by (auto simp: owned_def) (metis image_eqI)
  then show ?thesis using assms by (auto simp: owned_def live_entry_def)
qed

lemma commit_buffered_run_items_inv:
  assumes "emission_inv env stuck w" "owned stuck w n bs"
  shows "wpE (commit_buffered_run_items env hf bs)
    (\<lambda>e w1. settles env (entry_key ` set bs) stuck w stuck w1 \<and> 0 \<le> ie_retained_item_bytes e)
    (\<lambda>_ w1. \<exists>stuck1. settles env (entry_key ` set bs) stuck w stuck1 w1) w"
  using assms
proof (induction bs arbitrary: w)
  case Nil
  then show ?case unfolding commit_buffered_run_items.simps wp_simps by (simp add: settles_refl)
next
  case (Cons b bs)
  let ?Q = "\<lambda>e w1. settles env (entry_key ` set (b # bs)) stuck w stuck w1 \<and> 0 \<le> ie_retained_item_bytes e"
  let ?E = "\<lambda>_ w1. \<exists>stuck1. settles env (entry_key ` set (b # bs)) stuck w stuck1 w1"
  have seen: "emission_inv env stuck (w\<lparr>es_stops := t\<rparr>)" for t
    by (rule emission_inv_same[OF Cons.prems(1)]) simp_all
  have live: "live_entry stuck (w\<lparr>es_stops := t\<rparr>) (entry_key b) b" for t
    using Cons.prems(2) by (simp add: owned_def live_entry_def)
  have bytes: "0 \<le> bi_item_bytes b"
    using Cons.prems by (auto simp: emission_inv_def entries_ok_def owned_def live_entry_def)
  have item: "wpE (bindE (commit_buffered_item env hf b) (\<lambda>c. bindE (commit_buffered_run_items env hf bs)
      (\<lambda>e. returnE (keep_for_fanout (c \<and> hf) b e)))) ?Q ?E (w\<lparr>es_stops := t\<rparr>)" for t
    unfolding wp_simps
  proof (rule wpE_mono[OF commit_buffered_item_inv[OF seen live]])
    fix c w1
    assume "emission_inv env stuck w1 \<and> buffered_items (execution w1) =
      filter (\<lambda>kv. fst kv \<noteq> entry_key b) (buffered_items (execution (w\<lparr>es_stops := t\<rparr>)))"
    then have w1: "emission_inv env stuck w1" "buffered_items (execution w1) =
      filter (\<lambda>kv. fst kv \<noteq> entry_key b) (buffered_items (execution w))" by simp_all
    show "wpE (commit_buffered_run_items env hf bs) (\<lambda>e. ?Q (keep_for_fanout (c \<and> hf) b e)) ?E w1"
    proof (rule wpE_mono[OF Cons.IH[OF w1(1) owned_entries[OF Cons.prems(2) w1(2)]]])
      fix e :: item_emission and w2
      assume "settles env (entry_key ` set bs) stuck w1 stuck w2 \<and> 0 \<le> ie_retained_item_bytes e"
      then show "?Q (keep_for_fanout (c \<and> hf) b e) w2"
        using settles_step[OF w1(2)] bytes by (auto simp: keep_for_fanout_def)
    next
      fix w2
      assume "\<exists>stuck1. settles env (entry_key ` set bs) stuck w1 stuck1 w2"
      then show "\<exists>stuck1. settles env (entry_key ` set (b # bs)) stuck w stuck1 w2"
        using settles_step[OF w1(2)] by fastforce
    qed
  next
    fix w1
    assume "(emission_inv env stuck w1 \<or> emission_inv env (insert (entry_key b) stuck) w1) \<and>
      buffered_items (execution w1) = buffered_items (execution (w\<lparr>es_stops := t\<rparr>))"
    then show "\<exists>stuck1. settles env (entry_key ` set (b # bs)) stuck w stuck1 w1"
      using settles_same[of env stuck w1 stuck "entry_key ` set (b # bs)" w]
        settles_same[of env "insert (entry_key b) stuck" w1 stuck "entry_key ` set (b # bs)" w] by auto
  qed
  have stop: "?Q \<lparr>ie_items = [], ie_retained_item_bytes = 0, ie_semantic_stop_id = s\<rparr> (w\<lparr>es_stops := t\<rparr>)" for s t
    using settles_refl[OF seen] by simp
  have same: "\<exists>stuck1. settles env (entry_key ` set (b # bs)) stuck w stuck1 (w\<lparr>es_stops := t\<rparr>)" for t
    using stop by blast
  show ?case unfolding commit_buffered_run_items.simps wp_simps
    by (rule wp_observe) (use item stop same in \<open>auto split: option.split\<close>)
qed

section \<open>A page of items\<close>

text \<open>What the budgets promise of the state \<open>w\<close> of a run.\<close>

definition within_budgets :: "run_env \<Rightarrow> engine_state \<Rightarrow> bool" where
  "within_budgets env w \<longleftrightarrow>
     items_emitted (summary (execution w)) \<le> rp_max_items (ev_policy env) \<and>
     output_used (es_sink w) (execution w) \<le> rp_max_output_bytes (ev_policy env) \<and>
     local_state_bytes (execution w) + retained_fanout_item_bytes (execution w) +
       reserved_identity_state_bytes (execution w) \<le> max_local_state env \<and>
     distinct (identity_digests (execution w)) \<and>
     int (length (identity_digests (execution w))) = items_emitted (summary (execution w)) \<and>
     next_item_sequence (execution w) = items_emitted (summary (execution w)) + 1 \<and>
     (\<forall>sk. es_sink w = Some sk \<longrightarrow> (\<exists>items. sink_ok (es_files w) sk items))"

lemma reserved_output_nonneg: "\<forall>(k, b) \<in> set xs. 0 \<le> bi_reserved_output_bytes b \<Longrightarrow> 0 \<le> reserved_output xs"
  by (induction xs) (auto simp: reserved_output_def)

lemma inv_within_budgets: "emission_inv env stuck w \<Longrightarrow> within_budgets env w"
proof -
  assume inv: "emission_inv env stuck w"
  have "\<forall>(k, b) \<in> set (live_items stuck (buffered_items (execution w))). 0 \<le> bi_reserved_output_bytes b"
    using inv by (auto simp: emission_inv_def entries_ok_def covers_output_def live_items_def)
  from reserved_output_nonneg[OF this] inv show ?thesis
    by (auto simp: within_budgets_def emission_inv_def budgets_ok_def identities_ok_def sink_within_def)
qed

text \<open>
  C22: the items of a page never break a budget, whatever fails. From a state of the invariant,
  buffering the items of a page and then committing them, with any other chain's operations that
  keep the invariant and this chain's buffered items in between, leaves a state of the invariant
  whether each step returns or throws: at most \<open>max_items\<close> items and \<open>max_output_bytes\<close> bytes of
  output, local state within its bound, every identity once, contiguous sequence numbers, and an
  output file that holds exactly the items it was given. The invariant is what makes it so: what
  is reserved for a buffered item covers what its commit uses.
\<close>

theorem items_stay_within_budgets:
  assumes "emission_inv env stuck w" "none_stuck stuck w node_id" "count_ok node" "count_ok page" "arrays_fit data"
    and "buffer_run_items env task node_id node page data w = (w1, r1)"
  shows "emission_inv env stuck w1 \<and> within_budgets env w1 \<and> (\<forall>bs stuck2 w2 has_fanout w3 r3.
    r1 = Inr bs \<longrightarrow> owned stuck w1 node_id bs \<and>
    (emission_inv env stuck2 w2 \<and> owned stuck2 w2 node_id bs \<and>
        commit_buffered_run_items env has_fanout bs w2 = (w3, r3) \<longrightarrow>
      (\<exists>stuck3. emission_inv env stuck3 w3 \<and> (isl r3 \<or> stuck3 = stuck2)) \<and> within_budgets env w3))"
proof -
  have b: "emission_inv env stuck w1 \<and> (\<forall>bs. r1 = Inr bs \<longrightarrow> owned stuck w1 node_id bs)"
    using buffer_run_items_inv[OF assms(1-5), of task] assms(6) by (auto simp: wpE_def split: sum.splits)
  have c: "(\<exists>stuck3. emission_inv env stuck3 w3 \<and> (isl r3 \<or> stuck3 = stuck2)) \<and> within_budgets env w3"
    if "emission_inv env stuck2 w2" "owned stuck2 w2 node_id bs" "commit_buffered_run_items env has_fanout bs w2 = (w3, r3)"
    for bs stuck2 w2 has_fanout w3 r3
    using commit_buffered_run_items_inv[OF that(1,2), of has_fanout] that(3) inv_within_budgets
    by (auto simp: wpE_def settles_def split: sum.splits)
  show ?thesis using b c inv_within_budgets by blast
qed

section \<open>Example\<close>

lemma resolve_token_size:
  assumes "resolve_token v t = Inr x"
  shows "size x \<le> size v"
proof (cases v)
  case (JArr xs)
  then have "x \<in> set xs" using assms by (auto simp: resolve_token_def ensureR_Inr_iff split: if_splits)
  then show ?thesis using JArr size_list_estimation'[of x xs "size x" size] by simp
next
  case (JObj kvs)
  then have "(t, x) \<in> set kvs" using assms by (auto simp: resolve_token_def split: option.splits dest: map_of_SomeD)
  then have "size x \<le> size_list (size_prod (\<lambda>_. 0) size) kvs"
    using size_list_estimation'[of "(t, x)" kvs "size x" "size_prod (\<lambda>_. 0) size"] by simp
  then show ?thesis using JObj size_list_pointwise[of kvs "size_prod (\<lambda>_. 0) size" "size_prod (size_list size) size"] by simp
qed (use assms in \<open>simp_all add: resolve_token_def\<close>)

lemma resolve_pointer_size: "resolve_json_pointer v p = Inr x \<Longrightarrow> size x \<le> size v"
proof -
  have "foldR (\<lambda>current t. resolve_token current (decode_token t)) v ts = Inr x \<Longrightarrow> size x \<le> size v" for ts
    by (induction ts arbitrary: v) (auto simp: bindR_Inr_iff dest: resolve_token_size, meson le_trans resolve_token_size)
  then show "resolve_json_pointer v p = Inr x \<Longrightarrow> size x \<le> size v" by (auto simp: resolve_json_pointer_def split: if_splits)
qed

lemma small_arrays_fit:
  assumes "int (size v) \<le> max_safe_integer"
  shows "arrays_fit v"
  unfolding arrays_fit_def
proof (intro allI impI)
  fix p xs assume "resolve_json_pointer v p = Inr (JArr xs)"
  then have "size (JArr xs) \<le> size v" by (rule resolve_pointer_size)
  moreover have "length xs \<le> size_list size xs" by (induction xs) auto
  then have "length xs \<le> size (JArr xs)" by simp
  ultimately show "int (length xs) \<le> max_safe_integer" using assms by linarith
qed

definition emitting_task :: task_kind where
  "emitting_task = page_task\<lparr>tk_emit := Some \<lparr>em_items_pointer = '''', em_cardinality = Emit_One,
     em_projection = V_Get Val_Raw_Item '''', em_limit = None\<rparr>\<rparr>"

definition example_env :: run_env where
  "example_env = \<lparr>ev_sha = zero_sha, ev_parse_url = (\<lambda>_. None), ev_build_url = (\<lambda>_ _ _. []), ev_run_id = example_run,
     ev_args = JNull, ev_capabilities = [], ev_collection = example_collection seeded_mode [],
     ev_named_limits = [], ev_policy = cn_run_policy (example_collection seeded_mode [])\<rparr>"

definition example_engine :: engine_state where
  "example_engine = \<lparr>es_durable = \<lparr>ds_frontier = new_frontier 0, ds_spool = [], ds_journal = None, ds_execution = idle_state 20\<rparr>,
     es_files = (\<lambda>_. None), es_sink = None, es_stops = \<lparr>tr_active = [], tr_previous = []\<rparr>,
     es_order = new_attempt_order, es_batch_stop = None\<rparr>"

definition example_node_id :: string where
  "example_node_id = ''node_v1_'' @ replicate 32 CHR ''0''"

definition example_item :: json where "example_item = JObj [(''id'', JStr ''a'')]"

definition example_buffered :: "engine_state \<times> (exn + buffered_item list)" where
  "example_buffered = buffer_run_items example_env emitting_task example_node_id 0 0 example_item example_engine"

lemma example_engine_inv: "emission_inv example_env {} example_engine"
  by (simp add: emission_inv_def entries_ok_def budgets_ok_def identities_ok_def sink_within_def example_engine_def
    idle_state_def live_items_def reserved_output_def reserved_identity_def output_used_def zero_summary_def
    example_env_def example_collection_def example_run_policy_def max_local_state_def)

theorem items_stay_within_budgets_witness:
  "case example_buffered of
     (w1, Inl _) \<Rightarrow> within_budgets example_env w1
   | (w1, Inr bs) \<Rightarrow> within_budgets example_env w1 \<and> within_budgets example_env (fst (commit_buffered_run_items example_env False bs w1))"
proof -
  have fit: "arrays_fit example_item" by (rule small_arrays_fit) (simp add: example_item_def max_safe_integer_def)
  have none: "none_stuck {} example_engine example_node_id" by (simp add: none_stuck_def example_engine_def idle_state_def)
  have c: "count_ok 0" by (simp add: count_ok_def max_safe_integer_def)
  have run: "buffer_run_items example_env emitting_task example_node_id 0 0 example_item example_engine =
      (fst example_buffered, snd example_buffered)"
    by (simp add: example_buffered_def)
  note stays = items_stay_within_budgets[OF example_engine_inv none c c fit run]
  have "within_budgets example_env (fst (commit_buffered_run_items example_env False bs (fst example_buffered)))"
    if "snd example_buffered = Inr bs" for bs
    using stays that prod.collapse[of "commit_buffered_run_items example_env False bs (fst example_buffered)", symmetric] by blast
  moreover have "within_budgets example_env (fst example_buffered)" using stays by blast
  moreover have "case p of (w1, Inl _) \<Rightarrow> P w1 | (w1, Inr bs) \<Rightarrow> P w1 \<and> Q w1 bs"
    if "P (fst p)" "\<And>bs. snd p = Inr bs \<Longrightarrow> Q (fst p) bs" for p :: "engine_state \<times> (exn + buffered_item list)" and P Q
    using that by (auto split: prod.split sum.split)
  note this[of "within_budgets example_env" example_buffered
    "\<lambda>w bs. within_budgets example_env (fst (commit_buffered_run_items example_env False bs w))"]
  ultimately show ?thesis by simp
qed

end
