(* ===== verification/Result_Reader.thy ===== *)
theory Result_Reader
  imports Engine_State
begin

text \<open>
  Reading the committed items of a run back from its journal and spool
  (\<open>src/src/consumer/scrape/result-reader.ts\<close>): the visit of the committed sequence, the pages
  of a cursor, the items of one node, the buffered items still pending and the export to a
  file. The repair of the journal file that every read starts with is in \<open>Run_Journal\<close>; the
  operations here take the events it gives.
\<close>

section \<open>The visit\<close>

record reader_entry =
  re_data :: blob_ref
  re_node_id :: string
  re_identity_digest :: string
  re_logical_order :: logical_order

record reader_state =
  rd_buffered :: "(string \<times> reader_entry) list"
  rd_committed :: "string list"
  rd_last_sequence :: int
  rd_last_order :: "logical_order option"

definition new_reader :: reader_state where
  "new_reader = \<lparr>rd_buffered = [], rd_committed = [], rd_last_sequence = 0, rd_last_order = None\<rparr>"

text \<open>\<open>RunResultError\<close> is a contract error; its code is not modelled.\<close>

definition result_corrupt :: "String.literal \<Rightarrow> exn" where
  "result_corrupt m = PublicContractError m"

record committed_item =
  ci_item :: json
  ci_node_id :: string
  ci_sequence :: int

definition read_buffered :: "blob_ref \<Rightarrow> string \<Rightarrow> string \<Rightarrow> logical_order \<Rightarrow> reader_state \<Rightarrow> exn + reader_state" where
  "read_buffered data node_id digest order st = bindR (item_logical_order_key order) (\<lambda>key.
     ensureR (map_of (rd_buffered st) key = None) (result_corrupt (STR ''item logical position is buffered more than once''))
       (Inr (st\<lparr>rd_buffered := rd_buffered st @ [(key, \<lparr>re_data = data, re_node_id = node_id,
         re_identity_digest = digest, re_logical_order = order\<rparr>)]\<rparr>)))"

definition entry_matches :: "reader_entry option \<Rightarrow> string \<Rightarrow> string \<Rightarrow> bool" where
  "entry_matches entry node_id digest = (case entry of
     None \<Rightarrow> False | Some e \<Rightarrow> re_node_id e = node_id \<and> re_identity_digest e = digest)"

definition read_duplicate :: "string \<Rightarrow> string \<Rightarrow> logical_order \<Rightarrow> reader_state \<Rightarrow> exn + reader_state" where
  "read_duplicate node_id digest order st = bindR (item_logical_order_key order) (\<lambda>key.
     ensureR (entry_matches (map_of (rd_buffered st) key) node_id digest \<and> digest \<in> set (rd_committed st))
       (result_corrupt (STR ''item duplicate has no resolved preceding buffer''))
       (Inr (st\<lparr>rd_buffered := filter (\<lambda>kv. fst kv \<noteq> key) (rd_buffered st)\<rparr>)))"

definition read_committed ::
  "hash \<Rightarrow> string \<Rightarrow> string \<Rightarrow> string \<Rightarrow> logical_order \<Rightarrow> int \<Rightarrow> reader_state \<Rightarrow> exn + reader_state \<times> committed_item" where
  "read_committed sha spool node_id digest order seq st = bindR (item_logical_order_key order) (\<lambda>key.
     ensureR (entry_matches (map_of (rd_buffered st) key) node_id digest \<and> digest \<notin> set (rd_committed st))
       (result_corrupt (STR ''item commit has no unique preceding buffer''))
     (ensureR (seq = rd_last_sequence st + 1)
       (result_corrupt (STR ''item commit does not extend the durable item sequence''))
     (ensureR (case rd_last_order st of None \<Rightarrow> True | Some l \<Rightarrow> compare_item_logical_order l order < 0)
       (result_corrupt (STR ''item commit is not in logical order''))
     (bindR (case map_of (rd_buffered st) key of
         Some e \<Rightarrow> read_data_blob sha spool (re_data e) | None \<Rightarrow> Inl (result_corrupt (STR ''unreachable''))) (\<lambda>item.
       Inr (st\<lparr>rd_buffered := filter (\<lambda>kv. fst kv \<noteq> key) (rd_buffered st),
           rd_committed := set_add digest (rd_committed st), rd_last_sequence := seq, rd_last_order := Some order\<rparr>,
         \<lparr>ci_item = item, ci_node_id = node_id, ci_sequence = seq\<rparr>))))))"

text \<open>The branch without an entry is never taken: an entry has just matched.\<close>

definition read_event :: "hash \<Rightarrow> string \<Rightarrow> journal_event \<Rightarrow> reader_state \<Rightarrow> exn + reader_state \<times> committed_item option" where
  "read_event sha spool ev st = (case ev of
     Item_Buffered node_id digest data order \<Rightarrow> bindR (read_buffered data node_id digest order st) (\<lambda>s. Inr (s, None))
   | Item_Duplicate node_id digest order \<Rightarrow> bindR (read_duplicate node_id digest order st) (\<lambda>s. Inr (s, None))
   | Item_Committed node_id digest order seq \<Rightarrow>
       bindR (read_committed sha spool node_id digest order seq st) (\<lambda>(s, c). Inr (s, Some c))
   | _ \<Rightarrow> Inr (st, None))"

text \<open>
  \<open>visitCommittedRunItems\<close>: the visitor gives its new state and whether to go on; a visitor
  may throw.
\<close>

fun visit_committed_run_items ::
  "hash \<Rightarrow> string \<Rightarrow> ('a \<Rightarrow> committed_item \<Rightarrow> exn + 'a \<times> bool) \<Rightarrow> journal_event list \<Rightarrow> reader_state \<Rightarrow> 'a \<Rightarrow> exn + 'a" where
  "visit_committed_run_items sha spool visit [] st acc = Inr acc"
| "visit_committed_run_items sha spool visit (ev # evs) st acc =
     bindR (read_event sha spool ev st) (\<lambda>(st1, c). case c of
       None \<Rightarrow> visit_committed_run_items sha spool visit evs st1 acc
     | Some x \<Rightarrow> bindR (visit acc x) (\<lambda>(acc1, more).
         if more then visit_committed_run_items sha spool visit evs st1 acc1 else Inr acc1))"

section \<open>Readers\<close>

definition read_committed_run_items :: "hash \<Rightarrow> string \<Rightarrow> journal_event list \<Rightarrow> exn + json list" where
  "read_committed_run_items sha spool evs =
     visit_committed_run_items sha spool (\<lambda>items c. Inr (items @ [ci_item c], True)) evs new_reader []"

definition read_committed_node_items :: "hash \<Rightarrow> string \<Rightarrow> string \<Rightarrow> journal_event list \<Rightarrow> exn + json list" where
  "read_committed_node_items sha spool node_id evs =
     visit_committed_run_items sha spool
       (\<lambda>items c. Inr (if ci_node_id c = node_id then items @ [ci_item c] else items, True)) evs new_reader []"

text \<open>The page so far and the cursor of the next one; \<open>limit\<close> is at least one.\<close>

definition visit_page :: "int \<Rightarrow> int \<Rightarrow> committed_item list \<times> int option \<Rightarrow> committed_item \<Rightarrow>
    exn + (committed_item list \<times> int option) \<times> bool" where
  "visit_page after limit acc c =
     (if ci_sequence c \<le> after then Inr (acc, True)
      else if limit \<le> int (length (fst acc))
      then (if fst acc = [] then Inl (result_corrupt (STR ''item page has no terminal cursor''))
        else Inr ((fst acc, Some (ci_sequence (last (fst acc)))), False))
      else Inr ((fst acc @ [c], snd acc), True))"

definition read_committed_run_items_page ::
  "hash \<Rightarrow> string \<Rightarrow> journal_event list \<Rightarrow> json option \<Rightarrow> json option \<Rightarrow> exn + committed_item list \<times> int option" where
  "read_committed_run_items_page sha spool evs after limit =
     bindR (parse_integer 0 1000000000 (case after of None \<Rightarrow> JNum (NInt 0) | Some v \<Rightarrow> v)) (\<lambda>a.
     bindR (parse_integer 1 100 (case limit of None \<Rightarrow> JNum (NInt 25) | Some v \<Rightarrow> v)) (\<lambda>l.
       visit_committed_run_items sha spool (visit_page a l) evs new_reader ([], None)))"

section \<open>Pending items\<close>

definition resolve_pending :: "string \<Rightarrow> string \<Rightarrow> logical_order \<Rightarrow> (string \<times> reader_entry) list \<Rightarrow> exn + (string \<times> reader_entry) list" where
  "resolve_pending node_id digest order buffered = bindR (item_logical_order_key order) (\<lambda>key.
     ensureR (entry_matches (map_of buffered key) node_id digest)
       (result_corrupt (STR ''item resolution has no matching buffer''))
       (Inr (filter (\<lambda>kv. fst kv \<noteq> key) buffered)))"

definition pending_event :: "(string \<times> reader_entry) list \<Rightarrow> journal_event \<Rightarrow> exn + (string \<times> reader_entry) list" where
  "pending_event buffered ev = (case ev of
     Item_Buffered node_id digest data order \<Rightarrow> bindR (item_logical_order_key order) (\<lambda>key.
       ensureR (map_of buffered key = None) (result_corrupt (STR ''item logical position is buffered more than once''))
         (Inr (buffered @ [(key, \<lparr>re_data = data, re_node_id = node_id, re_identity_digest = digest,
           re_logical_order = order\<rparr>)])))
   | Item_Committed node_id digest order _ \<Rightarrow> resolve_pending node_id digest order buffered
   | Item_Duplicate node_id digest order \<Rightarrow> resolve_pending node_id digest order buffered
   | _ \<Rightarrow> Inr buffered)"

text \<open>\<open>sort\<close> by \<open>compareItemLogicalOrder\<close>: an insertion that keeps equal positions in their order.\<close>

fun insert_entry :: "reader_entry \<Rightarrow> reader_entry list \<Rightarrow> reader_entry list" where
  "insert_entry e [] = [e]"
| "insert_entry e (x # xs) = (if compare_item_logical_order (re_logical_order e) (re_logical_order x) \<le> 0
     then e # x # xs else x # insert_entry e xs)"

definition sort_entries :: "reader_entry list \<Rightarrow> reader_entry list" where
  "sort_entries es = foldr insert_entry es []"

definition rebuild_buffered :: "hash \<Rightarrow> string \<Rightarrow> reader_entry \<Rightarrow> exn + buffered_item" where
  "rebuild_buffered sha spool e = bindR (read_data_blob sha spool (re_data e)) (\<lambda>item.
     bindR (canonical_json item) (\<lambda>t.
       Inr \<lparr>bi_node_id = re_node_id e, bi_identity_digest = re_identity_digest e, bi_logical_order = re_logical_order e,
         bi_item = item, bi_item_bytes = int (length t), bi_reserved_output_bytes = int (length t) + 1\<rparr>))"

definition read_pending_buffered_run_items :: "hash \<Rightarrow> string \<Rightarrow> journal_event list \<Rightarrow> exn + buffered_item list" where
  "read_pending_buffered_run_items sha spool evs = bindR (foldR pending_event [] evs) (\<lambda>buffered.
     mapR (rebuild_buffered sha spool) (sort_entries (map snd buffered)))"

section \<open>Export\<close>

record export_state =
  ex_text :: string
  ex_items :: int

definition export_write :: "int \<Rightarrow> string \<Rightarrow> export_state \<Rightarrow> exn + export_state" where
  "export_write maximum t x =
     ensureR (int (length (ex_text x)) + int (length t) \<le> maximum)
       (PublicContractError (STR ''declared output byte budget is exhausted''))
       (Inr (x\<lparr>ex_text := ex_text x @ t\<rparr>))"

definition export_item ::
  "int \<Rightarrow> output_format \<Rightarrow> csv_column list option \<Rightarrow> export_state \<Rightarrow> committed_item \<Rightarrow> exn + export_state \<times> bool" where
  "export_item maximum f cols x c = bindR (encode_item f cols (ci_item c)) (\<lambda>t.
     bindR (export_write maximum
       (if f = Format_Json then (if ex_items x = 0 then [] else '','') @ t else t @ [CHR 0x0A]) x) (\<lambda>x1.
     Inr (x1\<lparr>ex_items := ex_items x1 + 1\<rparr>, True)))"

definition export_text ::
  "hash \<Rightarrow> string \<Rightarrow> journal_event list \<Rightarrow> int \<Rightarrow> output_format \<Rightarrow> csv_column list option \<Rightarrow> exn + export_state" where
  "export_text sha spool evs maximum f cols =
     bindR (case f of
        Format_Json \<Rightarrow> export_write maximum ''['' \<lparr>ex_text = [], ex_items = 0\<rparr>
      | Format_Ndjson \<Rightarrow> Inr \<lparr>ex_text = [], ex_items = 0\<rparr>
      | Format_Csv \<Rightarrow> bindR (initial_prefix Format_Csv cols) (\<lambda>h. export_write maximum h \<lparr>ex_text = [], ex_items = 0\<rparr>)) (\<lambda>x.
     bindR (visit_committed_run_items sha spool (export_item maximum f cols) evs new_reader x) (\<lambda>x1.
       if f = Format_Json then export_write maximum '']'' x1 else Inr x1))"

text \<open>
  \<open>exportCommittedRunItems\<close> to an absolute path. The text is written to a file of a random
  name, which is linked to the target at the end and removed in every case: nothing of it
  stays when the export fails.
\<close>

definition export_committed_run_items ::
  "hash \<Rightarrow> string \<Rightarrow> journal_event list \<Rightarrow> int \<Rightarrow> output_format \<Rightarrow> csv_column list option \<Rightarrow> string \<Rightarrow> file_system \<Rightarrow>
    file_system \<times> (exn + export_state)" where
  "export_committed_run_items sha spool evs maximum f cols target fs =
     (case ensureR (\<not> (f = Format_Csv \<and> cols = None))
         (PublicContractError (STR ''CSV output requires declared collection columns''))
        (ensureR (fs target = None) (PublicContractError (STR ''output path already exists''))
          (export_text sha spool evs maximum f cols)) of
        Inl e \<Rightarrow> (fs, Inl e)
      | Inr x \<Rightarrow> (fs(target \<mapsto> Regular_File (ex_text x)), Inr x))"

definition export_committed_run_items_ndjson ::
  "hash \<Rightarrow> string \<Rightarrow> journal_event list \<Rightarrow> int \<Rightarrow> string \<Rightarrow> file_system \<Rightarrow> file_system \<times> (exn + export_state)" where
  "export_committed_run_items_ndjson sha spool evs maximum target fs =
     export_committed_run_items sha spool evs maximum Format_Ndjson None target fs"

section \<open>Reads agree\<close>

text \<open>The committed items as one list, and a visitor run over it.\<close>

primrec all_committed :: "hash \<Rightarrow> string \<Rightarrow> journal_event list \<Rightarrow> reader_state \<Rightarrow> exn + committed_item list" where
  "all_committed sha spool [] st = Inr []"
| "all_committed sha spool (ev # evs) st = bindR (read_event sha spool ev st) (\<lambda>r.
     bindR (all_committed sha spool evs (fst r)) (\<lambda>cs. Inr (case snd r of None \<Rightarrow> cs | Some x \<Rightarrow> x # cs)))"

primrec run_visitor :: "('a \<Rightarrow> committed_item \<Rightarrow> exn + 'a \<times> bool) \<Rightarrow> committed_item list \<Rightarrow> 'a \<Rightarrow> exn + 'a" where
  "run_visitor visit [] acc = Inr acc"
| "run_visitor visit (c # cs) acc = bindR (visit acc c) (\<lambda>r.
     if snd r then run_visitor visit cs (fst r) else Inr (fst r))"

lemma visit_all:
  "all_committed sha spool evs st = Inr cs \<Longrightarrow>
    visit_committed_run_items sha spool visit evs st acc = run_visitor visit cs acc"
proof (induction evs arbitrary: st acc cs)
  case (Cons ev evs)
  from Cons.prems obtain r cs1 where r: "read_event sha spool ev st = Inr r" "all_committed sha spool evs (fst r) = Inr cs1"
    "cs = (case snd r of None \<Rightarrow> cs1 | Some x \<Rightarrow> x # cs1)"
    unfolding all_committed.simps bindR_Inr_iff by blast
  note IH = Cons.IH[OF r(2)]
  show ?case
  proof (cases "snd r")
    case None
    then show ?thesis using r IH by (simp add: case_prod_unfold)
  next
    case (Some x)
    then show ?thesis using r IH by (simp add: case_prod_unfold cong: if_cong)
  qed
qed simp

lemma upto_int_Suc: "[k + 1 .. k + int (Suc n)] = (k + 1) # [(k + 1) + 1 .. (k + 1) + int n]"
  using upto_rec1[of "k + 1" "k + int (Suc n)"] by (simp add: algebra_simps)

lemma read_event_sequence:
  assumes "read_event sha spool ev st = Inr (st1, c)"
  shows "case c of None \<Rightarrow> rd_last_sequence st1 = rd_last_sequence st
    | Some x \<Rightarrow> ci_sequence x = rd_last_sequence st + 1 \<and> rd_last_sequence st1 = rd_last_sequence st + 1"
proof (cases ev)
  case (Item_Committed n g order seq)
  then show ?thesis using assms
    by (auto simp: read_event_def read_committed_def bindR_Inr_iff ensureR_Inr_iff)
qed (use assms in \<open>auto simp: read_event_def read_buffered_def read_duplicate_def bindR_Inr_iff ensureR_Inr_iff\<close>)

lemma committed_sequence:
  "all_committed sha spool evs st = Inr cs \<Longrightarrow>
    map ci_sequence cs = [rd_last_sequence st + 1 .. rd_last_sequence st + int (length cs)]"
proof (induction evs arbitrary: st cs)
  case (Cons ev evs)
  from Cons.prems obtain r cs1 where r: "read_event sha spool ev st = Inr r" "all_committed sha spool evs (fst r) = Inr cs1"
    "cs = (case snd r of None \<Rightarrow> cs1 | Some x \<Rightarrow> x # cs1)"
    unfolding all_committed.simps bindR_Inr_iff by blast
  have ev: "read_event sha spool ev st = Inr (fst r, snd r)" using r(1) by simp
  show ?case
    using read_event_sequence[OF ev] Cons.IH[OF r(2)] r(3) upto_int_Suc[of "rd_last_sequence st" "length cs1"]
    by (cases "snd r") simp_all
qed simp

lemma all_items_read:
  "run_visitor (\<lambda>items c. Inr (items @ [ci_item c], True)) cs acc = Inr (acc @ map ci_item cs)"
  by (induction cs arbitrary: acc) simp_all

lemma node_items_read:
  "run_visitor (\<lambda>items c. Inr (if ci_node_id c = n then items @ [ci_item c] else items, True)) cs acc =
    Inr (acc @ map ci_item (filter (\<lambda>c. ci_node_id c = n) cs))"
  by (induction cs arbitrary: acc) simp_all

lemma page_skips:
  "map ci_sequence cs = [k + 1 .. k + int (length cs)] \<Longrightarrow>
    run_visitor (visit_page a l) cs acc = run_visitor (visit_page a l) (drop (nat (a - k)) cs) acc"
proof (induction cs arbitrary: k)
  case (Cons c cs)
  have c: "ci_sequence c = k + 1" and cs: "map ci_sequence cs = [(k + 1) + 1 .. (k + 1) + int (length cs)]"
    using Cons.prems upto_int_Suc[of k "length cs"] by simp_all
  show ?case
  proof (cases "k + 1 \<le> a")
    case True
    then have "nat (a - k) = Suc (nat (a - (k + 1)))" by simp
    then show ?thesis using True Cons.IH[OF cs] c by (simp add: visit_page_def)
  qed simp
qed simp

lemma page_takes:
  assumes "1 \<le> l" "int (length xs) \<le> l" "\<forall>c \<in> set cs. a < ci_sequence c"
  shows "run_visitor (visit_page a l) cs (xs, None) = Inr (take (nat l) (xs @ cs),
    if l < int (length xs + length cs) then Some (ci_sequence (last (take (nat l) (xs @ cs)))) else None)"
  using assms
proof (induction cs arbitrary: xs)
  case (Cons c cs)
  show ?case
  proof (cases "l \<le> int (length xs)")
    case True
    then have "nat l = length xs" "xs \<noteq> []" using Cons.prems by auto
    then show ?thesis using True Cons.prems by (simp add: visit_page_def)
  next
    case False
    then show ?thesis using Cons.IH[of "xs @ [c]"] Cons.prems by (simp add: visit_page_def)
  qed
qed simp

lemma drop_sequence:
  assumes "map ci_sequence cs = [1 .. int (length cs)]" "0 \<le> a"
  shows "\<forall>c \<in> set (drop (nat a) cs). a < ci_sequence c"
proof
  fix c assume "c \<in> set (drop (nat a) cs)"
  then obtain i where i: "i < length cs - nat a" "c = cs ! (nat a + i)" by (auto simp: in_set_conv_nth)
  have "ci_sequence c = map ci_sequence cs ! (nat a + i)" using i by simp
  also have "\<dots> = 1 + int (nat a + i)" unfolding assms(1) using i by (simp add: nth_upto)
  finally show "a < ci_sequence c" using assms(2) by simp
qed

lemma last_page_sequence:
  assumes "map ci_sequence cs = [1 .. int (length cs)]" "0 \<le> a" "1 \<le> l" "a + l < int (length cs)"
  shows "ci_sequence (last (take (nat l) (drop (nat a) cs))) = a + l"
proof -
  have "last (take (nat l) (drop (nat a) cs)) = cs ! (nat a + (nat l - 1))"
    using assms by (subst last_conv_nth) auto
  moreover have "ci_sequence (cs ! (nat a + (nat l - 1))) = map ci_sequence cs ! (nat a + (nat l - 1))"
    using assms by (subst nth_map) auto
  moreover have "map ci_sequence cs ! (nat a + (nat l - 1)) = a + l"
    unfolding assms(1) using assms by (simp add: nth_upto)
  ultimately show ?thesis by simp
qed

text \<open>
  C23: pages partition the results. When the journal of a run reads back to the items \<open>cs\<close>, a
  page after sequence number \<open>a\<close> with limit \<open>l\<close> is exactly the \<open>l\<close> items after the first \<open>a\<close>; it
  has a cursor exactly when items remain, and that cursor is \<open>a + l\<close>, so following the cursors
  visits every committed item once, in order.
\<close>

theorem pages_are_slices:
  assumes "all_committed sha spool evs new_reader = Inr cs"
    and "read_committed_run_items_page sha spool evs after limit = Inr (page, next_cursor)"
  shows "\<exists>a l. parse_integer 0 1000000000 (case after of None \<Rightarrow> JNum (NInt 0) | Some v \<Rightarrow> v) = Inr a \<and>
    parse_integer 1 100 (case limit of None \<Rightarrow> JNum (NInt 25) | Some v \<Rightarrow> v) = Inr l \<and>
    page = take (nat l) (drop (nat a) cs) \<and>
    next_cursor = (if a + l < int (length cs) then Some (a + l) else None) \<and>
    read_committed_run_items sha spool evs = Inr (map ci_item cs)"
proof -
  obtain a l where al: "parse_integer 0 1000000000 (case after of None \<Rightarrow> JNum (NInt 0) | Some v \<Rightarrow> v) = Inr a"
    "parse_integer 1 100 (case limit of None \<Rightarrow> JNum (NInt 25) | Some v \<Rightarrow> v) = Inr l"
    "visit_committed_run_items sha spool (visit_page a l) evs new_reader ([], None) = Inr (page, next_cursor)"
    using assms(2) unfolding read_committed_run_items_page_def bindR_Inr_iff by blast
  have b: "0 \<le> a" "1 \<le> l" using al(1,2) by (simp_all add: parse_integer_Inr)
  have seq: "map ci_sequence cs = [1 .. int (length cs)]"
    using committed_sequence[OF assms(1)] by (simp add: new_reader_def)
  have "run_visitor (visit_page a l) (drop (nat a) cs) ([], None) = Inr (page, next_cursor)"
    using page_skips[of cs 0 a l "([], None)"] seq al(3)[unfolded visit_all[OF assms(1)]] by simp
  moreover note page_takes[OF b(2) _ drop_sequence[OF seq b(1)], of "[]"]
  moreover have "l < int (length (drop (nat a) cs)) \<longleftrightarrow> a + l < int (length cs)" using b by (auto simp: of_nat_diff)
  moreover have "read_committed_run_items sha spool evs = Inr (map ci_item cs)"
    by (simp add: read_committed_run_items_def visit_all[OF assms(1)] all_items_read)
  ultimately show ?thesis using al(1,2) last_page_sequence[OF seq b] b by auto
qed

section \<open>Exports\<close>

lemma export_write_Inr:
  "export_write m t x = Inr y \<longleftrightarrow> y = x\<lparr>ex_text := ex_text x @ t\<rparr> \<and> int (length (ex_text x)) + int (length t) \<le> m"
  by (auto simp: export_write_def ensureR_Inr_iff)

definition exported :: "output_format \<Rightarrow> bool \<Rightarrow> string list \<Rightarrow> string" where
  "exported f first ts = (if f = Format_Json
     then (if first then join_with '','' ts else concat (map ((@) '','') ts))
     else concat (map (\<lambda>t. t @ [CHR 0x0A]) ts))"

lemma join_comma_Cons: "join_with '','' (t # ts) = t @ concat (map ((@) '','') ts)"
  by (induction ts arbitrary: t) auto

lemma export_items_text:
  assumes "run_visitor (export_item m f cols) cs x = Inr y" "0 \<le> ex_items x" "int (length (ex_text x)) \<le> m"
  shows "\<exists>ts. mapR (encode_item f cols) (map ci_item cs) = Inr ts \<and> ex_items y = ex_items x + int (length cs) \<and>
    ex_text y = ex_text x @ exported f (ex_items x = 0) ts \<and> int (length (ex_text y)) \<le> m"
  using assms
proof (induction cs arbitrary: x)
  case Nil
  then show ?case by (simp add: exported_def)
next
  case (Cons c cs)
  obtain t x1 where t: "encode_item f cols (ci_item c) = Inr t"
    "export_write m (if f = Format_Json then (if ex_items x = 0 then [] else '','') @ t else t @ [CHR 0x0A]) x = Inr x1"
    "run_visitor (export_item m f cols) cs (x1\<lparr>ex_items := ex_items x1 + 1\<rparr>) = Inr y"
  proof -
    from Cons.prems(1) obtain r where r: "export_item m f cols x c = Inr r"
      "(if snd r then run_visitor (export_item m f cols) cs (fst r) else Inr (fst r)) = Inr y"
      unfolding run_visitor.simps bindR_Inr_iff by blast
    show ?thesis using r that unfolding export_item_def bindR_Inr_iff by auto
  qed
  note x1 = t(2)[unfolded export_write_Inr]
  have "0 \<le> ex_items (x1\<lparr>ex_items := ex_items x1 + 1\<rparr>)" "int (length (ex_text (x1\<lparr>ex_items := ex_items x1 + 1\<rparr>))) \<le> m"
    using x1 Cons.prems(2) by simp_all
  from Cons.IH[OF t(3) this] obtain ts where
    "mapR (encode_item f cols) (map ci_item cs) = Inr ts" "ex_items y = ex_items x1 + 1 + int (length cs)"
    "ex_text y = ex_text x1 @ exported f (ex_items x1 + 1 = 0) ts" "int (length (ex_text y)) \<le> m" by auto
  then show ?case using t(1) x1 Cons.prems(2)
    by (auto simp: exported_def join_comma_Cons simp del: append_Cons)
qed

lemma export_text_renders:
  assumes "all_committed sha spool evs new_reader = Inr cs" "export_text sha spool evs m f cols = Inr y" "0 \<le> m"
  shows "render_output f cols (map ci_item cs) = Inr (ex_text y) \<and> int (length (ex_text y)) \<le> m \<and>
    ex_items y = int (length cs)"
proof (cases f)
  case Format_Json
  then obtain x y1 where x: "export_write m ''['' \<lparr>ex_text = [], ex_items = 0\<rparr> = Inr x"
    "run_visitor (export_item m f cols) cs x = Inr y1" "export_write m '']'' y1 = Inr y"
    using assms(2) by (auto simp: export_text_def visit_all[OF assms(1)] elim!: bindRE)
  then show ?thesis using export_items_text[OF x(2)] Format_Json
    by (auto simp: export_write_Inr render_output_def initial_prefix_def exported_def)
next
  case Format_Ndjson
  then have x: "run_visitor (export_item m f cols) cs \<lparr>ex_text = [], ex_items = 0\<rparr> = Inr y"
    using assms(2) by (auto simp: export_text_def visit_all[OF assms(1)] elim!: bindRE)
  then show ?thesis using export_items_text[OF x] assms(3) Format_Ndjson
    by (auto simp: render_output_def initial_prefix_def exported_def)
next
  case Format_Csv
  then obtain h x where x: "initial_prefix Format_Csv cols = Inr h" "export_write m h \<lparr>ex_text = [], ex_items = 0\<rparr> = Inr x"
    "run_visitor (export_item m f cols) cs x = Inr y"
    using assms(2) by (auto simp: export_text_def visit_all[OF assms(1)] elim!: bindRE)
  then show ?thesis using export_items_text[OF x(3)] Format_Csv
    by (auto simp: export_write_Inr render_output_def exported_def)
qed


section \<open>Examples\<close>

definition example_blob :: "nat \<Rightarrow> blob_ref" where
  "example_blob i = \<lparr>br_offset = int i, br_length = 1, br_sha256 = zero_sha []\<rparr>"

definition example_place :: "nat \<Rightarrow> logical_order" where
  "example_place i = \<lparr>node_ordinal = 0, page_ordinal = 0, item_ordinal = int i\<rparr>"

definition example_journal :: "journal_event list" where
  "example_journal =
    [Item_Buffered ''n'' ''a'' (example_blob 0) (example_place 0), Item_Buffered ''n'' ''b'' (example_blob 1) (example_place 1),
     Item_Committed ''n'' ''a'' (example_place 0) 1, Item_Committed ''n'' ''b'' (example_place 1) 2]"

definition example_committed :: "committed_item list" where
  "example_committed = [\<lparr>ci_item = JNum (NInt 7), ci_node_id = ''n'', ci_sequence = 1\<rparr>,
     \<lparr>ci_item = JNum (NInt 8), ci_node_id = ''n'', ci_sequence = 2\<rparr>]"

lemma example_journal_reads: "all_committed zero_sha ''78'' example_journal new_reader = Inr example_committed"
proof -
  have "(case all_committed zero_sha ''78'' example_journal new_reader of
      Inr cs \<Rightarrow> map ci_item cs = map ci_item example_committed \<and> map ci_node_id cs = [''n'', ''n''] \<and>
        map ci_sequence cs = [1, 2] | Inl _ \<Rightarrow> False)" by code_simp
  then show ?thesis
    by (auto simp: example_committed_def map_eq_Cons_conv intro: committed_item.equality split: sum.splits)
qed

theorem pages_are_slices_witness:
  "\<exists>page. read_committed_run_items_page zero_sha ''78'' example_journal None (Some (JNum (NInt 1))) = Inr (page, Some 1) \<and>
    page = take 1 example_committed"
proof -
  have "case read_committed_run_items_page zero_sha ''78'' example_journal None (Some (JNum (NInt 1))) of
      Inr _ \<Rightarrow> True | Inl _ \<Rightarrow> False" by code_simp
  then obtain page c where p: "read_committed_run_items_page zero_sha ''78'' example_journal None (Some (JNum (NInt 1))) = Inr (page, c)"
    by (auto split: sum.splits)
  show ?thesis using pages_are_slices[OF example_journal_reads p] p
    by (auto simp: parse_integer_Inr example_committed_def)
qed


end
