(* ===== verification/Spec2Isabelle.thy ===== *)
theory Spec2Isabelle
  imports Session_Proofs Recovery_Examples Scheduler_Proofs Json_Pointer Package_Version Scrape_Value Frontier
    Attempt_Order Semantic_Stop Inline_Bound Start_Url Run_Planner Output_Finalization Item_Budgets Result_Reader
begin

text \<open>
  The klura run engine: contracts, scheduler and durable run state.
\<close>

end
